(* ===== verification/Prelude.thy ===== *)
theory Prelude
  imports Complex_Main "HOL-Library.Char_ord" "HOL-Library.List_Lexorder"
begin

text \<open>
  Shared vocabulary of the development: the Python string operations the sources use, the
  exception hierarchy of \<open>scrapeforge/exceptions.py\<close> and of the sub-packages that extend it,
  the shape of a Python computation that can raise, and the generic list lemmas that several
  components need.

  A Python \<open>str\<close> is a \<open>string\<close> with one \<open>char\<close> per code point, so \<open>length\<close> is Python's \<open>len\<close>.
  A \<open>char\<close> stands for the code point that Windows-1252 gives it: the repertoire contains the
  typographic characters the sources use (the ellipsis, the em dash and the bullet), and the
  lower-case map and the white-space set below are Python's on exactly that repertoire.
\<close>

named_theorems py_defs \<open>definitions of the string operations, for evaluating closed terms\<close>

section \<open>Characters and strings\<close>

definition ellipsis_char :: char where "ellipsis_char = CHR 0x85"
definition em_dash :: char where "em_dash = CHR 0x97"
definition bullet_char :: char where "bullet_char = CHR 0x95"

abbreviation newline :: char where "newline \<equiv> CHR 0x0A"

definition is_space :: "char \<Rightarrow> bool" where
  "is_space c = (c \<in> {CHR 0x09, CHR 0x0A, CHR 0x0B, CHR 0x0C, CHR 0x0D,
     CHR 0x1C, CHR 0x1D, CHR 0x1E, CHR 0x1F, CHR 0x20, CHR 0xA0})"

definition lower_char :: "char \<Rightarrow> char" where
  "lower_char c = (let n = (of_char c :: nat) in
     if 65 \<le> n \<and> n \<le> 90 \<or> 192 \<le> n \<and> n \<le> 222 \<and> n \<noteq> 215 then char_of (n + 32)
     else if n = 138 \<or> n = 140 \<or> n = 142 then char_of (n + 16)
     else if n = 159 then char_of (255 :: nat)
     else c)"

definition lower :: "string \<Rightarrow> string" where
  "lower s = map lower_char s"

definition is_digit :: "char \<Rightarrow> bool" where
  "is_digit c = (48 \<le> (of_char c :: nat) \<and> (of_char c :: nat) \<le> 57)"

definition lstrip_by :: "(char \<Rightarrow> bool) \<Rightarrow> string \<Rightarrow> string" where
  "lstrip_by P s = dropWhile P s"

definition rstrip_by :: "(char \<Rightarrow> bool) \<Rightarrow> string \<Rightarrow> string" where
  "rstrip_by P s = rev (dropWhile P (rev s))"

definition strip_by :: "(char \<Rightarrow> bool) \<Rightarrow> string \<Rightarrow> string" where
  "strip_by P s = rstrip_by P (lstrip_by P s)"

abbreviation strip :: "string \<Rightarrow> string" where
  "strip \<equiv> strip_by is_space"

text \<open>\<open>s.split(c)\<close> for a one-character separator (empty parts are kept) and \<open>sep.join(parts)\<close>.\<close>

fun split_on :: "char \<Rightarrow> string \<Rightarrow> string list" where
  "split_on c [] = [[]]"
| "split_on c (x # xs) =
     (if x = c then [] # split_on c xs
      else case split_on c xs of [] \<Rightarrow> [[x]] | p # ps \<Rightarrow> (x # p) # ps)"

fun join :: "string \<Rightarrow> string list \<Rightarrow> string" where
  "join sep [] = []"
| "join sep [p] = p"
| "join sep (p # q # ps) = p @ sep @ join sep (q # ps)"

text \<open>\<open>s.split()\<close>: the maximal runs of characters that are not white space.\<close>

function split_ws :: "string \<Rightarrow> string list" where
  "split_ws s = (case dropWhile is_space s of
      [] \<Rightarrow> []
    | c # cs \<Rightarrow> takeWhile (Not \<circ> is_space) (c # cs)
               # split_ws (dropWhile (Not \<circ> is_space) (c # cs)))"
  by pat_completeness auto

lemma length_dropWhile_lt:
  "dropWhile P s = c # cs \<Longrightarrow> length (dropWhile (Not \<circ> P) (c # cs)) < length s"
proof -
  assume drop: "dropWhile P s = c # cs"
  then have nP: "\<not> P c" by (metis hd_dropWhile list.sel(1) list.simps(3))
  have len: "length (c # cs) \<le> length s"
    using drop by (metis length_dropWhile_le)
  have "length (dropWhile (Not \<circ> P) (c # cs)) = length (dropWhile (Not \<circ> P) cs)"
    using nP by simp
  also have "\<dots> \<le> length cs" by (rule length_dropWhile_le)
  finally show ?thesis using len by simp
qed

termination split_ws
  by (relation "measure length") (auto dest!: length_dropWhile_lt simp del: dropWhile.simps)

declare split_ws.simps [simp del]

fun starts_with :: "string \<Rightarrow> string \<Rightarrow> bool" where
  "starts_with [] s = True"
| "starts_with (p # ps) [] = False"
| "starts_with (p # ps) (c # cs) = (c = p \<and> starts_with ps cs)"

definition ends_with :: "string \<Rightarrow> string \<Rightarrow> bool" where
  "ends_with p s = starts_with (rev p) (rev s)"

fun contains :: "string \<Rightarrow> string \<Rightarrow> bool" where
  "contains p [] = (p = [])"
| "contains p (c # cs) = (starts_with p (c # cs) \<or> contains p cs)"

text \<open>The truth value of an optional string (\<open>if s:\<close>, \<open>s or t\<close>): \<open>None\<close> and \<open>""\<close> are false.\<close>

definition str_or :: "string option \<Rightarrow> string \<Rightarrow> string" where
  "str_or s t = (case s of Some (c # cs) \<Rightarrow> c # cs | _ \<Rightarrow> t)"

lemmas py_string_defs =
  is_space_def lower_char_def lower_def is_digit_def lstrip_by_def rstrip_by_def strip_by_def
  ends_with_def str_or_def

text \<open>\<open>repr(s)\<close> of a string, as \<open>f"{s!r}"\<close> writes it into an error message.\<close>

definition hex_digit :: "nat \<Rightarrow> char" where
  "hex_digit n = (if n < 10 then char_of (48 + n) else char_of (87 + n))"

definition repr_char :: "char \<Rightarrow> char \<Rightarrow> string" where
  "repr_char q c = (let n = (of_char c :: nat) in
     if c = q \<or> c = CHR 0x5C then [CHR 0x5C, c]
     else if c = CHR 0x0A then [CHR 0x5C, CHR ''n'']
     else if c = CHR 0x0D then [CHR 0x5C, CHR ''r'']
     else if c = CHR 0x09 then [CHR 0x5C, CHR ''t'']
     else if n < 32 \<or> n = 127 \<or> n = 160 \<or> n = 173
       then [CHR 0x5C, CHR ''x'', hex_digit (n div 16), hex_digit (n mod 16)]
     else [c])"

definition py_repr :: "string \<Rightarrow> string" where
  "py_repr s = (let q = (if CHR 0x27 \<in> set s \<and> CHR 0x22 \<notin> set s then CHR 0x22 else CHR 0x27)
     in q # concat (map (repr_char q) s) @ [q])"

lemma split_on_not_Nil [simp]: "split_on c s \<noteq> []"
  by (induction s) (auto split: list.splits)

lemma join_Cons: "ps \<noteq> [] \<Longrightarrow> join sep (p # ps) = p @ sep @ join sep ps"
  by (cases ps) auto

lemma join_split_on: "join [c] (split_on c s) = s"
proof (induction s)
  case (Cons x xs)
  show ?case
  proof (cases "split_on c xs")
    case (Cons p ps)
    with Cons.IH show ?thesis by (cases ps) auto
  qed simp
qed simp

lemma split_on_no_sep: "p \<in> set (split_on c s) \<Longrightarrow> c \<notin> set p"
proof (induction s arbitrary: p)
  case (Cons x xs)
  then show ?case by (cases "split_on c xs") (auto split: if_splits)
qed simp

lemma split_on_id: "c \<notin> set s \<Longrightarrow> split_on c s = [s]"
  by (induction s) auto

lemma split_on_append: "c \<notin> set p \<Longrightarrow> split_on c (p @ c # s) = p # split_on c s"
  by (induction p) auto

lemma split_on_join:
  "ps \<noteq> [] \<Longrightarrow> (\<And>p. p \<in> set ps \<Longrightarrow> c \<notin> set p) \<Longrightarrow> split_on c (join [c] ps) = ps"
proof (induction ps)
  case (Cons p ps)
  then show ?case by (cases ps) (simp_all add: split_on_id split_on_append)
qed simp

lemma starts_with_append [simp]: "starts_with p (p @ s)"
  by (induction p) auto

lemma starts_with_iff: "starts_with p s \<longleftrightarrow> (\<exists>t. s = p @ t)"
  by (induction p s rule: starts_with.induct) auto

lemma ends_with_iff: "ends_with p s \<longleftrightarrow> (\<exists>t. s = t @ p)"
proof -
  have "(\<exists>t. rev s = rev p @ t) \<longleftrightarrow> (\<exists>t. s = t @ p)"
    by (metis rev_append rev_rev_ident)
  then show ?thesis by (simp add: ends_with_def starts_with_iff)
qed

lemma contains_iff: "contains p s \<longleftrightarrow> (\<exists>u t. s = u @ p @ t)"
proof (induction p s rule: contains.induct)
  case (2 p c cs)
  show ?case
  proof
    assume "contains p (c # cs)"
    then consider "starts_with p (c # cs)" | "contains p cs" by auto
    then show "\<exists>u t. c # cs = u @ p @ t"
      by cases (metis append_Nil starts_with_iff, metis "2.IH" append_Cons)
  next
    assume "\<exists>u t. c # cs = u @ p @ t"
    then obtain u t where eq: "c # cs = u @ p @ t" by blast
    show "contains p (c # cs)"
    proof (cases u)
      case Nil
      with eq have "starts_with p (c # cs)" by (auto simp: starts_with_iff)
      then show ?thesis by simp
    next
      case (Cons d us)
      with eq have "cs = us @ p @ t" by simp
      with "2.IH" show ?thesis by auto
    qed
  qed
qed simp

lemma strip_by_ends:
  assumes eq: "strip_by P s = c # cs"
  shows "\<not> P c \<and> \<not> P (last (c # cs))"
proof
  define t where "t = dropWhile P s"
  from eq have r: "rev (c # cs) = dropWhile P (rev t)"
    by (metis strip_by_def rstrip_by_def lstrip_by_def t_def rev_rev_ident)
  then show "\<not> P (last (c # cs))"
    by (metis hd_dropWhile hd_rev list.distinct(1) rev_is_Nil_conv)
  obtain u where "rev t = u @ rev (c # cs)"
    using r by (metis takeWhile_dropWhile_id)
  then have t: "t = (c # cs) @ rev u"
    by (metis rev_append rev_rev_ident)
  then have "hd t = c" and "t \<noteq> []" by auto
  then show "\<not> P c" unfolding t_def by (metis hd_dropWhile)
qed

lemma set_strip_by: "set (strip_by P s) \<subseteq> set s"
  by (auto simp: strip_by_def rstrip_by_def lstrip_by_def dest!: set_dropWhileD)

lemma strip_by_Nil [simp]: "strip_by P [] = []"
  by (simp add: strip_by_def rstrip_by_def lstrip_by_def)

lemma strip_strip: "strip_by P (strip_by P s) = strip_by P s"
proof (cases "strip_by P s")
  case (Cons c cs)
  note ends = strip_by_ends [OF Cons]
  have "rev (c # cs) = last (c # cs) # rev (butlast (c # cs))"
    by (metis append_butlast_last_id list.distinct(1) rev.simps(2) rev_append rev_rev_ident)
  then have "dropWhile P (rev (c # cs)) = rev (c # cs)" using ends by (metis dropWhile.simps(2))
  then show ?thesis using ends Cons by (simp add: strip_by_def rstrip_by_def lstrip_by_def)
qed simp

section \<open>Exceptions\<close>

text \<open>
  The hierarchy of \<open>scrapeforge/exceptions.py\<close>, the subclasses that the queue, object-store, LLM
  and embedding packages add to it, and the built-in exceptions that the modelled code raises.
  Each constructor carries the message, which is what \<open>str(exc)\<close> returns.
\<close>

datatype exn =
    ScrapeForgeError string
  | DriverError string
  | AuthError string
  | ProxyError string
  | ChallengeError string
  | RateLimitError string
  | FingerprintError string
  | QueueError string
  | ObjectStoreError string
  | ObjectNotFound string
  | LLMError string
  | LLMRateLimitError string
  | LLMParseError string
  | EmbeddingError string
  | EmbeddingRateLimitError string
  | EmbeddingParseError string
  | ValueError string
  | KeyError string
  | TypeError string
  | AttributeError string
  | OverflowError string
  | IndexError string
  | JSONDecodeError string
  | HTTPException nat string
  | OtherError string

fun exn_str :: "exn \<Rightarrow> string" where
  "exn_str (ScrapeForgeError m) = m"
| "exn_str (DriverError m) = m"
| "exn_str (AuthError m) = m"
| "exn_str (ProxyError m) = m"
| "exn_str (ChallengeError m) = m"
| "exn_str (RateLimitError m) = m"
| "exn_str (FingerprintError m) = m"
| "exn_str (QueueError m) = m"
| "exn_str (ObjectStoreError m) = m"
| "exn_str (ObjectNotFound m) = m"
| "exn_str (LLMError m) = m"
| "exn_str (LLMRateLimitError m) = m"
| "exn_str (LLMParseError m) = m"
| "exn_str (EmbeddingError m) = m"
| "exn_str (EmbeddingRateLimitError m) = m"
| "exn_str (EmbeddingParseError m) = m"
| "exn_str (ValueError m) = m"
| "exn_str (KeyError m) = m"
| "exn_str (TypeError m) = m"
| "exn_str (AttributeError m) = m"
| "exn_str (OverflowError m) = m"
| "exn_str (IndexError m) = m"
| "exn_str (JSONDecodeError m) = m"
| "exn_str (HTTPException c m) = m"
| "exn_str (OtherError m) = m"

text \<open>\<open>isinstance(exc, ScrapeForgeError)\<close>, and the two sub-hierarchies.\<close>

fun is_scrapeforge_error :: "exn \<Rightarrow> bool" where
  "is_scrapeforge_error (ValueError m) = False"
| "is_scrapeforge_error (KeyError m) = False"
| "is_scrapeforge_error (TypeError m) = False"
| "is_scrapeforge_error (AttributeError m) = False"
| "is_scrapeforge_error (OverflowError m) = False"
| "is_scrapeforge_error (IndexError m) = False"
| "is_scrapeforge_error (JSONDecodeError m) = False"
| "is_scrapeforge_error (HTTPException c m) = False"
| "is_scrapeforge_error (OtherError m) = False"
| "is_scrapeforge_error e = True"

fun is_llm_error :: "exn \<Rightarrow> bool" where
  "is_llm_error (LLMError m) = True"
| "is_llm_error (LLMRateLimitError m) = True"
| "is_llm_error (LLMParseError m) = True"
| "is_llm_error e = False"

section \<open>Computations that may raise\<close>

text \<open>
  An effectful Python function is a function from the state to its result, \<open>Inl\<close> an exception
  or \<open>Inr\<close> a value, and the state it leaves behind: the effects made before a \<open>raise\<close> stay.
\<close>

type_synonym ('s, 'a) py = "'s \<Rightarrow> (exn + 'a) \<times> 's"

definition py_ret :: "'a \<Rightarrow> ('s, 'a) py" where
  "py_ret a s = (Inr a, s)"

definition py_raise :: "exn \<Rightarrow> ('s, 'a) py" where
  "py_raise e s = (Inl e, s)"

definition py_bind :: "('s, 'a) py \<Rightarrow> ('a \<Rightarrow> ('s, 'b) py) \<Rightarrow> ('s, 'b) py" where
  "py_bind m k s = (case m s of (Inl e, s') \<Rightarrow> (Inl e, s') | (Inr a, s') \<Rightarrow> k a s')"

definition py_catch :: "('s, 'a) py \<Rightarrow> (exn \<Rightarrow> ('s, 'a) py) \<Rightarrow> ('s, 'a) py" where
  "py_catch m h s = (case m s of (Inl e, s') \<Rightarrow> h e s' | (Inr a, s') \<Rightarrow> (Inr a, s'))"

lemmas py_monad_defs = py_ret_def py_raise_def py_bind_def py_catch_def

lemma py_bind_ret [simp]: "py_bind (py_ret a) k = k a"
  by (rule ext) (simp add: py_monad_defs)

lemma py_bind_raise [simp]: "py_bind (py_raise e) k = py_raise e"
  by (rule ext) (simp add: py_monad_defs)

lemma py_bind_assoc: "py_bind (py_bind m k) h = py_bind m (\<lambda>x. py_bind (k x) h)"
  by (rule ext) (simp add: py_monad_defs split: prod.splits sum.splits)

section \<open>Lists and maps\<close>

lemma filter_take_length_le: "length (filter P (take n xs)) \<le> n"
  by (metis length_filter_le length_take min.bounded_iff)

lemma sorted_wrt_take_drop:
  "sorted_wrt R xs \<Longrightarrow> x \<in> set (take n xs) \<Longrightarrow> y \<in> set (drop n xs) \<Longrightarrow> R x y"
  by (metis append_take_drop_id sorted_wrt_append)

lemma map_of_filter_key: "map_of (filter (\<lambda>(k, v). P k) xs) k = (if P k then map_of xs k else None)"
  by (induction xs) auto

end
