(* ===== verification/Json.thy ===== *)
theory Json
  imports Prelude "HOL-Library.AList"
begin

text \<open>
  The JSON values that messages, metadata and provider responses are made of, and the two
  functions of Python's \<open>json\<close> module that the sources call: \<open>json.dumps(d, sort_keys=True,
  ensure_ascii=False)\<close> (\<open>dumps\<close>) and \<open>json.loads\<close> (\<open>loads\<close>).  A Python \<open>dict\<close> is an association
  list without repeated keys, in insertion order; \<open>AList.update\<close> is item assignment.

  The decimal representation of a \<open>float\<close> and its reading are the arguments \<open>fr\<close> and \<open>fp\<close>: the
  messages of the pipeline hold no floats, and the round trip below is about float-free values.
  The parser takes fuel; \<open>loads\<close> gives it one unit more than the text has characters, and
  \<open>parse_value_dumps\<close> shows that no printed value needs more.
\<close>

section \<open>Values\<close>

datatype pyfloat = Fin real | PosInf | NegInf | NaN

datatype json =
    JNull
  | JBool bool
  | JInt int
  | JFloat pyfloat
  | JStr string
  | JList "json list"
  | JObj "(string \<times> json) list"

type_synonym pydict = "(string \<times> json) list"

definition dict_get :: "pydict \<Rightarrow> string \<Rightarrow> json option" where
  "dict_get d k = map_of d k"

definition dict_set :: "string \<Rightarrow> json \<Rightarrow> pydict \<Rightarrow> pydict" where
  "dict_set k v d = AList.update k v d"

definition dict_setdefault :: "string \<Rightarrow> json \<Rightarrow> pydict \<Rightarrow> pydict" where
  "dict_setdefault k v d = (case map_of d k of None \<Rightarrow> d @ [(k, v)] | Some w \<Rightarrow> d)"

definition dict_merge :: "pydict \<Rightarrow> pydict \<Rightarrow> pydict" where
  "dict_merge d e = fold (\<lambda>(k, v). AList.update k v) e d"

definition dict_of :: "pydict \<Rightarrow> pydict" where
  "dict_of kvs = dict_merge [] kvs"

text \<open>The truth value of a Python object.\<close>

fun truthy :: "json \<Rightarrow> bool" where
  "truthy JNull = False"
| "truthy (JBool b) = b"
| "truthy (JInt i) = (i \<noteq> 0)"
| "truthy (JFloat f) = (f \<noteq> Fin 0)"
| "truthy (JStr s) = (s \<noteq> [])"
| "truthy (JList xs) = (xs \<noteq> [])"
| "truthy (JObj kvs) = (kvs \<noteq> [])"

definition opt_str :: "string option \<Rightarrow> json" where
  "opt_str s = (case s of None \<Rightarrow> JNull | Some t \<Rightarrow> JStr t)"

lemma dict_get_set [simp]: "dict_get (dict_set k v d) j = (if j = k then Some v else dict_get d j)"
  by (simp add: dict_get_def dict_set_def update_conv')

lemma dict_get_merge:
  "dict_get (dict_merge d e) k = (case map_of (rev e) k of None \<Rightarrow> dict_get d k | Some v \<Rightarrow> Some v)"
proof (induction e arbitrary: d)
  case (Cons kv e)
  then show ?case
    by (cases kv) (auto simp: dict_merge_def dict_get_def update_conv' map_add_def split: option.splits)
qed (simp add: dict_merge_def dict_get_def)

lemma distinct_dict_set: "distinct (map fst d) \<Longrightarrow> distinct (map fst (dict_set k v d))"
  by (simp add: dict_set_def distinct_update)

lemma update_fresh: "k \<notin> fst ` set d \<Longrightarrow> AList.update k v d = d @ [(k, v)]"
  by (induction d) auto

lemma dict_merge_append:
  "distinct (map fst (d @ e)) \<Longrightarrow> dict_merge d e = d @ e"
proof (induction e arbitrary: d)
  case (Cons kv e)
  obtain k v where kv: "kv = (k, v)" by (cases kv)
  from Cons.prems kv have "AList.update k v d = d @ [(k, v)]"
    by (intro update_fresh) auto
  with Cons.IH [of "d @ [(k, v)]"] Cons.prems kv show ?case
    by (simp add: dict_merge_def)
qed (simp add: dict_merge_def)

lemma dict_of_distinct: "distinct (map fst kvs) \<Longrightarrow> dict_of kvs = kvs"
  by (simp add: dict_of_def dict_merge_append)

section \<open>Printing\<close>

abbreviation quote_char :: char where "quote_char \<equiv> CHR 0x22"
abbreviation backslash :: char where "backslash \<equiv> CHR 0x5C"

definition digit_char :: "nat \<Rightarrow> char" where
  "digit_char n = char_of (48 + n)"

definition hex_char :: "nat \<Rightarrow> char" where
  "hex_char n = (if n < 10 then char_of (48 + n) else char_of (87 + n))"

fun nat_str :: "nat \<Rightarrow> string" where
  "nat_str n = (if n < 10 then [digit_char n] else nat_str (n div 10) @ [digit_char (n mod 10)])"

declare nat_str.simps [simp del]

definition int_str :: "int \<Rightarrow> string" where
  "int_str i = (if i < 0 then CHR ''-'' # nat_str (nat (- i)) else nat_str (nat i))"

definition esc_char :: "char \<Rightarrow> string" where
  "esc_char c =
     (if c = quote_char then [backslash, quote_char]
      else if c = backslash then [backslash, backslash]
      else if c = CHR 0x0A then [backslash, CHR ''n'']
      else if c = CHR 0x0D then [backslash, CHR ''r'']
      else if c = CHR 0x09 then [backslash, CHR ''t'']
      else if c = CHR 0x08 then [backslash, CHR ''b'']
      else if c = CHR 0x0C then [backslash, CHR ''f'']
      else if (of_char c :: nat) < 32
        then backslash # ''u00'' @ [hex_char (of_char c div 16), hex_char (of_char c mod 16)]
      else [c])"

definition str_body :: "string \<Rightarrow> string" where
  "str_body s = concat (map esc_char s)"

definition dumps_str :: "string \<Rightarrow> string" where
  "dumps_str s = quote_char # str_body s @ [quote_char]"

fun dumps_float :: "(real \<Rightarrow> string) \<Rightarrow> pyfloat \<Rightarrow> string" where
  "dumps_float fr (Fin r) = fr r"
| "dumps_float fr PosInf = ''Infinity''"
| "dumps_float fr NegInf = ''-Infinity''"
| "dumps_float fr NaN = ''NaN''"

text \<open>\<open>sort_keys=True\<close> orders the keys of every dictionary; the printer then walks the value.\<close>

fun sort_json :: "json \<Rightarrow> json" where
  "sort_json (JList js) = JList (map sort_json js)"
| "sort_json (JObj kvs) = JObj (sort_key fst (map (\<lambda>(k, v). (k, sort_json v)) kvs))"
| "sort_json j = j"

fun dumps_raw :: "(real \<Rightarrow> string) \<Rightarrow> json \<Rightarrow> string" where
  "dumps_raw fr JNull = ''null''"
| "dumps_raw fr (JBool b) = (if b then ''true'' else ''false'')"
| "dumps_raw fr (JInt i) = int_str i"
| "dumps_raw fr (JFloat f) = dumps_float fr f"
| "dumps_raw fr (JStr s) = dumps_str s"
| "dumps_raw fr (JList js) = CHR ''['' # join '', '' (map (dumps_raw fr) js) @ '']''"
| "dumps_raw fr (JObj kvs) =
     CHR ''{'' # join '', '' (map (\<lambda>(k, v). dumps_str k @ '': '' @ dumps_raw fr v) kvs) @ ''}''"

definition dumps :: "(real \<Rightarrow> string) \<Rightarrow> json \<Rightarrow> string" where
  "dumps fr j = dumps_raw fr (sort_json j)"

text \<open>
  \<open>json.dumps(d)\<close> as called without options: keys in insertion order, and every character outside
  printable ASCII written as the escape of its code point (all of them lie inside strings).
\<close>

definition cp1252_upper :: "nat list" where
  "cp1252_upper = [0x20AC, 0x81, 0x201A, 0x0192, 0x201E, 0x2026, 0x2020, 0x2021, 0x02C6, 0x2030, 0x0160, 0x2039,
     0x0152, 0x8D, 0x017D, 0x8F, 0x90, 0x2018, 0x2019, 0x201C, 0x201D, 0x2022, 0x2013, 0x2014, 0x02DC, 0x2122,
     0x0161, 0x203A, 0x0153, 0x9D, 0x017E, 0x0178]"

definition code_point :: "char \<Rightarrow> nat" where
  "code_point c = (let n = of_char c in if 128 \<le> n \<and> n < 160 then cp1252_upper ! (n - 128) else n)"

definition ascii_escape :: "char \<Rightarrow> string" where
  "ascii_escape c = (if (of_char c :: nat) < 127 then [c]
     else (let n = code_point c in [backslash, CHR ''u'', hex_char (n div 4096), hex_char (n div 256 mod 16),
       hex_char (n div 16 mod 16), hex_char (n mod 16)]))"

definition dumps_ascii :: "(real \<Rightarrow> string) \<Rightarrow> json \<Rightarrow> string" where
  "dumps_ascii fr j = concat (map ascii_escape (dumps_raw fr j))"

section \<open>Parsing\<close>

definition json_ws :: "char \<Rightarrow> bool" where
  "json_ws c = (c \<in> {CHR 0x20, CHR 0x09, CHR 0x0A, CHR 0x0D})"

abbreviation skip_ws :: "string \<Rightarrow> string" where
  "skip_ws \<equiv> dropWhile json_ws"

definition digit_val :: "char \<Rightarrow> nat" where
  "digit_val c = of_char c - 48"

definition nat_of_digits :: "string \<Rightarrow> nat" where
  "nat_of_digits s = foldl (\<lambda>a c. 10 * a + digit_val c) 0 s"

definition hex_val :: "char \<Rightarrow> nat option" where
  "hex_val c = (let n = (of_char c :: nat) in
     if 48 \<le> n \<and> n \<le> 57 then Some (n - 48)
     else if 97 \<le> n \<and> n \<le> 102 then Some (n - 87)
     else if 65 \<le> n \<and> n \<le> 70 then Some (n - 55)
     else None)"

text \<open>
  The string scanner.  A control character inside a string is an error, as \<open>strict=True\<close> makes it;
  a \<open>\\u\<close> escape is read when its code point is in the repertoire of \<open>char\<close> at the same position
  (below 128 and from 160 to 255).
\<close>

definition char_of_escape :: "nat \<Rightarrow> char option" where
  "char_of_escape n = (if n < 128 \<or> 160 \<le> n \<and> n < 256 then Some (char_of n) else None)"

definition simple_escape :: "char \<Rightarrow> char option" where
  "simple_escape c =
     (if c = quote_char then Some quote_char
      else if c = backslash then Some backslash
      else if c = CHR ''/'' then Some (CHR ''/'')
      else if c = CHR ''b'' then Some (CHR 0x08)
      else if c = CHR ''f'' then Some (CHR 0x0C)
      else if c = CHR ''n'' then Some (CHR 0x0A)
      else if c = CHR ''r'' then Some (CHR 0x0D)
      else if c = CHR ''t'' then Some (CHR 0x09)
      else None)"

definition hex4 :: "char \<Rightarrow> char \<Rightarrow> char \<Rightarrow> char \<Rightarrow> char option" where
  "hex4 a b c d =
     (case (hex_val a, hex_val b, hex_val c, hex_val d) of
        (Some w, Some x, Some y, Some z) \<Rightarrow> char_of_escape (4096 * w + 256 * x + 16 * y + z)
      | _ \<Rightarrow> None)"

definition cons_fst :: "'a \<Rightarrow> ('a list \<times> 'b) option \<Rightarrow> ('a list \<times> 'b) option" where
  "cons_fst c r = map_option (\<lambda>(t, rest). (c # t, rest)) r"

fun parse_str :: "string \<Rightarrow> (string \<times> string) option" where
  "parse_str [] = None"
| "parse_str (c # s) =
     (if c = quote_char then Some ([], s)
      else if c \<noteq> backslash then
        (if (of_char c :: nat) < 32 then None else cons_fst c (parse_str s))
      else (case s of
          [] \<Rightarrow> None
        | e # s1 \<Rightarrow>
            (if e = CHR ''u'' then
               (case s1 of
                  h1 # h2 # h3 # h4 # s2 \<Rightarrow>
                    (case hex4 h1 h2 h3 h4 of
                       None \<Rightarrow> None
                     | Some d \<Rightarrow> cons_fst d (parse_str s2))
                | _ \<Rightarrow> None)
             else (case simple_escape e of
                 None \<Rightarrow> None
               | Some d \<Rightarrow> cons_fst d (parse_str s1)))))"

definition parse_frac :: "string \<Rightarrow> string \<times> string" where
  "parse_frac s =
     (case s of
        c # cs \<Rightarrow>
          (if c = CHR ''.'' \<and> takeWhile is_digit cs \<noteq> []
           then (c # takeWhile is_digit cs, dropWhile is_digit cs) else ([], s))
      | [] \<Rightarrow> ([], s))"

definition parse_exp :: "string \<Rightarrow> string \<times> string" where
  "parse_exp s =
     (case s of
        e # cs \<Rightarrow>
          (if e = CHR ''e'' \<or> e = CHR ''E'' then
             (let (sg, ds) = (case cs of
                  x # xs \<Rightarrow> if x = CHR ''+'' \<or> x = CHR ''-'' then ([x], xs) else ([], cs)
                | [] \<Rightarrow> ([], cs))
              in if takeWhile is_digit ds \<noteq> []
                 then (e # sg @ takeWhile is_digit ds, dropWhile is_digit ds) else ([], s))
           else ([], s))
      | [] \<Rightarrow> ([], s))"

text \<open>The integer part is \<open>0\<close> or starts with a non-zero digit.\<close>

definition int_part :: "string \<Rightarrow> string \<times> string" where
  "int_part s =
     (case s of
        c # cs \<Rightarrow> if c = CHR ''0'' then ([c], cs) else (takeWhile is_digit s, dropWhile is_digit s)
      | [] \<Rightarrow> ([], []))"

definition parse_number :: "(string \<Rightarrow> pyfloat) \<Rightarrow> string \<Rightarrow> (json \<times> string) option" where
  "parse_number fp s =
     (let (neg, s0) = (case s of c # cs \<Rightarrow> if c = CHR ''-'' then (True, cs) else (False, s)
                               | [] \<Rightarrow> (False, s));
          (ip, s1) = int_part s0;
          (fr, s2) = parse_frac s1;
          (ex, s3) = parse_exp s2
      in if ip = [] then None
         else if fr = [] \<and> ex = [] then
           Some (JInt (if neg then - int (nat_of_digits ip) else int (nat_of_digits ip)), s1)
         else Some (JFloat (fp ((if neg then ''-'' else []) @ ip @ fr @ ex)), s3))"

fun parse_value :: "(string \<Rightarrow> pyfloat) \<Rightarrow> nat \<Rightarrow> string \<Rightarrow> (json \<times> string) option"
and parse_elems :: "(string \<Rightarrow> pyfloat) \<Rightarrow> nat \<Rightarrow> string \<Rightarrow> (json list \<times> string) option"
and parse_members :: "(string \<Rightarrow> pyfloat) \<Rightarrow> nat \<Rightarrow> string \<Rightarrow> (pydict \<times> string) option"
where
  "parse_value fp 0 s = None"
| "parse_value fp (Suc n) [] = None"
| "parse_value fp (Suc n) (c # s) =
     (if c = quote_char then map_option (\<lambda>(t, r). (JStr t, r)) (parse_str s)
      else if c = CHR ''{'' then
        (case skip_ws s of
           [] \<Rightarrow> None
         | d # r \<Rightarrow> if d = CHR ''}'' then Some (JObj [], r)
             else map_option (\<lambda>(kvs, r). (JObj (dict_of kvs), r)) (parse_members fp n (d # r)))
      else if c = CHR ''['' then
        (case skip_ws s of
           [] \<Rightarrow> None
         | d # r \<Rightarrow> if d = CHR '']'' then Some (JList [], r)
             else map_option (\<lambda>(vs, r). (JList vs, r)) (parse_elems fp n (d # r)))
      else if starts_with ''null'' (c # s) then Some (JNull, drop 3 s)
      else if starts_with ''true'' (c # s) then Some (JBool True, drop 3 s)
      else if starts_with ''false'' (c # s) then Some (JBool False, drop 4 s)
      else if starts_with ''NaN'' (c # s) then Some (JFloat NaN, drop 2 s)
      else if starts_with ''Infinity'' (c # s) then Some (JFloat PosInf, drop 7 s)
      else if starts_with ''-Infinity'' (c # s) then Some (JFloat NegInf, drop 8 s)
      else parse_number fp (c # s))"
| "parse_elems fp 0 s = None"
| "parse_elems fp (Suc n) s =
     (case parse_value fp n s of
        None \<Rightarrow> None
      | Some (v, r) \<Rightarrow>
          (case skip_ws r of
             [] \<Rightarrow> None
           | d # r1 \<Rightarrow>
               if d = CHR '']'' then Some ([v], r1)
               else if d = CHR '','' then cons_fst v (parse_elems fp n (skip_ws r1))
               else None))"
| "parse_members fp 0 s = None"
| "parse_members fp (Suc n) [] = None"
| "parse_members fp (Suc n) (c # s) =
     (if c \<noteq> quote_char then None
      else case parse_str s of
        None \<Rightarrow> None
      | Some (k, r) \<Rightarrow>
          (case skip_ws r of
             [] \<Rightarrow> None
           | d # r1 \<Rightarrow>
               if d \<noteq> CHR '':'' then None
               else (case parse_value fp n (skip_ws r1) of
                   None \<Rightarrow> None
                 | Some (v, r2) \<Rightarrow>
                     (case skip_ws r2 of
                        [] \<Rightarrow> None
                      | e # r3 \<Rightarrow>
                          if e = CHR ''}'' then Some ([(k, v)], r3)
                          else if e = CHR '','' then cons_fst (k, v) (parse_members fp n (skip_ws r3))
                          else None))))"

text \<open>\<open>json.loads\<close>: \<open>None\<close> is a \<open>JSONDecodeError\<close>.\<close>

definition loads :: "(string \<Rightarrow> pyfloat) \<Rightarrow> string \<Rightarrow> json option" where
  "loads fp s =
     (case parse_value fp (Suc (length s)) (skip_ws s) of
        None \<Rightarrow> None
      | Some (j, r) \<Rightarrow> if skip_ws r = [] then Some j else None)"

section \<open>Round trip\<close>

lemma of_char_digit_char: "n < 10 \<Longrightarrow> of_char (digit_char n) = 48 + n"
  by (simp add: digit_char_def)

lemma is_digit_digit_char [simp]: "n < 10 \<Longrightarrow> is_digit (digit_char n)"
  by (simp add: is_digit_def of_char_digit_char)

lemma digit_val_digit_char [simp]: "n < 10 \<Longrightarrow> digit_val (digit_char n) = n"
  by (simp add: digit_val_def of_char_digit_char)

lemma nat_str_digits: "c \<in> set (nat_str n) \<Longrightarrow> is_digit c"
proof (induction n rule: nat_str.induct)
  case (1 n)
  then show ?case by (cases "n < 10") (auto simp: nat_str.simps [of n])
qed

lemma nat_str_not_Nil [simp]: "nat_str n \<noteq> []"
  by (subst nat_str.simps) simp

lemma nat_of_digits_snoc: "nat_of_digits (s @ [c]) = 10 * nat_of_digits s + digit_val c"
  by (simp add: nat_of_digits_def)

lemma nat_of_digits_nat_str [simp]: "nat_of_digits (nat_str n) = n"
proof (induction n rule: nat_str.induct)
  case (1 n)
  show ?case
  proof (cases "n < 10")
    case True
    then show ?thesis by (simp add: nat_str.simps [of n] nat_of_digits_def)
  next
    case False
    with 1 show ?thesis by (simp add: nat_str.simps [of n] nat_of_digits_snoc)
  qed
qed

lemma char_zero: "(CHR ''0'') = digit_char 0"
  by code_simp

lemma digit_char_eq_zero: "n < 10 \<Longrightarrow> digit_char n = CHR ''0'' \<longleftrightarrow> n = 0"
  by (metis char_zero digit_val_digit_char zero_less_numeral)

lemma nat_str_head_zero: "nat_str n = CHR ''0'' # s \<Longrightarrow> n = 0 \<and> s = []"
proof (induction n arbitrary: s rule: nat_str.induct)
  case (1 n)
  show ?case
  proof (cases "n < 10")
    case True
    with "1.prems" show ?thesis by (auto simp: nat_str.simps [of n] digit_char_eq_zero)
  next
    case False
    with "1.prems" obtain t where "nat_str (n div 10) = CHR ''0'' # t"
      by (cases "nat_str (n div 10)") (auto simp: nat_str.simps [of n])
    with "1.IH" False have "n div 10 = 0" by blast
    with False show ?thesis by simp
  qed
qed

definition number_end :: "string \<Rightarrow> bool" where
  "number_end r = (case r of [] \<Rightarrow> True
     | c # cs \<Rightarrow> \<not> is_digit c \<and> c \<noteq> CHR ''.'' \<and> c \<noteq> CHR ''e'' \<and> c \<noteq> CHR ''E'')"

lemma int_part_nat_str: "number_end r \<Longrightarrow> int_part (nat_str n @ r) = (nat_str n, r)"
proof -
  assume r: "number_end r"
  have tk: "takeWhile is_digit (nat_str n @ r) = nat_str n" and
       dr: "dropWhile is_digit (nat_str n @ r) = r"
    using r nat_str_digits [of _ n]
    by (auto simp: takeWhile_append dropWhile_append number_end_def split: list.splits)
  obtain c cs where cs: "nat_str n = c # cs" by (cases "nat_str n") auto
  show ?thesis
  proof (cases "c = CHR ''0''")
    case True
    with cs nat_str_head_zero [of n cs] show ?thesis by (simp add: int_part_def)
  next
    case False
    with cs tk dr show ?thesis by (simp add: int_part_def)
  qed
qed

lemma parse_frac_end: "number_end r \<Longrightarrow> parse_frac r = ([], r)"
  by (auto simp: parse_frac_def number_end_def split: list.splits)

lemma parse_exp_end: "number_end r \<Longrightarrow> parse_exp r = ([], r)"
  by (auto simp: parse_exp_def number_end_def split: list.splits)

lemma is_digit_not_minus: "is_digit c \<Longrightarrow> c \<noteq> CHR ''-''"
  by (auto simp: is_digit_def)

lemma parse_number_nat: 
  "number_end r \<Longrightarrow> parse_number fp (nat_str n @ r) = Some (JInt (int n), r)"
proof -
  assume r: "number_end r"
  obtain c cs where cs: "nat_str n = c # cs" by (cases "nat_str n") auto
  then have "c \<noteq> CHR ''-''"
    using nat_str_digits [of c n] is_digit_not_minus by auto
  with cs have "(case nat_str n @ r of c # cs \<Rightarrow> if c = CHR ''-'' then (True, cs) else (False, nat_str n @ r)
      | [] \<Rightarrow> (False, nat_str n @ r)) = (False, nat_str n @ r)"
    by simp
  with r show ?thesis
    by (simp add: parse_number_def int_part_nat_str parse_frac_end parse_exp_end)
qed

lemma parse_number_int_str:
  "number_end r \<Longrightarrow> parse_number fp (int_str i @ r) = Some (JInt i, r)"
  by (cases "i < 0")
    (simp_all add: int_str_def parse_number_nat,
     simp add: parse_number_def int_part_nat_str parse_frac_end parse_exp_end)

lemma hex_val_hex_char [simp]: "k < 16 \<Longrightarrow> hex_val (hex_char k) = Some k"
  by (auto simp: hex_val_def hex_char_def Let_def)

lemma hex_val_zero [simp]: "hex_val (CHR ''0'') = Some 0"
  by (simp add: hex_val_def)

lemma parse_str_esc: "parse_str (esc_char c @ t) = cons_fst c (parse_str t)"
proof -
  consider "c \<in> {quote_char, backslash, CHR 0x0A, CHR 0x0D, CHR 0x09, CHR 0x08, CHR 0x0C}"
    | "c \<notin> {quote_char, backslash, CHR 0x0A, CHR 0x0D, CHR 0x09, CHR 0x08, CHR 0x0C}" "(of_char c :: nat) < 32"
    | "c \<notin> {quote_char, backslash, CHR 0x0A, CHR 0x0D, CHR 0x09, CHR 0x08, CHR 0x0C}" "\<not> (of_char c :: nat) < 32"
    by blast
  then show ?thesis
  proof cases
    case 1
    then show ?thesis by (auto simp: esc_char_def simple_escape_def)
  next
    case 2
    then have "hex4 (CHR ''0'') (CHR ''0'') (hex_char (of_char c div 16)) (hex_char (of_char c mod 16)) = Some c"
      by (simp add: hex4_def char_of_escape_def)
    with 2 show ?thesis by (simp add: esc_char_def)
  next
    case 3
    then show ?thesis by (simp add: esc_char_def)
  qed
qed

lemma parse_str_body: "parse_str (str_body s @ quote_char # r) = Some (s, r)"
  by (induction s) (simp_all add: str_body_def parse_str_esc cons_fst_def)

text \<open>
  The values the messages hold: no floats, and no repeated key in any dictionary.
\<close>

fun json_ok :: "json \<Rightarrow> bool" where
  "json_ok (JFloat f) = False"
| "json_ok (JList js) = list_all json_ok js"
| "json_ok (JObj kvs) = (distinct (map fst kvs) \<and> list_all (\<lambda>(k, v). json_ok v) kvs)"
| "json_ok j = True"

definition value_start :: "string \<Rightarrow> bool" where
  "value_start s = (case s of [] \<Rightarrow> False
     | c # cs \<Rightarrow> \<not> json_ws c \<and> c \<noteq> CHR '']'' \<and> c \<noteq> CHR ''}'')"

lemma digit_start: "is_digit c \<Longrightarrow> \<not> json_ws c \<and> c \<noteq> CHR '']'' \<and> c \<noteq> CHR ''}'' \<and> c \<noteq> quote_char
   \<and> c \<noteq> CHR ''{'' \<and> c \<noteq> CHR ''['' \<and> c \<noteq> CHR ''n'' \<and> c \<noteq> CHR ''t'' \<and> c \<noteq> CHR ''f'' \<and> c \<noteq> CHR ''N''
   \<and> c \<noteq> CHR ''I'' \<and> c \<noteq> CHR ''-''"
  by (auto simp: is_digit_def json_ws_def)

lemma int_str_start: "\<exists>c cs. int_str i = c # cs \<and> (is_digit c \<or> c = CHR ''-'' \<and> (\<exists>d ds. cs = d # ds \<and> is_digit d))"
proof -
  obtain c cs where cs: "nat_str (nat i) = c # cs" by (cases "nat_str (nat i)") auto
  obtain d ds where ds: "nat_str (nat (- i)) = d # ds" by (cases "nat_str (nat (- i))") auto
  from cs ds nat_str_digits [of c "nat i"] nat_str_digits [of d "nat (- i)"] show ?thesis
    by (auto simp: int_str_def)
qed

lemma value_start_dumps: "json_ok j \<Longrightarrow> value_start (dumps_raw fr j)"
proof (cases j)
  case (JInt i)
  then show ?thesis using int_str_start [of i] digit_start
    by (auto simp: value_start_def json_ws_def)
qed (auto simp: value_start_def json_ws_def dumps_str_def)

lemma skip_ws_value: "value_start (s @ r) \<Longrightarrow> skip_ws (s @ r) = s @ r"
  by (cases "s @ r") (auto simp: value_start_def)

lemma value_start_append: "value_start s \<Longrightarrow> value_start (s @ r)"
  by (cases s) (auto simp: value_start_def)

lemma parse_value_int:
  "number_end r \<Longrightarrow> parse_value fp (Suc n) (int_str i @ r) = Some (JInt i, r)"
proof -
  assume r: "number_end r"
  obtain c cs where cs: "int_str i = c # cs"
    and c: "is_digit c \<or> c = CHR ''-'' \<and> (\<exists>d ds. cs = d # ds \<and> is_digit d)"
    using int_str_start [of i] by blast
  have "parse_value fp (Suc n) (c # cs @ r) = parse_number fp (c # cs @ r)"
  proof (cases "is_digit c")
    case True
    note digit_start [OF this]
    then show ?thesis by simp
  next
    case False
    with c obtain d ds where d: "c = CHR ''-''" "cs = d # ds" "is_digit d" by blast
    note digit_start [OF d(3)]
    with d(1,2) show ?thesis by simp
  qed
  with cs parse_number_int_str [OF r, of fp i] show ?thesis by simp
qed

lemma parse_elems_dumps:
  assumes "js \<noteq> []" and "list_all json_ok js"
    and "\<And>j n r. j \<in> set js \<Longrightarrow> length (dumps_raw fr j) \<le> n \<Longrightarrow> number_end r \<Longrightarrow>
           parse_value fp n (dumps_raw fr j @ r) = Some (j, r)"
    and "length (join '', '' (map (dumps_raw fr) js)) < n"
  shows "parse_elems fp n (join '', '' (map (dumps_raw fr) js) @ CHR '']'' # r) = Some (js, r)"
  using assms
proof (induction js arbitrary: n)
  case (Cons j js)
  then obtain m where n: "n = Suc m" by (cases n) auto
  show ?case
  proof (cases js)
    case Nil
    with Cons.prems n have "parse_value fp m (dumps_raw fr j @ CHR '']'' # r) = Some (j, CHR '']'' # r)"
      by (simp add: number_end_def is_digit_def)
    with Nil n show ?thesis by (simp add: json_ws_def)
  next
    case (Cons k ks)
    let ?rest = "join '', '' (map (dumps_raw fr) js) @ CHR '']'' # r"
    have vs: "value_start ?rest"
      using Cons.prems(2) value_start_dumps [of k fr] Cons
      by (cases ks) (auto simp: value_start_append)
    have len: "length (dumps_raw fr j) \<le> m" "length (join '', '' (map (dumps_raw fr) js)) < m"
      using Cons.prems(4) n Cons by auto
    have "parse_value fp m (dumps_raw fr j @ '', '' @ ?rest) = Some (j, '', '' @ ?rest)"
      using Cons.prems(3) len(1) by (simp add: number_end_def is_digit_def)
    moreover have "parse_elems fp m ?rest = Some (js, r)"
      using Cons.IH [of m] Cons.prems Cons len(2) by simp
    moreover have "skip_ws ('' '' @ ?rest) = ?rest"
      using vs by (cases ?rest) (auto simp: value_start_def json_ws_def)
    ultimately show ?thesis
      using n Cons by (simp add: json_ws_def cons_fst_def)
  qed
qed simp


abbreviation dumps_member :: "(real \<Rightarrow> string) \<Rightarrow> string \<times> json \<Rightarrow> string" where
  "dumps_member fr \<equiv> (\<lambda>(k, v). dumps_str k @ '': '' @ dumps_raw fr v)"

lemma parse_member_str:
  "parse_str (str_body k @ quote_char # '': '' @ t) = Some (k, '': '' @ t)"
  by (rule parse_str_body)

lemma parse_members_dumps:
  assumes "kvs \<noteq> []" and "list_all (\<lambda>(k, v). json_ok v) kvs"
    and "\<And>k v n r. (k, v) \<in> set kvs \<Longrightarrow> length (dumps_raw fr v) \<le> n \<Longrightarrow> number_end r \<Longrightarrow>
           parse_value fp n (dumps_raw fr v @ r) = Some (v, r)"
    and "length (join '', '' (map (dumps_member fr) kvs)) < n"
  shows "parse_members fp n (join '', '' (map (dumps_member fr) kvs) @ CHR ''}'' # r) = Some (kvs, r)"
  using assms
proof (induction kvs arbitrary: n)
  case (Cons kv kvs)
  obtain k v where kv: "kv = (k, v)" by (cases kv)
  from Cons.prems obtain m where n: "n = Suc m" by (cases n) auto
  have vs: "skip_ws ('' '' @ dumps_raw fr v @ t) = dumps_raw fr v @ t" for t
    using value_start_dumps [of v fr] Cons.prems(2) kv
    by (cases "dumps_raw fr v") (auto simp: value_start_def json_ws_def)
  show ?case
  proof (cases kvs)
    case Nil
    with Cons.prems n kv have "parse_value fp m (dumps_raw fr v @ CHR ''}'' # r) = Some (v, CHR ''}'' # r)"
      by (simp add: number_end_def is_digit_def dumps_str_def)
    with Nil n kv vs [of "CHR ''}'' # r"] show ?thesis
      by (simp add: json_ws_def dumps_str_def parse_str_body)
  next
    case (Cons kv2 ks)
    let ?rest = "join '', '' (map (dumps_member fr) kvs) @ CHR ''}'' # r"
    have ws: "skip_ws ('' '' @ ?rest) = ?rest"
      using Cons by (cases ks) (auto simp: json_ws_def dumps_str_def split: prod.splits)
    have len: "length (dumps_raw fr v) \<le> m" "length (join '', '' (map (dumps_member fr) kvs)) < m"
      using Cons.prems(4) n Cons kv by (auto simp: dumps_str_def)
    have pv: "parse_value fp m (dumps_raw fr v @ '', '' @ ?rest) = Some (v, '', '' @ ?rest)"
      using Cons.prems(3) [of k v m] len(1) kv by (simp add: number_end_def is_digit_def)
    have pm: "parse_members fp m ?rest = Some (kvs, r)"
    proof (rule Cons.IH)
      show "kvs \<noteq> []" using Cons by simp
      show "list_all (\<lambda>(k, v). json_ok v) kvs" using Cons.prems(2) by simp
      show "parse_value fp n' (dumps_raw fr v' @ r') = Some (v', r')"
        if "(k', v') \<in> set kvs" "length (dumps_raw fr v') \<le> n'" "number_end r'" for k' v' n' r'
        using that by (intro Cons.prems(3) [of k']) auto
      show "length (join '', '' (map (dumps_member fr) kvs)) < m" by (rule len(2))
    qed
    have "join '', '' (map (dumps_member fr) (kv # kvs)) @ CHR ''}'' # r =
        quote_char # str_body k @ quote_char # '': '' @ dumps_raw fr v @ '', '' @ ?rest"
      using Cons kv by (simp add: dumps_str_def)
    then show ?thesis
      using n kv pv pm ws vs [of "'', '' @ ?rest"]
      by (simp add: parse_str_body json_ws_def cons_fst_def)
  qed
qed simp

theorem parse_value_dumps:
  "json_ok j \<Longrightarrow> length (dumps_raw fr j) \<le> n \<Longrightarrow> number_end r \<Longrightarrow>
     parse_value fp n (dumps_raw fr j @ r) = Some (j, r)"
proof (induction j arbitrary: n r)
  case JNull
  then show ?case by (cases n) auto
next
  case (JBool b)
  then show ?case by (cases n) (auto split: if_splits)
next
  case (JInt i)
  with int_str_start [of i] obtain m where "n = Suc m" by (cases n) auto
  with JInt show ?case by (simp add: parse_value_int)
next
  case (JStr s)
  then show ?case by (cases n) (auto simp: dumps_str_def parse_str_body)
next
  case (JList js)
  then obtain m where n: "n = Suc m" by (cases n) auto
  show ?case
  proof (cases "js = []")
    case True
    with n show ?thesis by (simp add: json_ws_def)
  next
    case False
    let ?t = "join '', '' (map (dumps_raw fr) js) @ CHR '']'' # r"
    have "parse_elems fp m ?t = Some (js, r)"
      using False JList n by (intro parse_elems_dumps) (auto simp: list_all_iff)
    moreover have "value_start ?t"
      using False JList.prems(1) value_start_dumps [of "hd js" fr]
      by (cases js; cases "tl js") (auto simp: value_start_append)
    ultimately show ?thesis
      using n by (cases ?t) (auto simp: value_start_def)
  qed
next
  case (JObj kvs)
  then obtain m where n: "n = Suc m" by (cases n) auto
  show ?case
  proof (cases "kvs = []")
    case True
    with n show ?thesis by (simp add: json_ws_def)
  next
    case False
    let ?t = "join '', '' (map (dumps_member fr) kvs) @ CHR ''}'' # r"
    have "parse_members fp m ?t = Some (kvs, r)"
    proof (rule parse_members_dumps)
      fix k v n' r'
      assume "(k, v) \<in> set kvs" "length (dumps_raw fr v) \<le> n'" "number_end r'"
      with JObj.IH [of "(k, v)" v n' r'] JObj.prems(1)
      show "parse_value fp n' (dumps_raw fr v @ r') = Some (v, r')"
        by (auto simp: list_all_iff)
    qed (use False JObj.prems n in auto)
    moreover have "\<exists>u. ?t = quote_char # u"
      using False by (cases kvs; cases "tl kvs") (auto simp: dumps_str_def)
    moreover have "dict_of kvs = kvs"
      using JObj.prems(1) by (simp add: dict_of_distinct)
    ultimately show ?thesis
      using n by (auto simp: json_ws_def)
  qed
qed simp

lemma sort_key_fst_id: "sorted (map fst kvs) \<Longrightarrow> sort_key fst kvs = kvs"
  by (simp add: sort_key_id_if_sorted)

lemma json_ok_sort: "json_ok j \<Longrightarrow> json_ok (sort_json j)"
proof (induction j)
  case (JObj kvs)
  then have "distinct (map fst (map (\<lambda>(k, v). (k, sort_json v)) kvs))"
    by (simp add: case_prod_unfold comp_def)
  then have "distinct (map fst (sort_key fst (map (\<lambda>(k, v). (k, sort_json v)) kvs)))"
    by (simp only: distinct_map distinct_sort set_sort)
  with JObj show ?case by (auto simp: list_all_iff)
qed (auto simp: list_all_iff)

theorem loads_dumps:
  assumes "json_ok j"
  shows "loads fp (dumps fr j) = Some (sort_json j)"
proof -
  let ?s = "dumps_raw fr (sort_json j)"
  have ok: "json_ok (sort_json j)" using assms by (rule json_ok_sort)
  have "skip_ws ?s = ?s"
    using skip_ws_value [of ?s "[]"] value_start_dumps [OF ok] by (simp add: value_start_append)
  moreover have "parse_value fp (Suc (length ?s)) (?s @ []) = Some (sort_json j, [])"
    using ok by (intro parse_value_dumps) (auto simp: number_end_def)
  ultimately show ?thesis by (simp add: loads_def dumps_def)
qed

lemma sort_json_idem: "sort_json (sort_json j) = sort_json j"
proof (induction j)
  case (JObj kvs)
  let ?f = "\<lambda>(k, v). (k, sort_json v)"
  have *: "map ?f (sort_key fst (map ?f kvs)) = sort_key fst (map ?f kvs)"
    using JObj by (intro map_idI) auto
  show ?case by (simp add: * sort_key_fst_id)
qed simp_all

corollary dumps_loads_dumps:
  "json_ok j \<Longrightarrow> map_option (dumps fr) (loads fp (dumps fr j)) = Some (dumps fr j)"
  by (simp add: loads_dumps) (simp add: dumps_def sort_json_idem)

end
