(* ===== verification/Queue.thy ===== *)
theory Queue
  imports Json
begin

text \<open>
  The message-queue port (\<open>core/queue/base.py\<close>) and its in-memory implementation
  (\<open>core/queue/memory.py\<close>).

  \<open>aqueue\<close> is the abstract queue the port promises: waiting messages per queue in FIFO order, the
  messages in flight, and the dead letters.  The locale \<open>message_queue\<close> is the port: an
  implementation is a state with the six operations (\<open>mq_ops\<close>), an invariant, and an abstraction
  under which every operation does what its abstract counterpart does.  The drain loop and the
  retry discipline of \<open>consume_once\<close> are verified once, inside the locale; \<open>RedisQueue\<close> is a
  second interpretation (theory \<open>Redis_Queue\<close>).

  The ids \<open>uuid.uuid4()\<close> returns are a field of the state, the sequence of values still to be
  drawn; the invariant says that they are new.
\<close>

section \<open>Messages and operations\<close>

record message =
  m_id :: string
  m_queue :: string
  m_payload :: pydict
  m_attempts :: int

definition bump :: "message \<Rightarrow> message" where
  "bump m = m\<lparr>m_attempts := m_attempts m + 1\<rparr>"

record 's mq_ops =
  op_publish :: "string \<Rightarrow> pydict \<Rightarrow> ('s, string) py"
  op_reserve :: "string \<Rightarrow> ('s, message option) py"
  op_ack :: "message \<Rightarrow> ('s, unit) py"
  op_requeue :: "message \<Rightarrow> ('s, unit) py"
  op_dead_letter :: "message \<Rightarrow> string \<Rightarrow> ('s, unit) py"
  op_size :: "string \<Rightarrow> ('s, nat) py"

text \<open>
  \<open>consume_once\<close>: reserve one message, run the handler, and acknowledge, requeue or dead-letter.
  Only an exception of the handler is caught.
\<close>

definition consume_once ::
  "'s mq_ops \<Rightarrow> string \<Rightarrow> (pydict \<Rightarrow> ('s, 'a) py) \<Rightarrow> int \<Rightarrow> ('s, bool) py" where
  "consume_once ops q handler max_retries s =
     (case op_reserve ops q s of
        (Inl e, s1) \<Rightarrow> (Inl e, s1)
      | (Inr None, s1) \<Rightarrow> (Inr False, s1)
      | (Inr (Some m), s1) \<Rightarrow>
          py_bind
            (\<lambda>s2. case handler (m_payload m) s2 of
                (Inl e, s3) \<Rightarrow>
                  if m_attempts m > max_retries then op_dead_letter ops m (exn_str e) s3
                  else op_requeue ops m s3
              | (Inr _, s3) \<Rightarrow> op_ack ops m s3)
            (\<lambda>_. py_ret True) s1)"

text \<open>
  The drain loop of the workers, \<open>while await queue.consume_once(...): pass\<close>.  \<open>None\<close>: the fuel ran
  out.
\<close>

fun drain :: "nat \<Rightarrow> ('s, bool) py \<Rightarrow> 's \<Rightarrow> ((exn + unit) \<times> 's) option" where
  "drain 0 step s = None"
| "drain (Suc n) step s =
     (case step s of
        (Inl e, s') \<Rightarrow> Some (Inl e, s')
      | (Inr False, s') \<Rightarrow> Some (Inr (), s')
      | (Inr True, s') \<Rightarrow> drain n step s')"

section \<open>The abstract queue\<close>

record aqueue =
  aq_wait :: "string \<Rightarrow> message list"
  aq_fly :: "message set"
  aq_dead :: "string \<Rightarrow> message list"

definition a_publish :: "string \<Rightarrow> string \<Rightarrow> pydict \<Rightarrow> aqueue \<Rightarrow> aqueue" where
  "a_publish i q p a = a\<lparr>aq_wait := (aq_wait a)(q := aq_wait a q @
     [\<lparr>m_id = i, m_queue = q, m_payload = p, m_attempts = 0\<rparr>])\<rparr>"

definition a_reserve :: "string \<Rightarrow> aqueue \<Rightarrow> message option \<times> aqueue" where
  "a_reserve q a = (case aq_wait a q of
      [] \<Rightarrow> (None, a)
    | m # ms \<Rightarrow> (Some (bump m), a\<lparr>aq_wait := (aq_wait a)(q := ms),
                                     aq_fly := insert (bump m) (aq_fly a)\<rparr>))"

definition a_ack :: "message \<Rightarrow> aqueue \<Rightarrow> aqueue" where
  "a_ack m a = a\<lparr>aq_fly := aq_fly a - {m}\<rparr>"

definition a_requeue :: "message \<Rightarrow> aqueue \<Rightarrow> aqueue" where
  "a_requeue m a = a\<lparr>aq_fly := aq_fly a - {m},
     aq_wait := (aq_wait a)(m_queue m := aq_wait a (m_queue m) @ [m])\<rparr>"

definition a_dead_letter :: "message \<Rightarrow> aqueue \<Rightarrow> aqueue" where
  "a_dead_letter m a = a\<lparr>aq_fly := aq_fly a - {m},
     aq_dead := (aq_dead a)(m_queue m := aq_dead a (m_queue m) @ [m])\<rparr>"

lemmas aqueue_defs = a_publish_def a_reserve_def a_ack_def a_requeue_def a_dead_letter_def

text \<open>
  Well-formed: a message waits on the queue it names, no id is waiting or in flight twice, and
  the payloads are printable dictionaries in canonical key order (a \<open>dict\<close> has no key order).
\<close>

definition payload_ok :: "pydict \<Rightarrow> bool" where
  "payload_ok p = (json_ok (JObj p) \<and> sort_json (JObj p) = JObj p)"

definition wait_ids :: "aqueue \<Rightarrow> string set" where
  "wait_ids a = (\<Union>q. m_id ` set (aq_wait a q))"

definition fly_ids :: "aqueue \<Rightarrow> string set" where
  "fly_ids a = m_id ` aq_fly a"

definition dead_ids :: "aqueue \<Rightarrow> string set" where
  "dead_ids a = (\<Union>q. m_id ` set (aq_dead a q))"

definition aq_ok :: "aqueue \<Rightarrow> bool" where
  "aq_ok a = ((\<forall>q. \<forall>m \<in> set (aq_wait a q). m_queue m = q \<and> payload_ok (m_payload m))
    \<and> (\<forall>m \<in> aq_fly a. payload_ok (m_payload m))
    \<and> (\<forall>q. distinct (map m_id (aq_wait a q)))
    \<and> (\<forall>q q' m m'. m \<in> set (aq_wait a q) \<longrightarrow> m' \<in> set (aq_wait a q') \<longrightarrow> m_id m = m_id m' \<longrightarrow> q = q')
    \<and> (\<forall>q m m'. m \<in> set (aq_wait a q) \<longrightarrow> m' \<in> aq_fly a \<longrightarrow> m_id m \<noteq> m_id m')
    \<and> inj_on m_id (aq_fly a))"

lemma bump_simps [simp]:
  "m_id (bump m) = m_id m" "m_queue (bump m) = m_queue m" "m_payload (bump m) = m_payload m"
  "m_attempts (bump m) = m_attempts m + 1"
  by (simp_all add: bump_def)

lemma wait_ids_I: "m \<in> set (aq_wait a q) \<Longrightarrow> m_id m \<in> wait_ids a"
  by (auto simp: wait_ids_def)

lemma aq_okI:
  assumes "\<And>q m. m \<in> set (aq_wait a q) \<Longrightarrow> m_queue m = q \<and> payload_ok (m_payload m)"
    and "\<And>m. m \<in> aq_fly a \<Longrightarrow> payload_ok (m_payload m)"
    and "\<And>q. distinct (map m_id (aq_wait a q))"
    and "\<And>q q' m m'. m \<in> set (aq_wait a q) \<Longrightarrow> m' \<in> set (aq_wait a q') \<Longrightarrow> m_id m = m_id m' \<Longrightarrow> q = q'"
    and "\<And>q m m'. m \<in> set (aq_wait a q) \<Longrightarrow> m' \<in> aq_fly a \<Longrightarrow> m_id m \<noteq> m_id m'"
    and "inj_on m_id (aq_fly a)"
  shows "aq_ok a"
  unfolding aq_ok_def using assms by blast

lemma aq_okD:
  assumes "aq_ok a"
  shows aq_ok_queue: "m \<in> set (aq_wait a q) \<Longrightarrow> m_queue m = q"
    and aq_ok_payload: "m \<in> set (aq_wait a q) \<Longrightarrow> payload_ok (m_payload m)"
    and aq_ok_fly_payload: "m \<in> aq_fly a \<Longrightarrow> payload_ok (m_payload m)"
    and aq_ok_distinct: "distinct (map m_id (aq_wait a q))"
    and aq_ok_sep: "m \<in> set (aq_wait a q) \<Longrightarrow> m' \<in> set (aq_wait a q') \<Longrightarrow> m_id m = m_id m' \<Longrightarrow> q = q'"
    and aq_ok_fly_sep: "m \<in> set (aq_wait a q) \<Longrightarrow> m' \<in> aq_fly a \<Longrightarrow> m_id m \<noteq> m_id m'"
    and aq_ok_inj: "inj_on m_id (aq_fly a)"
  using assms unfolding aq_ok_def by blast+

lemma aq_ok_head:
  assumes ok: "aq_ok a" and w: "aq_wait a q = m # ms"
  shows "m_id m \<notin> m_id ` set ms" "distinct (map m_id ms)" "m_queue m = q"
    "x \<in> set (aq_wait a q') \<Longrightarrow> q' \<noteq> q \<Longrightarrow> m_id x \<noteq> m_id m"
    "x \<in> aq_fly a \<Longrightarrow> m_id x \<noteq> m_id m"
proof -
  have m: "m \<in> set (aq_wait a q)" using w by simp
  show "m_id m \<notin> m_id ` set ms" "distinct (map m_id ms)"
    using aq_ok_distinct [OF ok, of q] w by auto
  show "m_queue m = q" using aq_ok_queue [OF ok m] .
  show "m_id x \<noteq> m_id m" if "x \<in> set (aq_wait a q')" "q' \<noteq> q"
    using aq_ok_sep [OF ok that(1) m] that(2) by blast
  show "m_id x \<noteq> m_id m" if "x \<in> aq_fly a"
    using aq_ok_fly_sep [OF ok m that] by simp
qed

lemma aq_ok_fresh:
  "i \<notin> wait_ids a \<union> fly_ids a \<Longrightarrow>
     (\<forall>q. \<forall>m \<in> set (aq_wait a q). m_id m \<noteq> i) \<and> (\<forall>m \<in> aq_fly a. m_id m \<noteq> i)"
  by (auto simp: wait_ids_def fly_ids_def)

text \<open>Adding at the tail of a queue a message whose id is neither waiting nor in flight.\<close>

lemma aq_ok_append:
  assumes ok: "aq_ok a" and q: "m_queue m = q" and p: "payload_ok (m_payload m)"
    and fly: "F \<subseteq> aq_fly a" and new: "\<And>q x. x \<in> set (aq_wait a q) \<Longrightarrow> m_id x \<noteq> m_id m"
    and newf: "\<And>x. x \<in> F \<Longrightarrow> m_id x \<noteq> m_id m"
  shows "aq_ok (a\<lparr>aq_fly := F, aq_wait := (aq_wait a)(q := aq_wait a q @ [m])\<rparr>)"
proof (rule aq_okI)
  let ?a = "a\<lparr>aq_fly := F, aq_wait := (aq_wait a)(q := aq_wait a q @ [m])\<rparr>"
  note okD = aq_okD [OF ok]
  have mem: "x \<in> set (aq_wait ?a q') \<longleftrightarrow> x \<in> set (aq_wait a q') \<or> x = m \<and> q' = q" for x q'
    by auto
  show "m_queue x = q' \<and> payload_ok (m_payload x)" if "x \<in> set (aq_wait ?a q')" for x q'
    using that okD(1,2) q p unfolding mem by blast
  show "payload_ok (m_payload x)" if "x \<in> aq_fly ?a" for x
    using that okD(3) fly by auto
  show "distinct (map m_id (aq_wait ?a q'))" for q'
    using okD(4) new by (auto simp: image_iff) (metis new)
  show "q1 = q2" if "x \<in> set (aq_wait ?a q1)" "y \<in> set (aq_wait ?a q2)" "m_id x = m_id y" for q1 q2 x y
    using that okD(5) new unfolding mem by metis
  show "m_id x \<noteq> m_id y" if "x \<in> set (aq_wait ?a q1)" "y \<in> aq_fly ?a" for q1 x y
    using that okD(6) newf [of y] fly unfolding mem by (auto simp del: not_sym dest: sym)
  show "inj_on m_id (aq_fly ?a)"
    using okD(7) fly by (auto intro: inj_on_subset)
qed

lemma aq_ok_publish:
  assumes "aq_ok a" and "i \<notin> wait_ids a \<union> fly_ids a" and "payload_ok p"
  shows "aq_ok (a_publish i q p a)"
  using aq_ok_append [OF assms(1), of "\<lparr>m_id = i, m_queue = q, m_payload = p, m_attempts = 0\<rparr>" q "aq_fly a"]
    aq_ok_fresh [OF assms(2)] assms(3)
  by (simp add: a_publish_def)

lemma aq_ok_reserve:
  assumes ok: "aq_ok a" and w: "aq_wait a q = m # ms"
  shows "aq_ok (snd (a_reserve q a))"
proof (rule aq_okI)
  let ?a = "snd (a_reserve q a)"
  note okD = aq_okD [OF ok] and hd = aq_ok_head [OF ok w]
  have wait: "aq_wait ?a = (aq_wait a)(q := ms)" and fly: "aq_fly ?a = insert (bump m) (aq_fly a)"
    by (simp_all add: a_reserve_def w)
  have sub: "x \<in> set (aq_wait a q') \<and> m_id x \<noteq> m_id m" if "x \<in> set (aq_wait ?a q')" for x q'
    using that hd(1,4) w unfolding wait by (cases "q' = q") (auto simp: image_iff)
  show "m_queue x = q' \<and> payload_ok (m_payload x)" if "x \<in> set (aq_wait ?a q')" for x q'
    using sub [OF that] okD(1,2) by blast
  show "payload_ok (m_payload x)" if "x \<in> aq_fly ?a" for x
    using that okD(2) [of m q] okD(3) w unfolding fly by auto
  show "distinct (map m_id (aq_wait ?a q'))" for q'
    using okD(4) hd(2) unfolding wait by simp
  show "q1 = q2" if "x \<in> set (aq_wait ?a q1)" "y \<in> set (aq_wait ?a q2)" "m_id x = m_id y" for q1 q2 x y
    using sub [OF that(1)] sub [OF that(2)] okD(5) that(3) by blast
  show "m_id x \<noteq> m_id y" if "x \<in> set (aq_wait ?a q1)" "y \<in> aq_fly ?a" for q1 x y
    using sub [OF that(1)] that(2) okD(6) unfolding fly by auto
  show "inj_on m_id (aq_fly ?a)"
    using okD(7) hd(5) unfolding fly by (auto simp: inj_on_def) (metis bump_simps(1))+
qed

lemma aq_ok_ack: "aq_ok a \<Longrightarrow> aq_ok (a_ack m a)"
  unfolding aq_ok_def a_ack_def by (auto simp: inj_on_def)

lemma aq_ok_dead_letter: "aq_ok a \<Longrightarrow> aq_ok (a_dead_letter m a)"
  unfolding aq_ok_def a_dead_letter_def by (auto simp: inj_on_def)

lemma aq_ok_requeue:
  assumes ok: "aq_ok a" and m: "m \<in> aq_fly a"
  shows "aq_ok (a_requeue m a)"
proof -
  have "aq_ok (a\<lparr>aq_fly := aq_fly a - {m},
      aq_wait := (aq_wait a)(m_queue m := aq_wait a (m_queue m) @ [m])\<rparr>)"
    using ok m aq_okD(3,6,7) [OF ok] by (intro aq_ok_append) (auto simp: inj_on_def)
  then show ?thesis by (simp add: a_requeue_def)
qed

text \<open>No message is lost: only an acknowledgement takes an id out of the three places.\<close>

definition all_ids :: "aqueue \<Rightarrow> string set" where
  "all_ids a = wait_ids a \<union> fly_ids a \<union> dead_ids a"

lemma ids_append:
  "(\<Union>q. m_id ` set ((f(k := f k @ [m])) q)) = insert (m_id m) (\<Union>q. m_id ` set (f q))"
  by (rule set_eqI) (auto split: if_splits)

lemma ids_head:
  assumes f: "f k = m # ms"
  shows "(\<Union>q. m_id ` set (f q)) = insert (m_id m) (\<Union>q. m_id ` set ((f(k := ms)) q))"
proof -
  have k: "m_id m \<in> m_id ` set (f k)" "m_id ` set ms \<subseteq> m_id ` set (f k)" using f by auto
  have s1: "m_id ` set (f q) \<subseteq> insert (m_id m) (m_id ` set ((f(k := ms)) q))" for q
    using f by (cases "q = k") auto
  have s2: "m_id ` set ((f(k := ms)) q) \<subseteq> m_id ` set (f q)" for q
    using k(2) by (cases "q = k") simp_all
  show ?thesis
  proof (rule set_eqI)
    fix x
    have "x \<in> (\<Union>q. m_id ` set (f q)) \<Longrightarrow> x \<in> insert (m_id m) (\<Union>q. m_id ` set ((f(k := ms)) q))"
      using s1 by (elim UN_E) blast
    moreover have "x \<in> insert (m_id m) (\<Union>q. m_id ` set ((f(k := ms)) q)) \<Longrightarrow> x \<in> (\<Union>q. m_id ` set (f q))"
      using s2 k(1) by (elim insertE UN_E) blast+
    ultimately show "x \<in> (\<Union>q. m_id ` set (f q)) \<longleftrightarrow>
        x \<in> insert (m_id m) (\<Union>q. m_id ` set ((f(k := ms)) q))" by (rule iffI)
  qed
qed

lemma all_ids_publish: "all_ids (a_publish i q p a) = insert i (all_ids a)"
  by (simp add: all_ids_def a_publish_def wait_ids_def fly_ids_def dead_ids_def ids_append
      del: fun_upd_apply)

lemma all_ids_reserve: "all_ids (snd (a_reserve q a)) = all_ids a"
proof (cases "aq_wait a q")
  case (Cons m ms)
  have "wait_ids a = insert (m_id m) (wait_ids (snd (a_reserve q a)))"
    using ids_head [of "aq_wait a" q, OF Cons] Cons by (simp add: wait_ids_def a_reserve_def del: fun_upd_apply)
  with Cons show ?thesis
    by (auto simp: all_ids_def a_reserve_def fly_ids_def dead_ids_def)
qed (simp add: a_reserve_def)

lemma all_ids_requeue: "m \<in> aq_fly a \<Longrightarrow> all_ids (a_requeue m a) = all_ids a"
  by (auto simp: all_ids_def a_requeue_def wait_ids_def fly_ids_def dead_ids_def ids_append
      simp del: fun_upd_apply)

lemma all_ids_dead_letter: "m \<in> aq_fly a \<Longrightarrow> all_ids (a_dead_letter m a) = all_ids a"
  by (auto simp: all_ids_def a_dead_letter_def wait_ids_def fly_ids_def dead_ids_def ids_append
      simp del: fun_upd_apply)

section \<open>One round on the abstract queue\<close>

text \<open>The three outcomes of one round, on the queue the handler left behind.\<close>

definition settle :: "int \<Rightarrow> message \<Rightarrow> exn + 'a \<Rightarrow> aqueue \<Rightarrow> aqueue" where
  "settle mx m r = (case r of
     Inr _ \<Rightarrow> a_ack m
   | Inl e \<Rightarrow> if m_attempts m > mx then a_dead_letter m else a_requeue m)"

text \<open>The work a queue still holds: each waiting message may be delivered this many times.\<close>

definition work :: "int \<Rightarrow> message list \<Rightarrow> nat" where
  "work mx ms = sum_list (map (\<lambda>m. Suc (nat (mx - m_attempts m))) ms)"

lemma work_settle:
  assumes "aq_wait a q = ms" and "m_queue m = q"
  shows "work mx (aq_wait (settle mx (bump m) r a) q) < work mx (m # ms)"
  using assms
  by (auto simp: settle_def work_def aqueue_defs split: sum.splits)

text \<open>
  What one \<open>consume_once\<close> and the drain loop do to the abstract queue, for a handler that acts on
  the rest of the world only.
\<close>

definition a_consume :: "string \<Rightarrow> (pydict \<Rightarrow> ('w, 'a) py) \<Rightarrow> int \<Rightarrow> aqueue \<times> 'w \<Rightarrow> bool \<times> (aqueue \<times> 'w)"
  where
  "a_consume q h mx = (\<lambda>(a, w). case a_reserve q a of
      (None, a') \<Rightarrow> (False, (a', w))
    | (Some m, a') \<Rightarrow> (case h (m_payload m) w of (r, w') \<Rightarrow> (True, (settle mx m r a', w'))))"

fun a_drain :: "nat \<Rightarrow> (aqueue \<times> 'w \<Rightarrow> bool \<times> (aqueue \<times> 'w)) \<Rightarrow> aqueue \<times> 'w \<Rightarrow> (aqueue \<times> 'w) option" where
  "a_drain 0 step s = None"
| "a_drain (Suc n) step s = (case step s of (False, s') \<Rightarrow> Some s' | (True, s') \<Rightarrow> a_drain n step s')"

section \<open>A queue beside the rest of the world\<close>

text \<open>
  A worker's state is its queue and everything else it can reach.  A queue operation acts on the
  first component, a handler that does not touch the queue on the second.
\<close>

definition on_fst :: "('q, 'a) py \<Rightarrow> ('q \<times> 'w, 'a) py" where
  "on_fst f s = (case f (fst s) of (r, q) \<Rightarrow> (r, (q, snd s)))"

definition on_snd :: "('w, 'a) py \<Rightarrow> ('q \<times> 'w, 'a) py" where
  "on_snd f s = (case f (snd s) of (r, w) \<Rightarrow> (r, (fst s, w)))"

definition lift_ops :: "'q mq_ops \<Rightarrow> ('q \<times> 'w) mq_ops" where
  "lift_ops ops = \<lparr>op_publish = \<lambda>q p. on_fst (op_publish ops q p),
     op_reserve = \<lambda>q. on_fst (op_reserve ops q), op_ack = \<lambda>m. on_fst (op_ack ops m),
     op_requeue = \<lambda>m. on_fst (op_requeue ops m),
     op_dead_letter = \<lambda>m e. on_fst (op_dead_letter ops m e), op_size = \<lambda>q. on_fst (op_size ops q)\<rparr>"

lemma on_fst_eq: "f q = (r, q') \<Longrightarrow> on_fst f (q, w) = (r, (q', w))"
  by (simp add: on_fst_def)

section \<open>The port\<close>

text \<open>
  An implementation refines the abstract queue: under the invariant every operation returns what
  its abstract counterpart returns and leaves a state that abstracts to the same queue.
  \<open>valid\<close> are the queue names the implementation supports; \<open>rest\<close> is the part of the state the
  queue does not own, which its operations leave alone.
\<close>

locale message_queue =
  fixes ops :: "'s mq_ops"
    and valid :: "string \<Rightarrow> bool"
    and inv :: "'s \<Rightarrow> bool"
    and abs :: "'s \<Rightarrow> aqueue"
    and rest :: "'s \<Rightarrow> 'r"
  assumes abs_ok: "inv s \<Longrightarrow> aq_ok (abs s)"
    and publish_refines: "inv s \<Longrightarrow> valid q \<Longrightarrow> payload_ok p \<Longrightarrow>
      \<exists>i s'. op_publish ops q p s = (Inr i, s') \<and> inv s' \<and> rest s' = rest s \<and>
        i \<notin> all_ids (abs s) \<and> abs s' = a_publish i q p (abs s)"
    and reserve_refines: "inv s \<Longrightarrow> valid q \<Longrightarrow>
      \<exists>s'. op_reserve ops q s = (Inr (fst (a_reserve q (abs s))), s') \<and> inv s' \<and> rest s' = rest s \<and>
        abs s' = snd (a_reserve q (abs s))"
    and ack_refines: "inv s \<Longrightarrow> m \<in> aq_fly (abs s) \<Longrightarrow> valid (m_queue m) \<Longrightarrow>
      \<exists>s'. op_ack ops m s = (Inr (), s') \<and> inv s' \<and> rest s' = rest s \<and> abs s' = a_ack m (abs s)"
    and requeue_refines: "inv s \<Longrightarrow> m \<in> aq_fly (abs s) \<Longrightarrow> valid (m_queue m) \<Longrightarrow>
      \<exists>s'. op_requeue ops m s = (Inr (), s') \<and> inv s' \<and> rest s' = rest s \<and> abs s' = a_requeue m (abs s)"
    and dead_letter_refines: "inv s \<Longrightarrow> m \<in> aq_fly (abs s) \<Longrightarrow> valid (m_queue m) \<Longrightarrow>
      \<exists>s'. op_dead_letter ops m err s = (Inr (), s') \<and> inv s' \<and> rest s' = rest s \<and>
        abs s' = a_dead_letter m (abs s)"
    and size_refines: "inv s \<Longrightarrow> valid q \<Longrightarrow>
      op_size ops q s = (Inr (length (aq_wait (abs s) q)), s)"
begin

text \<open>
  What a handler may do to the queue while its message is in flight: publish elsewhere.  It keeps
  the invariant, the messages waiting on \<open>q\<close>, what is in flight and the dead letters.
\<close>

definition well_behaved :: "string \<Rightarrow> (pydict \<Rightarrow> ('s, 'a) py) \<Rightarrow> bool" where
  "well_behaved q h = (\<forall>p s r s'. inv s \<longrightarrow> h p s = (r, s') \<longrightarrow> inv s' \<and>
     aq_wait (abs s') q = aq_wait (abs s) q \<and> aq_fly (abs s') = aq_fly (abs s) \<and>
     aq_dead (abs s') = aq_dead (abs s))"

lemma well_behavedD:
  "well_behaved q h \<Longrightarrow> inv s \<Longrightarrow> h p s = (r, s') \<Longrightarrow> inv s' \<and>
     aq_wait (abs s') q = aq_wait (abs s) q \<and> aq_fly (abs s') = aq_fly (abs s) \<and>
     aq_dead (abs s') = aq_dead (abs s)"
  unfolding well_behaved_def by blast

lemma consume_once_empty:
  assumes "inv s" and "valid q" and "aq_wait (abs s) q = []"
  shows "\<exists>s'. consume_once ops q h mx s = (Inr False, s') \<and> inv s' \<and> abs s' = abs s \<and> rest s' = rest s"
proof -
  from assms(3) have "a_reserve q (abs s) = (None, abs s)" by (simp add: a_reserve_def)
  with reserve_refines [OF assms(1,2)] show ?thesis by (auto simp: consume_once_def)
qed

lemma consume_once_cons:
  assumes inv: "inv s" and q: "valid q" and w: "aq_wait (abs s) q = m # ms"
    and h: "well_behaved q h"
  shows "\<exists>s1 r s2 s'. op_reserve ops q s = (Inr (Some (bump m)), s1) \<and> rest s1 = rest s \<and> inv s1 \<and>
     h (m_payload m) s1 = (r, s2) \<and> inv s2 \<and>
     aq_wait (abs s2) q = ms \<and> bump m \<in> aq_fly (abs s2) \<and> aq_dead (abs s2) = aq_dead (abs s) \<and>
     consume_once ops q h mx s = (Inr True, s') \<and> inv s' \<and> rest s' = rest s2 \<and>
     abs s' = settle mx (bump m) r (abs s2)"
proof -
  have ar: "a_reserve q (abs s) = (Some (bump m), (abs s)\<lparr>aq_wait := (aq_wait (abs s))(q := ms),
      aq_fly := insert (bump m) (aq_fly (abs s))\<rparr>)"
    using w by (simp add: a_reserve_def)
  obtain s1 where s1: "op_reserve ops q s = (Inr (Some (bump m)), s1)" "inv s1" "rest s1 = rest s"
      "abs s1 = snd (a_reserve q (abs s))"
    using reserve_refines [OF inv q] ar by auto
  obtain r s2 where s2: "h (m_payload m) s1 = (r, s2)" by (cases "h (m_payload m) s1")
  note wb = well_behavedD [OF h s1(2) s2]
  have fly: "bump m \<in> aq_fly (abs s2)" and mq: "valid (m_queue (bump m))"
    using wb s1(4) ar q aq_ok_queue [OF abs_ok [OF inv], of m q] w by auto
  have inv2: "inv s2" using wb by blast
  have "\<exists>s'. consume_once ops q h mx s = (Inr True, s') \<and> inv s' \<and> rest s' = rest s2 \<and>
      abs s' = settle mx (bump m) r (abs s2)"
  proof (cases r)
    case (Inr v)
    obtain s' where "op_ack ops (bump m) s2 = (Inr (), s')" "inv s'" "rest s' = rest s2"
      "abs s' = a_ack (bump m) (abs s2)"
      using ack_refines [OF inv2 fly mq] by blast
    then show ?thesis
      by (intro exI [of _ s']) (simp add: consume_once_def s1(1) s2 Inr settle_def py_monad_defs)
  next
    case (Inl e)
    show ?thesis
    proof (cases "m_attempts (bump m) > mx")
      case True
      obtain s' where "op_dead_letter ops (bump m) (exn_str e) s2 = (Inr (), s')" "inv s'"
        "rest s' = rest s2" "abs s' = a_dead_letter (bump m) (abs s2)"
        using dead_letter_refines [OF inv2 fly mq] by blast
      with True show ?thesis
        by (intro exI [of _ s']) (simp add: consume_once_def s1(1) s2 Inl settle_def py_monad_defs)
    next
      case False
      obtain s' where "op_requeue ops (bump m) s2 = (Inr (), s')" "inv s'"
        "rest s' = rest s2" "abs s' = a_requeue (bump m) (abs s2)"
        using requeue_refines [OF inv2 fly mq] by blast
      with False show ?thesis
        by (intro exI [of _ s']) (simp add: consume_once_def s1(1) s2 Inl settle_def py_monad_defs)
    qed
  qed
  with s1 s2 wb fly ar show ?thesis by auto
qed

text \<open>For a handler that leaves the queue alone, \<open>consume_once\<close> refines the abstract round.\<close>

lemma consume_refines:
  assumes inv: "inv s" and q: "valid q"
  shows "\<exists>b s' w'. consume_once (lift_ops ops) q (\<lambda>p. on_snd (h p)) mx (s, w) = (Inr b, (s', w')) \<and>
     inv s' \<and> a_consume q h mx (abs s, w) = (b, (abs s', w'))"
proof (cases "aq_wait (abs s) q")
  case Nil
  then have ar: "a_reserve q (abs s) = (None, abs s)" by (simp add: a_reserve_def)
  obtain s' where "op_reserve ops q s = (Inr None, s')" "inv s'" "abs s' = abs s"
    using reserve_refines [OF inv q] ar by auto
  then show ?thesis
    by (intro exI [of _ False] exI [of _ s'] exI [of _ w])
      (simp add: consume_once_def a_consume_def lift_ops_def on_fst_def ar)
next
  case (Cons m ms)
  let ?m = "bump m"
  define a1 where "a1 = snd (a_reserve q (abs s))"
  have ar: "a_reserve q (abs s) = (Some ?m, a1)" using Cons by (simp add: a_reserve_def a1_def)
  obtain s1 where s1: "op_reserve ops q s = (Inr (Some ?m), s1)" "inv s1" "abs s1 = a1"
    using reserve_refines [OF inv q] ar by auto
  have fly: "?m \<in> aq_fly (abs s1)" using s1(3) Cons by (simp add: a1_def a_reserve_def)
  have mq: "valid (m_queue ?m)" using aq_ok_head(3) [OF abs_ok [OF inv] Cons] q by simp
  obtain r w' where h: "h (m_payload ?m) w = (r, w')" by (cases "h (m_payload ?m) w")
  define settled where "settled s' = (case r of Inr _ \<Rightarrow> op_ack ops ?m s1 = (Inr (), s')
    | Inl e \<Rightarrow> (if m_attempts ?m > mx then op_dead_letter ops ?m (exn_str e) s1
        else op_requeue ops ?m s1) = (Inr (), s'))" for s'
  obtain s' where s': "settled s'" "inv s'" "abs s' = settle mx ?m r (abs s1)"
    using ack_refines [OF s1(2) fly mq] requeue_refines [OF s1(2) fly mq]
      dead_letter_refines [OF s1(2) fly mq]
    by (cases r; cases "m_attempts ?m > mx") (fastforce simp: settled_def settle_def)+
  have "consume_once (lift_ops ops) q (\<lambda>p. on_snd (h p)) mx (s, w) = (Inr True, (s', w'))"
    using s'(1) h
    by (cases r)
      (auto simp: consume_once_def lift_ops_def on_fst_def on_snd_def s1(1) settled_def py_monad_defs
        split: if_splits)
  moreover have "a_consume q h mx (abs s, w) = (True, (abs s', w'))"
    using s'(3) h s1(3) by (simp add: a_consume_def ar)
  ultimately show ?thesis using s'(2) by blast
qed

lemma drain_refines:
  assumes "inv s" and q: "valid q"
  shows "drain n (consume_once (lift_ops ops) q (\<lambda>p. on_snd (h p)) mx) (s, w) = None \<and>
       a_drain n (a_consume q h mx) (abs s, w) = None
     \<or> (\<exists>s' w'. drain n (consume_once (lift_ops ops) q (\<lambda>p. on_snd (h p)) mx) (s, w) =
          Some (Inr (), (s', w')) \<and> inv s' \<and> a_drain n (a_consume q h mx) (abs s, w) = Some (abs s', w'))"
  using assms(1)
proof (induction n arbitrary: s w)
  case (Suc n)
  obtain b s1 w1 where c: "consume_once (lift_ops ops) q (\<lambda>p. on_snd (h p)) mx (s, w) = (Inr b, (s1, w1))"
    "inv s1" "a_consume q h mx (abs s, w) = (b, (abs s1, w1))"
    using consume_refines [OF Suc.prems q, of h mx w] by (elim exE conjE) (rule that)
  show ?case using c Suc.IH [OF c(2), of w1] by (cases b) simp_all
qed simp

text \<open>A property of the queue and the rest of the state that every part of a round keeps.\<close>

lemma drain_invariant:
  assumes "drain fuel (consume_once ops q h mx) s = Some (res, s')"
    and "inv s" and q: "valid q" and wb: "well_behaved q h" and "P (abs s) (rest s)"
    and reserve: "\<And>a w. P a w \<Longrightarrow> P (snd (a_reserve q a)) w"
    and settle: "\<And>a w m (r :: exn + 'b). P a w \<Longrightarrow> m_queue m = q \<Longrightarrow> P (settle mx m r a) w"
    and handler: "\<And>p s r s'. inv s \<Longrightarrow> P (abs s) (rest s) \<Longrightarrow> h p s = (r :: exn + 'b, s') \<Longrightarrow> P (abs s') (rest s')"
  shows "P (abs s') (rest s')"
  using assms(1,2,5)
proof (induction fuel arbitrary: s)
  case (Suc n)
  show ?case
  proof (cases "aq_wait (abs s) q")
    case Nil
    from consume_once_empty [OF Suc.prems(2) q Nil, of h mx] Suc.prems(1,3) show ?thesis by auto
  next
    case (Cons m ms)
    obtain s1 r s2 s3 where c: "op_reserve ops q s = (Inr (Some (bump m)), s1)" "rest s1 = rest s" "inv s1"
      "h (m_payload m) s1 = (r, s2)" "consume_once ops q h mx s = (Inr True, s3)" "inv s3" "rest s3 = rest s2"
      "abs s3 = settle mx (bump m) r (abs s2)"
      using consume_once_cons [OF Suc.prems(2) q Cons wb, of mx] by blast
    have "abs s1 = snd (a_reserve q (abs s))" using reserve_refines [OF Suc.prems(2) q] c(1) by auto
    then have "P (abs s1) (rest s1)" using reserve [OF Suc.prems(3)] c(2) by simp
    from settle [OF handler [OF c(3) this c(4)], of "bump m" r] have "P (abs s3) (rest s3)"
      using c(7,8) aq_ok_head(3) [OF abs_ok [OF Suc.prems(2)] Cons] by simp
    with Suc.IH [OF _ c(6)] Suc.prems(1) c(5) show ?thesis by simp
  qed
qed simp

theorem drain_terminates:
  assumes "inv s" and "valid q" and "well_behaved q h"
    and "work mx (aq_wait (abs s) q) < fuel"
  shows "\<exists>s'. drain fuel (consume_once ops q h mx) s = Some (Inr (), s') \<and> inv s' \<and>
     aq_wait (abs s') q = [] \<and> aq_fly (abs s') \<subseteq> aq_fly (abs s)"
  using assms(1,4)
proof (induction fuel arbitrary: s)
  case (Suc n)
  show ?case
  proof (cases "aq_wait (abs s) q")
    case Nil
    from consume_once_empty [OF Suc.prems(1) assms(2) Nil, of h mx] Nil show ?thesis by auto
  next
    case (Cons m ms)
    from consume_once_cons [OF Suc.prems(1) assms(2) Cons assms(3), of mx]
    obtain s1 r s2 s' where c: "op_reserve ops q s = (Inr (Some (bump m)), s1)" "inv s1"
      "h (m_payload m) s1 = (r, s2)" "aq_wait (abs s2) q = ms"
      "consume_once ops q h mx s = (Inr True, s')" "inv s'"
      "abs s' = settle mx (bump m) r (abs s2)" by blast
    have mq: "m_queue m = q"
      using aq_ok_queue [OF abs_ok [OF Suc.prems(1)], of m q] Cons by simp
    have "work mx (aq_wait (abs s') q) < n"
      using work_settle [OF c(4) mq, of mx r] c(7) Suc.prems(2) Cons by simp
    from Suc.IH [OF c(6) this] obtain s'' where
      s'': "drain n (consume_once ops q h mx) s' = Some (Inr (), s'')" "inv s''"
        "aq_wait (abs s'') q = []" "aq_fly (abs s'') \<subseteq> aq_fly (abs s')" by blast
    have "aq_fly (abs s2) = insert (bump m) (aq_fly (abs s))"
    proof -
      have "abs s1 = snd (a_reserve q (abs s))"
        using reserve_refines [OF Suc.prems(1) assms(2)] c(1) by auto
      then show ?thesis
        using well_behavedD [OF assms(3) c(2,3)] Cons by (simp add: a_reserve_def)
    qed
    then have "aq_fly (abs s') \<subseteq> aq_fly (abs s)"
      using c(7) by (auto simp: settle_def aqueue_defs split: sum.splits if_splits)
    with s'' c(5) show ?thesis by auto
  qed
qed simp

lemma consume_once_poison:
  assumes inv: "inv s" and q: "valid q" and w: "aq_wait (abs s) q = m # ms"
    and h: "well_behaved q h"
    and fails: "\<And>p s. inv s \<Longrightarrow> \<exists>e s'. h p s = (Inl e, s') \<and> count (rest s') = Suc (count (rest s))"
  obtains s2 s' where "count (rest s2) = Suc (count (rest s))"
    "aq_wait (abs s2) q = ms" "aq_dead (abs s2) = aq_dead (abs s)"
    "consume_once ops q h mx s = (Inr True, s')" "inv s'" "rest s' = rest s2"
    "abs s' = (if m_attempts (bump m) > mx then a_dead_letter (bump m) (abs s2)
               else a_requeue (bump m) (abs s2))"
proof -
  obtain s1 r s2 s' where c: "rest s1 = rest s" "inv s1" "h (m_payload m) s1 = (r, s2)"
    "aq_wait (abs s2) q = ms" "aq_dead (abs s2) = aq_dead (abs s)"
    "consume_once ops q h mx s = (Inr True, s')" "inv s'" "rest s' = rest s2"
    "abs s' = settle mx (bump m) r (abs s2)"
    using consume_once_cons [OF inv q w h, of mx] by blast
  obtain e s3 where e: "h (m_payload m) s1 = (Inl e, s3)" "count (rest s3) = Suc (count (rest s1))"
    using fails [OF c(2), of "m_payload m"] by blast
  have r: "r = Inl e" "s3 = s2" using c(3) e(1) by auto
  show ?thesis
  proof (rule that [of s2 s'])
    show "count (rest s2) = Suc (count (rest s))" using e(2) r(2) c(1) by simp
    show "abs s' = (if m_attempts (bump m) > mx then a_dead_letter (bump m) (abs s2)
               else a_requeue (bump m) (abs s2))"
      using c(9) r(1) by (simp add: settle_def)
  qed (fact c)+
qed

text \<open>
  A poison message: a handler that always raises is called \<open>max_retries + 1\<close> times on it, and the
  message then is the last dead letter of its queue.
\<close>

theorem poison_dead_lettered:
  assumes "inv s" and "valid q" and h: "well_behaved q h"
    and fails: "\<And>p s. inv s \<Longrightarrow> \<exists>e s'. h p s = (Inl e, s') \<and> count (rest s') = Suc (count (rest s))"
    and "aq_wait (abs s) q = [m]" and "m_attempts m \<le> mx"
  shows "\<exists>s'. drain (nat (mx - m_attempts m) + 2) (consume_once ops q h mx) s = Some (Inr (), s') \<and>
     aq_wait (abs s') q = [] \<and>
     aq_dead (abs s') q = aq_dead (abs s) q @ [m\<lparr>m_attempts := mx + 1\<rparr>] \<and>
     count (rest s') = count (rest s) + nat (mx - m_attempts m) + 1"
  using assms(1,5,6)
proof (induction "nat (mx - m_attempts m)" arbitrary: s m)
  case 0
  obtain s2 s' where c: "count (rest s2) = Suc (count (rest s))"
    "aq_wait (abs s2) q = []" "aq_dead (abs s2) = aq_dead (abs s)"
    "consume_once ops q h mx s = (Inr True, s')" "inv s'" "rest s' = rest s2"
    "abs s' = (if m_attempts (bump m) > mx then a_dead_letter (bump m) (abs s2)
               else a_requeue (bump m) (abs s2))"
    by (rule consume_once_poison [OF "0.prems"(1) assms(2) "0.prems"(2) h fails])
  have att: "m_attempts m = mx" using 0 by simp
  have mq: "m_queue m = q"
    using aq_ok_queue [OF abs_ok [OF "0.prems"(1)], of m q] "0.prems"(2) by simp
  have abs': "abs s' = a_dead_letter (bump m) (abs s2)" using c(7) att by simp
  then have w': "aq_wait (abs s') q = []" using c(2) by (simp add: aqueue_defs)
  have cnt: "count (rest s') = Suc (count (rest s))"
    using c(1,6) by simp
  from consume_once_empty [OF c(5) assms(2) w', of h mx] obtain s'' where
    "consume_once ops q h mx s' = (Inr False, s'')" "abs s'' = abs s'" "rest s'' = rest s'" by blast
  then have "drain (nat (mx - m_attempts m) + 2) (consume_once ops q h mx) s = Some (Inr (), s'')"
    using c(4) att by (simp add: numeral_2_eq_2)
  moreover have "aq_dead (abs s') q = aq_dead (abs s) q @ [m\<lparr>m_attempts := mx + 1\<rparr>]"
    using abs' c(3) mq att by (simp add: aqueue_defs bump_def)
  ultimately show ?case
    using w' cnt att \<open>abs s'' = abs s'\<close> \<open>rest s'' = rest s'\<close>
    by (intro exI [of _ s'']) simp
next
  case (Suc n)
  obtain s2 s' where c: "count (rest s2) = Suc (count (rest s))"
    "aq_wait (abs s2) q = []" "aq_dead (abs s2) = aq_dead (abs s)"
    "consume_once ops q h mx s = (Inr True, s')" "inv s'" "rest s' = rest s2"
    "abs s' = (if m_attempts (bump m) > mx then a_dead_letter (bump m) (abs s2)
               else a_requeue (bump m) (abs s2))"
    by (rule consume_once_poison [OF Suc.prems(1) assms(2) Suc.prems(2) h fails])
  have att: "m_attempts m < mx" using Suc.hyps(2) by simp
  have mq: "m_queue m = q"
    using aq_ok_queue [OF abs_ok [OF Suc.prems(1)], of m q] Suc.prems(2) by simp
  have abs': "abs s' = a_requeue (bump m) (abs s2)" using c(7) att by simp
  have w': "aq_wait (abs s') q = [bump m]" using abs' c(2) mq by (simp add: aqueue_defs)
  have cnt: "count (rest s') = Suc (count (rest s))"
    using c(1,6) by simp
  have dead': "aq_dead (abs s') = aq_dead (abs s)" using abs' c(3) by (simp add: aqueue_defs)
  have n: "n = nat (mx - m_attempts (bump m))" and le: "m_attempts (bump m) \<le> mx"
    using Suc.hyps(2) att by simp_all
  from Suc.hyps(1) [OF n c(5) w' le] obtain s'' where IH:
    "drain (nat (mx - m_attempts (bump m)) + 2) (consume_once ops q h mx) s' = Some (Inr (), s'')"
    "aq_wait (abs s'') q = []"
    "aq_dead (abs s'') q = aq_dead (abs s') q @ [(bump m)\<lparr>m_attempts := mx + 1\<rparr>]"
    "count (rest s'') = count (rest s') + nat (mx - m_attempts (bump m)) + 1" by blast
  have len: "nat (mx - m_attempts m) + 2 = Suc (nat (mx - m_attempts (bump m)) + 2)"
    using att by simp
  show ?case
    using IH c(4) dead' cnt att unfolding len
    by (intro exI [of _ s'']) (simp add: bump_def)
qed

end

section \<open>The in-memory implementation\<close>

text \<open>
  \<open>InMemoryMessageQueue\<close>: a deque of waiting messages per queue, the in-flight registry by id and
  the dead letters per queue.  \<open>mq_uuids\<close> are the values the next \<open>uuid.uuid4()\<close> calls return.
\<close>

record memq =
  mq_queues :: "string \<Rightarrow> message list"
  mq_inflight :: "string \<Rightarrow> message option"
  mq_dead :: "string \<Rightarrow> message list"
  mq_uuids :: "nat \<Rightarrow> string"

definition memq_init :: "(nat \<Rightarrow> string) \<Rightarrow> memq" where
  "memq_init us = \<lparr>mq_queues = \<lambda>_. [], mq_inflight = \<lambda>_. None, mq_dead = \<lambda>_. [], mq_uuids = us\<rparr>"

definition mq_publish :: "string \<Rightarrow> pydict \<Rightarrow> (memq, string) py" where
  "mq_publish q payload s =
     (let i = mq_uuids s 0;
          m = \<lparr>m_id = i, m_queue = q, m_payload = payload, m_attempts = 0\<rparr>
      in (Inr i, s\<lparr>mq_uuids := (\<lambda>n. mq_uuids s (Suc n)),
                   mq_queues := (mq_queues s)(q := mq_queues s q @ [m])\<rparr>))"

definition mq_reserve :: "string \<Rightarrow> (memq, message option) py" where
  "mq_reserve q s = (case mq_queues s q of
      [] \<Rightarrow> (Inr None, s)
    | m # ms \<Rightarrow>
        (let m' = \<lparr>m_id = m_id m, m_queue = m_queue m, m_payload = m_payload m,
                    m_attempts = m_attempts m + 1\<rparr>
         in (Inr (Some m'), s\<lparr>mq_queues := (mq_queues s)(q := ms),
                              mq_inflight := (mq_inflight s)(m_id m' := Some m')\<rparr>)))"

definition mq_ack :: "message \<Rightarrow> (memq, unit) py" where
  "mq_ack m s = (Inr (), s\<lparr>mq_inflight := (mq_inflight s)(m_id m := None)\<rparr>)"

definition mq_requeue :: "message \<Rightarrow> (memq, unit) py" where
  "mq_requeue m s = (Inr (), s\<lparr>mq_inflight := (mq_inflight s)(m_id m := None),
     mq_queues := (mq_queues s)(m_queue m := mq_queues s (m_queue m) @ [m])\<rparr>)"

definition mq_dead_letter :: "message \<Rightarrow> string \<Rightarrow> (memq, unit) py" where
  "mq_dead_letter m err s = (Inr (), s\<lparr>mq_inflight := (mq_inflight s)(m_id m := None),
     mq_dead := (mq_dead s)(m_queue m := mq_dead s (m_queue m) @ [m])\<rparr>)"

definition mq_size :: "string \<Rightarrow> (memq, nat) py" where
  "mq_size q s = (Inr (length (mq_queues s q)), s)"

definition mq_dead_letters :: "string \<Rightarrow> memq \<Rightarrow> message list" where
  "mq_dead_letters q s = mq_dead s q"

definition memq_ops :: "memq mq_ops" where
  "memq_ops = \<lparr>op_publish = mq_publish, op_reserve = mq_reserve, op_ack = mq_ack,
     op_requeue = mq_requeue, op_dead_letter = mq_dead_letter, op_size = mq_size\<rparr>"

definition memq_abs :: "memq \<Rightarrow> aqueue" where
  "memq_abs s = \<lparr>aq_wait = mq_queues s, aq_fly = ran (mq_inflight s), aq_dead = mq_dead s\<rparr>"

definition memq_inv :: "memq \<Rightarrow> bool" where
  "memq_inv s = (aq_ok (memq_abs s)
     \<and> (\<forall>i m. mq_inflight s i = Some m \<longrightarrow> m_id m = i)
     \<and> inj (mq_uuids s) \<and> range (mq_uuids s) \<inter> all_ids (memq_abs s) = {})"

lemmas memq_defs = mq_publish_def mq_reserve_def mq_ack_def mq_requeue_def mq_dead_letter_def
  mq_size_def memq_ops_def

lemma uuids_shift:
  assumes "inj (f :: nat \<Rightarrow> string)" and "range f \<inter> A = {}" and "B \<subseteq> insert (f 0) A"
  shows "inj (\<lambda>n. f (Suc n))" "range (\<lambda>n. f (Suc n)) \<inter> B = {}"
proof -
  show "inj (\<lambda>n. f (Suc n))" using assms(1) by (auto simp: inj_def)
  have "f (Suc n) \<noteq> f 0" for n using assms(1) by (auto simp: inj_def)
  then show "range (\<lambda>n. f (Suc n)) \<inter> B = {}" using assms(2,3) by (auto 0 3)
qed

lemma ran_remove_id:
  assumes key: "\<And>i x. f i = Some x \<Longrightarrow> m_id x = i" and m: "f (m_id m) = Some m"
  shows "ran (f(m_id m := None)) = ran f - {m}"
proof (rule set_eqI)
  fix y
  have "y \<in> ran (f(m_id m := None)) \<longleftrightarrow> (\<exists>i. i \<noteq> m_id m \<and> f i = Some y)"
    by (auto simp: ran_def)
  also have "\<dots> \<longleftrightarrow> y \<noteq> m \<and> (\<exists>i. f i = Some y)" using key m by (metis option.inject)
  also have "\<dots> \<longleftrightarrow> y \<in> ran f - {m}" by (auto simp: ran_def)
  finally show "y \<in> ran (f(m_id m := None)) \<longleftrightarrow> y \<in> ran f - {m}" .
qed

lemma ran_insert_id: "f (m_id m) = None \<Longrightarrow> ran (f(m_id m := Some m)) = insert m (ran f)"
  by (simp add: ran_map_upd)

lemma all_ids_ack_subset: "all_ids (a_ack m a) \<subseteq> all_ids a"
  by (auto simp: all_ids_def wait_ids_def fly_ids_def dead_ids_def a_ack_def)

lemma all_ids_I: "m \<in> aq_fly a \<Longrightarrow> m_id m \<in> all_ids a"
  by (auto simp: all_ids_def fly_ids_def)

lemma memq_key: "memq_inv s \<Longrightarrow> mq_inflight s i = Some m \<Longrightarrow> m_id m = i"
  unfolding memq_inv_def by blast

lemma memq_fly: "memq_inv s \<Longrightarrow> m \<in> aq_fly (memq_abs s) \<Longrightarrow> mq_inflight s (m_id m) = Some m"
  by (auto simp: memq_abs_def ran_def dest: memq_key)

lemma memq_remove:
  assumes "memq_inv s" and "m \<in> aq_fly (memq_abs s)"
  shows "ran ((mq_inflight s)(m_id m := None)) = aq_fly (memq_abs s) - {m}"
  using ran_remove_id [of "mq_inflight s", OF memq_key [OF assms(1)] memq_fly [OF assms]] by (simp add: memq_abs_def)

text \<open>Once a step is known to do the abstract one, the rest of the invariant is about two fields.\<close>

lemma memq_invI:
  assumes inv: "memq_inv s" and "aq_ok (memq_abs s')" and "all_ids (memq_abs s') \<subseteq> all_ids (memq_abs s)"
    and "mq_uuids s' = mq_uuids s" and fly: "mq_inflight s' = (mq_inflight s)(k := v)"
    and v: "v = None \<or> (\<exists>m. v = Some m \<and> m_id m = k)"
  shows "memq_inv s'"
proof -
  have "m_id m = i" if "mq_inflight s' i = Some m" for i m
    using that v memq_key [OF inv, of i m] unfolding fly by (cases "i = k") auto
  moreover have "inj (mq_uuids s')" "range (mq_uuids s') \<inter> all_ids (memq_abs s') = {}"
    using assms(1,3,4) unfolding memq_inv_def by auto
  ultimately show ?thesis using assms(2) unfolding memq_inv_def by blast
qed

interpretation memq: message_queue memq_ops "\<lambda>_. True" memq_inv memq_abs "\<lambda>_. ()"
proof unfold_locales
  fix s :: memq and q p m err
  assume inv: "memq_inv s"
  then have ok: "aq_ok (memq_abs s)"
    and us: "inj (mq_uuids s)" "range (mq_uuids s) \<inter> all_ids (memq_abs s) = {}"
    by (auto simp: memq_inv_def)
  show "aq_ok (memq_abs s)" by fact
  show "op_size memq_ops q s = (Inr (length (aq_wait (memq_abs s) q)), s)"
    by (simp add: memq_defs memq_abs_def)
  show "\<exists>i s'. op_publish memq_ops q p s = (Inr i, s') \<and> memq_inv s' \<and> () = () \<and>
      i \<notin> all_ids (memq_abs s) \<and> memq_abs s' = a_publish i q p (memq_abs s)" if p: "payload_ok p"
  proof -
    let ?i = "mq_uuids s 0" and ?s = "snd (mq_publish q p s)"
    have new: "?i \<notin> all_ids (memq_abs s)" using us(2) by auto
    have abs': "memq_abs ?s = a_publish ?i q p (memq_abs s)"
      by (simp add: memq_defs memq_abs_def a_publish_def Let_def)
    have "aq_ok (memq_abs ?s)"
      using aq_ok_publish [OF ok, of ?i p q] p new unfolding abs' by (simp add: all_ids_def)
    moreover have "inj (mq_uuids ?s)" "range (mq_uuids ?s) \<inter> all_ids (memq_abs ?s) = {}"
      using uuids_shift [OF us, of "all_ids (memq_abs ?s)"]
      by (simp_all add: abs' all_ids_publish) (simp_all add: mq_publish_def Let_def)
    ultimately have "memq_inv ?s" using memq_key [OF inv] unfolding memq_inv_def by (simp add: mq_publish_def Let_def)
    with new abs' show ?thesis by (simp add: memq_ops_def mq_publish_def Let_def)
  qed
  show "\<exists>s'. op_reserve memq_ops q s = (Inr (fst (a_reserve q (memq_abs s))), s') \<and> memq_inv s' \<and>
      () = () \<and> memq_abs s' = snd (a_reserve q (memq_abs s))"
  proof (cases "mq_queues s q")
    case Nil
    then show ?thesis using inv by (simp add: memq_defs memq_abs_def a_reserve_def)
  next
    case (Cons x xs)
    let ?s = "snd (mq_reserve q s)"
    have w: "aq_wait (memq_abs s) q = x # xs" using Cons by (simp add: memq_abs_def)
    have free: "mq_inflight s (m_id x) = None"
    proof (rule ccontr)
      assume "mq_inflight s (m_id x) \<noteq> None"
      then obtain y where y: "mq_inflight s (m_id x) = Some y" by auto
      then have "y \<in> aq_fly (memq_abs s)" by (auto simp: memq_abs_def ran_def)
      with aq_ok_head(5) [OF ok w] memq_key [OF inv y] show False by auto
    qed
    have m': "\<lparr>m_id = m_id x, m_queue = m_queue x, m_payload = m_payload x,
        m_attempts = m_attempts x + 1\<rparr> = bump x" by (simp add: bump_def)
    have abs': "memq_abs ?s = snd (a_reserve q (memq_abs s))"
      using Cons free ran_insert_id [of "mq_inflight s" "bump x"]
      by (simp add: mq_reserve_def memq_abs_def a_reserve_def m' Let_def)
    have eq: "mq_uuids ?s = mq_uuids s"
      "mq_inflight ?s = (mq_inflight s)(m_id x := Some (bump x))"
      by (simp_all add: mq_reserve_def Cons Let_def m')
    have "aq_ok (memq_abs ?s)" "all_ids (memq_abs ?s) \<subseteq> all_ids (memq_abs s)"
      unfolding abs' by (rule aq_ok_reserve [OF ok w]) (simp only: all_ids_reserve order_refl)
    then have "memq_inv ?s" by (rule memq_invI [OF inv _ _ eq]) simp
    moreover have "op_reserve memq_ops q s = (Inr (fst (a_reserve q (memq_abs s))), ?s)"
      using Cons by (simp add: memq_ops_def mq_reserve_def memq_abs_def a_reserve_def m' Let_def)
    ultimately show ?thesis using abs' by blast
  qed
  assume fly: "m \<in> aq_fly (memq_abs s)"
  note rem = memq_remove [OF inv fly]
  show "\<exists>s'. op_ack memq_ops m s = (Inr (), s') \<and> memq_inv s' \<and> () = () \<and>
      memq_abs s' = a_ack m (memq_abs s)"
  proof -
    let ?s = "snd (mq_ack m s)"
    have abs': "memq_abs ?s = a_ack m (memq_abs s)"
      using rem by (simp add: mq_ack_def memq_abs_def a_ack_def)
    have eq: "mq_uuids ?s = mq_uuids s" "mq_inflight ?s = (mq_inflight s)(m_id m := None)"
      by (simp_all add: mq_ack_def)
    have "aq_ok (memq_abs ?s)" "all_ids (memq_abs ?s) \<subseteq> all_ids (memq_abs s)"
      unfolding abs' by (rule aq_ok_ack [OF ok]) (rule all_ids_ack_subset)
    then have "memq_inv ?s" by (rule memq_invI [OF inv _ _ eq]) simp
    with abs' show ?thesis by (simp add: memq_ops_def mq_ack_def)
  qed
  show "\<exists>s'. op_requeue memq_ops m s = (Inr (), s') \<and> memq_inv s' \<and> () = () \<and>
      memq_abs s' = a_requeue m (memq_abs s)"
  proof -
    let ?s = "snd (mq_requeue m s)"
    have abs': "memq_abs ?s = a_requeue m (memq_abs s)"
      using rem by (simp add: mq_requeue_def memq_abs_def a_requeue_def)
    have eq: "mq_uuids ?s = mq_uuids s" "mq_inflight ?s = (mq_inflight s)(m_id m := None)"
      by (simp_all add: mq_requeue_def)
    have "aq_ok (memq_abs ?s)" "all_ids (memq_abs ?s) \<subseteq> all_ids (memq_abs s)"
      unfolding abs' by (rule aq_ok_requeue [OF ok fly]) (simp only: all_ids_requeue [OF fly] order_refl)
    then have "memq_inv ?s" by (rule memq_invI [OF inv _ _ eq]) simp
    with abs' show ?thesis by (simp add: memq_ops_def mq_requeue_def)
  qed
  show "\<exists>s'. op_dead_letter memq_ops m err s = (Inr (), s') \<and> memq_inv s' \<and> () = () \<and>
      memq_abs s' = a_dead_letter m (memq_abs s)"
  proof -
    let ?s = "snd (mq_dead_letter m err s)"
    have abs': "memq_abs ?s = a_dead_letter m (memq_abs s)"
      using rem by (simp add: mq_dead_letter_def memq_abs_def a_dead_letter_def)
    have eq: "mq_uuids ?s = mq_uuids s" "mq_inflight ?s = (mq_inflight s)(m_id m := None)"
      by (simp_all add: mq_dead_letter_def)
    have "aq_ok (memq_abs ?s)" "all_ids (memq_abs ?s) \<subseteq> all_ids (memq_abs s)"
      unfolding abs' by (rule aq_ok_dead_letter [OF ok]) (simp only: all_ids_dead_letter [OF fly] order_refl)
    then have "memq_inv ?s" by (rule memq_invI [OF inv _ _ eq]) simp
    with abs' show ?thesis by (simp add: memq_ops_def mq_dead_letter_def)
  qed
qed

section \<open>Lifted implementations\<close>

lemma message_queue_lift:
  fixes inv :: "'a \<Rightarrow> bool" and abs :: "'a \<Rightarrow> aqueue"
  assumes "message_queue ops valid inv abs rest"
  shows "message_queue (lift_ops ops :: ('a \<times> 'w) mq_ops) valid (\<lambda>s. inv (fst s)) (\<lambda>s. abs (fst s)) snd"
proof unfold_locales
  fix s :: "'a \<times> 'w" and q p m err
  assume inv: "inv (fst s)"
  obtain a w where s [simp]: "s = (a, w)" by (cases s)
  have inv': "inv a" using inv by simp
  note [simp] = lift_ops_def
  show "aq_ok (abs (fst s))"
    using message_queue.abs_ok [OF assms inv'] by simp
  show "\<exists>i s'. op_publish (lift_ops ops) q p s = (Inr i, s') \<and> inv (fst s') \<and> snd s' = snd s \<and>
      i \<notin> all_ids (abs (fst s)) \<and> abs (fst s') = a_publish i q p (abs (fst s))"
    if "valid q" "payload_ok p"
    using message_queue.publish_refines [OF assms inv' that] by (fastforce dest: on_fst_eq [where w = w])
  show "\<exists>s'. op_reserve (lift_ops ops) q s = (Inr (fst (a_reserve q (abs (fst s)))), s') \<and>
      inv (fst s') \<and> snd s' = snd s \<and> abs (fst s') = snd (a_reserve q (abs (fst s)))" if "valid q"
    using message_queue.reserve_refines [OF assms inv' that] by (fastforce dest: on_fst_eq [where w = w])
  show "op_size (lift_ops ops) q s = (Inr (length (aq_wait (abs (fst s)) q)), s)" if "valid q"
    using message_queue.size_refines [OF assms inv' that] by (simp add: on_fst_def)
  assume fly: "m \<in> aq_fly (abs (fst s))" and q: "valid (m_queue m)"
  then have fly': "m \<in> aq_fly (abs a)" by simp
  show "\<exists>s'. op_ack (lift_ops ops) m s = (Inr (), s') \<and> inv (fst s') \<and> snd s' = snd s \<and>
      abs (fst s') = a_ack m (abs (fst s))"
    using message_queue.ack_refines [OF assms inv' fly' q] by (fastforce dest: on_fst_eq [where w = w])
  show "\<exists>s'. op_requeue (lift_ops ops) m s = (Inr (), s') \<and> inv (fst s') \<and> snd s' = snd s \<and>
      abs (fst s') = a_requeue m (abs (fst s))"
    using message_queue.requeue_refines [OF assms inv' fly' q] by (fastforce dest: on_fst_eq [where w = w])
  show "\<exists>s'. op_dead_letter (lift_ops ops) m err s = (Inr (), s') \<and> inv (fst s') \<and> snd s' = snd s \<and>
      abs (fst s') = a_dead_letter m (abs (fst s))"
    using message_queue.dead_letter_refines [OF assms inv' fly' q, of err]
    by (fastforce dest: on_fst_eq [where w = w])
qed

interpretation memw: message_queue "lift_ops memq_ops" "\<lambda>_. True" "\<lambda>s. memq_inv (fst s)"
  "\<lambda>s. memq_abs (fst s)" snd
  by (rule message_queue_lift) (rule memq.message_queue_axioms)

end
