(* ===== verification/Redis_Queue.thy ===== *)
theory Redis_Queue
  imports Queue
begin

text \<open>
  \<open>RedisQueue\<close> (\<open>core/queue/redis_queue.py\<close>), the durable implementation of the message-queue port.

  The Redis client is not part of the repository: it is the argument \<open>client\<close>, a record of the four
  commands of the \<open>_RedisClient\<close> protocol that the queue calls.  What the queue relies on is the
  locale \<open>redis_server\<close>: while the server is up the commands do to the server's lists what their
  documentation says.  An \<open>Inl\<close> of a command is a \<open>redis.exceptions.RedisError\<close>.

  A queue name is valid when it is not the name of a processing list or of a dead-letter list; only
  then do the three Redis lists of every queue keep apart.
\<close>

section \<open>The client\<close>

record 'r redis_client =
  rc_rpush :: "string \<Rightarrow> string \<Rightarrow> ('r, nat) py"
  rc_lmove :: "string \<Rightarrow> string \<Rightarrow> ('r, string option) py"
  rc_lrem :: "string \<Rightarrow> int \<Rightarrow> string \<Rightarrow> ('r, nat) py"
  rc_llen :: "string \<Rightarrow> ('r, nat) py"

locale redis_server =
  fixes client :: "'r redis_client"
    and lsts :: "'r \<Rightarrow> string \<Rightarrow> string list"
    and up :: "'r \<Rightarrow> bool"
  assumes rpush: "up r \<Longrightarrow> \<exists>n r'. rc_rpush client k v r = (Inr n, r') \<and> up r' \<and>
      lsts r' = (lsts r)(k := lsts r k @ [v])"
    and lmove: "up r \<Longrightarrow> src \<noteq> dst \<Longrightarrow> \<exists>r'. rc_lmove client src dst r =
        (Inr (case lsts r src of [] \<Rightarrow> None | v # vs \<Rightarrow> Some v), r') \<and> up r' \<and>
      lsts r' = (case lsts r src of [] \<Rightarrow> lsts r
        | v # vs \<Rightarrow> (lsts r)(src := vs, dst := lsts r dst @ [v]))"
    and lrem: "up r \<Longrightarrow> \<exists>n r'. rc_lrem client k 1 v r = (Inr n, r') \<and> up r' \<and>
      lsts r' = (lsts r)(k := remove1 v (lsts r k))"
    and llen: "up r \<Longrightarrow> rc_llen client k r = (Inr (length (lsts r k)), r)"

section \<open>The queue\<close>

record 'r redisq =
  rq_redis :: 'r
  rq_suffix :: string
  rq_inflight :: "string \<Rightarrow> string option"
  rq_uuids :: "nat \<Rightarrow> string"

definition redisq_init :: "'r \<Rightarrow> (nat \<Rightarrow> string) \<Rightarrow> 'r redisq" where
  "redisq_init r us = \<lparr>rq_redis = r, rq_suffix = '':dlq'', rq_inflight = \<lambda>_. None, rq_uuids = us\<rparr>"

definition processing_key :: "string \<Rightarrow> string" where
  "processing_key q = q @ '':processing''"

definition msg_dict :: "message \<Rightarrow> pydict" where
  "msg_dict m = [(''id'', JStr (m_id m)), (''queue'', JStr (m_queue m)),
     (''payload'', JObj (m_payload m)), (''attempts'', JInt (m_attempts m))]"

definition rq_encode :: "(real \<Rightarrow> string) \<Rightarrow> message \<Rightarrow> string" where
  "rq_encode fr m = dumps fr (JObj (msg_dict m))"

text \<open>
  \<open>_decode\<close>.  The dataclass does not check its field types: an entry whose fields have other types
  than the ones \<open>_encode\<close> writes is decoded by the program and is an error here.
\<close>

definition rq_decode :: "(string \<Rightarrow> pyfloat) \<Rightarrow> string \<Rightarrow> exn + message" where
  "rq_decode fp raw = (case loads fp raw of
      None \<Rightarrow> Inl (JSONDecodeError raw)
    | Some (JObj d) \<Rightarrow>
        (case dict_get d ''id'' of None \<Rightarrow> Inl (KeyError ''id'') | Some i \<Rightarrow>
         (case dict_get d ''queue'' of None \<Rightarrow> Inl (KeyError ''queue'') | Some q \<Rightarrow>
          (case dict_get d ''payload'' of None \<Rightarrow> Inl (KeyError ''payload'') | Some p \<Rightarrow>
           (case dict_get d ''attempts'' of None \<Rightarrow> Inl (KeyError ''attempts'') | Some a \<Rightarrow>
            (case (i, q, p, a) of
               (JStr i', JStr q', JObj p', JInt a') \<Rightarrow>
                 Inr \<lparr>m_id = i', m_queue = q', m_payload = p', m_attempts = a'\<rparr>
             | _ \<Rightarrow> Inl (OtherError ''entry''))))))
    | Some _ \<Rightarrow> Inl (TypeError ''entry''))"

text \<open>A command of the client, and the \<open>try ... except RedisError\<close> around it.\<close>

definition on_redis :: "('r, 'a) py \<Rightarrow> ('r redisq, 'a) py" where
  "on_redis f s = (case f (rq_redis s) of (r, r') \<Rightarrow> (r, s\<lparr>rq_redis := r'\<rparr>))"

definition redis_guard :: "string \<Rightarrow> ('s, 'a) py \<Rightarrow> ('s, 'a) py" where
  "redis_guard what f = py_catch f (\<lambda>e. py_raise (QueueError (what @ '': '' @ exn_str e)))"

definition rq_publish :: "'r redis_client \<Rightarrow> (real \<Rightarrow> string) \<Rightarrow> string \<Rightarrow> pydict \<Rightarrow> ('r redisq, string) py" where
  "rq_publish client fr q payload s =
     (let i = rq_uuids s 0;
          m = \<lparr>m_id = i, m_queue = q, m_payload = payload, m_attempts = 0\<rparr>
      in py_bind (redis_guard (''publish failed on queue '' @ py_repr q)
             (on_redis (rc_rpush client q (rq_encode fr m))))
           (\<lambda>_. py_ret i) (s\<lparr>rq_uuids := (\<lambda>n. rq_uuids s (Suc n))\<rparr>))"

definition rq_reserve :: "'r redis_client \<Rightarrow> (string \<Rightarrow> pyfloat) \<Rightarrow> string \<Rightarrow> ('r redisq, message option) py" where
  "rq_reserve client fp q =
     py_bind (redis_guard (''reserve failed on queue '' @ py_repr q)
         (on_redis (rc_lmove client q (processing_key q))))
       (\<lambda>raw. case raw of None \<Rightarrow> py_ret None | Some raw' \<Rightarrow>
         (case rq_decode fp raw' of
            Inl e \<Rightarrow> py_raise e
          | Inr m \<Rightarrow> (\<lambda>s.
             let delivered = \<lparr>m_id = m_id m, m_queue = m_queue m, m_payload = m_payload m,
                   m_attempts = m_attempts m + 1\<rparr>
             in (Inr (Some delivered),
                 s\<lparr>rq_inflight := (rq_inflight s)(m_id delivered := Some raw')\<rparr>))))"

text \<open>\<open>self._inflight.pop(message.id, self._encode(message))\<close>\<close>

definition rq_pop :: "(real \<Rightarrow> string) \<Rightarrow> message \<Rightarrow> 'r redisq \<Rightarrow> string \<times> 'r redisq" where
  "rq_pop fr m s = ((case rq_inflight s (m_id m) of None \<Rightarrow> rq_encode fr m | Some raw \<Rightarrow> raw),
     s\<lparr>rq_inflight := (rq_inflight s)(m_id m := None)\<rparr>)"

definition rq_ack :: "'r redis_client \<Rightarrow> (real \<Rightarrow> string) \<Rightarrow> message \<Rightarrow> ('r redisq, unit) py" where
  "rq_ack client fr m s = (case rq_pop fr m s of (raw, s1) \<Rightarrow>
     py_bind (redis_guard (''ack failed for message '' @ py_repr (m_id m))
         (on_redis (rc_lrem client (processing_key (m_queue m)) 1 raw)))
       (\<lambda>_. py_ret ()) s1)"

definition rq_requeue :: "'r redis_client \<Rightarrow> (real \<Rightarrow> string) \<Rightarrow> message \<Rightarrow> ('r redisq, unit) py" where
  "rq_requeue client fr m s = (case rq_pop fr m s of (raw, s1) \<Rightarrow>
     redis_guard (''requeue failed for message '' @ py_repr (m_id m))
       (py_bind (on_redis (rc_lrem client (processing_key (m_queue m)) 1 raw)) (\<lambda>_.
        py_bind (on_redis (rc_rpush client (m_queue m) (rq_encode fr m))) (\<lambda>_. py_ret ()))) s1)"

text \<open>
  The dead-letter entry is the canonical encoding read back, with the error added.  Reading back
  what \<open>_encode\<close> wrote cannot fail in Python; the failure branch is there because \<open>loads\<close> is partial.
\<close>

definition dlq_entry :: "(real \<Rightarrow> string) \<Rightarrow> (string \<Rightarrow> pyfloat) \<Rightarrow> message \<Rightarrow> string \<Rightarrow> exn + string" where
  "dlq_entry fr fp m err = (case loads fp (rq_encode fr m) of
      Some (JObj d) \<Rightarrow> Inr (dumps fr (JObj (dict_set ''error'' (JStr err) d)))
    | _ \<Rightarrow> Inl (JSONDecodeError (rq_encode fr m)))"

definition rq_dead_letter ::
  "'r redis_client \<Rightarrow> (real \<Rightarrow> string) \<Rightarrow> (string \<Rightarrow> pyfloat) \<Rightarrow> message \<Rightarrow> string \<Rightarrow> ('r redisq, unit) py" where
  "rq_dead_letter client fr fp m err s = (case rq_pop fr m s of (raw, s1) \<Rightarrow>
     (case dlq_entry fr fp m err of
        Inl e \<Rightarrow> (Inl e, s1)
      | Inr entry \<Rightarrow>
          redis_guard (''dead_letter failed for message '' @ py_repr (m_id m))
            (py_bind (on_redis (rc_lrem client (processing_key (m_queue m)) 1 raw)) (\<lambda>_.
             py_bind (on_redis (rc_rpush client (m_queue m @ rq_suffix s1) entry)) (\<lambda>_. py_ret ()))) s1))"

definition rq_size :: "'r redis_client \<Rightarrow> string \<Rightarrow> ('r redisq, nat) py" where
  "rq_size client q = redis_guard (''size failed on queue '' @ py_repr q) (on_redis (rc_llen client q))"

definition redis_ops :: "'r redis_client \<Rightarrow> (real \<Rightarrow> string) \<Rightarrow> (string \<Rightarrow> pyfloat) \<Rightarrow> 'r redisq mq_ops" where
  "redis_ops client fr fp = \<lparr>op_publish = rq_publish client fr, op_reserve = rq_reserve client fp,
     op_ack = rq_ack client fr, op_requeue = rq_requeue client fr,
     op_dead_letter = rq_dead_letter client fr fp, op_size = rq_size client\<rparr>"

lemmas redisq_op_defs = rq_publish_def rq_reserve_def rq_ack_def rq_requeue_def rq_dead_letter_def
  rq_size_def rq_pop_def redis_guard_def on_redis_def py_monad_defs

section \<open>Encoding\<close>

lemma json_ok_msg: "payload_ok (m_payload m) \<Longrightarrow> json_ok (JObj (msg_dict m))"
  by (simp add: payload_ok_def msg_dict_def)

lemma sort_msg_dict:
  "payload_ok (m_payload m) \<Longrightarrow> sort_json (JObj (msg_dict m)) =
     JObj [(''attempts'', JInt (m_attempts m)), (''id'', JStr (m_id m)),
       (''payload'', JObj (m_payload m)), (''queue'', JStr (m_queue m))]"
  by (simp add: msg_dict_def payload_ok_def)

lemma loads_encode: "payload_ok (m_payload m) \<Longrightarrow>
    loads fp (rq_encode fr m) = Some (JObj [(''attempts'', JInt (m_attempts m)), (''id'', JStr (m_id m)),
      (''payload'', JObj (m_payload m)), (''queue'', JStr (m_queue m))])"
  unfolding rq_encode_def by (simp only: loads_dumps [OF json_ok_msg] sort_msg_dict)

theorem decode_encode: "payload_ok (m_payload m) \<Longrightarrow> rq_decode fp (rq_encode fr m) = Inr m"
  by (simp add: rq_decode_def loads_encode dict_get_def)

lemma dlq_entry_ok:
  assumes p: "payload_ok (m_payload m)"
  shows "\<exists>raw. dlq_entry fr fp m err = Inr raw \<and> rq_decode fp raw = Inr m \<and>
     (\<exists>d. loads fp raw = Some (JObj d) \<and> dict_get d ''error'' = Some (JStr err))"
proof -
  define d where "d = dict_set ''error'' (JStr err) [(''attempts'', JInt (m_attempts m)),
    (''id'', JStr (m_id m)), (''payload'', JObj (m_payload m)), (''queue'', JStr (m_queue m))]"
  have ok: "json_ok (JObj d)" using p by (simp add: d_def dict_set_def payload_ok_def)
  have "sort_json (JObj d) = JObj [(''attempts'', JInt (m_attempts m)), (''error'', JStr err),
      (''id'', JStr (m_id m)), (''payload'', JObj (m_payload m)), (''queue'', JStr (m_queue m))]"
    using p by (simp add: d_def dict_set_def payload_ok_def)
  with loads_dumps [OF ok, of fp fr] show ?thesis
    by (simp add: dlq_entry_def loads_encode [OF p] rq_decode_def dict_get_def flip: d_def)
qed

section \<open>Refinement\<close>

definition valid_queue :: "string \<Rightarrow> bool" where
  "valid_queue q = (\<not> ends_with '':processing'' q \<and> \<not> ends_with '':dlq'' q)"

definition the_msg :: "(string \<Rightarrow> pyfloat) \<Rightarrow> string \<Rightarrow> message" where
  "the_msg fp raw = (case rq_decode fp raw of Inr m \<Rightarrow> m
     | Inl e \<Rightarrow> \<lparr>m_id = [], m_queue = [], m_payload = [], m_attempts = 0\<rparr>)"

lemma the_msg_encode [simp]: "payload_ok (m_payload m) \<Longrightarrow> the_msg fp (rq_encode fr m) = m"
  by (simp add: the_msg_def decode_encode)

lemma valid_queue_keys [simp]:
  assumes "valid_queue q"
  shows "q \<noteq> processing_key q'" "q \<noteq> q' @ '':dlq''" "processing_key q' \<noteq> q" "q' @ '':dlq'' \<noteq> q"
  using assms by (auto simp: valid_queue_def processing_key_def ends_with_iff)

lemma processing_key_simps [simp]:
  "processing_key q = processing_key q' \<longleftrightarrow> q = q'"
  "processing_key q \<noteq> q' @ '':dlq''" "q' @ '':dlq'' \<noteq> processing_key q"
proof -
  show "processing_key q = processing_key q' \<longleftrightarrow> q = q'" by (simp add: processing_key_def)
  have "last (processing_key q) \<noteq> last (q' @ '':dlq'')" by (simp add: processing_key_def)
  then show "processing_key q \<noteq> q' @ '':dlq''" "q' @ '':dlq'' \<noteq> processing_key q" by metis+
qed

text \<open>
  The messages behind the in-flight registry, and the abstraction.  A message in flight has been
  delivered once more than its stored bytes say.
\<close>

definition rq_fly :: "(string \<Rightarrow> pyfloat) \<Rightarrow> 'r redisq \<Rightarrow> string \<Rightarrow> message option" where
  "rq_fly fp s i = map_option (\<lambda>raw. bump (the_msg fp raw)) (rq_inflight s i)"

definition rq_abs :: "('r \<Rightarrow> string \<Rightarrow> string list) \<Rightarrow> (string \<Rightarrow> pyfloat) \<Rightarrow> 'r redisq \<Rightarrow> aqueue" where
  "rq_abs lsts fp s = \<lparr>
     aq_wait = \<lambda>q. if valid_queue q then map (the_msg fp) (lsts (rq_redis s) q) else [],
     aq_fly = ran (rq_fly fp s),
     aq_dead = \<lambda>q. if valid_queue q then map (the_msg fp) (lsts (rq_redis s) (q @ '':dlq'')) else []\<rparr>"

text \<open>
  \<open>proc_ok\<close> is the reliable-queue guarantee: the processing list of a queue holds, byte for byte
  and once each, the entries the in-flight registry knows, so a crash loses none of them and the
  \<open>LREM\<close> of an acknowledgement always matches.
\<close>

definition entry_ok :: "(real \<Rightarrow> string) \<Rightarrow> string \<Rightarrow> bool" where
  "entry_ok fr raw = (\<exists>m. raw = rq_encode fr m \<and> payload_ok (m_payload m))"

definition proc_ok ::
  "('r \<Rightarrow> string \<Rightarrow> string list) \<Rightarrow> (string \<Rightarrow> pyfloat) \<Rightarrow> 'r redisq \<Rightarrow> bool" where
  "proc_ok lsts fp s = (\<forall>q. valid_queue q \<longrightarrow> distinct (lsts (rq_redis s) (processing_key q)) \<and>
     set (lsts (rq_redis s) (processing_key q)) =
       {raw. \<exists>i. rq_inflight s i = Some raw \<and> m_queue (the_msg fp raw) = q})"

definition rq_inv :: "('r \<Rightarrow> string \<Rightarrow> string list) \<Rightarrow> ('r \<Rightarrow> bool) \<Rightarrow> (real \<Rightarrow> string) \<Rightarrow> (string \<Rightarrow> pyfloat) \<Rightarrow>
    'r redisq \<Rightarrow> bool" where
  "rq_inv lsts up fr fp s = (up (rq_redis s) \<and> rq_suffix s = '':dlq''
     \<and> (\<forall>q. valid_queue q \<longrightarrow> (\<forall>raw \<in> set (lsts (rq_redis s) q). entry_ok fr raw))
     \<and> (\<forall>i raw. rq_inflight s i = Some raw \<longrightarrow> entry_ok fr raw \<and> m_id (the_msg fp raw) = i)
     \<and> proc_ok lsts fp s
     \<and> aq_ok (rq_abs lsts fp s)
     \<and> inj (rq_uuids s) \<and> range (rq_uuids s) \<inter> all_ids (rq_abs lsts fp s) = {})"

lemma rq_invD:
  assumes "rq_inv lsts up fr fp s"
  shows rq_up: "up (rq_redis s)"
    and rq_suffix: "rq_suffix s = '':dlq''"
    and rq_entry: "valid_queue q \<Longrightarrow> raw \<in> set (lsts (rq_redis s) q) \<Longrightarrow> entry_ok fr raw"
    and rq_fly_entry: "rq_inflight s i = Some raw \<Longrightarrow> entry_ok fr raw"
    and rq_fly_id: "rq_inflight s i = Some raw \<Longrightarrow> m_id (the_msg fp raw) = i"
    and rq_proc: "proc_ok lsts fp s"
    and rq_aq_ok: "aq_ok (rq_abs lsts fp s)"
    and rq_inj: "inj (rq_uuids s)"
    and rq_fresh: "range (rq_uuids s) \<inter> all_ids (rq_abs lsts fp s) = {}"
  using assms unfolding rq_inv_def by blast+

lemma entry_ok_encode: "payload_ok (m_payload m) \<Longrightarrow> entry_ok fr (rq_encode fr m)"
  unfolding entry_ok_def by blast

lemma entry_okD: "entry_ok fr raw \<Longrightarrow> raw = rq_encode fr (the_msg fp raw) \<and> payload_ok (m_payload (the_msg fp raw))
    \<and> rq_decode fp raw = Inr (the_msg fp raw)"
  unfolding entry_ok_def by (elim exE conjE) (simp add: decode_encode)

text \<open>A message in flight and its stored bytes.\<close>

lemma rq_fly_mem:
  assumes inv: "rq_inv lsts up fr fp s" and m: "m \<in> aq_fly (rq_abs lsts fp s)"
  shows "\<exists>raw. rq_inflight s (m_id m) = Some raw \<and> m = bump (the_msg fp raw) \<and>
     raw = rq_encode fr (the_msg fp raw) \<and> payload_ok (m_payload m) \<and> rq_fly fp s (m_id m) = Some m"
proof -
  obtain i raw where i: "rq_inflight s i = Some raw" "m = bump (the_msg fp raw)"
    using m by (auto simp: rq_abs_def ran_def rq_fly_def)
  have "m_id m = i" using rq_fly_id [OF inv i(1)] i(2) by simp
  then show ?thesis
    using i entry_okD [OF rq_fly_entry [OF inv i(1)], of fp] by (auto simp: rq_fly_def)
qed

lemma rq_fly_key: "rq_inv lsts up fr fp s \<Longrightarrow> rq_fly fp s i = Some m \<Longrightarrow> m_id m = i"
  by (auto simp: rq_fly_def dest: rq_fly_id)

lemma rq_fly_remove:
  assumes inv: "rq_inv lsts up fr fp s" and m: "m \<in> aq_fly (rq_abs lsts fp s)"
    and s': "rq_inflight s' = (rq_inflight s)(m_id m := None)"
  shows "ran (rq_fly fp s') = aq_fly (rq_abs lsts fp s) - {m}"
proof -
  have "rq_fly fp s' = (rq_fly fp s)(m_id m := None)" using s' by (auto simp: rq_fly_def)
  moreover have "rq_fly fp s (m_id m) = Some m" using rq_fly_mem [OF inv m] by blast
  ultimately show ?thesis
    using ran_remove_id [of "rq_fly fp s", OF rq_fly_key [OF inv]] by (simp add: rq_abs_def)
qed

text \<open>Taking a message out of the registry and its bytes out of the processing list.\<close>

lemma proc_ok_remove:
  assumes inv: "rq_inv lsts up fr fp s" and m: "m \<in> aq_fly (rq_abs lsts fp s)"
    and raw: "rq_inflight s (m_id m) = Some raw"
    and s': "rq_inflight s' = (rq_inflight s)(m_id m := None)"
    and l: "\<And>q. valid_queue q \<Longrightarrow> lsts (rq_redis s') (processing_key q) =
      (if q = m_queue m then remove1 raw (lsts (rq_redis s) (processing_key q))
       else lsts (rq_redis s) (processing_key q))"
  shows "proc_ok lsts fp s'"
  unfolding proc_ok_def
proof (intro allI impI)
  fix q assume q: "valid_queue q"
  let ?l = "lsts (rq_redis s) (processing_key q)"
  have old: "distinct ?l" "set ?l = {raw. \<exists>i. rq_inflight s i = Some raw \<and> m_queue (the_msg fp raw) = q}"
    using rq_proc [OF inv] q unfolding proc_ok_def by blast+
  have mq: "m_queue (the_msg fp raw) = m_queue m"
    using rq_fly_mem [OF inv m] raw by auto
  have upd: "rq_inflight s' i = Some r \<longleftrightarrow> rq_inflight s i = Some r \<and> r \<noteq> raw" for i r
  proof (cases "i = m_id m")
    case False
    have "r \<noteq> raw" if r: "rq_inflight s i = Some r"
      using rq_fly_id [OF inv r] rq_fly_id [OF inv raw] False by metis
    then show ?thesis using False s' by auto
  qed (use s' raw in auto)
  have new: "(\<exists>i. rq_inflight s' i = Some r \<and> m_queue (the_msg fp r) = q) \<longleftrightarrow>
      (\<exists>i. rq_inflight s i = Some r \<and> m_queue (the_msg fp r) = q) \<and> r \<noteq> raw" for r
    unfolding upd by blast
  show "distinct (lsts (rq_redis s') (processing_key q)) \<and> set (lsts (rq_redis s') (processing_key q)) =
      {raw. \<exists>i. rq_inflight s' i = Some raw \<and> m_queue (the_msg fp raw) = q}"
    unfolding l [OF q] new using old mq by (auto simp: set_remove1_eq)
qed

lemma rq_invI:
  assumes "up (rq_redis s')" and "rq_suffix s' = '':dlq''"
    and "\<And>q raw. valid_queue q \<Longrightarrow> raw \<in> set (lsts (rq_redis s') q) \<Longrightarrow> entry_ok fr raw"
    and "\<And>i raw. rq_inflight s' i = Some raw \<Longrightarrow> entry_ok fr raw \<and> m_id (the_msg fp raw) = i"
    and "proc_ok lsts fp s'" and "aq_ok (rq_abs lsts fp s')"
    and "inj (rq_uuids s')" and "range (rq_uuids s') \<inter> all_ids (rq_abs lsts fp s') = {}"
  shows "rq_inv lsts up fr fp s'"
  using assms unfolding rq_inv_def by blast

lemma remove_inv:
  assumes inv: "rq_inv lsts up fr fp s" and m: "m \<in> aq_fly (rq_abs lsts fp s)"
    and raw: "rq_inflight s (m_id m) = Some raw"
    and s': "rq_inflight s' = (rq_inflight s)(m_id m := None)" "up (rq_redis s')"
      "rq_suffix s' = rq_suffix s" "rq_uuids s' = rq_uuids s"
    and l: "\<And>q. valid_queue q \<Longrightarrow> lsts (rq_redis s') (processing_key q) =
      (if q = m_queue m then remove1 raw (lsts (rq_redis s) (processing_key q))
       else lsts (rq_redis s) (processing_key q))"
    and e: "\<And>q r. valid_queue q \<Longrightarrow> r \<in> set (lsts (rq_redis s') q) \<Longrightarrow>
      r \<in> set (lsts (rq_redis s) q) \<or> entry_ok fr r"
    and a: "rq_abs lsts fp s' = a" "aq_ok a" "all_ids a \<subseteq> all_ids (rq_abs lsts fp s)"
  shows "rq_inv lsts up fr fp s'"
proof (rule rq_invI)
  show "up (rq_redis s')" "rq_suffix s' = '':dlq''" using s' rq_suffix [OF inv] by simp_all
  show "entry_ok fr r" if "valid_queue q" "r \<in> set (lsts (rq_redis s') q)" for q r
    using e [OF that] rq_entry [OF inv that(1)] by blast
  show "entry_ok fr r \<and> m_id (the_msg fp r) = i" if "rq_inflight s' i = Some r" for i r
    using that rq_fly_entry [OF inv, of i r] rq_fly_id [OF inv, of i r]
    by (simp add: s'(1) split: if_splits)
  show "proc_ok lsts fp s'" using proc_ok_remove [OF inv m raw s'(1) l] .
  show "aq_ok (rq_abs lsts fp s')" using a by simp
  show "inj (rq_uuids s')" "range (rq_uuids s') \<inter> all_ids (rq_abs lsts fp s') = {}"
    using rq_inj [OF inv] rq_fresh [OF inv] a s'(4) by auto
qed

context redis_server
begin

lemma publish_step:
  assumes inv: "rq_inv lsts up fr fp s" and q: "valid_queue q" and p: "payload_ok p"
  shows "\<exists>i s'. rq_publish client fr q p s = (Inr i, s') \<and> rq_inv lsts up fr fp s' \<and>
     i \<notin> all_ids (rq_abs lsts fp s) \<and> rq_abs lsts fp s' = a_publish i q p (rq_abs lsts fp s)"
proof -
  let ?i = "rq_uuids s 0"
  let ?m = "\<lparr>m_id = ?i, m_queue = q, m_payload = p, m_attempts = 0\<rparr>"
  have pm: "payload_ok (m_payload ?m)" using p by simp
  obtain n r' where r': "rc_rpush client q (rq_encode fr ?m) (rq_redis s) = (Inr n, r')" "up r'"
    "lsts r' = (lsts (rq_redis s))(q := lsts (rq_redis s) q @ [rq_encode fr ?m])"
    using rpush [OF rq_up [OF inv]] by blast
  define s' where "s' = s\<lparr>rq_uuids := (\<lambda>n. rq_uuids s (Suc n)), rq_redis := r'\<rparr>"
  have pub: "rq_publish client fr q p s = (Inr ?i, s')"
    by (simp add: redisq_op_defs r'(1) s'_def)
  have new: "?i \<notin> all_ids (rq_abs lsts fp s)" using rq_fresh [OF inv] by auto
  have abs': "rq_abs lsts fp s' = a_publish ?i q p (rq_abs lsts fp s)"
    using q the_msg_encode [OF pm, of fp fr]
    by (auto simp: rq_abs_def a_publish_def s'_def r'(3) rq_fly_def [abs_def] fun_eq_iff)
  have "rq_inv lsts up fr fp s'"
  proof (rule rq_invI)
    show "up (rq_redis s')" "rq_suffix s' = '':dlq''"
      using r'(2) rq_suffix [OF inv] by (simp_all add: s'_def)
    show "entry_ok fr raw" if "valid_queue q'" "raw \<in> set (lsts (rq_redis s') q')" for q' raw
      using that rq_entry [OF inv] entry_ok_encode [OF pm]
      by (auto simp: s'_def r'(3) split: if_splits)
    show "entry_ok fr raw \<and> m_id (the_msg fp raw) = i" if "rq_inflight s' i = Some raw" for i raw
      using that rq_fly_entry [OF inv] rq_fly_id [OF inv] by (simp add: s'_def)
    show "proc_ok lsts fp s'"
      using rq_proc [OF inv] q by (simp add: proc_ok_def s'_def r'(3))
    show "aq_ok (rq_abs lsts fp s')"
      unfolding abs' using aq_ok_publish [OF rq_aq_ok [OF inv] _ p] new by (simp add: all_ids_def)
    show "inj (rq_uuids s')" "range (rq_uuids s') \<inter> all_ids (rq_abs lsts fp s') = {}"
      using uuids_shift [OF rq_inj [OF inv] rq_fresh [OF inv], of "all_ids (rq_abs lsts fp s')"]
      by (simp_all only: abs' all_ids_publish order_refl) (simp_all add: s'_def)
  qed
  with pub new abs' show ?thesis by blast
qed

lemma reserve_step:
  assumes inv: "rq_inv lsts up fr fp s" and q: "valid_queue q"
  shows "\<exists>s'. rq_reserve client fp q s = (Inr (fst (a_reserve q (rq_abs lsts fp s))), s') \<and>
     rq_inv lsts up fr fp s' \<and> rq_abs lsts fp s' = snd (a_reserve q (rq_abs lsts fp s))"
proof -
  let ?l = "lsts (rq_redis s)"
  obtain r' where r': "rc_lmove client q (processing_key q) (rq_redis s) =
      (Inr (case ?l q of [] \<Rightarrow> None | v # vs \<Rightarrow> Some v), r')" "up r'"
    "lsts r' = (case ?l q of [] \<Rightarrow> ?l
       | v # vs \<Rightarrow> ?l(q := vs, processing_key q := ?l (processing_key q) @ [v]))"
    using lmove [OF rq_up [OF inv] valid_queue_keys(1) [OF q]] by blast
  show ?thesis
  proof (cases "?l q")
    case Nil
    define s' where "s' = s\<lparr>rq_redis := r'\<rparr>"
    have same: "lsts (rq_redis s') = ?l" "up (rq_redis s')" using Nil r' by (simp_all add: s'_def)
    have abs': "rq_abs lsts fp s' = rq_abs lsts fp s"
      unfolding rq_abs_def same by (simp add: s'_def rq_fly_def [abs_def])
    have "rq_inv lsts up fr fp s'"
      using inv same unfolding rq_inv_def abs' proc_ok_def by (simp add: s'_def)
    moreover have "rq_reserve client fp q s = (Inr None, s')"
      using Nil r'(1) by (simp add: redisq_op_defs s'_def)
    moreover have "a_reserve q (rq_abs lsts fp s) = (None, rq_abs lsts fp s)"
      using Nil q by (simp add: a_reserve_def rq_abs_def)
    ultimately show ?thesis using abs' by simp
  next
    case (Cons raw raws)
    define m where "m = the_msg fp raw"
    have ok: "entry_ok fr raw" using rq_entry [OF inv q] Cons by simp
    have dec_raw: "rq_decode fp raw = Inr m" using entry_okD [OF ok, of fp] by (simp add: m_def)
    have w: "aq_wait (rq_abs lsts fp s) q = m # map (the_msg fp) raws"
      using Cons q by (simp add: rq_abs_def m_def)
    define s' where "s' = s\<lparr>rq_redis := r', rq_inflight := (rq_inflight s)(m_id m := Some raw)\<rparr>"
    have l': "lsts (rq_redis s') = ?l(q := raws, processing_key q := ?l (processing_key q) @ [raw])"
      using r'(3) Cons by (simp add: s'_def)
    have free: "rq_inflight s (m_id m) = None"
    proof (rule ccontr)
      assume "rq_inflight s (m_id m) \<noteq> None"
      then obtain raw' where r: "rq_inflight s (m_id m) = Some raw'" by auto
      then have "bump (the_msg fp raw') \<in> aq_fly (rq_abs lsts fp s)"
        by (auto simp: rq_abs_def ran_def rq_fly_def)
      from aq_ok_head(5) [OF rq_aq_ok [OF inv] w this] rq_fly_id [OF inv r] show False by simp
    qed
    have res: "rq_reserve client fp q s = (Inr (Some (bump m)), s')"
      using Cons r'(1) dec_raw by (simp add: redisq_op_defs s'_def bump_def Let_def)
    have fly': "rq_fly fp s' = (rq_fly fp s)(m_id m := Some (bump m))"
      by (auto simp: rq_fly_def s'_def m_def)
    have "ran (rq_fly fp s') = insert (bump m) (ran (rq_fly fp s))"
      unfolding fly' using free ran_insert_id [of "rq_fly fp s" "bump m"] by (simp add: rq_fly_def)
    then have abs': "rq_abs lsts fp s' = snd (a_reserve q (rq_abs lsts fp s))"
      using Cons q l' by (auto simp: rq_abs_def a_reserve_def m_def fun_eq_iff)
    have notin: "raw \<notin> set (?l (processing_key q))"
    proof
      assume "raw \<in> set (?l (processing_key q))"
      then obtain i where "rq_inflight s i = Some raw" using rq_proc [OF inv] q by (auto simp: proc_ok_def)
      with rq_fly_id [OF inv this] free show False by (simp add: m_def)
    qed
    have mq: "m_queue m = q" using aq_ok_head(3) [OF rq_aq_ok [OF inv] w] .
    have infl: "rq_inflight s' i = Some r \<longleftrightarrow> rq_inflight s i = Some r \<or> (i = m_id m \<and> r = raw)" for i r
      using free by (auto simp: s'_def)
    have "rq_inv lsts up fr fp s'"
    proof (rule rq_invI)
      show "up (rq_redis s')" "rq_suffix s' = '':dlq''"
        using r'(2) rq_suffix [OF inv] by (simp_all add: s'_def)
      show "entry_ok fr r" if "valid_queue q'" "r \<in> set (lsts (rq_redis s') q')" for q' r
        using that rq_entry [OF inv that(1)] Cons by (auto simp: l' split: if_splits)
      show "entry_ok fr r \<and> m_id (the_msg fp r) = i" if "rq_inflight s' i = Some r" for i r
        using that rq_fly_entry [OF inv] rq_fly_id [OF inv] ok m_def unfolding infl by blast
      show "proc_ok lsts fp s'"
        unfolding proc_ok_def infl
      proof (intro allI impI)
        fix q' assume q': "valid_queue q'"
        have old: "distinct (?l (processing_key q'))" "set (?l (processing_key q')) =
            {raw. \<exists>i. rq_inflight s i = Some raw \<and> m_queue (the_msg fp raw) = q'}"
          using rq_proc [OF inv] q' unfolding proc_ok_def by blast+
        show "distinct (lsts (rq_redis s') (processing_key q')) \<and>
          set (lsts (rq_redis s') (processing_key q')) = {r. \<exists>i. (rq_inflight s i = Some r \<or>
            i = m_id m \<and> r = raw) \<and> m_queue (the_msg fp r) = q'}"
          using old notin mq valid_queue_keys(3) [OF q, of q'] by (auto simp: l' m_def)
      qed
      show "aq_ok (rq_abs lsts fp s')"
        unfolding abs' by (rule aq_ok_reserve [OF rq_aq_ok [OF inv] w])
      show "inj (rq_uuids s')" "range (rq_uuids s') \<inter> all_ids (rq_abs lsts fp s') = {}"
        unfolding abs' all_ids_reserve using rq_inj [OF inv] rq_fresh [OF inv] by (simp_all add: s'_def)
    qed
    moreover have "fst (a_reserve q (rq_abs lsts fp s)) = Some (bump m)"
      using w by (simp add: a_reserve_def)
    ultimately show ?thesis using res abs' by simp
  qed
qed

text \<open>The registry entry and the processing-list entry of a message in flight.\<close>

lemma pop_lrem:
  assumes inv: "rq_inv lsts up fr fp s" and m: "m \<in> aq_fly (rq_abs lsts fp s)"
  obtains raw n r' where "rq_inflight s (m_id m) = Some raw"
    "rq_pop fr m s = (raw, s\<lparr>rq_inflight := (rq_inflight s)(m_id m := None)\<rparr>)"
    "rc_lrem client (processing_key (m_queue m)) 1 raw (rq_redis s) = (Inr n, r')" "up r'"
    "lsts r' = (lsts (rq_redis s))(processing_key (m_queue m) :=
       remove1 raw (lsts (rq_redis s) (processing_key (m_queue m))))"
proof -
  obtain raw where raw: "rq_inflight s (m_id m) = Some raw" using rq_fly_mem [OF inv m] by blast
  obtain n r' where "rc_lrem client (processing_key (m_queue m)) 1 raw (rq_redis s) = (Inr n, r')" "up r'"
    "lsts r' = (lsts (rq_redis s))(processing_key (m_queue m) :=
       remove1 raw (lsts (rq_redis s) (processing_key (m_queue m))))"
    using lrem [OF rq_up [OF inv]] by blast
  with raw show ?thesis by (intro that [of raw n r']) (simp_all add: rq_pop_def)
qed

lemma ack_step:
  assumes inv: "rq_inv lsts up fr fp s" and m: "m \<in> aq_fly (rq_abs lsts fp s)"
  shows "\<exists>s'. rq_ack client fr m s = (Inr (), s') \<and> rq_inv lsts up fr fp s' \<and>
     rq_abs lsts fp s' = a_ack m (rq_abs lsts fp s)"
proof -
  obtain raw n r' where c: "rq_inflight s (m_id m) = Some raw"
    "rq_pop fr m s = (raw, s\<lparr>rq_inflight := (rq_inflight s)(m_id m := None)\<rparr>)"
    "rc_lrem client (processing_key (m_queue m)) 1 raw (rq_redis s) = (Inr n, r')" "up r'"
    "lsts r' = (lsts (rq_redis s))(processing_key (m_queue m) :=
       remove1 raw (lsts (rq_redis s) (processing_key (m_queue m))))"
    by (rule pop_lrem [OF inv m])
  define s' where "s' = s\<lparr>rq_inflight := (rq_inflight s)(m_id m := None), rq_redis := r'\<rparr>"
  have f: "rq_inflight s' = (rq_inflight s)(m_id m := None)" "up (rq_redis s')"
    "rq_suffix s' = rq_suffix s" "rq_uuids s' = rq_uuids s" "rq_redis s' = r'"
    using c(4) by (simp_all add: s'_def)
  have abs': "rq_abs lsts fp s' = a_ack m (rq_abs lsts fp s)"
    using rq_fly_remove [OF inv m f(1)] by (auto simp: rq_abs_def a_ack_def f(5) c(5) fun_eq_iff)
  have "rq_inv lsts up fr fp s'"
    by (rule remove_inv [OF inv m c(1) f(1-4) _ _ abs' aq_ok_ack [OF rq_aq_ok [OF inv]] all_ids_ack_subset])
      (simp_all add: f(5) c(5))
  moreover have "rq_ack client fr m s = (Inr (), s')"
    by (simp add: rq_ack_def c(2)) (simp add: redisq_op_defs c(3) s'_def)
  ultimately show ?thesis using abs' by blast
qed

lemma reserve_ack_bytes:
  assumes inv: "rq_inv lsts up fr fp s" and q: "valid_queue q"
    and l: "lsts (rq_redis s) q = raw # raws"
  shows "\<exists>m s1 s2. rq_reserve client fp q s = (Inr (Some (bump m)), s1) \<and> rq_decode fp raw = Inr m \<and>
     lsts (rq_redis s1) q = raws \<and>
     lsts (rq_redis s1) (processing_key q) = lsts (rq_redis s) (processing_key q) @ [raw] \<and>
     rq_ack client fr (bump m) s1 = (Inr (), s2) \<and>
     lsts (rq_redis s2) (processing_key q) = lsts (rq_redis s) (processing_key q) \<and>
     rq_inv lsts up fr fp s2"
proof -
  let ?l = "lsts (rq_redis s)" and ?m = "the_msg fp raw"
  have dec: "rq_decode fp raw = Inr ?m" using entry_okD [OF rq_entry [OF inv q], of raw fp] l by simp
  obtain r' where r': "rc_lmove client q (processing_key q) (rq_redis s) = (Inr (Some raw), r')"
    "lsts r' = ?l(q := raws, processing_key q := ?l (processing_key q) @ [raw])"
    using lmove [OF rq_up [OF inv] valid_queue_keys(1) [OF q]] l by fastforce
  define s1 where "s1 = s\<lparr>rq_redis := r', rq_inflight := (rq_inflight s)(m_id ?m := Some raw)\<rparr>"
  have res: "rq_reserve client fp q s = (Inr (Some (bump ?m)), s1)"
    using r'(1) dec by (simp add: redisq_op_defs s1_def bump_def Let_def)
  have w: "aq_wait (rq_abs lsts fp s) q = ?m # map (the_msg fp) raws" using l q by (simp add: rq_abs_def)
  have inv1: "rq_inv lsts up fr fp s1" and abs1: "rq_abs lsts fp s1 = snd (a_reserve q (rq_abs lsts fp s))"
    using reserve_step [OF inv q] res by auto
  have fly: "bump ?m \<in> aq_fly (rq_abs lsts fp s1)" using w by (simp add: abs1 a_reserve_def)
  have mq: "m_queue (bump ?m) = q" using aq_ok_head(3) [OF rq_aq_ok [OF inv] w] by simp
  have dist: "distinct (lsts (rq_redis s1) (processing_key q))"
    using rq_proc [OF inv1] q by (simp add: proc_ok_def)
  have l1: "lsts (rq_redis s1) q = raws" "lsts (rq_redis s1) (processing_key q) = ?l (processing_key q) @ [raw]"
    using valid_queue_keys(1) [OF q, of q] by (simp_all add: s1_def r'(2))
  obtain raw2 n r2 where c: "rq_inflight s1 (m_id (bump ?m)) = Some raw2"
    "rq_pop fr (bump ?m) s1 = (raw2, s1\<lparr>rq_inflight := (rq_inflight s1)(m_id (bump ?m) := None)\<rparr>)"
    "rc_lrem client (processing_key (m_queue (bump ?m))) 1 raw2 (rq_redis s1) = (Inr n, r2)" "up r2"
    "lsts r2 = (lsts (rq_redis s1))(processing_key (m_queue (bump ?m)) :=
       remove1 raw2 (lsts (rq_redis s1) (processing_key (m_queue (bump ?m)))))"
    by (rule pop_lrem [OF inv1 fly])
  define s2 where "s2 = s1\<lparr>rq_inflight := (rq_inflight s1)(m_id (bump ?m) := None), rq_redis := r2\<rparr>"
  have ack: "rq_ack client fr (bump ?m) s1 = (Inr (), s2)"
    by (simp add: rq_ack_def c(2)) (simp add: redisq_op_defs c(3) [simplified] s2_def)
  have "raw2 = raw" using c(1) by (simp add: s1_def)
  then have "lsts (rq_redis s2) (processing_key q) = ?l (processing_key q)"
    using c(5) mq l1(2) dist by (simp add: s2_def remove1_append)
  moreover have "rq_inv lsts up fr fp s2" using ack_step [OF inv1 fly] ack by auto
  ultimately show ?thesis using res dec l1 ack by blast
qed

lemma requeue_step:
  assumes inv: "rq_inv lsts up fr fp s" and m: "m \<in> aq_fly (rq_abs lsts fp s)"
    and q: "valid_queue (m_queue m)"
  shows "\<exists>s'. rq_requeue client fr m s = (Inr (), s') \<and> rq_inv lsts up fr fp s' \<and>
     rq_abs lsts fp s' = a_requeue m (rq_abs lsts fp s)"
proof -
  obtain raw n r' where c: "rq_inflight s (m_id m) = Some raw"
    "rq_pop fr m s = (raw, s\<lparr>rq_inflight := (rq_inflight s)(m_id m := None)\<rparr>)"
    "rc_lrem client (processing_key (m_queue m)) 1 raw (rq_redis s) = (Inr n, r')" "up r'"
    "lsts r' = (lsts (rq_redis s))(processing_key (m_queue m) :=
       remove1 raw (lsts (rq_redis s) (processing_key (m_queue m))))"
    by (rule pop_lrem [OF inv m])
  obtain k r2 where r2: "rc_rpush client (m_queue m) (rq_encode fr m) r' = (Inr k, r2)" "up r2"
    "lsts r2 = (lsts r')(m_queue m := lsts r' (m_queue m) @ [rq_encode fr m])"
    using rpush [OF c(4)] by blast
  have pm: "payload_ok (m_payload m)" using rq_fly_mem [OF inv m] by blast
  define s' where "s' = s\<lparr>rq_inflight := (rq_inflight s)(m_id m := None), rq_redis := r2\<rparr>"
  have f: "rq_inflight s' = (rq_inflight s)(m_id m := None)" "up (rq_redis s')"
    "rq_suffix s' = rq_suffix s" "rq_uuids s' = rq_uuids s" "rq_redis s' = r2"
    using r2(2) by (simp_all add: s'_def)
  have abs': "rq_abs lsts fp s' = a_requeue m (rq_abs lsts fp s)"
    using rq_fly_remove [OF inv m f(1)] q pm
    by (auto simp: rq_abs_def a_requeue_def f(5) c(5) r2(3) fun_eq_iff)
  have ids: "all_ids (a_requeue m (rq_abs lsts fp s)) \<subseteq> all_ids (rq_abs lsts fp s)"
    using all_ids_requeue [OF m] by simp
  have "rq_inv lsts up fr fp s'"
    using q entry_ok_encode [OF pm]
    by (intro remove_inv [OF inv m c(1) f(1-4) _ _ abs' aq_ok_requeue [OF rq_aq_ok [OF inv] m] ids])
      (auto simp: f(5) c(5) r2(3) split: if_splits)
  moreover have "rq_requeue client fr m s = (Inr (), s')"
    by (simp add: rq_requeue_def c(2)) (simp add: redisq_op_defs c(3) r2(1) s'_def)
  ultimately show ?thesis using abs' by blast
qed

lemma dead_letter_step:
  assumes inv: "rq_inv lsts up fr fp s" and m: "m \<in> aq_fly (rq_abs lsts fp s)"
    and q: "valid_queue (m_queue m)"
  shows "\<exists>s'. rq_dead_letter client fr fp m err s = (Inr (), s') \<and> rq_inv lsts up fr fp s' \<and>
     rq_abs lsts fp s' = a_dead_letter m (rq_abs lsts fp s)"
proof -
  obtain raw n r' where c: "rq_inflight s (m_id m) = Some raw"
    "rq_pop fr m s = (raw, s\<lparr>rq_inflight := (rq_inflight s)(m_id m := None)\<rparr>)"
    "rc_lrem client (processing_key (m_queue m)) 1 raw (rq_redis s) = (Inr n, r')" "up r'"
    "lsts r' = (lsts (rq_redis s))(processing_key (m_queue m) :=
       remove1 raw (lsts (rq_redis s) (processing_key (m_queue m))))"
    by (rule pop_lrem [OF inv m])
  have pm: "payload_ok (m_payload m)" using rq_fly_mem [OF inv m] by blast
  obtain entry where e: "dlq_entry fr fp m err = Inr entry" "rq_decode fp entry = Inr m"
    using dlq_entry_ok [OF pm, of fr fp err] by blast
  let ?k = "m_queue m @ '':dlq''"
  obtain k r2 where r2: "rc_rpush client ?k entry r' = (Inr k, r2)" "up r2"
    "lsts r2 = (lsts r')(?k := lsts r' ?k @ [entry])"
    using rpush [OF c(4)] by blast
  define s' where "s' = s\<lparr>rq_inflight := (rq_inflight s)(m_id m := None), rq_redis := r2\<rparr>"
  have f: "rq_inflight s' = (rq_inflight s)(m_id m := None)" "up (rq_redis s')"
    "rq_suffix s' = rq_suffix s" "rq_uuids s' = rq_uuids s" "rq_redis s' = r2"
    using r2(2) by (simp_all add: s'_def)
  have abs': "rq_abs lsts fp s' = a_dead_letter m (rq_abs lsts fp s)"
    using rq_fly_remove [OF inv m f(1)] q e(2)
    by (auto simp: rq_abs_def a_dead_letter_def f(5) c(5) r2(3) the_msg_def fun_eq_iff)
  have ids: "all_ids (a_dead_letter m (rq_abs lsts fp s)) \<subseteq> all_ids (rq_abs lsts fp s)"
    using all_ids_dead_letter [OF m] by simp
  have "rq_inv lsts up fr fp s'"
    by (rule remove_inv [OF inv m c(1) f(1-4) _ _ abs' aq_ok_dead_letter [OF rq_aq_ok [OF inv]] ids])
      (auto simp: f(5) c(5) r2(3) split: if_splits)
  moreover have "rq_dead_letter client fr fp m err s = (Inr (), s')"
    using rq_suffix [OF inv]
    by (simp add: rq_dead_letter_def c(2) e(1)) (simp add: redisq_op_defs c(3) r2(1) s'_def)
  ultimately show ?thesis using abs' by blast
qed

lemma size_step:
  assumes inv: "rq_inv lsts up fr fp s" and q: "valid_queue q"
  shows "rq_size client q s = (Inr (length (aq_wait (rq_abs lsts fp s) q)), s)"
  using llen [OF rq_up [OF inv], of q] q by (simp add: redisq_op_defs rq_abs_def)

end

sublocale redis_server \<subseteq> rq: message_queue "redis_ops client fr fp" valid_queue "rq_inv lsts up fr fp"
  "rq_abs lsts fp" "\<lambda>_. ()" for fr fp
proof unfold_locales
  fix s :: "'r redisq" and q p m err
  assume inv: "rq_inv lsts up fr fp s"
  show "aq_ok (rq_abs lsts fp s)" by (rule rq_aq_ok [OF inv])
  show "\<exists>i s'. op_publish (redis_ops client fr fp) q p s = (Inr i, s') \<and> rq_inv lsts up fr fp s' \<and>
      () = () \<and> i \<notin> all_ids (rq_abs lsts fp s) \<and> rq_abs lsts fp s' = a_publish i q p (rq_abs lsts fp s)"
    if "valid_queue q" "payload_ok p"
    using publish_step [OF inv that] by (simp add: redis_ops_def)
  show "\<exists>s'. op_reserve (redis_ops client fr fp) q s = (Inr (fst (a_reserve q (rq_abs lsts fp s))), s') \<and>
      rq_inv lsts up fr fp s' \<and> () = () \<and> rq_abs lsts fp s' = snd (a_reserve q (rq_abs lsts fp s))"
    if "valid_queue q"
    using reserve_step [OF inv that] by (simp add: redis_ops_def)
  show "op_size (redis_ops client fr fp) q s = (Inr (length (aq_wait (rq_abs lsts fp s) q)), s)"
    if "valid_queue q"
    using size_step [OF inv that] by (simp add: redis_ops_def)
  assume fly: "m \<in> aq_fly (rq_abs lsts fp s)" and q: "valid_queue (m_queue m)"
  show "\<exists>s'. op_ack (redis_ops client fr fp) m s = (Inr (), s') \<and> rq_inv lsts up fr fp s' \<and> () = () \<and>
      rq_abs lsts fp s' = a_ack m (rq_abs lsts fp s)"
    using ack_step [OF inv fly] by (simp add: redis_ops_def)
  show "\<exists>s'. op_requeue (redis_ops client fr fp) m s = (Inr (), s') \<and> rq_inv lsts up fr fp s' \<and> () = () \<and>
      rq_abs lsts fp s' = a_requeue m (rq_abs lsts fp s)"
    using requeue_step [OF inv fly q] by (simp add: redis_ops_def)
  show "\<exists>s'. op_dead_letter (redis_ops client fr fp) m err s = (Inr (), s') \<and> rq_inv lsts up fr fp s' \<and>
      () = () \<and> rq_abs lsts fp s' = a_dead_letter m (rq_abs lsts fp s)"
    using dead_letter_step [OF inv fly q] by (simp add: redis_ops_def)
qed

context redis_server
begin

lemmas redis_drain_refines = rq.drain_refines
lemmas redis_drain_terminates = rq.drain_terminates

end

section \<open>A list server\<close>

text \<open>The four commands on a map from keys to lists, a server that is always up.\<close>

definition list_client :: "(string \<Rightarrow> string list) redis_client" where
  "list_client = \<lparr>
     rc_rpush = \<lambda>k v r. (Inr (Suc (length (r k))), r(k := r k @ [v])),
     rc_lmove = \<lambda>src dst r. (case r src of [] \<Rightarrow> (Inr None, r)
       | v # vs \<Rightarrow> (Inr (Some v), (let r1 = r(src := vs) in r1(dst := r1 dst @ [v])))),
     rc_lrem = \<lambda>k n v r. (Inr (length (r k) - length (remove1 v (r k))), r(k := remove1 v (r k))),
     rc_llen = \<lambda>k r. (Inr (length (r k)), r)\<rparr>"

interpretation list_redis: redis_server list_client "\<lambda>r. r" "\<lambda>_. True"
  by unfold_locales (auto simp: list_client_def split: list.splits)

text \<open>The empty queue of each implementation satisfies its invariant.\<close>

lemma aq_ok_empty: "aq_ok \<lparr>aq_wait = \<lambda>_. [], aq_fly = {}, aq_dead = \<lambda>_. []\<rparr>"
  by (simp add: aq_ok_def)

lemma all_ids_empty: "all_ids \<lparr>aq_wait = \<lambda>_. [], aq_fly = {}, aq_dead = \<lambda>_. []\<rparr> = {}"
  by (simp add: all_ids_def wait_ids_def fly_ids_def dead_ids_def)

lemma memq_abs_init: "memq_abs (memq_init us) = \<lparr>aq_wait = \<lambda>_. [], aq_fly = {}, aq_dead = \<lambda>_. []\<rparr>"
  by (simp add: memq_abs_def memq_init_def)

lemma rq_abs_init: "rq_abs (\<lambda>r. r) fp (redisq_init (\<lambda>_. []) us) =
    \<lparr>aq_wait = \<lambda>_. [], aq_fly = {}, aq_dead = \<lambda>_. []\<rparr>"
  by (simp add: rq_abs_def redisq_init_def rq_fly_def [abs_def] cong: if_cong)

lemma memq_inv_init: "inj us \<Longrightarrow> memq_inv (memq_init us)"
  unfolding memq_inv_def memq_abs_init by (simp add: aq_ok_empty all_ids_empty) (simp add: memq_init_def)

lemma rq_inv_init: "inj us \<Longrightarrow> rq_inv (\<lambda>r. r) (\<lambda>_. True) fr fp (redisq_init (\<lambda>_. []) us)"
  unfolding rq_inv_def rq_abs_init
  by (simp add: aq_ok_empty all_ids_empty) (simp add: redisq_init_def proc_ok_def)

text \<open>A supply of distinct ids, for concrete runs.\<close>

definition test_ids :: "nat \<Rightarrow> string" where
  "test_ids n = replicate n (CHR ''u'')"

lemma inj_test_ids: "inj test_ids"
  unfolding test_ids_def by (rule injI) (metis length_replicate)

section \<open>Properties of the two queues\<close>

text \<open>
  C15.  The drain loop on the in-memory queue terminates: whatever the handler does to the rest of the
  world, and even if it publishes to other queues, after at most \<open>max_retries - attempts + 1\<close>
  rounds per waiting message the loop has returned normally, the queue is empty, and nothing that
  was not in flight before is in flight after.
\<close>

theorem memq_drain_terminates:
  assumes "memq_inv s"
    and "\<And>p s w r s' w'. memq_inv s \<Longrightarrow> h p (s, w) = (r, (s', w')) \<Longrightarrow>
      memq_inv s' \<and> mq_queues s' q = mq_queues s q \<and> mq_inflight s' = mq_inflight s \<and> mq_dead s' = mq_dead s"
    and "work mx (mq_queues s q) < fuel"
  shows "\<exists>s' w'. drain fuel (consume_once (lift_ops memq_ops) q h mx) (s, w) = Some (Inr (), (s', w')) \<and>
     memq_inv s' \<and> mq_queues s' q = [] \<and> ran (mq_inflight s') \<subseteq> ran (mq_inflight s)"
proof -
  have "memw.well_behaved q h"
    unfolding memw.well_behaved_def
  proof (intro allI impI)
    fix p and s :: "memq \<times> 'a" and r s'
    assume a: "memq_inv (fst s)" "h p s = (r, s')"
    have "h p (fst s, snd s) = (r, (fst s', snd s'))" using a(2) by simp
    from assms(2) [OF a(1) this] show "memq_inv (fst s') \<and>
        aq_wait (memq_abs (fst s')) q = aq_wait (memq_abs (fst s)) q \<and>
        aq_fly (memq_abs (fst s')) = aq_fly (memq_abs (fst s)) \<and>
        aq_dead (memq_abs (fst s')) = aq_dead (memq_abs (fst s))"
      by (simp add: memq_abs_def)
  qed
  with memw.drain_terminates [of "(s, w)" q h mx fuel] assms(1,3) show ?thesis
    by (simp add: memq_abs_def)
qed

definition two_jobs :: memq where
  "two_jobs = snd (mq_publish ''jobs'' [(''n'', JInt 2)]
     (snd (mq_publish ''jobs'' [(''n'', JInt 1)] (memq_init test_ids))))"

lemma two_jobs_inv: "memq_inv two_jobs"
proof -
  have p: "payload_ok [(''n'', JInt k)]" for k by (simp add: payload_ok_def)
  have "memq_inv (snd (mq_publish q [(''n'', JInt k)] s))" if "memq_inv s" for q k s
    using memq.publish_refines [OF that _ p, of q k] by (auto simp: memq_ops_def)
  then show ?thesis unfolding two_jobs_def using memq_inv_init [OF inj_test_ids] by blast
qed

lemma two_jobs_eq: "mq_queues two_jobs =
    (\<lambda>_. [])(''jobs'' := [\<lparr>m_id = [], m_queue = ''jobs'', m_payload = [(''n'', JInt 1)], m_attempts = 0\<rparr>,
      \<lparr>m_id = ''u'', m_queue = ''jobs'', m_payload = [(''n'', JInt 2)], m_attempts = 0\<rparr>])"
  "mq_inflight two_jobs = (\<lambda>_. None)"
  by (simp_all add: two_jobs_def mq_publish_def memq_init_def Let_def test_ids_def)

theorem memq_drain_terminates_witness:
  "\<exists>s' w'. drain 9 (consume_once (lift_ops memq_ops) ''jobs''
      (\<lambda>p. on_snd (\<lambda>w :: nat. (Inl (ValueError ''x'') :: exn + unit, Suc w))) 2) (two_jobs, 0) =
      Some (Inr (), (s', w')) \<and> memq_inv s' \<and> mq_queues s' ''jobs'' = [] \<and>
      ran (mq_inflight s') \<subseteq> ran (mq_inflight two_jobs)"
proof (rule memq_drain_terminates [OF two_jobs_inv])
  show "work 2 (mq_queues two_jobs ''jobs'') < 9" by (simp add: two_jobs_eq work_def)
qed (auto simp: on_snd_def)

text \<open>
  A poison message on the in-memory queue: a handler that always raises is called exactly
  \<open>max_retries - attempts + 1\<close> times (the counter \<open>w\<close>), and then the message, with the attempts it
  used, is the last dead letter of its queue and the loop has returned.
\<close>

theorem memq_poison:
  assumes "memq_inv s" and "mq_queues s q = [m]" and "m_attempts m \<le> mx"
  shows "\<exists>s'. drain (nat (mx - m_attempts m) + 2)
       (consume_once (lift_ops memq_ops) q (\<lambda>p. on_snd (\<lambda>w. (Inl (err p w) :: exn + unit, Suc w))) mx) (s, w) =
       Some (Inr (), (s', w + nat (mx - m_attempts m) + 1)) \<and>
     mq_queues s' q = [] \<and> mq_dead_letters q s' = mq_dead_letters q s @ [m\<lparr>m_attempts := mx + 1\<rparr>]"
proof -
  let ?h = "\<lambda>p. on_snd (\<lambda>w. (Inl (err p w) :: exn + unit, Suc w))"
  have wb: "memw.well_behaved q ?h" unfolding memw.well_behaved_def by (auto simp: on_snd_def)
  have fails: "\<exists>e s'. ?h p s = (Inl e, s') \<and> snd s' = Suc (snd s)" for p and s :: "memq \<times> nat"
    by (auto simp: on_snd_def)
  from memw.poison_dead_lettered [where s = "(s, w)" and q = q and h = ?h and count = "\<lambda>n. n" and m = m and mx = mx] wb fails assms obtain s' where
    "drain (nat (mx - m_attempts m) + 2) (consume_once (lift_ops memq_ops) q ?h mx) (s, w) = Some (Inr (), s')"
    "aq_wait (memq_abs (fst s')) q = []"
    "aq_dead (memq_abs (fst s')) q = aq_dead (memq_abs s) q @ [m\<lparr>m_attempts := mx + 1\<rparr>]"
    "snd s' = w + nat (mx - m_attempts m) + 1"
    by (auto simp: memq_abs_def)
  then show ?thesis
    by (intro exI [of _ "fst s'"]) (cases s', simp add: memq_abs_def mq_dead_letters_def)
qed

definition one_job :: memq where
  "one_job = snd (mq_publish ''jobs'' [(''n'', JInt 1)] (memq_init test_ids))"

lemma one_job_inv: "memq_inv one_job"
  unfolding one_job_def
  using memq.publish_refines [OF memq_inv_init [OF inj_test_ids], of "[(''n'', JInt 1)]" "''jobs''"]
  by (auto simp: memq_ops_def payload_ok_def)

theorem memq_poison_witness:
  "\<exists>s'. drain 5 (consume_once (lift_ops memq_ops) ''jobs''
      (\<lambda>p. on_snd (\<lambda>w. (Inl (ValueError ''x'') :: exn + unit, Suc w))) 3) (one_job, 0) = Some (Inr (), (s', 4)) \<and>
     mq_queues s' ''jobs'' = [] \<and> mq_dead_letters ''jobs'' s' =
       [\<lparr>m_id = [], m_queue = ''jobs'', m_payload = [(''n'', JInt 1)], m_attempts = 4\<rparr>]"
  using memq_poison [OF one_job_inv, where q = "''jobs''"
      and m = "\<lparr>m_id = [], m_queue = ''jobs'', m_payload = [(''n'', JInt 1)], m_attempts = 0\<rparr>"
      and mx = 3 and err = "\<lambda>p w. ValueError ''x''" and w = 0]
  by (simp add: one_job_def mq_publish_def memq_init_def Let_def test_ids_def mq_dead_letters_def)

text \<open>
  C14.  The two queue implementations are interchangeable: started on states that stand for the same
  abstract queue, the drain loop over Redis and the one in memory run out of fuel together, or both
  return normally with the same world, made by the same handler calls in the same order, and with
  states that again stand for the same queue.  The Redis server is a parameter whose four commands
  behave as documented (\<open>redis_server\<close>).
\<close>

theorem redis_memory_agree:
  assumes "redis_server client lsts up" and "rq_inv lsts up fr fp s" and "memq_inv t"
    and "rq_abs lsts fp s = memq_abs t" and "valid_queue q"
  shows "(drain n (consume_once (lift_ops (redis_ops client fr fp)) q (\<lambda>p. on_snd (h p)) mx) (s, w) = None \<and>
      drain n (consume_once (lift_ops memq_ops) q (\<lambda>p. on_snd (h p)) mx) (t, w) = None) \<or>
    (\<exists>s' t' w'.
      drain n (consume_once (lift_ops (redis_ops client fr fp)) q (\<lambda>p. on_snd (h p)) mx) (s, w) = Some (Inr (), (s', w')) \<and>
      drain n (consume_once (lift_ops memq_ops) q (\<lambda>p. on_snd (h p)) mx) (t, w) = Some (Inr (), (t', w')) \<and>
      rq_inv lsts up fr fp s' \<and> memq_inv t' \<and> rq_abs lsts fp s' = memq_abs t')"
  using redis_server.redis_drain_refines [OF assms(1,2,5), where n = n and h = h and mx = mx and w = w]
    memq.drain_refines [OF assms(3), where q = q and n = n and h = h and mx = mx and w = w] assms(4)
  by auto

definition one_redis_job :: "(string \<Rightarrow> string list) redisq" where
  "one_redis_job = snd (rq_publish list_client (\<lambda>_. []) ''jobs'' [(''n'', JInt 1)]
     (redisq_init (\<lambda>_. []) test_ids))"

lemma valid_jobs: "valid_queue ''jobs''"
  by (simp add: valid_queue_def ends_with_def)

lemma one_redis_job_inv:
  "rq_inv (\<lambda>r. r) (\<lambda>_. True) (\<lambda>_. []) fp one_redis_job"
  "rq_abs (\<lambda>r. r) fp one_redis_job = memq_abs one_job"
proof -
  have p: "payload_ok [(''n'', JInt 1)]" by (simp add: payload_ok_def)
  have f: "fst (rq_publish list_client (\<lambda>_. []) ''jobs'' [(''n'', JInt 1)]
     (redisq_init (\<lambda>_. []) test_ids)) = Inr (test_ids 0)"
    by (simp add: redisq_op_defs list_client_def redisq_init_def Let_def)
  have g: "memq_abs one_job = a_publish (test_ids 0) ''jobs'' [(''n'', JInt 1)]
      \<lparr>aq_wait = \<lambda>_. [], aq_fly = {}, aq_dead = \<lambda>_. []\<rparr>"
    by (simp add: one_job_def mq_publish_def memq_init_def memq_abs_def a_publish_def Let_def)
  obtain i s' where s': "rq_publish list_client (\<lambda>_. []) ''jobs'' [(''n'', JInt 1)]
      (redisq_init (\<lambda>_. []) test_ids) = (Inr i, s')" "rq_inv (\<lambda>r. r) (\<lambda>_. True) (\<lambda>_. []) fp s'"
    "rq_abs (\<lambda>r. r) fp s' = a_publish i ''jobs'' [(''n'', JInt 1)]
       (rq_abs (\<lambda>r. r) fp (redisq_init (\<lambda>_. []) test_ids))"
    using list_redis.publish_step [OF rq_inv_init [OF inj_test_ids] valid_jobs p] by blast
  show "rq_inv (\<lambda>r. r) (\<lambda>_. True) (\<lambda>_. []) fp one_redis_job"
    "rq_abs (\<lambda>r. r) fp one_redis_job = memq_abs one_job"
    using s' f g by (simp_all add: one_redis_job_def rq_abs_init)
qed

theorem redis_memory_agree_witness:
  "\<exists>s' t' w'.
      drain 2 (consume_once (lift_ops (redis_ops list_client (\<lambda>_. []) (\<lambda>_. NaN))) ''jobs''
        (\<lambda>p. on_snd (\<lambda>w :: nat. (Inr () :: exn + unit, Suc w))) 2) (one_redis_job, 0) = Some (Inr (), (s', w')) \<and>
      drain 2 (consume_once (lift_ops memq_ops) ''jobs''
        (\<lambda>p. on_snd (\<lambda>w :: nat. (Inr () :: exn + unit, Suc w))) 2) (one_job, 0) = Some (Inr (), (t', w')) \<and>
      rq_abs (\<lambda>r. r) (\<lambda>_. NaN) s' = memq_abs t'"
proof -
  have d: "drain 2 (consume_once (lift_ops memq_ops) ''jobs''
        (\<lambda>p. on_snd (\<lambda>w :: nat. (Inr () :: exn + unit, Suc w))) 2) (one_job, 0) \<noteq> None"
    by (simp add: numeral_2_eq_2 consume_once_def lift_ops_def on_fst_def on_snd_def memq_defs memq_init_def
        one_job_def py_monad_defs Let_def)
  show ?thesis
    using redis_memory_agree [where h = "\<lambda>p w. (Inr (), Suc w)" and n = 2 and mx = 2 and w = 0 and fp = "\<lambda>_. NaN",
        OF list_redis.redis_server_axioms one_redis_job_inv(1) one_job_inv one_redis_job_inv(2) valid_jobs] d
    by auto
qed

text \<open>
  What \<open>RedisQueue\<close> writes it can read: the entry of a message decodes to that message, and its
  dead-letter entry decodes to it too and carries the error.
\<close>

theorem redis_entry_roundtrip:
  assumes "payload_ok (m_payload m)"
  shows "rq_decode fp (rq_encode fr m) = Inr m \<and>
     (\<exists>raw. dlq_entry fr fp m err = Inr raw \<and> rq_decode fp raw = Inr m \<and>
       (\<exists>d. loads fp raw = Some (JObj d) \<and> dict_get d ''error'' = Some (JStr err)))"
  using decode_encode [OF assms] dlq_entry_ok [OF assms] by blast

theorem redis_entry_roundtrip_witness:
  "rq_decode (\<lambda>_. NaN) (rq_encode (\<lambda>_. []) \<lparr>m_id = ''a'', m_queue = ''jobs'',
      m_payload = [(''job'', JStr ''x'')], m_attempts = 3\<rparr>) =
    Inr \<lparr>m_id = ''a'', m_queue = ''jobs'', m_payload = [(''job'', JStr ''x'')], m_attempts = 3\<rparr>"
  by (rule conjunct1 [OF redis_entry_roundtrip]) (simp add: payload_ok_def)

text \<open>
  No message is lost by a crash between \<open>reserve\<close> and \<open>ack\<close>: \<open>reserve\<close> takes the oldest entry off
  the waiting list and appends the same bytes to the processing list; an \<open>ack\<close> that follows finds
  and removes exactly these bytes, so that the processing list is again what it was.
\<close>

theorem redis_reserve_recoverable:
  assumes "redis_server client lsts up" and "rq_inv lsts up fr fp s" and "valid_queue q"
    and "lsts (rq_redis s) q = raw # raws"
  shows "\<exists>m s1 s2. rq_reserve client fp q s = (Inr (Some (bump m)), s1) \<and> rq_decode fp raw = Inr m \<and>
     lsts (rq_redis s1) q = raws \<and>
     lsts (rq_redis s1) (processing_key q) = lsts (rq_redis s) (processing_key q) @ [raw] \<and>
     rq_ack client fr (bump m) s1 = (Inr (), s2) \<and>
     lsts (rq_redis s2) (processing_key q) = lsts (rq_redis s) (processing_key q) \<and>
     rq_inv lsts up fr fp s2"
  by (rule redis_server.reserve_ack_bytes [OF assms])

theorem redis_reserve_recoverable_witness:
  "\<exists>raw m s1 s2. rq_reserve list_client (\<lambda>_. NaN) ''jobs'' one_redis_job = (Inr (Some (bump m)), s1) \<and>
     rq_decode (\<lambda>_. NaN) raw = Inr m \<and> rq_redis s1 ''jobs'' = [] \<and>
     rq_redis s1 ''jobs:processing'' = [raw] \<and>
     rq_ack list_client (\<lambda>_. []) (bump m) s1 = (Inr (), s2) \<and> rq_redis s2 ''jobs:processing'' = []"
proof -
  have "\<exists>raw. rq_redis one_redis_job ''jobs'' = [raw] \<and> rq_redis one_redis_job ''jobs:processing'' = []"
    by (simp add: one_redis_job_def redisq_op_defs list_client_def redisq_init_def Let_def)
  then obtain raw where raw: "rq_redis one_redis_job ''jobs'' = [raw]"
    "rq_redis one_redis_job ''jobs:processing'' = []" by blast
  show ?thesis
    using redis_reserve_recoverable [OF list_redis.redis_server_axioms one_redis_job_inv(1) valid_jobs,
      where fp = "\<lambda>_. NaN" and raw = raw and raws = "[]"] raw by (auto simp: processing_key_def)
qed

end
