(* ===== verification/Models.thy ===== *)
theory Models
  imports Json
begin

text \<open>
  The data structures of \<open>core/models.py\<close>: what drivers, scrapers, the engine and the sinks exchange.

  A \<open>datetime\<close> is an \<open>int\<close>, microseconds since the epoch in UTC.  A clock reading of
  \<open>time.monotonic\<close> is a \<open>real\<close>: the rounding of floats is not modelled.  The mutable classes
  (\<open>ProxySession\<close>, \<open>StorageState\<close>) are values here too; a function that mutates one returns it.
\<close>

type_synonym datetime = int

record article =
  ar_url :: string
  ar_title :: string
  ar_content :: string
  ar_author :: "string option"
  ar_publish_date :: "datetime option"
  ar_raw_html :: "string option"
  ar_metadata :: pydict

text \<open>\<open>Article(url=..., title=..., content=...)\<close>, everything else by default.\<close>

definition mk_article :: "string \<Rightarrow> string \<Rightarrow> string \<Rightarrow> article" where
  "mk_article u t c = \<lparr>ar_url = u, ar_title = t, ar_content = c, ar_author = None,
     ar_publish_date = None, ar_raw_html = None, ar_metadata = []\<rparr>"

record scrape_result =
  sr_status :: string
  sr_driver_used :: string
  sr_article :: "article option"
  sr_error :: "string option"
  sr_proxy_used :: "string option"
  sr_challenge_solved :: bool
  sr_retry_count :: int
  sr_fetch_duration_ms :: int

definition mk_result :: "string \<Rightarrow> string \<Rightarrow> scrape_result" where
  "mk_result st d = \<lparr>sr_status = st, sr_driver_used = d, sr_article = None, sr_error = None,
     sr_proxy_used = None, sr_challenge_solved = False, sr_retry_count = 0, sr_fetch_duration_ms = 0\<rparr>"

record browser_profile =
  bp_name :: string
  bp_user_agent :: string
  bp_tls_fingerprint :: string
  bp_http2_settings :: "(string \<times> int) list"
  bp_platform :: string
  bp_chrome_major_version :: int
  bp_accept_language :: string
  bp_viewport :: "int \<times> int"

record proxy_session =
  px_url :: string
  px_health_status :: string
  px_last_used :: "datetime option"
  px_failure_count :: int
  px_assigned_scraper :: "string option"
  px_country_code :: "string option"

record storage_state =
  ss_domain :: string
  ss_cookies :: "pydict list"
  ss_local_storage :: pydict
  ss_session_storage :: pydict
  ss_created_at :: datetime
  ss_expires_at :: "datetime option"
  ss_is_valid :: bool

text \<open>The five values \<open>ScrapeResult.status\<close> may take.\<close>

definition scrape_statuses :: "string list" where
  "scrape_statuses = [''success'', ''challenge'', ''rate_limited'', ''error'', ''proxy_failed'']"

end
