(* ===== verification/Fingerprint.thy ===== *)
theory Fingerprint
  imports Models
begin

text \<open>
  Browser profiles, \<open>core/fingerprint_manager.py\<close>: the templates, the detection of the installed Chrome
  version, profile generation and the choice of the curl_cffi target.  What the operating system
  answers is the argument \<open>env\<close>: the registry values (None for a missing key), the result of running
  \<open><command> --version\<close> (None when it cannot be run) and the property list of the macOS bundle.
  \<open>validate_ja4\<close>, a subprocess shim, is not modelled.
\<close>

section \<open>Constants and templates\<close>

definition default_chrome_major :: int where "default_chrome_major = 131"

definition known_curl_aliases :: "int list" where
  "known_curl_aliases = sort [116, 119, 120, 123, 124, 131]"

definition template_http2 :: "(string \<times> int) list" where
  "template_http2 = [(''HEADER_TABLE_SIZE'', 65536), (''ENABLE_PUSH'', 0),
     (''INITIAL_WINDOW_SIZE'', 6291456), (''MAX_HEADER_LIST_SIZE'', 262144)]"

definition mk_template :: "string \<Rightarrow> string \<Rightarrow> string \<Rightarrow> string \<Rightarrow> browser_profile" where
  "mk_template name system tls platform = \<lparr>bp_name = name,
     bp_user_agent = ''Mozilla/5.0 ('' @ system @ '') AppleWebKit/537.36 (KHTML, like Gecko) Chrome/'' @
       int_str default_chrome_major @ ''.0.0.0 Safari/537.36'',
     bp_tls_fingerprint = tls, bp_http2_settings = template_http2, bp_platform = platform,
     bp_chrome_major_version = default_chrome_major, bp_accept_language = ''en-US,en;q=0.9'',
     bp_viewport = (1920, 1080)\<rparr>"

definition profiles :: "(string \<times> browser_profile) list" where
  "profiles = [
     (''chrome_win'', mk_template ''chrome_win'' ''Windows NT 10.0; Win64; x64''
        ''t13d1516h2_8daaf6152771_b0da82dd1658'' ''Win32''),
     (''chrome_mac'', mk_template ''chrome_mac'' ''Macintosh; Intel Mac OS X 10_15_7''
        ''t13d1516h2_8daaf6152771_e87db048d32a'' ''MacIntel''),
     (''chrome_linux'', mk_template ''chrome_linux'' ''X11; Linux x86_64''
        ''t13d1516h2_8daaf6152771_fc9d8d0b0b39'' ''Linux x86_64'')]"

section \<open>Version detection\<close>

record fp_env =
  fe_platform :: string
  fe_has_winreg :: bool
  fe_registry :: "nat \<Rightarrow> string option"
  fe_run :: "string \<Rightarrow> (int \<times> string) option"
  fe_plist :: "(string \<Rightarrow> string option) option"

text \<open>\<open>_parse_major\<close>: the first match of \<open>(\d+)\.\d+\.\d+\<close>.\<close>

definition version_at :: "string \<Rightarrow> int option" where
  "version_at s =
     (let (d1, r1) = (takeWhile is_digit s, dropWhile is_digit s) in
      if d1 = [] \<or> \<not> starts_with ''.'' r1 then None else
      (let (d2, r2) = (takeWhile is_digit (tl r1), dropWhile is_digit (tl r1)) in
       if d2 = [] \<or> \<not> starts_with ''.'' r2 then None
       else if takeWhile is_digit (tl r2) = [] then None
       else Some (int (nat_of_digits d1))))"

fun parse_major :: "string \<Rightarrow> int option" where
  "parse_major [] = None"
| "parse_major (c # cs) = (case version_at (c # cs) of Some v \<Rightarrow> Some v | None \<Rightarrow> parse_major cs)"

definition detect_via_windows_registry :: "fp_env \<Rightarrow> int option" where
  "detect_via_windows_registry env =
     (if fe_platform env \<noteq> ''win32'' \<or> \<not> fe_has_winreg env then None
      else case fe_registry env 0 of
        Some v \<Rightarrow> parse_major v
      | None \<Rightarrow> (case fe_registry env 1 of Some v \<Rightarrow> parse_major v | None \<Rightarrow> None))"

definition detect_via_subprocess :: "fp_env \<Rightarrow> string \<Rightarrow> int option" where
  "detect_via_subprocess env command = (case fe_run env command of
      None \<Rightarrow> None
    | Some (code, out) \<Rightarrow> if code = 0 \<and> out \<noteq> [] then parse_major out else None)"

definition detect_via_macos_plist :: "fp_env \<Rightarrow> int option" where
  "detect_via_macos_plist env =
     (if fe_platform env \<noteq> ''darwin'' then None
      else case fe_plist env of
        None \<Rightarrow> None
      | Some data \<Rightarrow>
          (let version = str_or (data ''KSVersion'') (case data ''CFBundleShortVersionString'' of None \<Rightarrow> [] | Some v \<Rightarrow> v)
           in if version \<noteq> [] then parse_major version else None))"

text \<open>\<open>a or b\<close> on optional integers: zero and None are false.\<close>

definition int_or :: "int option \<Rightarrow> int option \<Rightarrow> int option" where
  "int_or a b = (case a of Some i \<Rightarrow> if i \<noteq> 0 then a else b | None \<Rightarrow> b)"

record fingerprint_manager = fm_chrome_version :: "int option"

definition fm_init :: fingerprint_manager where "fm_init = \<lparr>fm_chrome_version = None\<rparr>"

definition detect_message :: string where
  "detect_message = ''Could not detect installed Chrome version via registry, subprocess, or Info.plist. Ensure Chrome is installed and on PATH, or call generate_profile() which falls back to DEFAULT_CHROME_MAJOR='' @ int_str default_chrome_major @ ''.''"

definition detect_chrome :: "fp_env \<Rightarrow> (fingerprint_manager, int) py" where
  "detect_chrome env fm = (case fm_chrome_version fm of
      Some v \<Rightarrow> (Inr v, fm)
    | None \<Rightarrow>
        (let major = int_or (detect_via_windows_registry env)
               (int_or (detect_via_subprocess env ''chrome'')
                 (int_or (detect_via_subprocess env ''google-chrome'') (detect_via_macos_plist env)))
         in case major of
              None \<Rightarrow> (Inl (FingerprintError detect_message), fm)
            | Some m \<Rightarrow> (Inr m, fm\<lparr>fm_chrome_version := Some m\<rparr>)))"

section \<open>Profiles\<close>

definition resolve_template_key :: "fp_env \<Rightarrow> string \<Rightarrow> exn + string" where
  "resolve_template_key env name =
     (if map_of profiles name \<noteq> None then Inr name
      else if name = ''chrome'' then
        (if fe_platform env = ''darwin'' then Inr ''chrome_mac''
         else if starts_with ''linux'' (fe_platform env) then Inr ''chrome_linux''
         else Inr ''chrome_win'')
      else Inl (FingerprintError (''Unknown profile name '' @ py_repr name @
        ''. Valid keys: ['' @ join '', '' (map py_repr (sort (map fst profiles))) @ ''] or generic '' @ py_repr ''chrome'' @ ''.'')))"

definition generate_profile :: "fp_env \<Rightarrow> string \<Rightarrow> (fingerprint_manager, browser_profile) py" where
  "generate_profile env name fm = (case resolve_template_key env name of
      Inl e \<Rightarrow> (Inl e, fm)
    | Inr key \<Rightarrow>
        py_bind (py_catch (detect_chrome env)
             (\<lambda>e. case e of FingerprintError _ \<Rightarrow> py_ret default_chrome_major | _ \<Rightarrow> py_raise e))
          (\<lambda>major. case map_of profiles key of
             None \<Rightarrow> py_raise (KeyError key)
           | Some template \<Rightarrow> py_ret (template\<lparr>bp_chrome_major_version := major\<rparr>)) fm)"

text \<open>\<open>curl_impersonate_target\<close>: the loop keeps the last alias that is not above the version.\<close>

fun best_alias :: "int \<Rightarrow> int option \<Rightarrow> int list \<Rightarrow> int option" where
  "best_alias major best [] = best"
| "best_alias major best (a # as) = (if a \<le> major then best_alias major (Some a) as else best)"

definition closest_alias :: "int list \<Rightarrow> int \<Rightarrow> int option" where
  "closest_alias aliases major = (case aliases of
      [] \<Rightarrow> None
    | a # _ \<Rightarrow> (case best_alias major None aliases of Some b \<Rightarrow> Some b | None \<Rightarrow> Some a))"

definition curl_impersonate_target :: "browser_profile \<Rightarrow> string" where
  "curl_impersonate_target p = (case closest_alias known_curl_aliases (bp_chrome_major_version p) of
      None \<Rightarrow> ''chrome'' | Some b \<Rightarrow> ''chrome'' @ int_str b)"

lemma best_alias_sorted:
  "sorted as \<Longrightarrow> best_alias major best as =
     (case filter (\<lambda>a. a \<le> major) as of [] \<Rightarrow> best | xs \<Rightarrow> Some (last xs))"
proof (induction as arbitrary: best)
  case (Cons a as)
  show ?case
  proof (cases "a \<le> major")
    case True
    with Cons show ?thesis by (auto split: list.splits)
  next
    case False
    then have "filter (\<lambda>a. a \<le> major) (a # as) = []"
      using Cons.prems by (auto simp: filter_empty_conv)
    with False show ?thesis by simp
  qed
qed simp

lemma closest_alias_sorted:
  assumes "sorted as" and "as \<noteq> []"
  shows "\<exists>b \<in> set as. closest_alias as major = Some b \<and>
    (if \<exists>a \<in> set as. a \<le> major then b \<le> major \<and> (\<forall>a \<in> set as. a \<le> major \<longrightarrow> a \<le> b)
     else \<forall>a \<in> set as. b \<le> a)"
proof (cases "filter (\<lambda>a. a \<le> major) as")
  case Nil
  then have "\<forall>a \<in> set as. \<not> a \<le> major" by (simp add: filter_empty_conv)
  with Nil assms show ?thesis
    by (cases as) (auto simp: closest_alias_def best_alias_sorted [OF assms(1)])
next
  case (Cons x xs)
  let ?f = "filter (\<lambda>a. a \<le> major) as"
  have ne: "?f \<noteq> []" using Cons by simp
  have best: "best_alias major None as = Some (last ?f)"
    using best_alias_sorted [OF assms(1), of major None] Cons by simp
  have c: "closest_alias as major = Some (last ?f)"
    using assms(2) unfolding closest_alias_def best by (cases as) simp_all
  have l: "last ?f \<in> set as" "last ?f \<le> major" using last_in_set [OF ne] by auto
  have "sorted ?f" using assms(1) by (rule sorted_wrt_filter)
  then have m: "a \<le> last ?f" if "a \<in> set ?f" for a
    using that ne by (metis append_butlast_last_id in_set_conv_decomp last.simps set_ConsD sorted_append
        list.set_intros(1) append_Nil2 butlast_snoc order_refl Un_iff set_append empty_iff list.set(1))
  show ?thesis using c l m by (intro bexI [of _ "last ?f"]) auto
qed

text \<open>
  The curl_cffi target of a profile is \<open>chrome<b>\<close> for the largest known alias \<open>b\<close> that is not above
  the profile's Chrome version, and for the smallest known alias when all are above it.
\<close>

theorem curl_target_closest:
  "\<exists>b \<in> set known_curl_aliases. curl_impersonate_target p = ''chrome'' @ int_str b \<and>
    (if \<exists>a \<in> set known_curl_aliases. a \<le> bp_chrome_major_version p
     then b \<le> bp_chrome_major_version p \<and>
       {a \<in> set known_curl_aliases. b < a \<and> a \<le> bp_chrome_major_version p} = {}
     else b = Min (set known_curl_aliases))"
proof -
  have "sorted known_curl_aliases" "known_curl_aliases \<noteq> []" by (simp_all add: known_curl_aliases_def)
  from closest_alias_sorted [OF this, of "bp_chrome_major_version p"] obtain b where b: "b \<in> set known_curl_aliases"
    "closest_alias known_curl_aliases (bp_chrome_major_version p) = Some b"
    "if \<exists>a \<in> set known_curl_aliases. a \<le> bp_chrome_major_version p
     then b \<le> bp_chrome_major_version p \<and> (\<forall>a \<in> set known_curl_aliases. a \<le> bp_chrome_major_version p \<longrightarrow> a \<le> b)
     else \<forall>a \<in> set known_curl_aliases. b \<le> a" by blast
  have "b = Min (set known_curl_aliases)" if "\<forall>a \<in> set known_curl_aliases. b \<le> a"
    using that b(1) by (intro Min_eqI [symmetric]) auto
  then show ?thesis
    using b by (intro bexI [of _ b]) (auto simp: curl_impersonate_target_def not_less [symmetric] split: if_splits)
qed

text \<open>
  What \<open>generate_profile\<close> makes of the detected version: the profile of a known name carries the
  detected major version (131 when detection fails), but its user agent is the template's and
  announces Chrome 131 whatever was detected, so the two disagree for every other version.
\<close>

theorem profile_user_agent_stale:
  assumes "generate_profile env name fm = (Inr p, fm')"
  shows "contains ''Chrome/131.0.0.0'' (bp_user_agent p) \<and>
    (case detect_chrome env fm of (Inr major, _) \<Rightarrow> bp_chrome_major_version p = major
      | (Inl _, _) \<Rightarrow> bp_chrome_major_version p = 131)"
proof -
  obtain key t where t: "map_of profiles key = Some t"
    and p: "bp_user_agent p = bp_user_agent t"
    and v: "case detect_chrome env fm of (Inr major, _) \<Rightarrow> bp_chrome_major_version p = major
      | (Inl _, _) \<Rightarrow> bp_chrome_major_version p = 131"
    using assms unfolding generate_profile_def
    by (auto simp: py_monad_defs default_chrome_major_def split: sum.splits prod.splits option.splits exn.splits)
  have "\<exists>n s tls pl. t = mk_template n s tls pl"
    using t by (auto simp: profiles_def split: if_splits)
  then obtain n s tls pl where tm: "t = mk_template n s tls pl" by blast
  have "int_str default_chrome_major = ''131''"
    by code_simp
  then have "bp_user_agent t = (''Mozilla/5.0 ('' @ s @ '') AppleWebKit/537.36 (KHTML, like Gecko) '') @
      ''Chrome/131.0.0.0'' @ '' Safari/537.36''"
    by (simp add: tm mk_template_def)
  then show ?thesis using p v unfolding contains_iff by metis
qed

definition chrome_140_env :: fp_env where
  "chrome_140_env = \<lparr>fe_platform = ''linux'', fe_has_winreg = False, fe_registry = \<lambda>_. None,
     fe_run = \<lambda>c. if c = ''google-chrome'' then Some (0, ''Google Chrome 140.0.7339.80'') else None, fe_plist = None\<rparr>"

theorem profile_user_agent_stale_witness:
  "\<exists>p fm'. generate_profile chrome_140_env ''chrome'' fm_init = (Inr p, fm') \<and>
     bp_chrome_major_version p = 140 \<and> contains ''Chrome/131.0.0.0'' (bp_user_agent p)"
proof -
  have d: "detect_chrome chrome_140_env fm_init = (Inr 140, fm_init\<lparr>fm_chrome_version := Some 140\<rparr>)"
    by code_simp
  have "\<exists>p. generate_profile chrome_140_env ''chrome'' fm_init = (Inr p, fm_init\<lparr>fm_chrome_version := Some 140\<rparr>)"
    by (simp add: generate_profile_def py_monad_defs d resolve_template_key_def profiles_def chrome_140_env_def
        flip: chrome_140_env_def)
  then obtain p where g: "generate_profile chrome_140_env ''chrome'' fm_init = (Inr p, fm_init\<lparr>fm_chrome_version := Some 140\<rparr>)"
    by blast
  show ?thesis using profile_user_agent_stale [OF g] g d by auto
qed

end
