(* ===== verification/Circuit_Breaker.thy ===== *)
theory Circuit_Breaker
  imports Models
begin

text \<open>
  The reactive gate of the engine, \<open>core/circuit_breaker.py\<close>.  The injected clock is the argument
  \<open>now\<close>: each operation reads it at most once.

  The contract is stated over histories.  The state of a domain is a digest of what was recorded
  for it (failures are dropped outside the window, a pause is cleared lazily); \<open>hist_open\<close> decides
  from the whole history of the domain, and the theorem says that \<open>allow\<close> agrees with it after any
  sequence of calls, for this domain and for others.
\<close>

section \<open>The breaker\<close>

record domain_state =
  ds_failures :: "real list"
  ds_paused_until :: real

record breaker =
  cb_threshold :: int
  cb_pause_s :: real
  cb_window_s :: real
  cb_state :: "string \<Rightarrow> domain_state option"

definition cb_init :: "int \<Rightarrow> int \<Rightarrow> int \<Rightarrow> breaker" where
  "cb_init threshold pause_minutes window_minutes = \<lparr>cb_threshold = threshold,
     cb_pause_s = of_int pause_minutes * 60, cb_window_s = of_int window_minutes * 60,
     cb_state = \<lambda>_. None\<rparr>"

definition cb_allow :: "string \<Rightarrow> real \<Rightarrow> breaker \<Rightarrow> bool \<times> breaker" where
  "cb_allow domain now cb = (case cb_state cb domain of
      None \<Rightarrow> (True, cb)
    | Some st \<Rightarrow>
        if ds_paused_until st = 0 then (True, cb)
        else if now \<ge> ds_paused_until st
          then (True, cb\<lparr>cb_state := (cb_state cb)(domain := Some (st\<lparr>ds_paused_until := 0\<rparr>))\<rparr>)
        else (False, cb))"

definition cb_record :: "string \<Rightarrow> bool \<Rightarrow> real \<Rightarrow> breaker \<Rightarrow> breaker" where
  "cb_record domain success now cb =
     (let st = (case cb_state cb domain of
                  None \<Rightarrow> \<lparr>ds_failures = [], ds_paused_until = 0\<rparr> | Some st \<Rightarrow> st) in
      if success
      then cb\<lparr>cb_state := (cb_state cb)(domain := Some \<lparr>ds_failures = [], ds_paused_until = 0\<rparr>)\<rparr>
      else
        (let cutoff = now - cb_window_s cb;
             fails = filter (\<lambda>t. t > cutoff) (ds_failures st @ [now]);
             st1 = st\<lparr>ds_failures := fails\<rparr>;
             st2 = (if int (length fails) \<ge> cb_threshold cb
                    then st1\<lparr>ds_paused_until := now + cb_pause_s cb\<rparr> else st1)
         in cb\<lparr>cb_state := (cb_state cb)(domain := Some st2)\<rparr>))"

section \<open>The contract\<close>

text \<open>The calls of the engine in order, with the clock reading of each.\<close>

datatype cb_call = Allow string real | Record string bool real

fun call_time :: "cb_call \<Rightarrow> real" where
  "call_time (Allow d t) = t"
| "call_time (Record d s t) = t"

fun cb_run :: "cb_call list \<Rightarrow> breaker \<Rightarrow> breaker" where
  "cb_run [] cb = cb"
| "cb_run (Allow d t # cs) cb = cb_run cs (snd (cb_allow d t cb))"
| "cb_run (Record d s t # cs) cb = cb_run cs (cb_record d s t cb)"

text \<open>The times of the failures recorded for a domain since its last success.\<close>

fun failures_since :: "string \<Rightarrow> cb_call list \<Rightarrow> real list \<Rightarrow> real list" where
  "failures_since d [] fs = fs"
| "failures_since d (Allow e t # cs) fs = failures_since d cs fs"
| "failures_since d (Record e s t # cs) fs =
     failures_since d cs (if e \<noteq> d then fs else if s then [] else fs @ [t])"

text \<open>
  The \<open>i\<close>-th failure trips the breaker when it is the last of at least \<open>threshold\<close> failures in its
  window; the domain is open at \<open>now\<close> when a failure that tripped lies less than the pause back.
\<close>

definition trips :: "int \<Rightarrow> real \<Rightarrow> real list \<Rightarrow> nat \<Rightarrow> bool" where
  "trips threshold window fs i =
     (threshold \<le> int (length (filter (\<lambda>u. u > fs ! i - window) (take (Suc i) fs))))"

definition hist_open :: "int \<Rightarrow> real \<Rightarrow> real \<Rightarrow> real list \<Rightarrow> real \<Rightarrow> bool" where
  "hist_open threshold pause window fs now =
     (\<exists>i < length fs. trips threshold window fs i \<and> now < fs ! i + pause)"

lemma trips_snoc_old: "i < length fs \<Longrightarrow> trips th w (fs @ [t]) i = trips th w fs i"
  by (simp add: trips_def nth_append)

lemma hist_open_snoc:
  "hist_open th p w (fs @ [t]) now \<longleftrightarrow> hist_open th p w fs now \<or>
     (th \<le> int (length (filter (\<lambda>u. u > t - w) (fs @ [t]))) \<and> now < t + p)"
proof -
  have "hist_open th p w (fs @ [t]) now \<longleftrightarrow>
      (\<exists>i < length fs. trips th w (fs @ [t]) i \<and> now < (fs @ [t]) ! i + p) \<or>
      (trips th w (fs @ [t]) (length fs) \<and> now < t + p)"
    unfolding hist_open_def by (auto simp: less_Suc_eq)
  then show ?thesis
    by (simp add: hist_open_def trips_snoc_old nth_append trips_def cong: conj_cong)
qed

text \<open>
  The state of one domain against its history, at a time after every recorded failure.
\<close>

definition dom_ok :: "breaker \<Rightarrow> domain_state option \<Rightarrow> real list \<Rightarrow> real \<Rightarrow> bool" where
  "dom_ok cb s fs now = (case s of
      None \<Rightarrow> fs = []
    | Some st \<Rightarrow>
        (\<forall>u \<in> set fs. u \<le> now) \<and>
        (\<forall>t \<ge> now. filter (\<lambda>u. u > t - cb_window_s cb) (ds_failures st) =
                    filter (\<lambda>u. u > t - cb_window_s cb) fs) \<and>
        (\<forall>t \<ge> now. (ds_paused_until st \<noteq> 0 \<and> t < ds_paused_until st) \<longleftrightarrow>
           hist_open (cb_threshold cb) (cb_pause_s cb) (cb_window_s cb) fs t))"

lemma dom_ok_later: "dom_ok cb s fs now \<Longrightarrow> now \<le> now' \<Longrightarrow> dom_ok cb s fs now'"
  by (fastforce simp: dom_ok_def split: option.splits)

lemma hist_open_Nil [simp]: "\<not> hist_open th p w [] now"
  by (simp add: hist_open_def)

lemma allow_dom_ok:
  assumes "dom_ok cb (cb_state cb d) fs now"
  shows "fst (cb_allow d now cb) \<longleftrightarrow> \<not> hist_open (cb_threshold cb) (cb_pause_s cb) (cb_window_s cb) fs now"
  using assms by (auto simp: dom_ok_def cb_allow_def split: option.splits)

lemma allow_keeps:
  assumes "dom_ok cb (cb_state cb e) fs now"
  shows "dom_ok cb (cb_state (snd (cb_allow d now cb)) e) fs now"
proof (cases "cb_state cb d")
  case (Some st)
  show ?thesis
  proof (cases "e = d \<and> ds_paused_until st \<noteq> 0 \<and> now \<ge> ds_paused_until st")
    case True
    then have "\<not> hist_open (cb_threshold cb) (cb_pause_s cb) (cb_window_s cb) fs t" if "t \<ge> now" for t
      using assms Some that by (fastforce simp: dom_ok_def)
    with True assms Some show ?thesis by (simp add: dom_ok_def cb_allow_def)
  next
    case False
    with assms Some show ?thesis by (auto simp: cb_allow_def)
  qed
qed (use assms in \<open>simp add: cb_allow_def\<close>)

lemma cb_params [simp]:
  "cb_threshold (snd (cb_allow d now cb)) = cb_threshold cb"
  "cb_pause_s (snd (cb_allow d now cb)) = cb_pause_s cb"
  "cb_window_s (snd (cb_allow d now cb)) = cb_window_s cb"
  "cb_threshold (cb_record d s now cb) = cb_threshold cb"
  "cb_pause_s (cb_record d s now cb) = cb_pause_s cb"
  "cb_window_s (cb_record d s now cb) = cb_window_s cb"
  by (auto simp: cb_allow_def cb_record_def Let_def split: option.splits)

lemma dom_ok_cong:
  "cb_threshold cb' = cb_threshold cb \<Longrightarrow> cb_pause_s cb' = cb_pause_s cb \<Longrightarrow>
   cb_window_s cb' = cb_window_s cb \<Longrightarrow> dom_ok cb' = dom_ok cb"
  by (intro ext) (simp add: dom_ok_def split: option.splits)

lemma filter_window_mono:
  "t \<le> t' \<Longrightarrow> filter (\<lambda>u. u > t' - w) (filter (\<lambda>u :: real. u > t - w) xs) = filter (\<lambda>u. u > t' - w) xs"
  by (induction xs) auto

lemma failure_dom_ok:
  assumes ok: "dom_ok cb (cb_state cb d) fs now" and nn: "0 \<le> now" and pp: "0 \<le> cb_pause_s cb"
  shows "dom_ok cb (cb_state (cb_record d False now cb) d) (fs @ [now]) now"
proof -
  define st where "st = (case cb_state cb d of None \<Rightarrow> \<lparr>ds_failures = [], ds_paused_until = 0\<rparr> | Some st \<Rightarrow> st)"
  let ?w = "cb_window_s cb" and ?th = "cb_threshold cb" and ?p = "cb_pause_s cb"
  have old: "\<forall>u \<in> set fs. u \<le> now"
    "\<And>t. t \<ge> now \<Longrightarrow> filter (\<lambda>u. u > t - ?w) (ds_failures st) = filter (\<lambda>u. u > t - ?w) fs"
    "\<And>t. t \<ge> now \<Longrightarrow> (ds_paused_until st \<noteq> 0 \<and> t < ds_paused_until st) \<longleftrightarrow> hist_open ?th ?p ?w fs t"
    using ok by (auto simp: dom_ok_def st_def split: option.splits)
  define fails where "fails = filter (\<lambda>t. t > now - ?w) (ds_failures st @ [now])"
  have fails: "fails = filter (\<lambda>t. t > now - ?w) (fs @ [now])"
    using old(2) [of now] by (simp add: fails_def)
  define pu where "pu = (if int (length fails) \<ge> ?th then now + ?p else ds_paused_until st)"
  have st': "cb_state (cb_record d False now cb) d = Some (st\<lparr>ds_failures := fails, ds_paused_until := pu\<rparr>)"
    unfolding cb_record_def Let_def st_def [symmetric] fails_def [symmetric] pu_def by simp
  have window: "filter (\<lambda>u. u > t - ?w) fails = filter (\<lambda>u. u > t - ?w) (fs @ [now])" if "t \<ge> now" for t
    unfolding fails using that by (rule filter_window_mono)
  have paused: "(pu \<noteq> 0 \<and> t < pu) \<longleftrightarrow> hist_open ?th ?p ?w (fs @ [now]) t" if t: "t \<ge> now" for t
  proof (cases "int (length fails) \<ge> ?th")
    case True
    have "t < now + ?p" if o: "hist_open ?th ?p ?w fs t"
    proof -
      obtain i where "i < length fs" "t < fs ! i + ?p" using o by (auto simp: hist_open_def)
      moreover from this(1) have "fs ! i \<le> now" using old(1) nth_mem by blast
      ultimately show ?thesis by linarith
    qed
    with True nn pp t show ?thesis by (auto simp: hist_open_snoc pu_def fails)
  next
    case False
    with old(3) [OF t] show ?thesis by (auto simp: hist_open_snoc pu_def fails)
  qed
  show ?thesis unfolding st' using old(1) window paused by (auto simp: dom_ok_def)
qed

lemma record_dom_ok:
  assumes ok: "dom_ok cb (cb_state cb e) fs now" and nn: "0 \<le> now" and pp: "0 \<le> cb_pause_s cb"
  shows "dom_ok cb (cb_state (cb_record d s now cb) e)
    (if d \<noteq> e then fs else if s then [] else fs @ [now]) now"
proof (cases "d = e \<and> \<not> s")
  case True
  then show ?thesis using failure_dom_ok [OF ok nn pp] by simp
next
  case False
  with ok show ?thesis by (auto simp: cb_record_def Let_def dom_ok_def)
qed

lemma run_dom_ok:
  assumes "sorted_wrt (\<le>) (T # map call_time cs)" and "0 \<le> T"
    and "dom_ok cb (cb_state cb d) fs T" and "0 \<le> cb_pause_s cb"
    and "\<forall>c \<in> set cs. call_time c \<le> now" and "T \<le> now"
  shows "dom_ok cb (cb_state (cb_run cs cb) d) (failures_since d cs fs) now \<and>
    cb_threshold (cb_run cs cb) = cb_threshold cb \<and> cb_pause_s (cb_run cs cb) = cb_pause_s cb \<and>
    cb_window_s (cb_run cs cb) = cb_window_s cb"
  using assms
proof (induction cs arbitrary: cb fs T)
  case Nil
  then show ?case using dom_ok_later by simp
next
  case (Cons c cs)
  have le: "T \<le> call_time c" "0 \<le> call_time c" using Cons.prems by auto
  note ok = dom_ok_later [OF Cons.prems(3) le(1)]
  show ?case
  proof (cases c)
    case (Allow e t)
    then show ?thesis
      using Cons.IH [of t "snd (cb_allow e t cb)" fs] Cons.prems allow_keeps [of cb d fs t e] ok le
      by (simp add: dom_ok_cong [of "snd (cb_allow e t cb)" cb])
  next
    case (Record e s t)
    then show ?thesis
      using Cons.IH [of t "cb_record e s t cb" "if e \<noteq> d then fs else if s then [] else fs @ [t]"]
        Cons.prems record_dom_ok [of cb d fs t e s] ok le
      by (simp add: dom_ok_cong [of "cb_record e s t cb" cb])
  qed
qed

text \<open>
  C18.  The circuit breaker meets its documented policy: after any sequence of \<open>allow\<close> and \<open>record\<close>
  calls at non-decreasing clock readings, \<open>allow(domain)\<close> answers False exactly when, among the
  failures recorded for this domain since its last success, one that was at least the
  \<open>threshold\<close>-th within its window happened less than the pause ago.  Calls for other domains, the
  order in which failures are dropped and the lazy clearing of a pause make no difference.
\<close>

theorem breaker_matches_history:
  assumes "sorted_wrt (\<le>) (map call_time cs @ [now])" and "\<forall>c \<in> set cs. 0 \<le> call_time c"
    and "0 \<le> now" and "0 \<le> pause_minutes"
  shows "fst (cb_allow d now (cb_run cs (cb_init threshold pause_minutes window_minutes))) \<longleftrightarrow>
    \<not> hist_open threshold (of_int pause_minutes * 60) (of_int window_minutes * 60)
        (failures_since d cs []) now"
proof -
  let ?cb = "cb_init threshold pause_minutes window_minutes"
  have init: "dom_ok ?cb (cb_state ?cb d) [] 0" by (simp add: dom_ok_def cb_init_def)
  have "sorted_wrt (\<le>) (0 # map call_time cs)" "\<forall>c \<in> set cs. call_time c \<le> now"
    using assms by (auto simp: sorted_wrt_append)
  from run_dom_ok [OF this(1) order_refl init _ this(2) assms(3)] assms(4)
  have "dom_ok ?cb (cb_state (cb_run cs ?cb) d) (failures_since d cs []) now"
    "cb_threshold (cb_run cs ?cb) = cb_threshold ?cb" "cb_pause_s (cb_run cs ?cb) = cb_pause_s ?cb"
    "cb_window_s (cb_run cs ?cb) = cb_window_s ?cb"
    by (simp_all add: cb_init_def)
  then show ?thesis
    using allow_dom_ok [of "cb_run cs ?cb" d "failures_since d cs []" now]
    by (simp add: dom_ok_cong [of "cb_run cs ?cb" ?cb]) (simp add: cb_init_def)
qed

definition trip_calls :: "cb_call list" where
  "trip_calls = [Record ''a.com'' False 10, Record ''b.com'' False 11, Record ''a.com'' False 20, Allow ''a.com'' 30]"

theorem breaker_matches_history_witness:
  "fst (cb_allow ''a.com'' 1000 (cb_run trip_calls (cb_init 2 30 10))) = False \<and>
   fst (cb_allow ''b.com'' 1000 (cb_run trip_calls (cb_init 2 30 10))) = True"
proof
  have s: "sorted_wrt (\<le>) (map call_time trip_calls @ [1000])" "\<forall>c \<in> set trip_calls. 0 \<le> call_time c"
    by (simp_all add: trip_calls_def)
  have h: "hist_open 2 (of_int 30 * 60) (of_int 10 * 60) [10, 20] 1000"
    unfolding hist_open_def by (rule exI [of _ 1]) (simp add: trips_def numeral_2_eq_2)
  have n: "\<not> hist_open 2 (of_int 30 * 60) (of_int 10 * 60) [11] 1000"
    by (simp add: hist_open_def trips_def)
  show "fst (cb_allow ''a.com'' 1000 (cb_run trip_calls (cb_init 2 30 10))) = False"
    using breaker_matches_history [OF s, of 30 "''a.com''" 2 10] h
    by (simp add: trip_calls_def)
  show "fst (cb_allow ''b.com'' 1000 (cb_run trip_calls (cb_init 2 30 10))) = True"
    using breaker_matches_history [OF s, of 30 "''b.com''" 2 10] n
    by (simp add: trip_calls_def)
qed

end
