(* ===== verification/Rate_Limiter.thy ===== *)
theory Rate_Limiter
  imports Models
begin

text \<open>
  The proactive gate, \<open>core/rate_limiter.py\<close>.

  \<open>acquire\<close> suspends twice, waiting for the lock of its domain and in the sleep, and calls for
  several domains run at the same time; the model is therefore a step relation on the state of the
  limiter and the calls under way.  One step is what the event loop runs between two suspension
  points.  Each domain's \<open>asyncio.Lock\<close> is its holder and its waiters in FIFO order.  The injected
  clock is the field \<open>rl_now\<close>, which only \<open>Tick\<close> advances; a sleep ends when the clock has
  reached its deadline.  \<open>rl_log\<close> records the grants, newest first.
\<close>

record limiter =
  rl_default :: real
  rl_overrides :: "string \<Rightarrow> real option"
  rl_next_allowed :: "string \<Rightarrow> real option"
  rl_holder :: "string \<Rightarrow> (nat \<times> real) option"
  rl_waiters :: "string \<Rightarrow> nat list"
  rl_now :: real
  rl_log :: "(string \<times> nat \<times> real) list"
  rl_requests :: "(string \<times> nat) list"

text \<open>
  \<open>rl_holder d = Some (c, t)\<close>: the call \<open>c\<close> holds the lock of \<open>d\<close> and sleeps until \<open>t\<close>.  \<open>rl_requests\<close>
  are the calls made so far, newest first.
\<close>

definition rl_init :: "real \<Rightarrow> (string \<Rightarrow> real option) \<Rightarrow> real \<Rightarrow> limiter" where
  "rl_init dflt overrides now = \<lparr>rl_default = dflt, rl_overrides = overrides,
     rl_next_allowed = \<lambda>_. None, rl_holder = \<lambda>_. None, rl_waiters = \<lambda>_. [], rl_now = now,
     rl_log = [], rl_requests = []\<rparr>"

definition rl_interval :: "string \<Rightarrow> limiter \<Rightarrow> real" where
  "rl_interval d rl = (case rl_overrides rl d of Some i \<Rightarrow> i | None \<Rightarrow> rl_default rl)"

text \<open>The three parts of \<open>acquire\<close>: up to the lock, from the lock to the sleep, after the sleep.\<close>

definition rl_request :: "string \<Rightarrow> nat \<Rightarrow> limiter \<Rightarrow> limiter" where
  "rl_request d c rl = rl\<lparr>rl_waiters := (rl_waiters rl)(d := rl_waiters rl d @ [c]),
     rl_requests := (d, c) # rl_requests rl\<rparr>"

definition rl_enter :: "string \<Rightarrow> nat \<Rightarrow> nat list \<Rightarrow> limiter \<Rightarrow> limiter" where
  "rl_enter d c cs rl =
     (let now = rl_now rl;
          wait = (case rl_next_allowed rl d of None \<Rightarrow> 0 | Some t \<Rightarrow> t) - now;
          deadline = (if wait > 0 then now + wait else now)
      in rl\<lparr>rl_waiters := (rl_waiters rl)(d := cs), rl_holder := (rl_holder rl)(d := Some (c, deadline))\<rparr>)"

definition rl_grant :: "string \<Rightarrow> nat \<Rightarrow> limiter \<Rightarrow> limiter" where
  "rl_grant d c rl = rl\<lparr>rl_next_allowed := (rl_next_allowed rl)(d := Some (rl_now rl + rl_interval d rl)),
     rl_holder := (rl_holder rl)(d := None), rl_log := (d, c, rl_now rl) # rl_log rl\<rparr>"

inductive rl_step :: "limiter \<Rightarrow> limiter \<Rightarrow> bool" where
  Tick: "0 \<le> \<delta> \<Longrightarrow> rl_step rl (rl\<lparr>rl_now := rl_now rl + \<delta>\<rparr>)"
| Request: "rl_step rl (rl_request d c rl)"
| Enter: "rl_holder rl d = None \<Longrightarrow> rl_waiters rl d = c # cs \<Longrightarrow> rl_step rl (rl_enter d c cs rl)"
| Grant: "rl_holder rl d = Some (c, t) \<Longrightarrow> t \<le> rl_now rl \<Longrightarrow> rl_step rl (rl_grant d c rl)"

inductive rl_reach :: "limiter \<Rightarrow> limiter \<Rightarrow> bool" for rl0 where
  init: "rl_reach rl0 rl0"
| step: "rl_reach rl0 rl \<Longrightarrow> rl_step rl rl' \<Longrightarrow> rl_reach rl0 rl'"

lemmas rl_defs = rl_request_def rl_enter_def rl_grant_def rl_interval_def Let_def

text \<open>The grants of a domain, newest first.\<close>

definition grants :: "string \<Rightarrow> limiter \<Rightarrow> (nat \<times> real) list" where
  "grants d rl = map snd (filter (\<lambda>g. fst g = d) (rl_log rl))"

fun spaced :: "real \<Rightarrow> real list \<Rightarrow> bool" where
  "spaced i (t # u # ts) = (u + i \<le> t \<and> spaced i (u # ts))"
| "spaced i ts = True"

text \<open>
  The invariant of one domain: its grants are spaced, the next slot is one interval after the newest
  grant, a sleeper wakes no earlier than the next slot, and granted, holding and waiting calls
  together are the requests in order.
\<close>

definition in_progress :: "string \<Rightarrow> limiter \<Rightarrow> nat list" where
  "in_progress d rl = (case rl_holder rl d of None \<Rightarrow> [] | Some (c, t) \<Rightarrow> [c]) @ rl_waiters rl d"

definition rl_inv :: "string \<Rightarrow> limiter \<Rightarrow> bool" where
  "rl_inv d rl = (spaced (rl_interval d rl) (map snd (grants d rl))
    \<and> (case grants d rl of [] \<Rightarrow> True | g # gs \<Rightarrow> rl_next_allowed rl d = Some (snd g + rl_interval d rl))
    \<and> (case rl_holder rl d of None \<Rightarrow> True | Some (c, t) \<Rightarrow>
        (case rl_next_allowed rl d of None \<Rightarrow> True | Some u \<Rightarrow> u \<le> t))
    \<and> rev (map fst (grants d rl)) @ in_progress d rl = rev (map snd (filter (\<lambda>r. fst r = d) (rl_requests rl))))"

lemma rl_interval_step: "rl_step rl rl' \<Longrightarrow> rl_interval d rl' = rl_interval d rl"
  by (erule rl_step.cases) (simp_all add: rl_defs split: option.splits)

lemma rl_inv_step:
  assumes "rl_step rl rl'" and "rl_inv d rl"
  shows "rl_inv d rl' \<and> rl_interval d rl' = rl_interval d rl"
proof (intro conjI)
  note i = rl_interval_step [OF assms(1), of d]
  show "rl_interval d rl' = rl_interval d rl" by (rule i)
  show "rl_inv d rl'"
    using assms(1)
  proof cases
    case (Tick \<delta>)
    have same: "grants d rl' = grants d rl" "in_progress d rl' = in_progress d rl"
      "rl_next_allowed rl' = rl_next_allowed rl" "rl_holder rl' = rl_holder rl" "rl_requests rl' = rl_requests rl"
      by (simp_all add: Tick(1) grants_def in_progress_def)
    show ?thesis using assms(2) unfolding rl_inv_def i same .
  next
    case (Request e c)
    have same: "grants d rl' = grants d rl" "rl_next_allowed rl' = rl_next_allowed rl" "rl_holder rl' = rl_holder rl"
      by (simp_all add: Request(1) grants_def rl_request_def)
    have "in_progress d rl' = in_progress d rl @ (if e = d then [c] else [])"
      "filter (\<lambda>r. fst r = d) (rl_requests rl') = (if e = d then [(d, c)] else []) @ filter (\<lambda>r. fst r = d) (rl_requests rl)"
      by (auto simp: Request(1) in_progress_def rl_request_def)
    then show ?thesis using assms(2) unfolding rl_inv_def i same by auto
  next
    case (Enter e c cs)
    have same: "grants d rl' = grants d rl" "rl_next_allowed rl' = rl_next_allowed rl" "rl_requests rl' = rl_requests rl"
      by (simp_all add: Enter(1) grants_def rl_enter_def Let_def)
    have "in_progress d rl' = in_progress d rl"
      using Enter by (auto simp: in_progress_def rl_enter_def Let_def)
    moreover have "case rl_holder rl' d of None \<Rightarrow> True | Some (c, t) \<Rightarrow>
        (case rl_next_allowed rl' d of None \<Rightarrow> True | Some u \<Rightarrow> u \<le> t)"
      using assms(2) Enter by (cases "e = d") (auto simp: rl_inv_def rl_enter_def Let_def split: option.splits)
    ultimately show ?thesis using assms(2) unfolding rl_inv_def i same by simp
  next
    case (Grant e c t)
    show ?thesis
    proof (cases "e = d")
      case False
      then have same: "grants d rl' = grants d rl" "in_progress d rl' = in_progress d rl"
        "rl_next_allowed rl' d = rl_next_allowed rl d" "rl_holder rl' d = rl_holder rl d"
        "rl_requests rl' = rl_requests rl"
        by (simp_all add: Grant(1) grants_def in_progress_def rl_grant_def)
      show ?thesis using assms(2) unfolding rl_inv_def i same .
    next
      case True
      have new: "grants d rl' = (c, rl_now rl) # grants d rl" "in_progress d rl = c # rl_waiters rl d"
        "in_progress d rl' = rl_waiters rl d" "rl_requests rl' = rl_requests rl"
        "rl_next_allowed rl' d = Some (rl_now rl + rl_interval d rl)" "rl_holder rl' d = None"
        using Grant True by (simp_all add: grants_def rl_grant_def in_progress_def)
      have "spaced (rl_interval d rl) (rl_now rl # map snd (grants d rl))"
        using assms(2) Grant True by (cases "grants d rl") (auto simp: rl_inv_def)
      then show ?thesis using assms(2) unfolding rl_inv_def i new by simp
    qed
  qed
qed

lemma rl_inv_reach:
  assumes "rl_reach rl0 rl" and "rl_inv d rl0"
  shows "rl_inv d rl \<and> rl_interval d rl = rl_interval d rl0"
  using assms by (induction rule: rl_reach.induct) (auto dest: rl_inv_step)

lemma rl_inv_init: "rl_inv d (rl_init df ov now)"
  by (simp add: rl_inv_def rl_init_def grants_def in_progress_def)

lemma rl_interval_init: "rl_interval d (rl_init df ov now) = (case ov d of Some i \<Rightarrow> i | None \<Rightarrow> df)"
  by (simp add: rl_interval_def rl_init_def split: option.splits)

text \<open>
  C17.  Politeness and fairness of the rate limiter under any interleaving of \<open>acquire\<close> calls: in
  every reachable state, two successive grants for a domain are at least the domain's interval
  (its override, else the default) apart, and the calls granted so far are the first calls made
  for the domain, in the order they were made.
\<close>

theorem rate_limiter_spacing:
  assumes "rl_reach (rl_init dflt overrides now) rl"
  shows "spaced (case overrides d of Some i \<Rightarrow> i | None \<Rightarrow> dflt) (map snd (grants d rl)) \<and>
    (\<exists>pending. rev (map fst (grants d rl)) @ pending = rev (map snd (filter (\<lambda>r. fst r = d) (rl_requests rl))))"
  using rl_inv_reach [OF assms rl_inv_init, of d]
  unfolding rl_inv_def rl_interval_init by auto

theorem rate_limiter_spacing_witness:
  "\<exists>rl. grants ''ft.com'' rl = [(1, 60), (0, 0)] \<and> spaced 60 (map snd (grants ''ft.com'' rl))"
proof -
  let ?r0 = "rl_init 1 ((\<lambda>_. None)(''ft.com'' := Some 60)) 0"
  let ?r1 = "rl_request ''ft.com'' 0 ?r0"
  let ?r2 = "rl_enter ''ft.com'' 0 [1] (rl_request ''ft.com'' 1 ?r1)"
  let ?r3 = "rl_grant ''ft.com'' 0 ?r2"
  let ?r4 = "rl_enter ''ft.com'' 1 [] ?r3"
  let ?r5 = "?r4\<lparr>rl_now := rl_now ?r4 + 60\<rparr>"
  let ?r6 = "rl_grant ''ft.com'' 1 ?r5"
  note [simp] = rl_defs rl_init_def
  have "rl_reach ?r0 (rl_request ''ft.com'' 1 ?r1)"
    by (meson rl_reach.init rl_reach.step rl_step.Request)
  then have "rl_reach ?r0 ?r2" by (rule rl_reach.step) (rule rl_step.Enter, simp_all)
  then have "rl_reach ?r0 ?r3" by (rule rl_reach.step) (rule rl_step.Grant [where t = 0], simp_all)
  then have "rl_reach ?r0 ?r4" by (rule rl_reach.step) (rule rl_step.Enter, simp_all)
  then have "rl_reach ?r0 ?r5" by (rule rl_reach.step) (rule rl_step.Tick, simp)
  then have r6: "rl_reach ?r0 ?r6" by (rule rl_reach.step) (rule rl_step.Grant [where t = 60], simp_all)
  have g: "grants ''ft.com'' ?r6 = [(1, 60), (0, 0)]" by (simp add: grants_def)
  show ?thesis
    using rate_limiter_spacing [OF r6, of "''ft.com''"] g by (intro exI [of _ ?r6]) simp
qed

end
