(* ===== verification/Proxy_Rotator.thy ===== *)
theory Proxy_Rotator
  imports Models
begin

text \<open>
  Proxy lifecycle, \<open>core/proxy_rotator.py\<close>.

  The sources identify a \<open>ProxySession\<close> by object identity (\<open>id(proxy)\<close>); sessions are never removed
  from \<open>self.proxies\<close>, so the identity is the index in that list.  The HTTP probe and the clock are
  the argument \<open>env\<close>: a probe returns a status code or raises, a clock reading may change the world.
\<close>

section \<open>Reading the proxy file\<close>

text \<open>\<open>str.splitlines()\<close> on the code points of the repertoire.\<close>

definition is_line_end :: "char \<Rightarrow> bool" where
  "is_line_end c = (c \<in> {CHR 0x0A, CHR 0x0B, CHR 0x0C, CHR 0x0D, CHR 0x1C, CHR 0x1D, CHR 0x1E})"

function splitlines_from :: "string \<Rightarrow> string \<Rightarrow> string list" where
  "splitlines_from acc [] = (if acc = [] then [] else [rev acc])"
| "splitlines_from acc (c # cs) =
     (if c = CHR 0x0D \<and> cs \<noteq> [] \<and> hd cs = CHR 0x0A then rev acc # splitlines_from [] (tl cs)
      else if is_line_end c then rev acc # splitlines_from [] cs
      else splitlines_from (c # acc) cs)"
  by pat_completeness auto
termination by (relation "measure (length \<circ> snd)") auto

definition splitlines :: "string \<Rightarrow> string list" where
  "splitlines s = splitlines_from [] s"

definition mk_proxy :: "string \<Rightarrow> proxy_session" where
  "mk_proxy u = \<lparr>px_url = u, px_health_status = ''unknown'', px_last_used = None, px_failure_count = 0,
     px_assigned_scraper = None, px_country_code = None\<rparr>"

text \<open>\<open>_load_proxies\<close>: the contents of the file, or None when it does not exist.\<close>

definition load_proxies :: "string option \<Rightarrow> proxy_session list" where
  "load_proxies contents = (case contents of
      None \<Rightarrow> []
    | Some text \<Rightarrow> map mk_proxy (filter (\<lambda>l. \<not> (l = [] \<or> starts_with ''#'' l)) (map strip (splitlines text))))"

section \<open>The rotator\<close>

record rotator =
  pr_proxies :: "proxy_session list"
  pr_burn_times :: "nat \<Rightarrow> datetime option"
  pr_health_url :: string
  pr_cooldown_minutes :: int

text \<open>
  \<open>__init__\<close>: \<open>settings\<close> are the health URL, the cooldown and the proxy path of a valid configuration,
  None when \<open>Settings()\<close> raises \<open>ValidationError\<close>; \<open>fs\<close> reads a file.
\<close>

definition rotator_init ::
  "(string \<Rightarrow> string option) \<Rightarrow> (string \<times> int \<times> string) option \<Rightarrow> string option \<Rightarrow> rotator" where
  "rotator_init fs settings path =
     (let (url, cooldown, default_path) = (case settings of
            Some s \<Rightarrow> s | None \<Rightarrow> (''https://httpbin.org/ip'', 60, ''./proxies.txt''));
          p = (case path of Some p \<Rightarrow> p | None \<Rightarrow> default_path)
      in \<lparr>pr_proxies = load_proxies (fs p), pr_burn_times = \<lambda>_. None, pr_health_url = url,
          pr_cooldown_minutes = cooldown\<rparr>)"

record 'w proxy_env =
  pe_get :: "string \<Rightarrow> string \<Rightarrow> ('w, int) py"
  pe_now :: "'w \<Rightarrow> datetime \<times> 'w"

definition minute_us :: int where "minute_us = 60000000"

definition set_proxy :: "nat \<Rightarrow> (proxy_session \<Rightarrow> proxy_session) \<Rightarrow> rotator \<Rightarrow> rotator" where
  "set_proxy i f rot = rot\<lparr>pr_proxies := (pr_proxies rot)[i := f (pr_proxies rot ! i)]\<rparr>"

definition burn_cooldown_expired :: "'w proxy_env \<Rightarrow> nat \<Rightarrow> rotator \<Rightarrow> 'w \<Rightarrow> bool \<times> 'w" where
  "burn_cooldown_expired env i rot w = (case pr_burn_times rot i of
      None \<Rightarrow> (True, w)
    | Some burned_at \<Rightarrow> (case pe_now env w of (now, w') \<Rightarrow>
        (now - burned_at \<ge> pr_cooldown_minutes rot * minute_us, w')))"

text \<open>
  \<open>_filter_candidates\<close>: \<open>readmit\<close> is the first test of its loop, whether to skip the proxy; a proxy
  whose cooldown has passed is back in rotation.
\<close>

definition readmit :: "'w proxy_env \<Rightarrow> bool \<Rightarrow> nat \<Rightarrow> rotator \<Rightarrow> 'w \<Rightarrow> bool \<times> rotator \<times> 'w" where
  "readmit env exclude i rot w =
     (if exclude \<and> px_health_status (pr_proxies rot ! i) = ''burned''
      then (case burn_cooldown_expired env i rot w of
         (False, w') \<Rightarrow> (True, rot, w')
       | (True, w') \<Rightarrow> (False, (set_proxy i (\<lambda>p. p\<lparr>px_health_status := ''unknown''\<rparr>) rot)
             \<lparr>pr_burn_times := (pr_burn_times rot)(i := None)\<rparr>, w'))
      else (False, rot, w))"

fun filter_candidates ::
  "'w proxy_env \<Rightarrow> string option \<Rightarrow> bool \<Rightarrow> nat list \<Rightarrow> rotator \<times> 'w \<Rightarrow> nat list \<times> (rotator \<times> 'w)" where
  "filter_candidates env country exclude [] s = ([], s)"
| "filter_candidates env country exclude (i # is) (rot, w) =
     (case readmit env exclude i rot w of (skip, rot1, w1) \<Rightarrow>
      case filter_candidates env country exclude is (rot1, w1) of (rest, s2) \<Rightarrow>
        if skip then (rest, s2)
        else if country \<noteq> None \<and> px_country_code (pr_proxies rot1 ! i) \<noteq> country then (rest, s2)
        else (i # rest, s2))"

definition health_check :: "'w proxy_env \<Rightarrow> nat \<Rightarrow> rotator \<times> 'w \<Rightarrow> bool \<times> (rotator \<times> 'w)" where
  "health_check env i s = (case s of (rot, w) \<Rightarrow>
     (case pe_get env (px_url (pr_proxies rot ! i)) (pr_health_url rot) w of
        (Inr code, w') \<Rightarrow>
          if code = 200
          then (True, (set_proxy i (\<lambda>p. p\<lparr>px_health_status := ''healthy''\<rparr>) rot, w'))
          else (False, (set_proxy i (\<lambda>p. p\<lparr>px_health_status := ''unhealthy'',
                  px_failure_count := px_failure_count p + 1\<rparr>) rot, w'))
      | (Inl e, w') \<Rightarrow> (False, (set_proxy i (\<lambda>p. p\<lparr>px_health_status := ''unhealthy'',
                  px_failure_count := px_failure_count p + 1\<rparr>) rot, w'))))"

fun first_healthy :: "'w proxy_env \<Rightarrow> nat list \<Rightarrow> rotator \<times> 'w \<Rightarrow> nat option \<times> (rotator \<times> 'w)" where
  "first_healthy env [] s = (None, s)"
| "first_healthy env (i # is) s = (case health_check env i s of
      (True, (rot, w)) \<Rightarrow> (case pe_now env w of (now, w') \<Rightarrow>
        (Some i, (set_proxy i (\<lambda>p. p\<lparr>px_last_used := Some now\<rparr>) rot, w')))
    | (False, s') \<Rightarrow> first_healthy env is s')"

definition get_healthy_proxy ::
  "'w proxy_env \<Rightarrow> string option \<Rightarrow> bool \<Rightarrow> rotator \<times> 'w \<Rightarrow> nat option \<times> (rotator \<times> 'w)" where
  "get_healthy_proxy env country exclude s =
     (case filter_candidates env country exclude [0..<length (pr_proxies (fst s))] s of
        (candidates, s1) \<Rightarrow> first_healthy env candidates s1)"

definition mark_burned :: "'w proxy_env \<Rightarrow> nat \<Rightarrow> rotator \<times> 'w \<Rightarrow> rotator \<times> 'w" where
  "mark_burned env i s = (case s of (rot, w) \<Rightarrow>
     (let rot1 = set_proxy i (\<lambda>p. p\<lparr>px_health_status := ''burned''\<rparr>) rot in
      case pe_now env w of (now, w') \<Rightarrow>
        (rot1\<lparr>pr_burn_times := (pr_burn_times rot1)(i := Some now)\<rparr>, w')))"

definition release_proxy :: "'w proxy_env \<Rightarrow> nat \<Rightarrow> rotator \<times> 'w \<Rightarrow> rotator \<times> 'w" where
  "release_proxy env i s = (case s of (rot, w) \<Rightarrow> (case pe_now env w of (now, w') \<Rightarrow>
     (set_proxy i (\<lambda>p. p\<lparr>px_assigned_scraper := None, px_last_used := Some now\<rparr>) rot, w')))"

section \<open>What is preserved\<close>

lemma set_proxy_simps [simp]:
  "length (pr_proxies (set_proxy i f rot)) = length (pr_proxies rot)"
  "pr_burn_times (set_proxy i f rot) = pr_burn_times rot"
  "pr_cooldown_minutes (set_proxy i f rot) = pr_cooldown_minutes rot"
  "j \<noteq> i \<Longrightarrow> pr_proxies (set_proxy i f rot) ! j = pr_proxies rot ! j"
  "i < length (pr_proxies rot) \<Longrightarrow> pr_proxies (set_proxy i f rot) ! i = f (pr_proxies rot ! i)"
  by (simp_all add: set_proxy_def)

text \<open>A burned proxy whose cooldown has not passed at any reading of the clock.\<close>

definition cooling :: "'w proxy_env \<Rightarrow> nat \<Rightarrow> rotator \<Rightarrow> bool" where
  "cooling env i rot = (px_health_status (pr_proxies rot ! i) = ''burned'' \<and>
     (\<exists>b. pr_burn_times rot i = Some b \<and> (\<forall>w. fst (pe_now env w) < b + pr_cooldown_minutes rot * minute_us)))"

lemma readmit_props:
  assumes "readmit env exclude i rot w = (skip, rot1, w1)" and "i < length (pr_proxies rot)"
  shows "length (pr_proxies rot1) = length (pr_proxies rot)"
    and "j \<noteq> i \<Longrightarrow> pr_proxies rot1 ! j = pr_proxies rot ! j"
    and "j \<noteq> i \<Longrightarrow> cooling env j rot1 = cooling env j rot"
    and "px_country_code (pr_proxies rot1 ! i) = px_country_code (pr_proxies rot ! i)"
    and "exclude \<Longrightarrow> cooling env i rot \<Longrightarrow> skip"
    and "px_health_status (pr_proxies rot ! i) \<noteq> ''burned'' \<Longrightarrow> \<not> skip"
proof -
  show "exclude \<Longrightarrow> cooling env i rot \<Longrightarrow> skip"
    using assms(1)
    by (auto simp: readmit_def cooling_def burn_cooldown_expired_def not_le [symmetric]
        split: if_splits prod.splits bool.splits) (metis fst_conv add.commute le_diff_eq)
qed (use assms in \<open>auto simp: readmit_def cooling_def split: if_splits prod.splits bool.splits\<close>)

lemma filter_candidates_Cons:
  assumes "filter_candidates env country exclude (i # is) (rot, w) = (cs, s)"
  obtains skip rot1 w1 rest where "readmit env exclude i rot w = (skip, rot1, w1)"
    "filter_candidates env country exclude is (rot1, w1) = (rest, s)"
    "cs = (if skip \<or> country \<noteq> None \<and> px_country_code (pr_proxies rot1 ! i) \<noteq> country then rest else i # rest)"
  using assms by (auto split: prod.splits if_splits)

lemma filter_candidates_props:
  assumes "filter_candidates env country exclude is (rot, w) = (cs, (rot', w'))"
    and "\<forall>i \<in> set is. i < length (pr_proxies rot)" and "distinct is"
  shows "set cs \<subseteq> set is \<and> distinct cs \<and> length (pr_proxies rot') = length (pr_proxies rot) \<and>
    (exclude \<longrightarrow> (\<forall>j. cooling env j rot \<longrightarrow> j \<notin> set cs)) \<and>
    (\<forall>j. j \<notin> set is \<longrightarrow> pr_proxies rot' ! j = pr_proxies rot ! j) \<and>
    (\<forall>j \<in> set cs. country \<noteq> None \<longrightarrow> px_country_code (pr_proxies rot' ! j) = country)"
  using assms
proof (induction "is" arbitrary: rot w cs)
  case (Cons i "is")
  obtain skip rot1 w1 rest where c: "readmit env exclude i rot w = (skip, rot1, w1)"
    "filter_candidates env country exclude is (rot1, w1) = (rest, (rot', w'))"
    "cs = (if skip \<or> country \<noteq> None \<and> px_country_code (pr_proxies rot1 ! i) \<noteq> country then rest else i # rest)"
    by (rule filter_candidates_Cons [OF Cons.prems(1)])
  have i: "i < length (pr_proxies rot)" "i \<notin> set is" using Cons.prems by auto
  note keep = readmit_props [OF c(1) i(1)]
  have "\<forall>j \<in> set is. j < length (pr_proxies rot1)" "distinct is" using Cons.prems keep(1) by auto
  note IH = Cons.IH [OF c(2) this]
  have nc: "\<forall>j. cooling env j rot \<longrightarrow> j \<notin> set cs" if "exclude"
  proof (intro allI impI)
    fix j assume j: "cooling env j rot"
    show "j \<notin> set cs"
    proof (cases "j = i")
      case True
      with keep(5) that j c(3) IH i(2) show ?thesis by auto
    next
      case False
      with keep(3) j IH that c(3) show ?thesis by auto
    qed
  qed
  show ?case using IH nc c(3) keep(1,2,4) i by auto
qed simp

text \<open>A proxy that is not burned and of the right country is a candidate.\<close>

lemma filter_candidates_keeps:
  assumes "filter_candidates env country exclude is (rot, w) = (cs, s)" and "i \<in> set is"
    and "distinct is" and "\<forall>i \<in> set is. i < length (pr_proxies rot)"
    and "px_health_status (pr_proxies rot ! i) \<noteq> ''burned''"
    and "country = None \<or> px_country_code (pr_proxies rot ! i) = country"
  shows "i \<in> set cs"
  using assms
proof (induction "is" arbitrary: rot w cs)
  case (Cons k "is")
  obtain skip rot1 w1 rest where c: "readmit env exclude k rot w = (skip, rot1, w1)"
    "filter_candidates env country exclude is (rot1, w1) = (rest, s)"
    "cs = (if skip \<or> country \<noteq> None \<and> px_country_code (pr_proxies rot1 ! k) \<noteq> country then rest else k # rest)"
    by (rule filter_candidates_Cons [OF Cons.prems(1)])
  have k: "k < length (pr_proxies rot)" using Cons.prems by auto
  note keep = readmit_props [OF c(1) k]
  show ?case
  proof (cases "i = k")
    case True
    then show ?thesis using Cons.prems(5,6) keep(4,6) c(3) by auto
  next
    case False
    then have "i \<in> set rest"
      using Cons.IH [OF c(2)] Cons.prems keep(1) keep(2) [of i] by simp
    then show ?thesis using c(3) by auto
  qed
qed simp

lemma health_check_props:
  "health_check env i (rot, w) = (b, (rot', w')) \<Longrightarrow> i < length (pr_proxies rot) \<Longrightarrow>
     length (pr_proxies rot') = length (pr_proxies rot) \<and>
     (\<forall>j. j \<noteq> i \<longrightarrow> pr_proxies rot' ! j = pr_proxies rot ! j) \<and>
     px_health_status (pr_proxies rot' ! i) = (if b then ''healthy'' else ''unhealthy'') \<and>
     px_failure_count (pr_proxies rot' ! i) = px_failure_count (pr_proxies rot ! i) + (if b then 0 else 1) \<and>
     px_country_code (pr_proxies rot' ! i) = px_country_code (pr_proxies rot ! i)"
  by (auto simp: health_check_def split: prod.splits sum.splits if_splits)

lemma first_healthy_length:
  "first_healthy env cs (rot, w) = (r, (rot', w')) \<Longrightarrow> length (pr_proxies rot') = length (pr_proxies rot)"
proof (induction cs arbitrary: rot w)
  case (Cons i cs)
  obtain b rot1 w1 where h: "health_check env i (rot, w) = (b, (rot1, w1))"
    by (metis prod_cases3)
  then have "length (pr_proxies rot1) = length (pr_proxies rot)"
    by (auto simp: health_check_def split: prod.splits sum.splits if_splits)
  then show ?case using Cons h by (cases b) (auto split: prod.splits)
qed simp

lemma first_healthy_props:
  assumes "first_healthy env cs (rot, w) = (r, (rot', w'))"
    and "\<forall>i \<in> set cs. i < length (pr_proxies rot)" and "distinct cs"
  shows "(case r of
      None \<Rightarrow> (\<forall>j \<in> set cs. px_health_status (pr_proxies rot' ! j) = ''unhealthy'')
    | Some i \<Rightarrow> (\<exists>xs ys. cs = xs @ i # ys \<and> px_health_status (pr_proxies rot' ! i) = ''healthy'' \<and>
        px_country_code (pr_proxies rot' ! i) = px_country_code (pr_proxies rot ! i) \<and>
        px_last_used (pr_proxies rot' ! i) \<noteq> None \<and>
        (\<forall>j \<in> set xs. px_health_status (pr_proxies rot' ! j) = ''unhealthy'') \<and>
        (\<forall>j \<in> set ys. pr_proxies rot' ! j = pr_proxies rot ! j))) \<and>
    (\<forall>j. j \<notin> set cs \<longrightarrow> pr_proxies rot' ! j = pr_proxies rot ! j)"
  using assms
proof (induction cs arbitrary: rot w)
  case (Cons i cs)
  obtain b rot1 w1 where h: "health_check env i (rot, w) = (b, (rot1, w1))"
    by (metis prod_cases3)
  have i: "i < length (pr_proxies rot)" "i \<notin> set cs" using Cons.prems by auto
  note hp = health_check_props [OF h i(1)]
  show ?case
  proof (cases b)
    case True
    obtain now w2 where now: "pe_now env w1 = (now, w2)" by (cases "pe_now env w1")
    have r: "r = Some i" "rot' = set_proxy i (\<lambda>p. p\<lparr>px_last_used := Some now\<rparr>) rot1"
      using Cons.prems(1) h True now by auto
    have "\<forall>j. j \<noteq> i \<longrightarrow> pr_proxies rot' ! j = pr_proxies rot ! j"
      "px_health_status (pr_proxies rot' ! i) = ''healthy''" "px_last_used (pr_proxies rot' ! i) = Some now"
      "px_country_code (pr_proxies rot' ! i) = px_country_code (pr_proxies rot ! i)"
      using r hp True i by auto
    moreover from this(1) i(2) have "\<forall>j \<in> set cs. pr_proxies rot' ! j = pr_proxies rot ! j" by auto
    ultimately have "\<exists>xs ys. i # cs = xs @ i # ys \<and> px_health_status (pr_proxies rot' ! i) = ''healthy'' \<and>
        px_country_code (pr_proxies rot' ! i) = px_country_code (pr_proxies rot ! i) \<and>
        px_last_used (pr_proxies rot' ! i) \<noteq> None \<and>
        (\<forall>j \<in> set xs. px_health_status (pr_proxies rot' ! j) = ''unhealthy'') \<and>
        (\<forall>j \<in> set ys. pr_proxies rot' ! j = pr_proxies rot ! j)"
      by (intro exI [of _ "[]"] exI [of _ cs]) simp
    then show ?thesis using r(1) \<open>\<forall>j. j \<noteq> i \<longrightarrow> pr_proxies rot' ! j = pr_proxies rot ! j\<close> by simp
  next
    case False
    then have rest: "first_healthy env cs (rot1, w1) = (r, (rot', w'))" using Cons.prems(1) h by simp
    have "\<forall>j \<in> set cs. j < length (pr_proxies rot1)" "distinct cs" using Cons.prems hp by auto
    note IH = Cons.IH [OF rest this]
    have ui: "px_health_status (pr_proxies rot' ! i) = ''unhealthy''" using IH i(2) hp False by simp
    have old: "j \<in> set cs \<Longrightarrow> pr_proxies rot1 ! j = pr_proxies rot ! j" for j
      using hp i(2) by (cases "j = i") auto
    have out: "\<forall>j. j \<notin> set (i # cs) \<longrightarrow> pr_proxies rot' ! j = pr_proxies rot ! j" using IH hp by simp
    show ?thesis
    proof (cases r)
      case None
      then show ?thesis using IH ui out by simp
    next
      case (Some k)
      then obtain xs ys where k: "cs = xs @ k # ys" "px_health_status (pr_proxies rot' ! k) = ''healthy''"
        "px_country_code (pr_proxies rot' ! k) = px_country_code (pr_proxies rot1 ! k)"
        "px_last_used (pr_proxies rot' ! k) \<noteq> None"
        "\<forall>j \<in> set xs. px_health_status (pr_proxies rot' ! j) = ''unhealthy''"
        "\<forall>j \<in> set ys. pr_proxies rot' ! j = pr_proxies rot1 ! j"
        using IH by auto
      have "\<forall>j \<in> set ys. pr_proxies rot' ! j = pr_proxies rot ! j" "pr_proxies rot1 ! k = pr_proxies rot ! k"
        using k(1,6) old by auto
      then have "\<exists>xs ys. i # cs = xs @ k # ys \<and> px_health_status (pr_proxies rot' ! k) = ''healthy'' \<and>
        px_country_code (pr_proxies rot' ! k) = px_country_code (pr_proxies rot ! k) \<and>
        px_last_used (pr_proxies rot' ! k) \<noteq> None \<and>
        (\<forall>j \<in> set xs. px_health_status (pr_proxies rot' ! j) = ''unhealthy'') \<and>
        (\<forall>j \<in> set ys. pr_proxies rot' ! j = pr_proxies rot ! j)"
        using ui k by (intro exI [of _ "i # xs"] exI [of _ ys]) simp
      then show ?thesis using Some out by simp
    qed
  qed
qed simp

text \<open>
  \<open>get_healthy_proxy\<close> returns a proxy that is in the list, has just passed its health check, is
  stamped as used and matches the requested country; with \<open>exclude_burned\<close> it is never one that was
  burned less than the cooldown ago.  When it returns None, no candidate was left that could have
  been used: every proxy that is neither cooling down nor of another country failed its check.
\<close>

theorem healthy_proxy_safe:
  assumes "get_healthy_proxy env country True (rot, w) = (r, (rot', w'))"
  shows "case r of
      Some i \<Rightarrow> i < length (pr_proxies rot) \<and> \<not> cooling env i rot \<and>
        px_health_status (pr_proxies rot' ! i) = ''healthy'' \<and> px_last_used (pr_proxies rot' ! i) \<noteq> None \<and>
        (country \<noteq> None \<longrightarrow> px_country_code (pr_proxies rot' ! i) = country)
    | None \<Rightarrow> (\<forall>i < length (pr_proxies rot). px_health_status (pr_proxies rot ! i) \<noteq> ''burned'' \<longrightarrow>
        country = None \<or> px_country_code (pr_proxies rot ! i) = country \<longrightarrow>
        px_health_status (pr_proxies rot' ! i) = ''unhealthy'')"
proof -
  let ?is = "[0..<length (pr_proxies rot)]"
  obtain cs rot1 w1 where f: "filter_candidates env country True ?is (rot, w) = (cs, (rot1, w1))"
    by (metis prod_cases3)
  have h: "first_healthy env cs (rot1, w1) = (r, (rot', w'))"
    using assms f by (simp add: get_healthy_proxy_def)
  note fp = filter_candidates_props [OF f]
  have fp: "set cs \<subseteq> set ?is" "distinct cs" "length (pr_proxies rot1) = length (pr_proxies rot)"
    "\<And>j. cooling env j rot \<Longrightarrow> j \<notin> set cs"
    "\<And>j. j \<in> set cs \<Longrightarrow> country \<noteq> None \<Longrightarrow> px_country_code (pr_proxies rot1 ! j) = country"
    using filter_candidates_props [OF f] by auto
  have inb: "\<forall>j \<in> set cs. j < length (pr_proxies rot1)" using fp(1,3) by auto
  note hp = first_healthy_props [OF h inb fp(2)]
  show ?thesis
  proof (cases r)
    case (Some i)
    then obtain xs ys where "cs = xs @ i # ys" using hp by auto
    then have "i \<in> set cs" by simp
    then show ?thesis using Some hp fp inb by auto
  next
    case None
    have "i \<in> set cs" if "i < length (pr_proxies rot)" "px_health_status (pr_proxies rot ! i) \<noteq> ''burned''"
      "country = None \<or> px_country_code (pr_proxies rot ! i) = country" for i
      using filter_candidates_keeps [OF f, of i] that by auto
    then show ?thesis using None hp by auto
  qed
qed

definition burn_env :: "nat proxy_env" where
  "burn_env = \<lparr>pe_get = \<lambda>u h w. (Inr 200, Suc w), pe_now = \<lambda>w. (1000, w)\<rparr>"

definition burn_rotator :: rotator where
  "burn_rotator = fst (mark_burned burn_env 0 (rotator_init (\<lambda>_. Some ''# pool
http://a:1

http://b:2'') None None, 0))"

theorem healthy_proxy_safe_witness:
  "fst (get_healthy_proxy burn_env None True (burn_rotator, 0)) = Some 1 \<and> \<not> cooling burn_env 1 burn_rotator"
proof -
  have p: "pr_proxies burn_rotator = [(mk_proxy ''http://a:1'')\<lparr>px_health_status := ''burned''\<rparr>, mk_proxy ''http://b:2'']"
    "pr_burn_times burn_rotator = (\<lambda>_. None)(0 := Some 1000)" "pr_cooldown_minutes burn_rotator = 60"
    by (simp_all add: burn_rotator_def mark_burned_def rotator_init_def load_proxies_def splitlines_def
        py_string_defs burn_env_def set_proxy_def mk_proxy_def is_line_end_def)
  obtain r rot' w' where g: "get_healthy_proxy burn_env None True (burn_rotator, 0) = (r, (rot', w'))"
    by (metis prod_cases3)
  have "r = Some 1"
    using g p by (auto simp: get_healthy_proxy_def burn_env_def burn_cooldown_expired_def minute_us_def
        health_check_def upt_rec mk_proxy_def readmit_def)
  with healthy_proxy_safe [OF g] g show ?thesis by simp
qed

end
