(* ===== verification/Registry.thy ===== *)
theory Registry
  imports Models
begin

text \<open>
  Scraper registration and lookup, \<open>core/registry.py\<close>.  A scraper class is a value of the type
  variable \<open>'c\<close>; \<open>shown\<close> is the \<open>repr\<close> of a class, which only the error message uses.

  \<open>longest_suffix\<close> is the contract of the lookup: of the registered domains that end the queried
  one at a label boundary, the longest.
\<close>

section \<open>Registration and lookup\<close>

type_synonym 'c registry = "string \<Rightarrow> 'c option"

text \<open>
  \<open>register_scraper(*domains)(cls)\<close>: the domains bound before a conflict is found stay bound.
\<close>

fun register_scraper :: "('c \<Rightarrow> string) \<Rightarrow> string list \<Rightarrow> 'c \<Rightarrow> ('c registry, 'c) py" where
  "register_scraper shown [] cls reg = (Inr cls, reg)"
| "register_scraper shown (d # ds) cls reg = (case reg d of
      Some existing \<Rightarrow>
        if existing \<noteq> cls
        then (Inl (ValueError (''duplicate scraper registration for '' @ [CHR 0x27] @ d @ [CHR 0x27] @
               '': already bound to '' @ shown existing @ '', attempted to rebind to '' @ shown cls)), reg)
        else register_scraper shown ds cls (reg(d := Some cls))
    | None \<Rightarrow> register_scraper shown ds cls (reg(d := Some cls)))"

fun first_registered :: "'c registry \<Rightarrow> string list \<Rightarrow> 'c option" where
  "first_registered reg [] = None"
| "first_registered reg (p # ps) = (case ps of
      [] \<Rightarrow> None
    | _ \<Rightarrow> (case reg (join ''.'' ps) of Some c \<Rightarrow> Some c | None \<Rightarrow> first_registered reg ps))"

definition get_scraper_for :: "'c registry \<Rightarrow> string \<Rightarrow> 'c option" where
  "get_scraper_for reg domain = (case reg domain of
      Some c \<Rightarrow> Some c
    | None \<Rightarrow> first_registered reg (split_on (CHR ''.'') domain))"

text \<open>
  \<open>discover_scrapers\<close>: the modules found under the scrapers package in order; \<open>imp\<close> imports one of
  them, which runs its decorators.  An \<open>ImportError\<close> (a missing optional dependency) is logged and
  skipped, any other exception leaves the function with \<open>_discovered\<close> still False.
\<close>

datatype import_result = Imported | ImportFailed | ImportRaised exn

definition module_short_name :: "string \<Rightarrow> string" where
  "module_short_name m = last (split_on (CHR ''.'') m)"

fun import_all :: "(string \<Rightarrow> 'w \<Rightarrow> import_result \<times> 'w) \<Rightarrow> string list \<Rightarrow> ('w, unit) py" where
  "import_all imp [] w = (Inr (), w)"
| "import_all imp (m # ms) w =
     (if starts_with ''_'' (module_short_name m) then import_all imp ms w
      else case imp m w of
        (Imported, w') \<Rightarrow> import_all imp ms w'
      | (ImportFailed, w') \<Rightarrow> import_all imp ms w'
      | (ImportRaised e, w') \<Rightarrow> (Inl e, w'))"

definition discover_scrapers ::
  "(string \<Rightarrow> 'w \<Rightarrow> import_result \<times> 'w) \<Rightarrow> string list \<Rightarrow> (bool \<times> 'w, unit) py" where
  "discover_scrapers imp modules s = (case s of (discovered, w) \<Rightarrow>
     if discovered then (Inr (), (discovered, w))
     else case import_all imp modules w of
        (Inl e, w') \<Rightarrow> (Inl e, (discovered, w'))
      | (Inr _, w') \<Rightarrow> (Inr (), (True, w')))"

section \<open>The contract\<close>

text \<open>\<open>s\<close> ends \<open>d\<close> at a label boundary.\<close>

definition at_boundary :: "string \<Rightarrow> string \<Rightarrow> bool" where
  "at_boundary s d = (s = d \<or> (\<exists>p. d = p @ ''.'' @ s))"

lemma at_boundary_dot: "at_boundary s (p @ CHR ''.'' # d) \<longleftrightarrow> at_boundary s d \<or>
    (\<exists>q. s = q @ CHR ''.'' # d \<and> (q = p \<or> (\<exists>r. p = r @ ''.'' @ q)))"
proof -
  have "(\<exists>u. p @ ''.'' @ d = u @ ''.'' @ s) \<longleftrightarrow> s = d \<or> (\<exists>u. d = u @ ''.'' @ s) \<or>
      (\<exists>q r. s = q @ ''.'' @ d \<and> p = r @ ''.'' @ q)"
    by (auto simp: append_eq_append_conv2 Cons_eq_append_conv append_eq_Cons_conv)
  then show ?thesis unfolding at_boundary_def by auto
qed

lemma join_parts_boundary:
  assumes "ps \<noteq> []" and "\<And>p. p \<in> set ps \<Longrightarrow> CHR ''.'' \<notin> set p"
  shows "at_boundary s (join ''.'' ps) \<longleftrightarrow> (\<exists>i < length ps. s = join ''.'' (drop i ps))"
  using assms
proof (induction ps)
  case (Cons p ps)
  show ?case
  proof (cases "ps = []")
    case True
    with Cons.prems show ?thesis by (auto simp: at_boundary_def)
  next
    case False
    have p: "CHR ''.'' \<notin> set p" using Cons.prems by simp
    have "at_boundary s (join ''.'' (p # ps)) \<longleftrightarrow> s = p @ ''.'' @ join ''.'' ps \<or> at_boundary s (join ''.'' ps)"
      using p by (auto simp: join_Cons [OF False] at_boundary_dot)
    also have "at_boundary s (join ''.'' ps) \<longleftrightarrow> (\<exists>i < length ps. s = join ''.'' (drop i ps))"
      using Cons False by simp
    also have "s = p @ ''.'' @ join ''.'' ps \<or> (\<exists>i < length ps. s = join ''.'' (drop i ps)) \<longleftrightarrow>
        (\<exists>i < length (p # ps). s = join ''.'' (drop i (p # ps)))"
      by (auto simp: join_Cons [OF False] less_Suc_eq_0_disj)
    finally show ?thesis .
  qed
qed simp

lemma first_registered_drop:
  "first_registered reg ps = (case filter (\<lambda>i. reg (join ''.'' (drop i ps)) \<noteq> None) [1..<length ps] of
      [] \<Rightarrow> None | i # _ \<Rightarrow> reg (join ''.'' (drop i ps)))"
proof (induction ps rule: induct_list012)
  case (3 p q ps)
  have up: "[1..<length (p # q # ps)] = 1 # map Suc [1..<length (q # ps)]"
    by (simp add: upt_conv_Cons map_Suc_upt del: upt_Suc)
  have "filter (\<lambda>i. reg (join ''.'' (drop i (p # q # ps))) \<noteq> None) (map Suc [1..<length (q # ps)]) =
      map Suc (filter (\<lambda>i. reg (join ''.'' (drop i (q # ps))) \<noteq> None) [1..<length (q # ps)])"
    by (simp add: filter_map o_def)
  with 3 show ?case unfolding up
    by (auto split: list.splits option.splits simp del: upt_Suc)
qed simp_all

text \<open>A hit of the lookup is a registered suffix, and no registered suffix is longer.\<close>

lemma lookup_longest:
  "case get_scraper_for reg d of
      None \<Rightarrow> (\<forall>s. at_boundary s d \<longrightarrow> reg s = None)
    | Some c \<Rightarrow> (\<exists>s. at_boundary s d \<and> reg s = Some c \<and>
        (\<forall>t. at_boundary t d \<longrightarrow> reg t \<noteq> None \<longrightarrow> length t \<le> length s))"
proof (cases "reg d")
  case (Some c)
  then show ?thesis by (auto simp: get_scraper_for_def at_boundary_def intro!: exI [of _ d])
next
  case None
  let ?ps = "split_on (CHR ''.'') d"
  have ps: "\<And>p. p \<in> set ?ps \<Longrightarrow> CHR ''.'' \<notin> set p" using split_on_no_sep by blast
  have d: "join ''.'' ?ps = d" by (rule join_split_on)
  have bd: "at_boundary s d \<longleftrightarrow> (\<exists>i < length ?ps. s = join ''.'' (drop i ?ps))" for s
    using join_parts_boundary [OF split_on_not_Nil ps, of "CHR ''.''" d s] by (simp add: d)
  let ?is = "filter (\<lambda>i. reg (join ''.'' (drop i ?ps)) \<noteq> None) [1..<length ?ps]"
  have get: "get_scraper_for reg d = (case ?is of [] \<Rightarrow> None | i # _ \<Rightarrow> reg (join ''.'' (drop i ?ps)))"
    using None by (simp add: get_scraper_for_def first_registered_drop)
  have mem: "reg s \<noteq> None \<Longrightarrow> at_boundary s d \<Longrightarrow> \<exists>i \<in> set ?is. s = join ''.'' (drop i ?ps)" for s
  proof -
    assume s: "reg s \<noteq> None" "at_boundary s d"
    then obtain i where i: "i < length ?ps" "s = join ''.'' (drop i ?ps)" using bd by blast
    moreover have "i \<noteq> 0" using i s None d by (intro notI) simp
    ultimately show ?thesis using s by (intro bexI [of _ i]) auto
  qed
  have shorter: "length (join ''.'' (drop j ps)) \<le> length (join ''.'' (drop i ps))" if "i \<le> j" for i j ps
  proof -
    have step: "length (join ''.'' (tl xs)) \<le> length (join ''.'' xs)" for xs
      by (cases xs; cases "tl xs") (auto simp: join_Cons)
    have "length (join ''.'' (drop k xs)) \<le> length (join ''.'' xs)" for k xs
    proof (induction k arbitrary: xs)
      case (Suc k)
      show ?case using Suc [of "tl xs"] step [of xs] by (simp add: drop_Suc)
    qed simp
    from this [of "j - i" "drop i ps"] that show ?thesis by simp
  qed
  show ?thesis
  proof (cases ?is)
    case Nil
    have "get_scraper_for reg d = None" unfolding get Nil by simp
    moreover have "reg s = None" if "at_boundary s d" for s
    proof (rule ccontr)
      assume "reg s \<noteq> None"
      from mem [OF this that] show False unfolding Nil by simp
    qed
    ultimately show ?thesis by simp
  next
    case (Cons i js)
    have i: "i \<in> set ?is" by (simp only: Cons list.set_intros)
    have sorted: "sorted ?is" by (intro sorted_wrt_filter) simp
    let ?s = "join ''.'' (drop i ?ps)"
    obtain c where c: "reg ?s = Some c" using i by auto
    have "at_boundary ?s d" using i bd by auto
    moreover have "length t \<le> length ?s" if t: "at_boundary t d" "reg t \<noteq> None" for t
    proof -
      obtain j where j: "j \<in> set ?is" "t = join ''.'' (drop j ?ps)" using mem [OF t(2,1)] by blast
      have "i \<le> j" using j(1) sorted unfolding Cons by auto
      with j(2) shorter show ?thesis by blast
    qed
    ultimately show ?thesis using get Cons c by auto
  qed
qed

lemma register_keeps:
  "register_scraper shown ds cls reg = (r, reg') \<Longrightarrow> reg d = Some c \<Longrightarrow> reg' d = Some c"
  by (induction shown ds cls reg rule: register_scraper.induct)
    (auto split: option.splits if_splits, (metis option.distinct(1) option.inject)+)

text \<open>
  The lookup returns the scraper of the longest registered domain that ends the queried domain
  at a label boundary, and None only if there is no such domain; so \<open>notft.com\<close> does not resolve to
  the scraper of \<open>ft.com\<close>.
\<close>

theorem registry_longest_suffix:
  "case get_scraper_for reg d of
      None \<Rightarrow> \<not> (\<exists>s c. at_boundary s d \<and> reg s = Some c)
    | Some c \<Rightarrow> (\<exists>s. at_boundary s d \<and> reg s = Some c \<and>
        \<not> (\<exists>t c'. at_boundary t d \<and> reg t = Some c' \<and> length s < length t))"
proof (cases "get_scraper_for reg d")
  case None
  then show ?thesis using lookup_longest [where reg = reg and d = d] by auto
next
  case (Some c)
  with lookup_longest [where reg = reg and d = d] obtain s where "at_boundary s d" "reg s = Some c"
    "\<forall>t. at_boundary t d \<longrightarrow> reg t \<noteq> None \<longrightarrow> length t \<le> length s" by auto
  then show ?thesis using Some by (fastforce simp: not_less)
qed

text \<open>
  Registration never rebinds a domain silently: whether it returns or raises \<open>ValueError\<close>,
  every domain keeps the class it was bound to; when it returns, each of its domains resolves to
  the new class, and it raises exactly when one of them belonged to another class.
\<close>

theorem register_no_rebind:
  assumes "register_scraper shown ds cls reg = (r, reg')"
  shows "(\<forall>d c. reg d = Some c \<longrightarrow> reg' d = Some c) \<and>
    (case r of
       Inr c \<Rightarrow> c = cls \<and> (\<forall>d \<in> set ds. get_scraper_for reg' d = Some cls)
     | Inl e \<Rightarrow> (\<exists>d \<in> set ds. \<exists>c. reg d = Some c \<and> c \<noteq> cls) \<and> (\<exists>m. e = ValueError m))"
proof -
  have "case r of Inr c \<Rightarrow> c = cls \<and> (\<forall>d \<in> set ds. reg' d = Some cls)
     | Inl e \<Rightarrow> (\<exists>d \<in> set ds. \<exists>c. reg d = Some c \<and> c \<noteq> cls) \<and> (\<exists>m. e = ValueError m)"
    using assms
  proof (induction ds arbitrary: reg)
    case (Cons d ds)
    show ?case
    proof (cases "reg d = None \<or> reg d = Some cls")
      case True
      then have eq: "register_scraper shown ds cls (reg(d := Some cls)) = (r, reg')"
        using Cons.prems by auto
      have IH: "case r of Inr c \<Rightarrow> c = cls \<and> (\<forall>d \<in> set ds. reg' d = Some cls)
         | Inl e \<Rightarrow> (\<exists>x \<in> set ds. \<exists>c. (reg(d := Some cls)) x = Some c \<and> c \<noteq> cls) \<and> (\<exists>m. e = ValueError m)"
        using Cons.IH [OF eq] .
      moreover have "reg' d = Some cls" using register_keeps [OF eq, of d cls] by simp
      ultimately show ?thesis by (auto split: sum.splits if_splits)
    next
      case False
      with Cons.prems show ?thesis by (auto split: option.splits if_splits)
    qed
  qed auto
  then show ?thesis
    using register_keeps [OF assms] by (auto simp: get_scraper_for_def split: sum.splits)
qed

theorem register_no_rebind_witness:
  "register_scraper (\<lambda>c :: nat. ''C'') [''ft.com'', ''www.ft.com''] 1 ((\<lambda>_. None)(''ft.com'' := Some 2)) =
     (Inl (ValueError (''duplicate scraper registration for '' @ [CHR 0x27] @ ''ft.com'' @ [CHR 0x27] @
        '': already bound to '' @ ''C'' @ '', attempted to rebind to '' @ ''C'')), (\<lambda>_. None)(''ft.com'' := Some 2)) \<and>
   (\<exists>m. ValueError (''duplicate scraper registration for '' @ [CHR 0x27] @ ''ft.com'' @ [CHR 0x27] @
        '': already bound to '' @ ''C'' @ '', attempted to rebind to '' @ ''C'') = ValueError m)"
proof
  show *: "register_scraper (\<lambda>c :: nat. ''C'') [''ft.com'', ''www.ft.com''] 1 ((\<lambda>_. None)(''ft.com'' := Some 2)) =
     (Inl (ValueError (''duplicate scraper registration for '' @ [CHR 0x27] @ ''ft.com'' @ [CHR 0x27] @
        '': already bound to '' @ ''C'' @ '', attempted to rebind to '' @ ''C'')), (\<lambda>_. None)(''ft.com'' := Some 2))"
    by simp
  show "\<exists>m. ValueError (''duplicate scraper registration for '' @ [CHR 0x27] @ ''ft.com'' @ [CHR 0x27] @
        '': already bound to '' @ ''C'' @ '', attempted to rebind to '' @ ''C'') = ValueError m"
    using register_no_rebind [OF *] by simp
qed

end
