(* ===== verification/Url.thy ===== *)
theory Url
  imports Json
begin

text \<open>
  \<open>urllib.parse.urlsplit(url).hostname\<close>, which the engine, the workers and the sinks use to find the
  domain of a URL.  An unbalanced bracket raises \<open>ValueError\<close>; the contents of a bracketed address
  are not validated.
\<close>

definition ascii_alpha :: "char \<Rightarrow> bool" where
  "ascii_alpha c = (let n = (of_char c :: nat) in 65 \<le> n \<and> n \<le> 90 \<or> 97 \<le> n \<and> n \<le> 122)"

definition scheme_char :: "char \<Rightarrow> bool" where
  "scheme_char c = (ascii_alpha c \<or> is_digit c \<or> c \<in> {CHR ''+'', CHR ''-'', CHR ''.''})"

definition url_clean :: "string \<Rightarrow> string" where
  "url_clean u = filter (\<lambda>c. c \<notin> {CHR 0x09, CHR 0x0A, CHR 0x0D}) (dropWhile (\<lambda>c. (of_char c :: nat) \<le> 32) u)"

text \<open>What follows the scheme, if there is one.\<close>

definition after_scheme :: "string \<Rightarrow> string" where
  "after_scheme u =
     (let p = takeWhile (\<lambda>c. c \<noteq> CHR '':'') u; r = dropWhile (\<lambda>c. c \<noteq> CHR '':'') u in
      if r \<noteq> [] \<and> p \<noteq> [] \<and> ascii_alpha (hd p) \<and> list_all scheme_char p then tl r else u)"

definition url_netloc :: "string \<Rightarrow> string" where
  "url_netloc u =
     (let r = after_scheme (url_clean u) in
      if starts_with ''//'' r then takeWhile (\<lambda>c. c \<notin> {CHR ''/'', CHR ''?'', CHR ''#''}) (drop 2 r) else [])"

definition after_last :: "char \<Rightarrow> string \<Rightarrow> string" where
  "after_last c s = last (split_on c s)"

definition before_first :: "char \<Rightarrow> string \<Rightarrow> string" where
  "before_first c s = takeWhile (\<lambda>d. d \<noteq> c) s"

definition url_hostname :: "string \<Rightarrow> exn + string option" where
  "url_hostname u =
     (let netloc = url_netloc u in
      if (CHR ''['' \<in> set netloc) \<noteq> (CHR '']'' \<in> set netloc) then Inl (ValueError ''Invalid IPv6 URL'')
      else
        (let hostinfo = after_last (CHR ''@'') netloc;
             host = (if CHR ''['' \<in> set hostinfo
                     then before_first (CHR '']'') (tl (dropWhile (\<lambda>c. c \<noteq> CHR ''['') hostinfo))
                     else before_first (CHR '':'') hostinfo)
         in Inr (if host = [] then None
                 else Some (lower (before_first (CHR ''%'') host) @ dropWhile (\<lambda>c. c \<noteq> CHR ''%'') host))))"

text \<open>\<open>urlsplit(url).hostname or ""\<close>\<close>

definition url_domain :: "string \<Rightarrow> exn + string" where
  "url_domain u = map_sum (\<lambda>e. e) (\<lambda>h. case h of None \<Rightarrow> [] | Some d \<Rightarrow> d) (url_hostname u)"

lemmas url_defs = ascii_alpha_def scheme_char_def url_clean_def after_scheme_def url_netloc_def
  after_last_def before_first_def url_hostname_def url_domain_def py_string_defs

lemma url_domain_example: "url_domain ''https://user@WWW.Ft.com:443/a?b#c'' = Inr ''www.ft.com''"
  by code_simp

lemma url_domain_none: "url_domain ''no-scheme/path'' = Inr []"
  by code_simp

end
