(* ===== verification/Engine.thy ===== *)
theory Engine
  imports Circuit_Breaker Rate_Limiter Proxy_Rotator Registry Url
begin

text \<open>
  The orchestrator, \<open>core/engine.py\<close>: route, breaker, rate limit, proxy, scrape, record, sink.

  The state joins the breaker, the limiter and the rotator with the rest of the world, in which time
  passes, proxies are probed, pages are fetched and results are stored.  One \<open>scrape\<close> runs at a time
  here, so \<open>acquire\<close> is its uncontended path: request, enter, sleep, grant (\<open>Rate_Limiter\<close> has the
  interleavings).  \<open>en_calls\<close> logs the calls of the breaker for the statements; no operation reads it.
\<close>

section \<open>The engine\<close>

record ('c, 'w) engine_env =
  ee_clock :: "'w \<Rightarrow> real"
  ee_sleep :: "real \<Rightarrow> 'w \<Rightarrow> 'w"
  ee_registry :: "'c registry"
  ee_public :: 'c
  ee_driver :: "'c \<Rightarrow> string"
  ee_proxy :: "'w proxy_env"
  ee_scrape :: "'c \<Rightarrow> string option \<Rightarrow> string \<Rightarrow> ('w, scrape_result) py"
  ee_sink :: "(scrape_result \<Rightarrow> ('w, unit) py) option"

record 'w engine =
  en_breaker :: breaker
  en_limiter :: limiter
  en_rotator :: rotator
  en_world :: 'w
  en_calls :: "cb_call list"

definition en_now :: "('c, 'w) engine_env \<Rightarrow> 'w engine \<Rightarrow> real" where
  "en_now env s = ee_clock env (en_world s)"

definition en_allow :: "('c, 'w) engine_env \<Rightarrow> string \<Rightarrow> 'w engine \<Rightarrow> bool \<times> 'w engine" where
  "en_allow env d s = (case cb_allow d (en_now env s) (en_breaker s) of
     (b, cb) \<Rightarrow> (b, s\<lparr>en_breaker := cb, en_calls := en_calls s @ [Allow d (en_now env s)]\<rparr>))"

definition en_record :: "('c, 'w) engine_env \<Rightarrow> string \<Rightarrow> bool \<Rightarrow> 'w engine \<Rightarrow> 'w engine" where
  "en_record env d ok s = s\<lparr>en_breaker := cb_record d ok (en_now env s) (en_breaker s),
     en_calls := en_calls s @ [Record d ok (en_now env s)]\<rparr>"

definition en_acquire :: "('c, 'w) engine_env \<Rightarrow> string \<Rightarrow> 'w engine \<Rightarrow> 'w engine" where
  "en_acquire env d s =
     (let rl = (en_limiter s)\<lparr>rl_now := en_now env s\<rparr>;
          c = length (rl_requests rl);
          rl1 = rl_enter d c [] (rl_request d c rl);
          wait = (case rl_next_allowed rl d of None \<Rightarrow> 0 | Some t \<Rightarrow> t) - rl_now rl;
          w = (if wait > 0 then ee_sleep env wait (en_world s) else en_world s)
      in s\<lparr>en_limiter := rl_grant d c (rl1\<lparr>rl_now := ee_clock env w\<rparr>), en_world := w\<rparr>)"

definition en_get_proxy :: "('c, 'w) engine_env \<Rightarrow> 'w engine \<Rightarrow> string option \<times> 'w engine" where
  "en_get_proxy env s = (case get_healthy_proxy (ee_proxy env) None True (en_rotator s, en_world s) of
     (i, (rot, w)) \<Rightarrow> (map_option (\<lambda>i. px_url (pr_proxies rot ! i)) i, s\<lparr>en_rotator := rot, en_world := w\<rparr>))"

definition on_world :: "('w, 'a) py \<Rightarrow> ('w engine, 'a) py" where
  "on_world f s = (case f (en_world s) of (r, w) \<Rightarrow> (r, s\<lparr>en_world := w\<rparr>))"

definition route :: "('c, 'w) engine_env \<Rightarrow> string \<Rightarrow> 'c" where
  "route env d = (case get_scraper_for (ee_registry env) d of Some c \<Rightarrow> c | None \<Rightarrow> ee_public env)"

definition refused :: "string \<Rightarrow> scrape_result" where
  "refused d = (mk_result ''error'' ''none'')\<lparr>sr_error := Some (''circuit breaker open for '' @ d)\<rparr>"

text \<open>Step 7: the clauses of the \<open>try\<close>, tested in order; an exception none of them names goes on.\<close>

definition exn_status :: "exn \<Rightarrow> string option" where
  "exn_status e = (case e of
      ChallengeError _ \<Rightarrow> Some ''challenge''
    | RateLimitError _ \<Rightarrow> Some ''rate_limited''
    | ProxyError _ \<Rightarrow> Some ''proxy_failed''
    | _ \<Rightarrow> if is_scrapeforge_error e then Some ''error'' else None)"

definition dispatch_result :: "string \<Rightarrow> exn + scrape_result \<Rightarrow> exn + scrape_result" where
  "dispatch_result drv r = (case r of
      Inr result \<Rightarrow> Inr result
    | Inl e \<Rightarrow> (case exn_status e of
        Some st \<Rightarrow> Inr ((mk_result st drv)\<lparr>sr_error := Some (exn_str e)\<rparr>)
      | None \<Rightarrow> Inl e))"

definition engine_scrape :: "('c, 'w) engine_env \<Rightarrow> string \<Rightarrow> ('w engine, scrape_result) py" where
  "engine_scrape env url s = (case url_domain url of
      Inl e \<Rightarrow> (Inl e, s)
    | Inr domain \<Rightarrow> (case en_allow env domain s of
        (False, s1) \<Rightarrow> (Inr (refused domain), s1)
      | (True, s1) \<Rightarrow>
          (let s2 = en_acquire env domain s1; cls = route env domain in
           case en_get_proxy env s2 of (proxy, s3) \<Rightarrow>
           case on_world (ee_scrape env cls proxy url) s3 of (answer, s4) \<Rightarrow>
           case dispatch_result (ee_driver env cls) answer of
             Inl e \<Rightarrow> (Inl e, s4)
           | Inr result \<Rightarrow>
               (let s5 = en_record env domain (sr_status result = ''success'') s4 in
                case ee_sink env of
                  Some wr \<Rightarrow> if sr_status result = ''success''
                    then py_bind (on_world (wr result)) (\<lambda>_. py_ret result) s5 else (Inr result, s5)
                | None \<Rightarrow> (Inr result, s5)))))"

text \<open>A sequence of calls; each caller gets its answer.\<close>

fun engine_run :: "('c, 'w) engine_env \<Rightarrow> string list \<Rightarrow> 'w engine \<Rightarrow> (exn + scrape_result) list \<times> 'w engine" where
  "engine_run env [] s = ([], s)"
| "engine_run env (u # us) s = (case engine_scrape env u s of (r, s1) \<Rightarrow>
     case engine_run env us s1 of (rs, s2) \<Rightarrow> (r # rs, s2))"

definition engine_init :: "breaker \<Rightarrow> limiter \<Rightarrow> rotator \<Rightarrow> 'w \<Rightarrow> 'w engine" where
  "engine_init cb rl rot w = \<lparr>en_breaker = cb, en_limiter = rl, en_rotator = rot, en_world = w, en_calls = []\<rparr>"

section \<open>Time\<close>

text \<open>What the engine relies on of \<open>time.monotonic\<close> and \<open>asyncio.sleep\<close>.\<close>

definition monotone_clock :: "('c, 'w) engine_env \<Rightarrow> bool" where
  "monotone_clock env = ((\<forall>w. 0 \<le> ee_clock env w) \<and>
     (\<forall>t w. ee_clock env w + t \<le> ee_clock env (ee_sleep env t w)) \<and>
     (\<forall>u h w. ee_clock env w \<le> ee_clock env (snd (pe_get (ee_proxy env) u h w))) \<and>
     (\<forall>w. ee_clock env w \<le> ee_clock env (snd (pe_now (ee_proxy env) w))) \<and>
     (\<forall>c p u w. ee_clock env w \<le> ee_clock env (snd (ee_scrape env c p u w))) \<and>
     (\<forall>f r w. ee_sink env = Some f \<longrightarrow> ee_clock env w \<le> ee_clock env (snd (f r w))))"

lemma readmit_clock:
  "monotone_clock env \<Longrightarrow> readmit (ee_proxy env) ex i rot w = (b, rot', w') \<Longrightarrow> ee_clock env w \<le> ee_clock env w'"
  unfolding readmit_def burn_cooldown_expired_def monotone_clock_def
  by (auto split: if_splits option.splits prod.splits bool.splits) (metis snd_conv)+

lemma filter_candidates_clock:
  "monotone_clock env \<Longrightarrow> filter_candidates (ee_proxy env) co ex is (rot, w) = (cs, (rot', w')) \<Longrightarrow>
     ee_clock env w \<le> ee_clock env w'"
proof (induction "is" arbitrary: rot w cs)
  case (Cons i "is")
  obtain b rot1 w1 where r: "readmit (ee_proxy env) ex i rot w = (b, rot1, w1)" by (metis prod_cases3)
  obtain rest s2 where f: "filter_candidates (ee_proxy env) co ex is (rot1, w1) = (rest, s2)"
    by (cases "filter_candidates (ee_proxy env) co ex is (rot1, w1)")
  have "s2 = (rot', w')" using Cons.prems(2) r f by (auto split: if_splits)
  with Cons.IH [OF Cons.prems(1)] f readmit_clock [OF Cons.prems(1) r] show ?case by fastforce
qed simp

lemma first_healthy_clock:
  "monotone_clock env \<Longrightarrow> first_healthy (ee_proxy env) cs (rot, w) = (r, (rot', w')) \<Longrightarrow>
     ee_clock env w \<le> ee_clock env w'"
proof (induction cs arbitrary: rot w)
  case (Cons i cs)
  obtain b rot1 w1 where h: "health_check (ee_proxy env) i (rot, w) = (b, (rot1, w1))" by (metis prod_cases3)
  have le: "ee_clock env w \<le> ee_clock env w1"
    using Cons.prems(1) h unfolding monotone_clock_def health_check_def
    by (auto split: prod.splits sum.splits if_splits) (metis snd_conv)+
  show ?case
  proof (cases b)
    case True
    obtain t w2 where n: "pe_now (ee_proxy env) w1 = (t, w2)" by (cases "pe_now (ee_proxy env) w1")
    have "ee_clock env w1 \<le> ee_clock env w2" using Cons.prems(1) n unfolding monotone_clock_def by (metis snd_conv)
    then show ?thesis using Cons.prems(2) h n True le by simp
  next
    case False
    then show ?thesis using Cons h le by fastforce
  qed
qed simp

lemma get_proxy_clock:
  assumes "monotone_clock env"
  shows "en_now env s \<le> en_now env (snd (en_get_proxy env s))"
proof -
  obtain cs rot1 w1 where f: "filter_candidates (ee_proxy env) None True [0..<length (pr_proxies (en_rotator s))]
      (en_rotator s, en_world s) = (cs, (rot1, w1))" by (metis prod_cases3)
  obtain r rot2 w2 where h: "first_healthy (ee_proxy env) cs (rot1, w1) = (r, (rot2, w2))" by (metis prod_cases3)
  show ?thesis
    using filter_candidates_clock [OF assms f] first_healthy_clock [OF assms h] f h
    by (simp add: en_get_proxy_def get_healthy_proxy_def en_now_def)
qed

section \<open>The invariant\<close>

text \<open>
  The limiter is in a state of \<open>Rate_Limiter\<close> in which nobody waits, and the breaker's state of every
  domain is a digest of the logged calls.
\<close>

definition limiter_ok :: "('c, 'w) engine_env \<Rightarrow> limiter \<Rightarrow> 'w engine \<Rightarrow> bool" where
  "limiter_ok env rl0 s = (rl_reach rl0 (en_limiter s) \<and> rl_now (en_limiter s) \<le> en_now env s \<and>
     (\<forall>d. rl_waiters (en_limiter s) d = [] \<and> rl_holder (en_limiter s) d = None))"

definition breaker_ok :: "('c, 'w) engine_env \<Rightarrow> breaker \<Rightarrow> 'w engine \<Rightarrow> bool" where
  "breaker_ok env cb0 s = (cb_threshold (en_breaker s) = cb_threshold cb0 \<and> cb_pause_s (en_breaker s) = cb_pause_s cb0 \<and>
     cb_window_s (en_breaker s) = cb_window_s cb0 \<and>
     (\<forall>d. dom_ok cb0 (cb_state (en_breaker s) d) (failures_since d (en_calls s) []) (en_now env s)))"

definition engine_ok :: "('c, 'w) engine_env \<Rightarrow> breaker \<Rightarrow> limiter \<Rightarrow> 'w engine \<Rightarrow> bool" where
  "engine_ok env cb0 rl0 s = (limiter_ok env rl0 s \<and> breaker_ok env cb0 s)"

lemmas engine_ok_defs = engine_ok_def limiter_ok_def breaker_ok_def en_now_def

lemma failures_since_append: "failures_since d (xs @ ys) fs = failures_since d ys (failures_since d xs fs)"
  by (induction d xs fs rule: failures_since.induct) auto

lemma breaker_dom_ok:
  assumes "breaker_ok env cb0 s"
  shows "dom_ok (en_breaker s) (cb_state (en_breaker s) d) (failures_since d (en_calls s) []) (en_now env s)"
proof -
  have "dom_ok (en_breaker s) = dom_ok cb0" using assms by (intro dom_ok_cong) (simp_all add: breaker_ok_def)
  then show ?thesis using assms by (simp add: breaker_ok_def)
qed

lemma allow_ok:
  assumes "engine_ok env cb0 rl0 s"
  shows "engine_ok env cb0 rl0 (snd (en_allow env d s))"
proof -
  have b: "breaker_ok env cb0 s" using assms by (simp add: engine_ok_def)
  have "dom_ok cb0 (cb_state (snd (cb_allow d (en_now env s) (en_breaker s))) e)
      (failures_since e (en_calls s) []) (en_now env s)" for e
  proof -
    have "dom_ok (en_breaker s) = dom_ok cb0" using b by (intro dom_ok_cong) (simp_all add: breaker_ok_def)
    then show ?thesis using allow_keeps [OF breaker_dom_ok [OF b, of e], of d] by simp
  qed
  then show ?thesis
    using assms by (auto simp: engine_ok_defs en_allow_def failures_since_append split: prod.splits)
      (metis (no_types) cb_params snd_conv)+
qed

lemma record_ok:
  assumes "engine_ok env cb0 rl0 s" and "monotone_clock env" and "0 \<le> cb_pause_s cb0"
  shows "engine_ok env cb0 rl0 (en_record env d ok s)"
proof -
  have b: "breaker_ok env cb0 s" using assms by (simp add: engine_ok_def)
  have "0 \<le> en_now env s" "0 \<le> cb_pause_s (en_breaker s)"
    using assms b by (simp_all add: monotone_clock_def en_now_def breaker_ok_def)
  note keep = record_dom_ok [OF breaker_dom_ok [OF b] this]
  have keep: "dom_ok (en_breaker s) (cb_state (cb_record d ok (en_now env s) (en_breaker s)) e)
      (if d \<noteq> e then failures_since e (en_calls s) []
       else if ok then [] else failures_since e (en_calls s) [] @ [en_now env s]) (en_now env s)" for e
    by (rule keep)
  have "dom_ok (en_breaker s) = dom_ok cb0" using b by (intro dom_ok_cong) (simp_all add: breaker_ok_def)
  then have "dom_ok cb0 (cb_state (cb_record d ok (en_now env s) (en_breaker s)) e)
      (failures_since e (en_calls s @ [Record d ok (en_now env s)]) []) (en_now env s)" for e
    using keep [of e] by (simp add: failures_since_append)
  then show ?thesis using assms by (simp add: engine_ok_defs en_record_def)
qed

text \<open>Time passing in the rest of the world.\<close>

lemma world_ok:
  assumes "engine_ok env cb0 rl0 s" and "ee_clock env (en_world s) \<le> ee_clock env w"
  shows "engine_ok env cb0 rl0 (s\<lparr>en_world := w\<rparr>)"
  using assms dom_ok_later [of cb0 _ _ "ee_clock env (en_world s)" "ee_clock env w"]
  by (auto simp: engine_ok_defs)

lemma rotator_ok [simp]: "engine_ok env cb0 rl0 (s\<lparr>en_rotator := rot\<rparr>) = engine_ok env cb0 rl0 s"
  by (simp add: engine_ok_defs)

lemma get_proxy_ok:
  assumes "engine_ok env cb0 rl0 s" and "monotone_clock env"
  shows "engine_ok env cb0 rl0 (snd (en_get_proxy env s))"
proof -
  obtain i rot w where g: "get_healthy_proxy (ee_proxy env) None True (en_rotator s, en_world s) = (i, (rot, w))"
    by (metis prod_cases3)
  have "ee_clock env (en_world s) \<le> ee_clock env w"
    using get_proxy_clock [OF assms(2), of s] g by (simp add: en_get_proxy_def en_now_def)
  from world_ok [OF assms(1) this] show ?thesis
    using g by (simp add: en_get_proxy_def engine_ok_defs)
qed

text \<open>The uncontended \<open>acquire\<close> is a path of the limiter's step relation.\<close>

lemma acquire_reach:
  assumes "limiter_ok env rl0 s" and "monotone_clock env"
  shows "limiter_ok env rl0 (en_acquire env d s)" and "en_now env s \<le> en_now env (en_acquire env d s)"
proof -
  let ?rl = "(en_limiter s)\<lparr>rl_now := en_now env s\<rparr>"
  let ?c = "length (rl_requests ?rl)"
  let ?rl1 = "rl_enter d ?c [] (rl_request d ?c ?rl)"
  define wait where "wait = (case rl_next_allowed ?rl d of None \<Rightarrow> 0 | Some t \<Rightarrow> t) - rl_now ?rl"
  define w where "w = (if wait > 0 then ee_sleep env wait (en_world s) else en_world s)"
  have time: "en_now env s + max 0 wait \<le> ee_clock env w"
    using assms(2) by (auto simp: w_def monotone_clock_def en_now_def)
  have idle: "\<forall>e. rl_waiters (en_limiter s) e = [] \<and> rl_holder (en_limiter s) e = None"
    and le: "rl_now (en_limiter s) \<le> en_now env s" and reach: "rl_reach rl0 (en_limiter s)"
    using assms(1) by (simp_all add: limiter_ok_def)
  have acq: "en_acquire env d s = s\<lparr>en_limiter := rl_grant d ?c (?rl1\<lparr>rl_now := ee_clock env w\<rparr>), en_world := w\<rparr>"
    by (simp only: en_acquire_def Let_def wait_def w_def)
  have "rl_step (en_limiter s) ((en_limiter s)\<lparr>rl_now := rl_now (en_limiter s) + (en_now env s - rl_now (en_limiter s))\<rparr>)"
    using le by (intro rl_step.Tick) simp
  then have "rl_reach rl0 ?rl" using reach by (auto intro: rl_reach.step)
  then have "rl_reach rl0 (rl_request d ?c ?rl)" by (rule rl_reach.step) (rule rl_step.Request)
  then have r1: "rl_reach rl0 ?rl1"
    by (rule rl_reach.step) (rule rl_step.Enter, use idle in \<open>simp_all add: rl_request_def\<close>)
  have now1: "rl_now ?rl1 = en_now env s" by (simp add: rl_enter_def rl_request_def Let_def)
  have "rl_step ?rl1 (?rl1\<lparr>rl_now := rl_now ?rl1 + (ee_clock env w - rl_now ?rl1)\<rparr>)"
    using time now1 by (intro rl_step.Tick) simp
  then have r2: "rl_reach rl0 (?rl1\<lparr>rl_now := ee_clock env w\<rparr>)" using r1 by (auto intro: rl_reach.step)
  have held: "rl_holder (?rl1\<lparr>rl_now := ee_clock env w\<rparr>) d = Some (?c, en_now env s + max 0 wait)"
    by (simp add: rl_enter_def rl_request_def Let_def wait_def)
  have "rl_reach rl0 (rl_grant d ?c (?rl1\<lparr>rl_now := ee_clock env w\<rparr>))"
    by (rule rl_reach.step [OF r2 rl_step.Grant [OF held]]) (use time in simp)
  then show "limiter_ok env rl0 (en_acquire env d s)"
    unfolding acq using idle by (simp add: limiter_ok_def en_now_def rl_defs)
  show "en_now env s \<le> en_now env (en_acquire env d s)"
    using time unfolding acq by (simp add: en_now_def)
qed

lemma acquire_ok:
  assumes "engine_ok env cb0 rl0 s" and "monotone_clock env"
  shows "engine_ok env cb0 rl0 (en_acquire env d s)"
proof -
  have l: "limiter_ok env rl0 s" using assms(1) by (simp add: engine_ok_def)
  have same: "en_breaker (en_acquire env d s) = en_breaker s" "en_calls (en_acquire env d s) = en_calls s"
    by (simp_all add: en_acquire_def Let_def)
  have "breaker_ok env cb0 (en_acquire env d s)"
    using assms(1) acquire_reach(2) [OF l assms(2), of d] dom_ok_later
    unfolding engine_ok_def breaker_ok_def same by blast
  with acquire_reach(1) [OF l assms(2)] show ?thesis by (simp add: engine_ok_def)
qed

lemma on_world_ok:
  assumes "engine_ok env cb0 rl0 s" and "\<And>w. ee_clock env w \<le> ee_clock env (snd (f w))"
  shows "engine_ok env cb0 rl0 (snd (on_world f s))"
  using world_ok [OF assms(1), of "snd (f (en_world s))"] assms(2) [of "en_world s"]
  by (auto simp: on_world_def split: prod.splits)

text \<open>The branches of \<open>scrape\<close> for a URL with a domain.\<close>

lemma scrape_refused:
  "url_domain u = Inr d \<Longrightarrow> \<not> fst (cb_allow d (en_now env s) (en_breaker s)) \<Longrightarrow>
     engine_scrape env u s = (Inr (refused d), s\<lparr>en_calls := en_calls s @ [Allow d (en_now env s)]\<rparr>)"
  by (auto simp: engine_scrape_def en_allow_def cb_allow_def split: option.splits if_splits prod.splits)

lemma scrape_allowed:
  assumes "url_domain u = Inr d" and "fst (cb_allow d (en_now env s) (en_breaker s))"
  obtains proxy s3 ans w4 where
    "en_get_proxy env (en_acquire env d (snd (en_allow env d s))) = (proxy, s3)"
    "ee_scrape env (route env d) proxy u (en_world s3) = (ans, w4)"
    "engine_scrape env u s = (case dispatch_result (ee_driver env (route env d)) ans of
        Inl e \<Rightarrow> (Inl e, s3\<lparr>en_world := w4\<rparr>)
      | Inr result \<Rightarrow>
          (let s5 = en_record env d (sr_status result = ''success'') (s3\<lparr>en_world := w4\<rparr>) in
           case ee_sink env of
             Some wr \<Rightarrow> if sr_status result = ''success''
               then py_bind (on_world (wr result)) (\<lambda>_. py_ret result) s5 else (Inr result, s5)
           | None \<Rightarrow> (Inr result, s5)))"
proof -
  obtain s1 where a: "en_allow env d s = (True, s1)"
    using assms(2) by (cases "en_allow env d s") (auto simp: en_allow_def split: prod.splits)
  obtain proxy s3 where g: "en_get_proxy env (en_acquire env d s1) = (proxy, s3)"
    by (cases "en_get_proxy env (en_acquire env d s1)")
  obtain ans w4 where f: "ee_scrape env (route env d) proxy u (en_world s3) = (ans, w4)"
    by (cases "ee_scrape env (route env d) proxy u (en_world s3)")
  show ?thesis
    by (rule that [of proxy s3 ans w4]) (simp_all add: a g f engine_scrape_def assms(1) on_world_def Let_def)
qed

lemma scrape_ok:
  assumes "engine_ok env cb0 rl0 s" and "monotone_clock env" and "0 \<le> cb_pause_s cb0"
  shows "engine_ok env cb0 rl0 (snd (engine_scrape env u s))"
proof (cases "url_domain u")
  case (Inl e)
  then show ?thesis using assms(1) by (simp add: engine_scrape_def)
next
  case d: (Inr d)
  show ?thesis
  proof (cases "fst (cb_allow d (en_now env s) (en_breaker s))")
    case False
    have "snd (en_allow env d s) = s\<lparr>en_calls := en_calls s @ [Allow d (en_now env s)]\<rparr>"
      using False by (auto simp: en_allow_def cb_allow_def split: option.splits if_splits)
    then show ?thesis using scrape_refused [OF d False] allow_ok [OF assms(1), of d] by simp
  next
    case True
    obtain proxy s3 ans w4 where b: "en_get_proxy env (en_acquire env d (snd (en_allow env d s))) = (proxy, s3)"
      "ee_scrape env (route env d) proxy u (en_world s3) = (ans, w4)"
      "engine_scrape env u s = (case dispatch_result (ee_driver env (route env d)) ans of
          Inl e \<Rightarrow> (Inl e, s3\<lparr>en_world := w4\<rparr>)
        | Inr result \<Rightarrow>
            (let s5 = en_record env d (sr_status result = ''success'') (s3\<lparr>en_world := w4\<rparr>) in
             case ee_sink env of
               Some wr \<Rightarrow> if sr_status result = ''success''
                 then py_bind (on_world (wr result)) (\<lambda>_. py_ret result) s5 else (Inr result, s5)
             | None \<Rightarrow> (Inr result, s5)))"
      by (rule scrape_allowed [OF d True])
    have "engine_ok env cb0 rl0 s3"
      using get_proxy_ok [OF acquire_ok [OF allow_ok [OF assms(1)] assms(2)] assms(2), of d d] b(1) by simp
    moreover have "ee_clock env (en_world s3) \<le> ee_clock env w4"
      using assms(2) b(2) unfolding monotone_clock_def by (metis snd_conv)
    ultimately have s4: "engine_ok env cb0 rl0 (s3\<lparr>en_world := w4\<rparr>)" by (rule world_ok)
    show ?thesis
    proof (cases "dispatch_result (ee_driver env (route env d)) ans")
      case (Inl e)
      then show ?thesis using b(3) s4 by simp
    next
      case (Inr result)
      let ?s5 = "en_record env d (sr_status result = ''success'') (s3\<lparr>en_world := w4\<rparr>)"
      have s5: "engine_ok env cb0 rl0 ?s5" by (rule record_ok [OF s4 assms(2,3)])
      show ?thesis
      proof (cases "ee_sink env")
        case None
        then show ?thesis using b(3) Inr s5 by (simp add: Let_def)
      next
        case (Some wr)
        have "engine_ok env cb0 rl0 (snd (on_world (wr result) ?s5))"
          by (rule on_world_ok [OF s5]) (use assms(2) Some in \<open>simp add: monotone_clock_def\<close>)
        then show ?thesis
          using b(3) Inr s5 Some by (auto simp: Let_def py_monad_defs split: prod.splits sum.splits)
      qed
    qed
  qed
qed

lemma run_ok:
  "engine_ok env cb0 rl0 s \<Longrightarrow> monotone_clock env \<Longrightarrow> 0 \<le> cb_pause_s cb0 \<Longrightarrow>
     engine_ok env cb0 rl0 (snd (engine_run env us s))"
proof (induction us arbitrary: s)
  case (Cons u us)
  obtain r s1 where r: "engine_scrape env u s = (r, s1)" by (cases "engine_scrape env u s")
  have "engine_ok env cb0 rl0 s1" using scrape_ok [OF Cons.prems, of u] r by simp
  with Cons show ?case by (simp add: r split: prod.splits) (metis snd_conv)
qed simp

lemma init_ok:
  assumes "now0 \<le> ee_clock env w0"
  shows "engine_ok env (cb_init th pm wm) (rl_init df ov now0) (engine_init (cb_init th pm wm) (rl_init df ov now0) rot w0)"
  using assms
  by (simp add: engine_ok_defs engine_init_def rl_reach.init) (simp add: rl_init_def cb_init_def dom_ok_def)

section \<open>Properties\<close>

lemma get_proxy_healthy:
  assumes "en_get_proxy env s = (proxy, s')"
  shows "en_limiter s' = en_limiter s \<and> en_breaker s' = en_breaker s \<and> en_calls s' = en_calls s \<and>
    (\<forall>p. proxy = Some p \<longrightarrow> (\<exists>q \<in> set (pr_proxies (en_rotator s')). px_url q = p \<and> px_health_status q = ''healthy''))"
proof -
  obtain cs rot1 w1 where f: "filter_candidates (ee_proxy env) None True [0..<length (pr_proxies (en_rotator s))]
      (en_rotator s, en_world s) = (cs, (rot1, w1))" by (metis prod_cases3)
  obtain r rot2 w2 where h: "first_healthy (ee_proxy env) cs (rot1, w1) = (r, (rot2, w2))" by (metis prod_cases3)
  have s': "s' = s\<lparr>en_rotator := rot2, en_world := w2\<rparr>" "proxy = map_option (\<lambda>i. px_url (pr_proxies rot2 ! i)) r"
    using assms f h by (simp_all add: en_get_proxy_def get_healthy_proxy_def)
  have cs: "\<forall>i \<in> set cs. i < length (pr_proxies rot1)" "distinct cs"
    using filter_candidates_props [OF f] by auto
  have len: "length (pr_proxies rot2) = length (pr_proxies rot1)"
    using first_healthy_length [OF h] .
  have "\<exists>q \<in> set (pr_proxies rot2). px_url q = p \<and> px_health_status q = ''healthy''" if "proxy = Some p" for p
  proof -
    have "map_option (\<lambda>i. px_url (pr_proxies rot2 ! i)) r = Some p" using that s'(2) by simp
    then obtain i where i: "r = Some i" "p = px_url (pr_proxies rot2 ! i)" by (cases r) auto
    then obtain xs ys where "cs = xs @ i # ys" "px_health_status (pr_proxies rot2 ! i) = ''healthy''"
      using first_healthy_props [OF h cs] by auto
    with i cs(1) len show ?thesis by (intro bexI [of _ "pr_proxies rot2 ! i"]) auto
  qed
  then show ?thesis using s'(1) by simp
qed

text \<open>A call that is not refused takes one slot.\<close>

lemma scrape_slot:
  assumes "url_domain u = Inr d" and "fst (cb_allow d (en_now env s) (en_breaker s))"
  obtains c t where "rl_log (en_limiter (snd (engine_scrape env u s))) = (d, c, t) # rl_log (en_limiter s)"
proof -
  obtain proxy s3 ans w4 where b: "en_get_proxy env (en_acquire env d (snd (en_allow env d s))) = (proxy, s3)"
    "ee_scrape env (route env d) proxy u (en_world s3) = (ans, w4)"
    "engine_scrape env u s = (case dispatch_result (ee_driver env (route env d)) ans of
        Inl e \<Rightarrow> (Inl e, s3\<lparr>en_world := w4\<rparr>)
      | Inr result \<Rightarrow>
          (let s5 = en_record env d (sr_status result = ''success'') (s3\<lparr>en_world := w4\<rparr>) in
           case ee_sink env of
             Some wr \<Rightarrow> if sr_status result = ''success''
               then py_bind (on_world (wr result)) (\<lambda>_. py_ret result) s5 else (Inr result, s5)
           | None \<Rightarrow> (Inr result, s5)))"
    by (rule scrape_allowed [OF assms])
  have "en_limiter (snd (en_allow env d s)) = en_limiter s" by (simp add: en_allow_def split: prod.splits)
  then obtain c t where log: "rl_log (en_limiter s3) = (d, c, t) # rl_log (en_limiter s)"
    using get_proxy_healthy [OF b(1)] by (simp add: en_acquire_def rl_defs)
  have "en_limiter (snd (engine_scrape env u s)) = en_limiter s3"
    unfolding b(3)
    by (auto simp: Let_def en_record_def py_monad_defs on_world_def split: sum.splits option.splits prod.splits)
  with log show ?thesis by (intro that) simp
qed

text \<open>The clauses of the \<open>try\<close>: what becomes a result, and what goes on.\<close>

lemma dispatch_caught:
  "dispatch_result drv (Inl e) = Inr result \<Longrightarrow> is_scrapeforge_error e \<and> sr_error result = Some (exn_str e) \<and> sr_status result \<noteq> ''success''"
  by (cases e) (auto simp: dispatch_result_def exn_status_def mk_result_def)

lemma dispatch_raised:
  "dispatch_result drv ans = Inl e \<Longrightarrow> ans = Inl e \<and> \<not> is_scrapeforge_error e"
  by (cases ans) (auto simp: dispatch_result_def exn_status_def split: exn.splits if_splits)

lemma admitted_state:
  "\<exists>c t. rl_log (en_limiter (en_acquire env d (snd (en_allow env d s)))) = (d, c, t) # rl_log (en_limiter s) \<and>
     en_calls (en_acquire env d (snd (en_allow env d s))) = en_calls s @ [Allow d (en_now env s)]"
  by (simp add: en_allow_def en_acquire_def rl_defs split: prod.splits)

text \<open>What is recorded and stored for a result.\<close>

lemma result_effects:
  assumes "(r, s') = (let s5 = en_record env d (sr_status result = ''success'') (s3\<lparr>en_world := w4\<rparr>) in
      case ee_sink env of
        Some wr \<Rightarrow> if sr_status result = ''success''
          then py_bind (on_world (wr result)) (\<lambda>_. py_ret result) s5 else (Inr result, s5)
      | None \<Rightarrow> (Inr result, s5))"
  shows "en_calls s' = en_calls s3 @ [Record d (sr_status result = ''success'') (ee_clock env w4)] \<and>
    en_limiter s' = en_limiter s3 \<and> en_rotator s' = en_rotator s3 \<and>
    (case ee_sink env of
       Some put \<Rightarrow> if sr_status result = ''success''
         then (\<exists>x. put result w4 = (x, en_world s') \<and> r = map_sum (\<lambda>e. e) (\<lambda>_. result) x)
         else r = Inr result \<and> en_world s' = w4
     | None \<Rightarrow> r = Inr result \<and> en_world s' = w4)"
  using assms
  by (auto simp: Let_def en_record_def en_now_def py_monad_defs on_world_def split: option.splits if_splits prod.splits sum.splits)

text \<open>
  C10.  One call of \<open>scrape\<close>.  If the breaker is open for the domain, the answer says so and nothing
  else happens: no slot is taken, no proxy probed, no page fetched.  If not, exactly one slot of the
  domain is taken and the scraper of the route is called once, with a proxy that has passed its check or
  with none; a ScrapeForge exception becomes a result with its status and message, any
  other is raised without being recorded; every result is recorded once for the domain, as a success iff
  its status is \<open>success\<close>; and the sink is called on it, once, iff it is one.
\<close>

theorem engine_scrape_effects:
  assumes "url_domain u = Inr d" and "engine_scrape env u s = (r, s')"
  shows "if \<not> fst (cb_allow d (en_now env s) (en_breaker s))
    then r = Inr (refused d) \<and> s' = s\<lparr>en_calls := en_calls s @ [Allow d (en_now env s)]\<rparr>
    else \<exists>proxy w3 ans w4 c t. ee_scrape env (route env d) proxy u w3 = (ans, w4) \<and>
      rl_log (en_limiter s') = (d, c, t) # rl_log (en_limiter s) \<and>
      (\<forall>p. proxy = Some p \<longrightarrow> (\<exists>q \<in> set (pr_proxies (en_rotator s')). px_url q = p \<and> px_health_status q = ''healthy'')) \<and>
      (case dispatch_result (ee_driver env (route env d)) ans of
         Inl e \<Rightarrow> ans = Inl e \<and> \<not> is_scrapeforge_error e \<and> r = Inl e \<and> en_world s' = w4 \<and>
           en_calls s' = en_calls s @ [Allow d (en_now env s)]
       | Inr result \<Rightarrow>
           en_calls s' = en_calls s @ [Allow d (en_now env s), Record d (sr_status result = ''success'') (ee_clock env w4)] \<and>
           (\<forall>e. ans = Inl e \<longrightarrow> is_scrapeforge_error e \<and> sr_error result = Some (exn_str e) \<and> sr_status result \<noteq> ''success'') \<and>
           (case ee_sink env of
              Some put \<Rightarrow> if sr_status result = ''success''
                then (\<exists>x. put result w4 = (x, en_world s') \<and> r = map_sum (\<lambda>e. e) (\<lambda>_. result) x)
                else r = Inr result \<and> en_world s' = w4
            | None \<Rightarrow> r = Inr result \<and> en_world s' = w4))"
proof (cases "fst (cb_allow d (en_now env s) (en_breaker s))")
  case False
  then show ?thesis using scrape_refused [OF assms(1) False] assms(2) by simp
next
  case True
  obtain proxy s3 ans w4 where b: "en_get_proxy env (en_acquire env d (snd (en_allow env d s))) = (proxy, s3)"
    "ee_scrape env (route env d) proxy u (en_world s3) = (ans, w4)"
    "engine_scrape env u s = (case dispatch_result (ee_driver env (route env d)) ans of
        Inl e \<Rightarrow> (Inl e, s3\<lparr>en_world := w4\<rparr>)
      | Inr result \<Rightarrow>
          (let s5 = en_record env d (sr_status result = ''success'') (s3\<lparr>en_world := w4\<rparr>) in
           case ee_sink env of
             Some wr \<Rightarrow> if sr_status result = ''success''
               then py_bind (on_world (wr result)) (\<lambda>_. py_ret result) s5 else (Inr result, s5)
           | None \<Rightarrow> (Inr result, s5)))"
    by (rule scrape_allowed [OF assms(1) True])
  obtain c t where log: "rl_log (en_limiter (en_acquire env d (snd (en_allow env d s)))) = (d, c, t) # rl_log (en_limiter s)"
    and calls: "en_calls (en_acquire env d (snd (en_allow env d s))) = en_calls s @ [Allow d (en_now env s)]"
    using admitted_state by blast
  note g = get_proxy_healthy [OF b(1)]
  have neg: "\<not> \<not> fst (cb_allow d (en_now env s) (en_breaker s))" using True by simp
  show ?thesis
  proof (cases "dispatch_result (ee_driver env (route env d)) ans")
    case (Inl e)
    have "engine_scrape env u s = (Inl e, s3\<lparr>en_world := w4\<rparr>)" using b(3) by (simp only: Inl sum.case)
    then have eqs: "r = Inl e" "s' = s3\<lparr>en_world := w4\<rparr>" using assms(2) by auto
    show ?thesis
      unfolding if_not_P [OF neg]
      by (rule exI [of _ proxy], rule exI [of _ "en_world s3"], rule exI [of _ ans], rule exI [of _ w4], rule exI [of _ c], rule exI [of _ t]) (use eqs dispatch_raised [OF Inl] Inl b(2) g log calls in simp)
  next
    case (Inr result)
    have caught: "\<forall>e. ans = Inl e \<longrightarrow> is_scrapeforge_error e \<and> sr_error result = Some (exn_str e) \<and> sr_status result \<noteq> ''success''"
      using Inr dispatch_caught by blast
    have "(r, s') = (let s5 = en_record env d (sr_status result = ''success'') (s3\<lparr>en_world := w4\<rparr>) in
      case ee_sink env of
        Some wr \<Rightarrow> if sr_status result = ''success''
          then py_bind (on_world (wr result)) (\<lambda>_. py_ret result) s5 else (Inr result, s5)
      | None \<Rightarrow> (Inr result, s5))" using assms(2) b(3) by (simp only: Inr sum.case)
    note eff = result_effects [OF this]
    show ?thesis
      unfolding if_not_P [OF neg]
      by (rule exI [of _ proxy], rule exI [of _ "en_world s3"], rule exI [of _ ans], rule exI [of _ w4], rule exI [of _ c], rule exI [of _ t]) (use eff b(2) Inr caught g log calls in simp)
  qed
qed

text \<open>
  C1.  The gate is the documented policy, end to end: after any sequence of \<open>scrape\<close> calls with a clock
  that does not run backwards, the next call for a domain is refused exactly when one of the
  failures recorded for the domain since its last success was at least the \<open>threshold\<close>-th within its
  window and lies less than the pause back.
\<close>

theorem engine_refuses_iff_paused:
  assumes "monotone_clock env" and "0 \<le> pause_minutes" and "now0 \<le> ee_clock env w0"
    and "snd (engine_run env us (engine_init (cb_init threshold pause_minutes window_minutes)
           (rl_init dflt overrides now0) rot w0)) = s"
    and "url_domain u = Inr d"
  shows "fst (engine_scrape env u s) = Inr (refused d) \<and> en_world (snd (engine_scrape env u s)) = en_world s
      \<and> rl_log (en_limiter (snd (engine_scrape env u s))) = rl_log (en_limiter s)
    \<longleftrightarrow> hist_open threshold (of_int pause_minutes * 60) (of_int window_minutes * 60)
          (failures_since d (en_calls s) []) (en_now env s)"
proof -
  let ?cb = "cb_init threshold pause_minutes window_minutes"
  have "engine_ok env ?cb (rl_init dflt overrides now0) s"
    using run_ok [OF init_ok [OF assms(3), of threshold pause_minutes window_minutes dflt overrides rot] assms(1), of us]
      assms(2,4) by (simp add: cb_init_def)
  then have b: "breaker_ok env ?cb s" by (simp add: engine_ok_def)
  have gate: "fst (cb_allow d (en_now env s) (en_breaker s)) \<longleftrightarrow>
      \<not> hist_open threshold (of_int pause_minutes * 60) (of_int window_minutes * 60)
          (failures_since d (en_calls s) []) (en_now env s)"
    using allow_dom_ok [OF breaker_dom_ok [OF b, of d]] b by (simp add: breaker_ok_def cb_init_def)
  show ?thesis
  proof (cases "fst (cb_allow d (en_now env s) (en_breaker s))")
    case False
    then show ?thesis using gate scrape_refused [OF assms(5) False] by simp
  next
    case True
    obtain c t where "rl_log (en_limiter (snd (engine_scrape env u s))) = (d, c, t) # rl_log (en_limiter s)"
      by (rule scrape_slot [OF assms(5) True])
    then show ?thesis using gate True by simp
  qed
qed

text \<open>
  Politeness, end to end: whatever URLs an engine is asked for, two successive slots it takes for
  one domain are at least the domain's interval apart.
\<close>

theorem engine_polite:
  assumes "monotone_clock env" and "0 \<le> pause_minutes" and "now0 \<le> ee_clock env w0"
  shows "spaced (case overrides d of Some i \<Rightarrow> i | None \<Rightarrow> dflt) (map snd (grants d (en_limiter
    (snd (engine_run env us (engine_init (cb_init threshold pause_minutes window_minutes)
           (rl_init dflt overrides now0) rot w0))))))"
proof -
  have "engine_ok env (cb_init threshold pause_minutes window_minutes) (rl_init dflt overrides now0)
      (snd (engine_run env us (engine_init (cb_init threshold pause_minutes window_minutes)
           (rl_init dflt overrides now0) rot w0)))"
    using run_ok [OF init_ok [OF assms(3)] assms(1)] assms(2) by (simp add: cb_init_def)
  then have reach: "rl_reach (rl_init dflt overrides now0) (en_limiter (snd (engine_run env us
      (engine_init (cb_init threshold pause_minutes window_minutes) (rl_init dflt overrides now0) rot w0))))"
    unfolding engine_ok_def limiter_ok_def by blast
  show ?thesis
    using rl_inv_reach [OF reach rl_inv_init, of d] unfolding rl_inv_def rl_interval_init by auto
qed

text \<open>A world that is its clock: each fetch takes a second and fails.\<close>

definition failing_env :: "(unit, real) engine_env" where
  "failing_env = \<lparr>ee_clock = \<lambda>w. \<bar>w\<bar>, ee_sleep = \<lambda>t w. \<bar>w\<bar> + \<bar>t\<bar>, ee_registry = \<lambda>_. None, ee_public = (),
     ee_driver = \<lambda>_. ''curl_cffi'', ee_proxy = \<lparr>pe_get = \<lambda>u h w. (Inr 200, w), pe_now = \<lambda>w. (0, w)\<rparr>,
     ee_scrape = \<lambda>c p u w. (Inl (DriverError ''no route''), \<bar>w\<bar> + 1), ee_sink = None\<rparr>"

definition failing_start :: "real engine" where
  "failing_start = engine_init (cb_init 2 30 10) (rl_init 1 (\<lambda>_. None) 0) (rotator_init (\<lambda>_. None) None None) 0"

definition failing_url :: string where "failing_url = ''https://ft.com/a''"

lemma failing_clock: "monotone_clock failing_env"
  by (simp add: monotone_clock_def failing_env_def abs_ge_self)

lemma failing_domain: "url_domain failing_url = Inr ''ft.com''"
  unfolding failing_url_def by code_simp

lemmas engine_eval = engine_scrape_def en_allow_def cb_allow_def en_acquire_def rl_defs en_get_proxy_def
  get_healthy_proxy_def on_world_def dispatch_result_def exn_status_def en_record_def cb_record_def en_now_def
  mk_result_def

lemma failing_calls:
  "en_calls (snd (engine_run failing_env [failing_url, failing_url] failing_start)) =
     [Allow ''ft.com'' 0, Record ''ft.com'' False 1, Allow ''ft.com'' 1, Record ''ft.com'' False 2] \<and>
   en_now failing_env (snd (engine_run failing_env [failing_url, failing_url] failing_start)) = 2 \<and>
   en_calls failing_start = [] \<and> en_now failing_env failing_start = 0"
  by (simp add: engine_eval failing_domain failing_env_def failing_start_def engine_init_def cb_init_def rl_init_def
      rotator_init_def load_proxies_def)

theorem engine_refuses_iff_paused_witness:
  "fst (engine_scrape failing_env failing_url (snd (engine_run failing_env [failing_url, failing_url] failing_start)))
     = Inr (refused ''ft.com'')"
proof -
  have "hist_open 2 (of_int 30 * 60) (of_int 10 * 60) [1, 2] 2"
    unfolding hist_open_def by (rule exI [of _ 1]) (simp add: trips_def)
  then show ?thesis
    using engine_refuses_iff_paused [OF failing_clock _ _ refl failing_domain, where pause_minutes = 30 and ?now0.0 = 0 and
        ?w0.0 = 0 and us = "[failing_url, failing_url]" and threshold = 2 and window_minutes = 10 and dflt = 1 and
        overrides = "\<lambda>_. None" and rot = "rotator_init (\<lambda>_. None) None None"] failing_calls
    by (simp add: failing_start_def [symmetric] failing_env_def)
qed

theorem engine_polite_witness:
  "spaced 1 (map snd (grants ''ft.com'' (en_limiter (snd (engine_run failing_env [failing_url, failing_url] failing_start)))))"
  using engine_polite [OF failing_clock, where pause_minutes = 30 and ?now0.0 = 0 and ?w0.0 = 0 and overrides = "\<lambda>_. None" and
      d = "''ft.com''" and dflt = 1 and us = "[failing_url, failing_url]" and threshold = 2 and window_minutes = 10 and
      rot = "rotator_init (\<lambda>_. None) None None"]
  by (simp add: failing_start_def [symmetric] failing_env_def)

theorem engine_scrape_effects_witness:
  "\<exists>r s' t. engine_scrape failing_env failing_url failing_start = (r, s') \<and>
    en_calls s' = [Allow ''ft.com'' 0, Record ''ft.com'' False t]"
proof -
  obtain r s' where rs: "engine_scrape failing_env failing_url failing_start = (r, s')" by (metis surj_pair)
  have a: "\<not> \<not> fst (cb_allow ''ft.com'' (en_now failing_env failing_start) (en_breaker failing_start))"
    by (simp add: failing_start_def engine_init_def cb_init_def cb_allow_def)
  have fetch: "ee_scrape failing_env c p u w = (Inl (DriverError ''no route''), \<bar>w\<bar> + 1)" for c p u w
    by (simp add: failing_env_def)
  have err: "dispatch_result drv (Inl (DriverError ''no route'')) =
      Inr ((mk_result ''error'' drv)\<lparr>sr_error := Some ''no route''\<rparr>)" for drv
    by (simp add: dispatch_result_def exn_status_def)
  have "\<exists>t. en_calls s' = [Allow ''ft.com'' 0, Record ''ft.com'' False t]"
    using engine_scrape_effects [OF failing_domain rs] failing_calls
    unfolding if_not_P [OF a] fetch by (auto simp: err mk_result_def)
  with rs show ?thesis by blast
qed

end
