(* ===== verification/Engine_Batch.thy ===== *)
theory Engine_Batch
  imports Engine
begin

text \<open>
  \<open>ScrapeEngine.batch_scrape\<close> (\<open>core/engine.py\<close>): many calls of \<open>scrape\<close> at once, on one breaker, one limiter
  and one rotator.

  A call waits for the lock of its domain, in the sleep of \<open>acquire\<close>, for the probe of each proxy, for the
  scraper and for the sink, and the event loop runs others meanwhile.  A step is what one call does between
  two waits; where a wait turns out to be none, two steps follow each other.  The lock and the sleep are
  those of \<open>Rate_Limiter\<close>, with the index of the URL as the number of the call.  Between two steps the
  rest of the world may change in any way in which its clock does not run backwards; what a scraper, a
  probe or the sink does to it counts from the moment it answers.

  \<open>eb_raised\<close> is the exception \<open>asyncio.gather\<close> hands to the caller, the first in time; the other calls go on.
  \<open>eb_fetched\<close> logs the domains of the calls whose scraper has answered, newest first, for the statements.
\<close>

section \<open>One call\<close>

datatype call =
    Fresh
  | Locking string
  | Sleeping string
  | Granted string
  | Probing string "nat list"
  | Fetching string "string option"
  | Storing scrape_result
  | Ended "exn + scrape_result"

text \<open>Up to the lock: steps 1 and 2, and the first part of \<open>acquire\<close>.\<close>

definition on_limiter :: "('c, 'w) engine_env \<Rightarrow> (limiter \<Rightarrow> limiter) \<Rightarrow> 'w engine \<Rightarrow> 'w engine" where
  "on_limiter env f s = s\<lparr>en_limiter := f ((en_limiter s)\<lparr>rl_now := en_now env s\<rparr>)\<rparr>"

definition call_begin :: "('c, 'w) engine_env \<Rightarrow> nat \<Rightarrow> string \<Rightarrow> 'w engine \<Rightarrow> call \<times> 'w engine" where
  "call_begin env i u s = (case url_domain u of
      Inl e \<Rightarrow> (Ended (Inl e), s)
    | Inr d \<Rightarrow> (case en_allow env d s of
        (False, s1) \<Rightarrow> (Ended (Inr (refused d)), s1)
      | (True, s1) \<Rightarrow> (Locking d, on_limiter env (rl_request d i) s1)))"

text \<open>The candidates of \<open>get_healthy_proxy\<close>, and one turn of its loop.\<close>

definition call_candidates :: "('c, 'w) engine_env \<Rightarrow> string \<Rightarrow> 'w engine \<Rightarrow> call \<times> 'w engine" where
  "call_candidates env d s =
     (case filter_candidates (ee_proxy env) None True [0..<length (pr_proxies (en_rotator s))] (en_rotator s, en_world s) of
        (cs, (rot, w)) \<Rightarrow> (Probing d cs, s\<lparr>en_rotator := rot, en_world := w\<rparr>))"

definition call_probe :: "('c, 'w) engine_env \<Rightarrow> string \<Rightarrow> nat list \<Rightarrow> 'w engine \<Rightarrow> call \<times> 'w engine" where
  "call_probe env d is s = (case is of
      [] \<Rightarrow> (Fetching d None, s)
    | i # rest \<Rightarrow> (case first_healthy (ee_proxy env) [i] (en_rotator s, en_world s) of
        (found, (rot, w)) \<Rightarrow> ((case found of Some j \<Rightarrow> Fetching d (Some (px_url (pr_proxies rot ! j))) | None \<Rightarrow> Probing d rest),
          s\<lparr>en_rotator := rot, en_world := w\<rparr>)))"

text \<open>The answer of the scraper, recorded: steps 6 to 8.  The sink: step 9.\<close>

definition call_fetch :: "('c, 'w) engine_env \<Rightarrow> string \<Rightarrow> string option \<Rightarrow> string \<Rightarrow> 'w engine \<Rightarrow> call \<times> 'w engine" where
  "call_fetch env d proxy u s = (case on_world (ee_scrape env (route env d) proxy u) s of
     (answer, s1) \<Rightarrow> (case dispatch_result (ee_driver env (route env d)) answer of
        Inl e \<Rightarrow> (Ended (Inl e), s1)
      | Inr result \<Rightarrow> (if sr_status result = ''success'' \<and> ee_sink env \<noteq> None then Storing result else Ended (Inr result),
          en_record env d (sr_status result = ''success'') s1)))"

definition call_store :: "('c, 'w) engine_env \<Rightarrow> scrape_result \<Rightarrow> 'w engine \<Rightarrow> call \<times> 'w engine" where
  "call_store env result s = (case ee_sink env of
      None \<Rightarrow> (Ended (Inr result), s)
    | Some wr \<Rightarrow> (case on_world (wr result) s of (x, s1) \<Rightarrow> (Ended (map_sum (\<lambda>e. e) (\<lambda>_. result) x), s1)))"

section \<open>The batch\<close>

record 'w eng_batch =
  eb_urls :: "string list"
  eb_calls :: "call list"
  eb_engine :: "'w engine"
  eb_raised :: "exn option"
  eb_fetched :: "string list"

definition eb_init :: "string list \<Rightarrow> 'w engine \<Rightarrow> 'w eng_batch" where
  "eb_init urls s = \<lparr>eb_urls = urls, eb_calls = replicate (length urls) Fresh, eb_engine = s, eb_raised = None, eb_fetched = []\<rparr>"

definition settle_call :: "nat \<Rightarrow> call \<times> 'w engine \<Rightarrow> 'w eng_batch \<Rightarrow> 'w eng_batch" where
  "settle_call i cs b = b\<lparr>eb_calls := (eb_calls b)[i := fst cs], eb_engine := snd cs,
     eb_raised := (case (eb_raised b, fst cs) of (None, Ended (Inl e)) \<Rightarrow> Some e | _ \<Rightarrow> eb_raised b)\<rparr>"

definition eb_passes :: "('c, 'w) engine_env \<Rightarrow> 'w \<Rightarrow> 'w eng_batch \<Rightarrow> 'w eng_batch \<Rightarrow> bool" where
  "eb_passes env w b b' = (ee_clock env (en_world (eb_engine b)) \<le> ee_clock env w \<and> b' = b\<lparr>eb_engine := (eb_engine b)\<lparr>en_world := w\<rparr>\<rparr>)"

lemma settle_simps [simp]:
  "eb_calls (settle_call i cs b) = (eb_calls b)[i := fst cs]" "eb_engine (settle_call i cs b) = snd cs"
  "eb_urls (settle_call i cs b) = eb_urls b" "eb_fetched (settle_call i cs b) = eb_fetched b"
  by (simp_all add: settle_call_def)

lemma logged_simps:
  "eb_calls (b\<lparr>eb_fetched := ds\<rparr>) = eb_calls b" "eb_engine (b\<lparr>eb_fetched := ds\<rparr>) = eb_engine b" "eb_fetched (b\<lparr>eb_fetched := ds\<rparr>) = ds"
  by simp_all

inductive eb_work :: "('c, 'w) engine_env \<Rightarrow> 'w eng_batch \<Rightarrow> 'w eng_batch \<Rightarrow> bool" for env b where
  Begin: "i < length (eb_calls b) \<Longrightarrow> eb_calls b ! i = Fresh \<Longrightarrow>
     eb_work env b (settle_call i (call_begin env i (eb_urls b ! i) (eb_engine b)) b)"
| Enter: "rl_holder (en_limiter (eb_engine b)) d = None \<Longrightarrow> rl_waiters (en_limiter (eb_engine b)) d = i # is \<Longrightarrow>
     eb_work env b (settle_call i (Sleeping d, on_limiter env (rl_enter d i is) (eb_engine b)) b)"
| Wake: "rl_holder (en_limiter (eb_engine b)) d = Some (i, t) \<Longrightarrow> t \<le> en_now env (eb_engine b) \<Longrightarrow>
     eb_work env b (settle_call i (Granted d, on_limiter env (rl_grant d i) (eb_engine b)) b)"
| Candidates: "i < length (eb_calls b) \<Longrightarrow> eb_calls b ! i = Granted d \<Longrightarrow>
     eb_work env b (settle_call i (call_candidates env d (eb_engine b)) b)"
| Probe: "i < length (eb_calls b) \<Longrightarrow> eb_calls b ! i = Probing d is \<Longrightarrow>
     eb_work env b (settle_call i (call_probe env d is (eb_engine b)) b)"
| Fetch: "i < length (eb_calls b) \<Longrightarrow> eb_calls b ! i = Fetching d proxy \<Longrightarrow>
     eb_work env b ((settle_call i (call_fetch env d proxy (eb_urls b ! i) (eb_engine b)) b)\<lparr>eb_fetched := d # eb_fetched b\<rparr>)"
| Store: "i < length (eb_calls b) \<Longrightarrow> eb_calls b ! i = Storing result \<Longrightarrow>
     eb_work env b (settle_call i (call_store env result (eb_engine b)) b)"

inductive eb_run :: "('c, 'w) engine_env \<Rightarrow> 'w eng_batch \<Rightarrow> nat \<Rightarrow> 'w eng_batch \<Rightarrow> bool" for env b0 where
  Start: "eb_run env b0 0 b0"
| Work: "eb_run env b0 n b \<Longrightarrow> eb_work env b b' \<Longrightarrow> eb_run env b0 (n + 1) b'"
| Pass: "eb_run env b0 n b \<Longrightarrow> eb_passes env w b b' \<Longrightarrow> eb_run env b0 n b'"

text \<open>What the caller of \<open>batch_scrape\<close> gets, None while it waits.\<close>

definition eb_answer :: "'w eng_batch \<Rightarrow> (exn + scrape_result list) option" where
  "eb_answer b = (case eb_raised b of
      Some e \<Rightarrow> Some (Inl e)
    | None \<Rightarrow> if list_all (\<lambda>c. \<exists>r. c = Ended (Inr r)) (eb_calls b)
        then Some (Inr (map (\<lambda>c. case c of Ended (Inr r) \<Rightarrow> r) (eb_calls b))) else None)"

section \<open>The shared parts\<close>

definition engine_sound :: "('c, 'w) engine_env \<Rightarrow> breaker \<Rightarrow> limiter \<Rightarrow> 'w engine \<Rightarrow> bool" where
  "engine_sound env cb0 rl0 s = (rl_reach rl0 (en_limiter s) \<and> rl_now (en_limiter s) \<le> en_now env s \<and> breaker_ok env cb0 s)"

text \<open>The breaker does not look at the limiter, so the facts about an engine with an idle one carry over.\<close>

abbreviation idle :: limiter where "idle \<equiv> rl_init 1 (\<lambda>_. None) 0"

lemma breaker_idle:
  "monotone_clock env \<Longrightarrow> breaker_ok env cb0 s \<longleftrightarrow> engine_ok env cb0 idle (s\<lparr>en_limiter := idle\<rparr>)"
  by (auto simp: engine_ok_defs monotone_clock_def rl_init_def intro: rl_reach.init)

lemma sound_allow:
  assumes "engine_sound env cb0 rl0 s" and "monotone_clock env"
  shows "engine_sound env cb0 rl0 (snd (en_allow env d s))"
proof -
  have "snd (en_allow env d (s\<lparr>en_limiter := idle\<rparr>)) = (snd (en_allow env d s))\<lparr>en_limiter := idle\<rparr>"
    by (simp add: en_allow_def en_now_def split: prod.splits)
  then have "breaker_ok env cb0 (snd (en_allow env d s))"
    using assms breaker_idle [OF assms(2)] allow_ok by (metis engine_sound_def)
  then show ?thesis using assms(1) by (simp add: engine_sound_def en_allow_def en_now_def split: prod.splits)
qed

lemma sound_record:
  assumes "engine_sound env cb0 rl0 s" and "monotone_clock env" and "0 \<le> cb_pause_s cb0"
  shows "engine_sound env cb0 rl0 (en_record env d ok s)"
proof -
  have "en_record env d ok (s\<lparr>en_limiter := idle\<rparr>) = (en_record env d ok s)\<lparr>en_limiter := idle\<rparr>"
    by (simp add: en_record_def en_now_def)
  then have "breaker_ok env cb0 (en_record env d ok s)"
    using assms breaker_idle [OF assms(2)] record_ok by (metis engine_sound_def)
  then show ?thesis using assms(1) by (simp add: engine_sound_def en_record_def en_now_def)
qed

lemma sound_world:
  assumes "engine_sound env cb0 rl0 s" and "ee_clock env (en_world s) \<le> ee_clock env w"
  shows "engine_sound env cb0 rl0 (s\<lparr>en_rotator := rot, en_world := w\<rparr>)" "engine_sound env cb0 rl0 (s\<lparr>en_world := w\<rparr>)"
  using assms dom_ok_later by (auto simp: engine_sound_def breaker_ok_def en_now_def) blast+

lemma sound_limiter:
  assumes "engine_sound env cb0 rl0 s"
    and "rl_step ((en_limiter s)\<lparr>rl_now := en_now env s\<rparr>) (f ((en_limiter s)\<lparr>rl_now := en_now env s\<rparr>))"
    and "rl_now (f ((en_limiter s)\<lparr>rl_now := en_now env s\<rparr>)) = en_now env s"
  shows "engine_sound env cb0 rl0 (on_limiter env f s)"
proof -
  have "rl_step (en_limiter s) ((en_limiter s)\<lparr>rl_now := rl_now (en_limiter s) + (en_now env s - rl_now (en_limiter s))\<rparr>)"
    using assms(1) by (intro rl_step.Tick) (simp add: engine_sound_def)
  then have "rl_reach rl0 ((en_limiter s)\<lparr>rl_now := en_now env s\<rparr>)"
    using assms(1) by (auto simp: engine_sound_def intro: rl_reach.step)
  then have "rl_reach rl0 (f ((en_limiter s)\<lparr>rl_now := en_now env s\<rparr>))" using assms(2) by (rule rl_reach.step)
  then show ?thesis using assms(1,3) by (simp add: engine_sound_def on_limiter_def breaker_ok_def en_now_def)
qed

lemma sound_on_world:
  "engine_sound env cb0 rl0 s \<Longrightarrow> (\<And>w. ee_clock env w \<le> ee_clock env (snd (f w))) \<Longrightarrow> engine_sound env cb0 rl0 (snd (on_world f s))"
  using sound_world(2) [of env cb0 rl0 s "snd (f (en_world s))"] by (auto simp: on_world_def split: prod.splits)

lemma probe_clock:
  assumes "monotone_clock env"
  shows "ee_clock env (en_world s) \<le> ee_clock env (en_world (snd (call_probe env d is s)))"
  using first_healthy_clock [OF assms] by (auto simp: call_probe_def simp del: first_healthy.simps split: list.split prod.splits)

lemma candidates_clock:
  assumes "monotone_clock env"
  shows "ee_clock env (en_world s) \<le> ee_clock env (en_world (snd (call_candidates env d s)))"
  using filter_candidates_clock [OF assms] by (auto simp: call_candidates_def split: prod.splits)

lemma fetch_sound:
  assumes "engine_sound env cb0 rl0 s" and "monotone_clock env" and "0 \<le> cb_pause_s cb0"
  shows "engine_sound env cb0 rl0 (snd (call_fetch env d proxy u s))"
proof -
  obtain ans s1 where a: "on_world (ee_scrape env (route env d) proxy u) s = (ans, s1)" by fastforce
  have "engine_sound env cb0 rl0 s1"
    using sound_on_world [OF assms(1), of "ee_scrape env (route env d) proxy u"] a assms(2) by (simp add: monotone_clock_def)
  then show ?thesis using sound_record [OF _ assms(2,3)] a by (auto simp: call_fetch_def split: sum.splits)
qed

lemma work_sound:
  assumes "eb_work env b b'" and "engine_sound env cb0 rl0 (eb_engine b)" and "monotone_clock env" and "0 \<le> cb_pause_s cb0"
  shows "engine_sound env cb0 rl0 (eb_engine b')"
  using assms(1)
proof cases
  case (Begin i)
  have "engine_sound env cb0 rl0 (on_limiter env (rl_request d i) s)" if "engine_sound env cb0 rl0 s" for d s
    using that by (rule sound_limiter) (rule rl_step.Request, simp add: rl_request_def)
  then have "engine_sound env cb0 rl0 (snd (call_begin env i u (eb_engine b)))" for u
    using assms(2) sound_allow [OF assms(2,3)] by (auto simp: call_begin_def split: sum.splits prod.splits bool.splits) (metis snd_conv)+
  then show ?thesis using Begin by (simp add: settle_call_def)
next
  case (Enter d i "is")
  then show ?thesis
    by (simp add: settle_call_def) (intro sound_limiter [OF assms(2)] rl_step.Enter, simp_all add: rl_enter_def Let_def)
next
  case (Wake d i t)
  then show ?thesis
    by (simp add: settle_call_def) (intro sound_limiter [OF assms(2)] rl_step.Grant, simp_all add: rl_grant_def)
next
  case (Candidates i d)
  have "snd (call_candidates env d s) = s\<lparr>en_rotator := en_rotator (snd (call_candidates env d s)), en_world := en_world (snd (call_candidates env d s))\<rparr>" for s
    by (simp add: call_candidates_def split: prod.splits)
  then show ?thesis using Candidates sound_world(1) [OF assms(2) candidates_clock [OF assms(3)]] by (simp add: settle_call_def) metis
next
  case (Probe i d "is")
  have "snd (call_probe env d is s) = s\<lparr>en_rotator := en_rotator (snd (call_probe env d is s)), en_world := en_world (snd (call_probe env d is s))\<rparr>" for s
    by (simp add: call_probe_def split: prod.splits list.splits)
  then show ?thesis using Probe sound_world(1) [OF assms(2) probe_clock [OF assms(3)]] by (simp add: settle_call_def) metis
next
  case (Fetch i d proxy)
  then show ?thesis using fetch_sound [OF assms(2-4)] by (simp add: settle_call_def)
next
  case (Store i result)
  have "engine_sound env cb0 rl0 (snd (call_store env result (eb_engine b)))"
  proof (cases "ee_sink env")
    case None
    then show ?thesis using assms(2) by (simp add: call_store_def)
  next
    case (Some wr)
    then show ?thesis using sound_on_world [OF assms(2), of "wr result"] assms(3)
      by (auto simp: call_store_def monotone_clock_def split: prod.splits)
  qed
  then show ?thesis using Store by (simp add: settle_call_def)
qed

section \<open>The locks and the slots\<close>

text \<open>Who waits for a lock of the limiter, and who holds it, are the calls in these two phases.\<close>

definition lock_ok :: "limiter \<Rightarrow> call list \<Rightarrow> bool" where
  "lock_ok rl cs = (\<forall>d. distinct (rl_waiters rl d) \<and> set (rl_waiters rl d) = {i. i < length cs \<and> cs ! i = Locking d} \<and>
     (\<forall>i. (\<exists>t. rl_holder rl d = Some (i, t)) \<longleftrightarrow> i < length cs \<and> cs ! i = Sleeping d))"

lemma lock_okD:
  assumes "lock_ok rl cs"
  shows "distinct (rl_waiters rl d)" "set (rl_waiters rl d) = {i. i < length cs \<and> cs ! i = Locking d}"
    "(\<exists>t. rl_holder rl d = Some (i, t)) \<longleftrightarrow> i < length cs \<and> cs ! i = Sleeping d"
  using assms unfolding lock_ok_def by blast+

definition in_lock :: "call \<Rightarrow> bool" where
  "in_lock c = (case c of Locking d \<Rightarrow> True | Sleeping d \<Rightarrow> True | _ \<Rightarrow> False)"

lemma in_lock_simps [simp]:
  "\<not> in_lock Fresh" "in_lock (Locking d)" "in_lock (Sleeping d)" "\<not> in_lock (Granted d)" "\<not> in_lock (Probing d is)"
  "\<not> in_lock (Fetching d p)" "\<not> in_lock (Storing r)" "\<not> in_lock (Ended x)"
  by (simp_all add: in_lock_def)

lemma lock_ok_other:
  assumes "lock_ok rl cs" and "\<not> in_lock (cs ! i)" and "\<not> in_lock c"
    and "rl_waiters rl' = rl_waiters rl" and "rl_holder rl' = rl_holder rl"
  shows "lock_ok rl' (cs[i := c])"
proof -
  have "j < length (cs[i := c]) \<and> (cs[i := c]) ! j = x \<longleftrightarrow> j < length cs \<and> cs ! j = x" if "in_lock x" for j x
    using assms(2,3) that by (cases "j = i") auto
  then show ?thesis using assms(1,4,5) by (simp add: lock_ok_def)
qed

lemma lock_ok_begin:
  assumes "lock_ok rl cs" and "i < length cs" and "\<not> in_lock (cs ! i)"
  shows "lock_ok (rl_request d i (rl\<lparr>rl_now := t\<rparr>)) (cs[i := Locking d])"
  using assms unfolding lock_ok_def by (auto simp: rl_request_def nth_list_update)

lemma lock_ok_enter:
  assumes "lock_ok rl cs" and "rl_waiters rl d = i # is" and "rl_holder rl d = None"
  shows "i < length cs \<and> cs ! i = Locking d \<and> lock_ok (rl_enter d i is (rl\<lparr>rl_now := t\<rparr>)) (cs[i := Sleeping d])"
proof -
  have d: "distinct (i # is)" "set (i # is) = {j. j < length cs \<and> cs ! j = Locking d}"
    using lock_okD(1,2) [OF assms(1), of d] unfolding assms(2) by this+
  have free: "\<not> (j < length cs \<and> cs ! j = Sleeping d)" for j
    using lock_okD(3) [OF assms(1), of d j] unfolding assms(3) by simp
  have i: "i < length cs" "cs ! i = Locking d" using d(2) by auto
  have w: "set (if e = d then is else rl_waiters rl e) = {j. j < length cs \<and> cs[i := Sleeping d] ! j = Locking e}" for e
  proof (cases "e = d")
    case True
    have "set is = set (i # is) - {i}" using d(1) by simp
    then show ?thesis unfolding d(2) using True i by (auto simp: nth_list_update)
  next
    case False
    then have "{j. j < length cs \<and> cs[i := Sleeping d] ! j = Locking e} = {j. j < length cs \<and> cs ! j = Locking e}"
      using i by (auto simp: nth_list_update)
    then show ?thesis using lock_okD(2) [OF assms(1), of e] False by simp
  qed
  have h: "j < length cs \<and> cs[i := Sleeping d] ! j = Sleeping e \<longleftrightarrow> (if e = d then j = i else (\<exists>u. rl_holder rl e = Some (j, u)))" for j e
    using lock_okD(3) [OF assms(1), of e j] free [of j] i by (auto simp: nth_list_update)
  have "distinct (if e = d then is else rl_waiters rl e)" for e using lock_okD(1) [OF assms(1), of e] d(1) by simp
  then show ?thesis using i w h unfolding lock_ok_def by (auto simp: rl_enter_def Let_def split: if_splits)
qed

lemma lock_ok_wake:
  assumes "lock_ok rl cs" and "rl_holder rl d = Some (i, u)"
  shows "i < length cs \<and> cs ! i = Sleeping d \<and> lock_ok (rl_grant d i (rl\<lparr>rl_now := t\<rparr>)) (cs[i := Granted d])"
proof -
  have i: "j < length cs \<and> cs ! j = Sleeping d \<longleftrightarrow> j = i" for j using lock_okD(3) [OF assms(1), of d j] assms(2) by auto
  have w: "set (rl_waiters rl e) = {j. j < length cs \<and> cs[i := Granted d] ! j = Locking e}" for e
    using assms(1) i [of i] unfolding lock_ok_def by (auto simp: nth_list_update)
  have h: "j < length cs \<and> cs[i := Granted d] ! j = Sleeping e \<longleftrightarrow> e \<noteq> d \<and> j < length cs \<and> cs ! j = Sleeping e" for j e
    using i [of j] i [of i] by (auto simp: nth_list_update)
  have "\<forall>e j. (\<exists>t. rl_holder rl e = Some (j, t)) = (j < length cs \<and> cs ! j = Sleeping e)" "\<forall>e. distinct (rl_waiters rl e)"
    using lock_okD [OF assms(1)] by simp_all
  then show ?thesis using i [of i] w h unfolding lock_ok_def by (simp add: rl_grant_def)
qed

text \<open>A call between its slot and the answer of its scraper.\<close>

fun past_grant :: "string \<Rightarrow> call \<Rightarrow> bool" where
  "past_grant d (Granted e) = (e = d)"
| "past_grant d (Probing e is) = (e = d)"
| "past_grant d (Fetching e p) = (e = d)"
| "past_grant d _ = False"

definition slots :: "string \<Rightarrow> limiter \<Rightarrow> nat" where
  "slots d rl = length (grants d rl)"

definition count_ok :: "limiter \<Rightarrow> limiter \<Rightarrow> call list \<Rightarrow> string list \<Rightarrow> bool" where
  "count_ok rl0 rl cs fetched = (\<forall>d. slots d rl = slots d rl0 + length (filter (past_grant d) cs) + count_list fetched d)"

lemma filter_update_length:
  assumes "i < length xs"
  shows "length (filter P (xs[i := x])) + (if P (xs ! i) then 1 else 0) = length (filter P xs) + (if P x then 1 else 0)"
proof -
  have "filter P xs = filter P (take i xs) @ filter P [xs ! i] @ filter P (drop (Suc i) xs)"
    using id_take_nth_drop [OF assms] by (metis filter_append append_Cons append_Nil)
  then show ?thesis by (simp add: upd_conv_take_nth_drop [OF assms])
qed

lemma count_ok_update:
  assumes "count_ok rl0 rl cs fetched" and "i < length cs"
    and "\<And>d. slots d rl' + count_list fetched d + (if past_grant d (cs ! i) then 1 else 0) =
      slots d rl + count_list fetched' d + (if past_grant d c then 1 else 0)"
  shows "count_ok rl0 rl' (cs[i := c]) fetched'"
  unfolding count_ok_def
proof
  fix d
  have "slots d rl = slots d rl0 + length (filter (past_grant d) cs) + count_list fetched d"
    using assms(1) by (simp add: count_ok_def)
  then show "slots d rl' = slots d rl0 + length (filter (past_grant d) (cs[i := c])) + count_list fetched' d"
    using filter_update_length [OF assms(2), of "past_grant d" c] assms(3) [of d] by linarith
qed

section \<open>Where the answers come from\<close>

definition fetched_result :: "('c, 'w) engine_env \<Rightarrow> string \<Rightarrow> exn + scrape_result \<Rightarrow> bool" where
  "fetched_result env u r = (\<exists>d proxy w answer w'. url_domain u = Inr d \<and> ee_scrape env (route env d) proxy u w = (answer, w') \<and>
     r = dispatch_result (ee_driver env (route env d)) answer)"

text \<open>The answer of one call, as the sequential \<open>scrape\<close> gives it.\<close>

definition scrape_answer :: "('c, 'w) engine_env \<Rightarrow> string \<Rightarrow> exn + scrape_result \<Rightarrow> bool" where
  "scrape_answer env u r = (case r of
      Inl e \<Rightarrow> url_domain u = Inl e \<or> fetched_result env u (Inl e) \<or>
        (\<exists>res wr w w'. fetched_result env u (Inr res) \<and> sr_status res = ''success'' \<and> ee_sink env = Some wr \<and> wr res w = (Inl e, w'))
    | Inr res \<Rightarrow> (\<exists>d. url_domain u = Inr d \<and> res = refused d) \<or>
        fetched_result env u (Inr res) \<and> (\<forall>wr. ee_sink env = Some wr \<and> sr_status res = ''success'' \<longrightarrow> (\<exists>w w'. wr res w = (Inr (), w'))))"

definition call_ok :: "('c, 'w) engine_env \<Rightarrow> nat \<Rightarrow> string \<Rightarrow> call \<Rightarrow> bool" where
  "call_ok env n u c = (case c of
      Fresh \<Rightarrow> True
    | Locking d \<Rightarrow> url_domain u = Inr d
    | Sleeping d \<Rightarrow> url_domain u = Inr d
    | Granted d \<Rightarrow> url_domain u = Inr d
    | Probing d is \<Rightarrow> url_domain u = Inr d \<and> length is \<le> n \<and> (\<forall>i \<in> set is. i < n)
    | Fetching d p \<Rightarrow> url_domain u = Inr d
    | Storing r \<Rightarrow> sr_status r = ''success'' \<and> ee_sink env \<noteq> None \<and> fetched_result env u (Inr r)
    | Ended r \<Rightarrow> scrape_answer env u r)"

fun call_rank :: "nat \<Rightarrow> call \<Rightarrow> nat" where
  "call_rank n Fresh = n + 7"
| "call_rank n (Locking d) = n + 6"
| "call_rank n (Sleeping d) = n + 5"
| "call_rank n (Granted d) = n + 4"
| "call_rank n (Probing d is) = length is + 3"
| "call_rank n (Fetching d p) = 2"
| "call_rank n (Storing r) = 1"
| "call_rank n (Ended r) = 0"

text \<open>Each operation of a call leaves it with a phase that fits, and nearer to its end.\<close>

lemma begin_next: "call_ok env n u (fst (call_begin env i u s)) \<and> call_rank n (fst (call_begin env i u s)) < n + 7"
  by (auto simp: call_begin_def call_ok_def scrape_answer_def split: sum.splits prod.splits bool.splits)

lemma candidates_next:
  assumes "url_domain u = Inr d"
  shows "call_ok env (length (pr_proxies (en_rotator s))) u (fst (call_candidates env d s)) \<and>
    call_rank n (fst (call_candidates env d s)) \<le> length (pr_proxies (en_rotator s)) + 3 \<and>
    length (pr_proxies (en_rotator (snd (call_candidates env d s)))) = length (pr_proxies (en_rotator s))"
proof -
  obtain cs rot w where f: "filter_candidates (ee_proxy env) None True [0..<length (pr_proxies (en_rotator s))] (en_rotator s, en_world s) =
      (cs, (rot, w))" by (metis prod_cases3)
  have p: "set cs \<subseteq> set [0..<length (pr_proxies (en_rotator s))]" "distinct cs" "length (pr_proxies rot) = length (pr_proxies (en_rotator s))"
    using filter_candidates_props [OF f] by auto
  have "length cs \<le> length (pr_proxies (en_rotator s))"
    using card_mono [OF _ p(1)] distinct_card [OF p(2)] by simp
  then show ?thesis using f p(1,3) assms by (auto simp: call_candidates_def call_ok_def)
qed

lemma probe_next:
  assumes "call_ok env n u (Probing d is)"
  shows "call_ok env n u (fst (call_probe env d is s)) \<and> call_rank n (fst (call_probe env d is s)) < length is + 3 \<and>
    length (pr_proxies (en_rotator (snd (call_probe env d is s)))) = length (pr_proxies (en_rotator s))"
  using assms first_healthy_length
  by (auto simp: call_probe_def call_ok_def simp del: first_healthy.simps split: list.splits prod.splits option.splits)

lemma fetch_next:
  assumes "url_domain u = Inr d"
  shows "call_ok env n u (fst (call_fetch env d p u s)) \<and> call_rank n (fst (call_fetch env d p u s)) < 2 \<and>
    en_rotator (snd (call_fetch env d p u s)) = en_rotator s \<and> en_limiter (snd (call_fetch env d p u s)) = en_limiter s"
proof -
  obtain ans w where a: "ee_scrape env (route env d) p u (en_world s) = (ans, w)" by fastforce
  have f: "fetched_result env u (dispatch_result (ee_driver env (route env d)) ans)" using assms a unfolding fetched_result_def by blast
  show ?thesis
  proof (cases "dispatch_result (ee_driver env (route env d)) ans")
    case (Inl e)
    then show ?thesis using a f by (simp add: call_fetch_def on_world_def call_ok_def scrape_answer_def)
  next
    case (Inr r)
    then show ?thesis using a f by (auto simp: call_fetch_def on_world_def call_ok_def scrape_answer_def en_record_def)
  qed
qed

lemma store_next:
  assumes "call_ok env n u (Storing r)"
  shows "call_ok env n u (fst (call_store env r s)) \<and> call_rank n (fst (call_store env r s)) = 0 \<and>
    en_rotator (snd (call_store env r s)) = en_rotator s \<and> en_limiter (snd (call_store env r s)) = en_limiter s"
proof -
  obtain wr where wr: "ee_sink env = Some wr" using assms by (auto simp: call_ok_def)
  obtain x w where "wr r (en_world s) = (x, w)" by fastforce
  then show ?thesis using assms wr by (cases x) (auto simp: call_store_def on_world_def call_ok_def scrape_answer_def)
qed

lemma limiter_kept:
  "en_limiter (snd (call_candidates env d s)) = en_limiter s" "en_limiter (snd (call_probe env d is s)) = en_limiter s"
  by (simp_all add: call_candidates_def call_probe_def split: prod.splits list.splits)

section \<open>The invariant of a batch\<close>

definition raised_ok :: "'w eng_batch \<Rightarrow> bool" where
  "raised_ok b = (case eb_raised b of Some e \<Rightarrow> Ended (Inl e) \<in> set (eb_calls b) | None \<Rightarrow> \<forall>e. Ended (Inl e) \<notin> set (eb_calls b))"

abbreviation pool :: "'w engine \<Rightarrow> nat" where "pool s \<equiv> length (pr_proxies (en_rotator s))"

definition eb_inv :: "('c, 'w) engine_env \<Rightarrow> breaker \<Rightarrow> limiter \<Rightarrow> 'w engine \<Rightarrow> 'w eng_batch \<Rightarrow> bool" where
  "eb_inv env cb0 rl0 s0 b = (engine_sound env cb0 rl0 (eb_engine b) \<and> pool (eb_engine b) = pool s0 \<and>
     lock_ok (en_limiter (eb_engine b)) (eb_calls b) \<and>
     count_ok (en_limiter s0) (en_limiter (eb_engine b)) (eb_calls b) (eb_fetched b) \<and>
     list_all2 (call_ok env (pool s0)) (eb_urls b) (eb_calls b) \<and> raised_ok b)"

lemmas eb_inv_parts = eb_inv_def settle_call_def

text \<open>One step settles one call; this is the part all invariants of the list of calls share.\<close>

lemma work_next:
  assumes "eb_work env b b'" and "eb_inv env cb0 rl0 s0 b"
  shows "\<exists>i c. i < length (eb_calls b) \<and> eb_calls b' = (eb_calls b)[i := c] \<and> eb_urls b' = eb_urls b \<and>
    call_ok env (pool s0) (eb_urls b ! i) c \<and> call_rank (pool s0) c < call_rank (pool s0) (eb_calls b ! i) \<and>
    pool (eb_engine b') = pool s0 \<and> (\<exists>s. eb_calls b' = eb_calls (settle_call i (c, s) b) \<and> eb_raised b' = eb_raised (settle_call i (c, s) b))"
proof -
  have ok: "call_ok env (pool s0) (eb_urls b ! i) (eb_calls b ! i)" if "i < length (eb_calls b)" for i
    using assms(2) that by (simp add: eb_inv_def list_all2_conv_all_nth)
  have p: "pool (eb_engine b) = pool s0" and locks: "lock_ok (en_limiter (eb_engine b)) (eb_calls b)"
    using assms(2) by (simp_all add: eb_inv_def)
  show ?thesis
    using assms(1)
  proof cases
    case (Begin i)
    moreover have "en_rotator (snd (call_begin env i u s)) = en_rotator s" for u s
      by (simp add: call_begin_def en_allow_def on_limiter_def split: sum.splits prod.splits bool.splits)
    ultimately show ?thesis using begin_next [of env "pool s0" "eb_urls b ! i" i "eb_engine b"] p by (intro exI [of _ i] exI [of _ "fst (call_begin env i (eb_urls b ! i) (eb_engine b))"])
      (auto simp: settle_call_def)
  next
    case (Enter d i "is")
    note l = lock_ok_enter [OF locks Enter(3,2)]
    then have "url_domain (eb_urls b ! i) = Inr d" using ok [of i] by (simp add: call_ok_def)
    then show ?thesis using Enter l p by (intro exI [of _ i] exI [of _ "Sleeping d"]) (auto simp: settle_call_def on_limiter_def call_ok_def)
  next
    case (Wake d i t)
    note l = lock_ok_wake [OF locks Wake(2)]
    then have "url_domain (eb_urls b ! i) = Inr d" using ok [of i] by (simp add: call_ok_def)
    then show ?thesis using Wake l p by (intro exI [of _ i] exI [of _ "Granted d"]) (auto simp: settle_call_def on_limiter_def call_ok_def)
  next
    case (Candidates i d)
    then have "url_domain (eb_urls b ! i) = Inr d" using ok [of i] by (simp add: call_ok_def)
    from candidates_next [OF this, of env "eb_engine b" "pool s0"] show ?thesis
      using Candidates p by (intro exI [of _ i] exI [of _ "fst (call_candidates env d (eb_engine b))"]) (auto simp: settle_call_def)
  next
    case (Probe i d "is")
    from probe_next [OF ok [OF Probe(2), unfolded Probe(3)], of "eb_engine b"] show ?thesis
      using Probe p by (intro exI [of _ i] exI [of _ "fst (call_probe env d is (eb_engine b))"]) (auto simp: settle_call_def)
  next
    case (Fetch i d proxy)
    then have "url_domain (eb_urls b ! i) = Inr d" using ok [of i] by (simp add: call_ok_def)
    from fetch_next [OF this, of env "pool s0" proxy "eb_engine b"] show ?thesis
      using Fetch p by (intro exI [of _ i] exI [of _ "fst (call_fetch env d proxy (eb_urls b ! i) (eb_engine b))"]) (auto simp: settle_call_def)
  next
    case (Store i result)
    from store_next [OF ok [OF Store(2), unfolded Store(3)], of "eb_engine b"] show ?thesis
      using Store p by (intro exI [of _ i] exI [of _ "fst (call_store env result (eb_engine b))"]) (auto simp: settle_call_def)
  qed
qed

lemma begin_limiter:
  "fst (call_begin env i u s) = Locking d \<and> en_limiter (snd (call_begin env i u s)) = rl_request d i ((en_limiter s)\<lparr>rl_now := en_now env s\<rparr>) \<or>
   \<not> in_lock (fst (call_begin env i u s)) \<and> en_limiter (snd (call_begin env i u s)) = en_limiter s" if "url_domain u = Inr d"
  using that by (auto simp: call_begin_def en_allow_def on_limiter_def en_now_def split: prod.splits bool.splits)

lemma begin_raises: "url_domain u = Inl e \<Longrightarrow> call_begin env i u s = (Ended (Inl e), s)"
  by (simp add: call_begin_def)

lemma not_past [simp]:
  "c = Fresh \<or> in_lock c \<and> c \<noteq> Granted e \<Longrightarrow> \<not> past_grant d c"
  by (cases c) auto

lemma slots_simps [simp]:
  "slots d (rl_request e i rl) = slots d rl" "slots d (rl_enter e i is rl) = slots d rl"
  "slots d (rl_grant e i rl) = (if e = d then Suc (slots d rl) else slots d rl)" "slots d (rl\<lparr>rl_now := t\<rparr>) = slots d rl"
  by (simp_all add: slots_def grants_def rl_defs)

lemma begin_phase: "fst (call_begin env i u s) = Locking d \<or> (\<exists>r. fst (call_begin env i u s) = Ended r)" if "url_domain u = Inr d"
  using that by (auto simp: call_begin_def split: prod.splits bool.splits)

lemma work_locks:
  assumes "eb_work env b b'" and "eb_inv env cb0 rl0 s0 b"
  shows "lock_ok (en_limiter (eb_engine b')) (eb_calls b')"
proof -
  have locks: "lock_ok (en_limiter (eb_engine b)) (eb_calls b)" using assms(2) by (simp add: eb_inv_def)
  have other: "lock_ok (en_limiter s) ((eb_calls b)[i := c])"
    if "\<not> in_lock (eb_calls b ! i)" "\<not> in_lock c" "en_limiter s = en_limiter (eb_engine b)" for i c s
    using lock_ok_other [OF locks that(1,2)] that(3) by simp
  show ?thesis
    using assms(1)
  proof cases
    case (Begin i)
    show ?thesis
    proof (cases "url_domain (eb_urls b ! i)")
      case (Inl e)
      then show ?thesis using Begin other [of i "Ended (Inl e)" "eb_engine b"] by (simp add: settle_call_def begin_raises)
    next
      case (Inr d)
      show ?thesis using begin_limiter [OF Inr, of env i "eb_engine b"] Begin lock_ok_begin [OF locks Begin(2)]
          other [of i "fst (call_begin env i (eb_urls b ! i) (eb_engine b))" "snd (call_begin env i (eb_urls b ! i) (eb_engine b))"] by auto
    qed
  next
    case (Enter d i "is")
    then show ?thesis using lock_ok_enter [OF locks Enter(3,2)] by (simp add: settle_call_def on_limiter_def)
  next
    case (Wake d i t)
    then show ?thesis using lock_ok_wake [OF locks Wake(2)] by (simp add: settle_call_def on_limiter_def)
  next
    case (Candidates i d)
    have "\<not> in_lock (fst (call_candidates env d (eb_engine b)))" by (simp add: call_candidates_def split: prod.splits)
    then show ?thesis using Candidates other [of i "fst (call_candidates env d (eb_engine b))" "snd (call_candidates env d (eb_engine b))"] by (simp add: limiter_kept)
  next
    case (Probe i d "is")
    have "\<not> in_lock (fst (call_probe env d is (eb_engine b)))" by (auto simp: call_probe_def split: list.splits prod.splits option.splits)
    then show ?thesis using Probe other [of i "fst (call_probe env d is (eb_engine b))" "snd (call_probe env d is (eb_engine b))"] by (simp add: limiter_kept)
  next
    case (Fetch i d proxy)
    have "\<not> in_lock (fst (call_fetch env d proxy u s)) \<and> en_limiter (snd (call_fetch env d proxy u s)) = en_limiter s" for u s
      by (auto simp: call_fetch_def on_world_def en_record_def split: prod.splits sum.splits)
    then show ?thesis using Fetch other [of i "fst (call_fetch env d proxy (eb_urls b ! i) (eb_engine b))" "snd (call_fetch env d proxy (eb_urls b ! i) (eb_engine b))"] by simp
  next
    case (Store i result)
    have "\<not> in_lock (fst (call_store env result s)) \<and> en_limiter (snd (call_store env result s)) = en_limiter s" for s
      by (auto simp: call_store_def on_world_def split: prod.splits option.splits)
    then show ?thesis using Store other [of i "fst (call_store env result (eb_engine b))" "snd (call_store env result (eb_engine b))"] by simp
  qed
qed

lemma work_slots:
  assumes "eb_work env b b'" and "eb_inv env cb0 rl0 s0 b"
  shows "count_ok (en_limiter s0) (en_limiter (eb_engine b')) (eb_calls b') (eb_fetched b')"
proof -
  have locks: "lock_ok (en_limiter (eb_engine b)) (eb_calls b)"
    and "count_ok (en_limiter s0) (en_limiter (eb_engine b)) (eb_calls b) (eb_fetched b)" using assms(2) by (simp_all add: eb_inv_def)
  note next_count = count_ok_update [OF this(2)]
  show ?thesis
    using assms(1)
  proof cases
    case (Begin i)
    show ?thesis
    proof (cases "url_domain (eb_urls b ! i)")
      case (Inl e)
      then show ?thesis using Begin by (simp add: settle_call_def begin_raises next_count)
    next
      case (Inr d)
      have "slots e (en_limiter (snd (call_begin env i (eb_urls b ! i) (eb_engine b)))) = slots e (en_limiter (eb_engine b))" for e
        using begin_limiter [OF Inr, of env i "eb_engine b"] by auto
      moreover have "\<not> past_grant e (fst (call_begin env i (eb_urls b ! i) (eb_engine b)))" for e
        using begin_phase [OF Inr, of env i "eb_engine b"] by auto
      ultimately show ?thesis using Begin by (simp add: settle_call_def next_count)
    qed
  next
    case (Enter d i "is")
    then show ?thesis using lock_ok_enter [OF locks Enter(3,2)] by (simp add: settle_call_def on_limiter_def next_count)
  next
    case (Wake d i t)
    have i: "i < length (eb_calls b)" "eb_calls b ! i = Sleeping d" using lock_ok_wake [OF locks Wake(2)] by auto
    show ?thesis by (simp only: Wake(1) settle_simps eng_batch.simps, rule next_count) (simp_all add: i on_limiter_def)
  next
    case (Candidates i d)
    have p: "past_grant e (fst (call_candidates env d (eb_engine b))) \<longleftrightarrow> e = d" for e by (auto simp: call_candidates_def split: prod.splits)
    show ?thesis by (simp only: Candidates(1) settle_simps eng_batch.simps, rule next_count) (simp_all add: p Candidates limiter_kept)
  next
    case (Probe i d "is")
    have p: "past_grant e (fst (call_probe env d is (eb_engine b))) \<longleftrightarrow> e = d" for e
      by (auto simp: call_probe_def split: list.splits prod.splits option.splits)
    show ?thesis by (simp only: Probe(1) settle_simps eng_batch.simps, rule next_count) (simp_all add: p Probe limiter_kept)
  next
    case (Fetch i d proxy)
    have p: "\<not> past_grant e (fst (call_fetch env d proxy u s)) \<and> en_limiter (snd (call_fetch env d proxy u s)) = en_limiter s" for u s e
      by (auto simp: call_fetch_def on_world_def en_record_def split: prod.splits sum.splits)
    show ?thesis by (simp only: Fetch(1) settle_simps logged_simps, rule next_count) (simp_all add: p Fetch)
  next
    case (Store i result)
    have p: "\<not> past_grant e (fst (call_store env result s)) \<and> en_limiter (snd (call_store env result s)) = en_limiter s" for s e
      by (auto simp: call_store_def on_world_def split: prod.splits option.splits)
    show ?thesis by (simp only: Store(1) settle_simps eng_batch.simps, rule next_count) (simp_all add: p Store)
  qed
qed

lemma raised_settle:
  assumes "raised_ok b" and "i < length (eb_calls b)" and "\<And>r. eb_calls b ! i \<noteq> Ended r"
  shows "raised_ok (settle_call i (c, s) b)"
proof -
  have "Ended x \<in> set ((eb_calls b)[i := c]) \<longleftrightarrow> Ended x \<in> set (eb_calls b) \<or> c = Ended x" for x
    using assms(2,3) by (auto simp: in_set_conv_nth nth_list_update) (metis)+
  then show ?thesis using assms(1) by (cases c) (auto simp: raised_ok_def settle_call_def split: option.splits sum.splits)
qed

lemma work_inv:
  assumes "eb_work env b b'" and "eb_inv env cb0 rl0 s0 b" and "monotone_clock env" and "0 \<le> cb_pause_s cb0"
  shows "eb_inv env cb0 rl0 s0 b'"
proof -
  obtain i c s where n: "i < length (eb_calls b)" "eb_calls b' = (eb_calls b)[i := c]" "eb_urls b' = eb_urls b"
    "call_ok env (pool s0) (eb_urls b ! i) c" "call_rank (pool s0) c < call_rank (pool s0) (eb_calls b ! i)" "pool (eb_engine b') = pool s0"
    "eb_calls b' = eb_calls (settle_call i (c, s) b)" "eb_raised b' = eb_raised (settle_call i (c, s) b)"
    using work_next [OF assms(1,2)] by blast
  have ended: "eb_calls b ! i \<noteq> Ended r" for r using n(5) by (cases "eb_calls b ! i") simp_all
  have "raised_ok b" using assms(2) by (simp add: eb_inv_def)
  from raised_settle [OF this n(1) ended] have "raised_ok (settle_call i (c, s) b)" .
  then have "raised_ok b'" by (simp only: raised_ok_def n(7,8))
  moreover have "list_all2 (call_ok env (pool s0)) (eb_urls b') (eb_calls b')"
    using assms(2) n(1-4) by (auto simp: eb_inv_def list_all2_conv_all_nth nth_list_update)
  ultimately show ?thesis
    using assms(2) n(6) work_sound [OF assms(1) _ assms(3,4)] work_locks [OF assms(1,2)] work_slots [OF assms(1,2)] by (simp add: eb_inv_def)
qed

section \<open>Runs\<close>

definition calls_left :: "nat \<Rightarrow> call list \<Rightarrow> nat" where
  "calls_left n cs = sum_list (map (call_rank n) cs)"

lemma calls_left_update:
  assumes "i < length cs" and "call_rank n c < call_rank n (cs ! i)"
  shows "calls_left n (cs[i := c]) < calls_left n cs"
proof -
  have "call_rank n (cs ! i) \<le> calls_left n cs"
    using elem_le_sum_list [of i "map (call_rank n) cs"] assms(1) by (simp add: calls_left_def)
  then show ?thesis using assms by (simp add: calls_left_def map_update sum_list_update)
qed

lemma pass_inv:
  assumes "eb_passes env w b b'" and "eb_inv env cb0 rl0 s0 b"
  shows "eb_inv env cb0 rl0 s0 b'"
  using assms sound_world(2) [of env cb0 rl0 "eb_engine b" w]
  by (cases "eb_raised b") (auto simp: eb_inv_def eb_passes_def raised_ok_def)

lemma init_inv:
  assumes "engine_ok env cb0 rl0 s0"
  shows "eb_inv env cb0 rl0 s0 (eb_init urls s0)"
  using assms
  by (simp add: eb_inv_def eb_init_def engine_ok_def limiter_ok_def engine_sound_def lock_ok_def count_ok_def raised_ok_def
      list_all2_conv_all_nth call_ok_def filter_empty_conv)

lemma run_inv:
  assumes "eb_run env (eb_init urls s0) n b" and "engine_ok env cb0 rl0 s0" and "monotone_clock env" and "0 \<le> cb_pause_s cb0"
  shows "eb_inv env cb0 rl0 s0 b \<and> eb_urls b = urls \<and> n + calls_left (pool s0) (eb_calls b) \<le> (pool s0 + 7) * length urls"
  using assms(1)
proof induction
  case Start
  have "calls_left (pool s0) (replicate (length urls) Fresh) = (pool s0 + 7) * length urls"
    by (simp add: calls_left_def sum_list_replicate)
  then show ?case using init_inv [OF assms(2)] by (simp add: eb_init_def)
next
  case (Work n b b')
  then have inv: "eb_inv env cb0 rl0 s0 b" by simp
  have "calls_left (pool s0) (eb_calls b') < calls_left (pool s0) (eb_calls b) \<and> eb_urls b' = eb_urls b"
    using work_next [OF Work.hyps(2) inv] calls_left_update by metis
  then show ?case using Work.IH work_inv [OF Work.hyps(2) inv assms(3,4)] by simp
next
  case (Pass n b w b')
  then show ?case using pass_inv [of env w b b'] by (auto simp: eb_passes_def)
qed

text \<open>A batch with a call that has not ended can go on, perhaps after some time.\<close>

lemma batch_goes_on:
  assumes "eb_inv env cb0 rl0 s0 b" and "monotone_clock env" and "i < length (eb_calls b)" and "\<And>r. eb_calls b ! i \<noteq> Ended r"
  shows "\<exists>w b1 b2. eb_passes env w b b1 \<and> eb_work env b1 b2"
proof -
  let ?rl = "en_limiter (eb_engine b)" and ?w = "en_world (eb_engine b)"
  have now: "eb_passes env ?w b b" by (simp add: eb_passes_def)
  have locks: "lock_ok ?rl (eb_calls b)" using assms(1) by (simp add: eb_inv_def)
  have wake: ?thesis if h: "rl_holder ?rl d = Some (j, t)" for d j t
  proof -
    let ?w1 = "ee_sleep env (\<bar>t\<bar>) ?w" and ?b1 = "b\<lparr>eb_engine := (eb_engine b)\<lparr>en_world := ee_sleep env (\<bar>t\<bar>) ?w\<rparr>\<rparr>"
    have "0 \<le> ee_clock env ?w" "ee_clock env ?w + \<bar>t\<bar> \<le> ee_clock env ?w1" using assms(2) by (simp_all add: monotone_clock_def)
    then have "eb_passes env ?w1 b ?b1" "t \<le> en_now env (eb_engine ?b1)" by (simp_all add: eb_passes_def en_now_def)
    moreover have "rl_holder (en_limiter (eb_engine ?b1)) d = Some (j, t)" using h by simp
    ultimately show ?thesis using eb_work.Wake by blast
  qed
  show ?thesis
  proof (cases "eb_calls b ! i")
    case (Locking d)
    then have i: "i \<in> set (rl_waiters ?rl d)" using lock_okD(2) [OF locks] assms(3) by auto
    show ?thesis
    proof (cases "rl_holder ?rl d")
      case None
      obtain j js where "rl_waiters ?rl d = j # js" using i by (cases "rl_waiters ?rl d") auto
      then show ?thesis using eb_work.Enter [OF None] now by blast
    next
      case (Some jt)
      then show ?thesis using wake by (cases jt) auto
    qed
  next
    case (Sleeping d)
    then obtain t where "rl_holder ?rl d = Some (i, t)" using lock_okD(3) [OF locks] assms(3) by auto
    then show ?thesis by (rule wake)
  next
    case Fresh
    then show ?thesis using now eb_work.Begin [OF assms(3)] by blast
  next
    case (Granted d)
    then show ?thesis using now eb_work.Candidates [OF assms(3)] by blast
  next
    case (Probing d "is")
    then show ?thesis using now eb_work.Probe [OF assms(3)] by blast
  next
    case (Fetching d p)
    then show ?thesis using now eb_work.Fetch [OF assms(3)] by blast
  next
    case (Storing r)
    then show ?thesis using now eb_work.Store [OF assms(3)] by blast
  next
    case (Ended r)
    then show ?thesis using assms(4) by simp
  qed
qed

text \<open>What the caller gets are answers of the calls, in the order of the URLs, or the exception of one.\<close>

lemma batch_answer:
  assumes "eb_inv env cb0 rl0 s0 b"
  shows "case eb_answer b of
      None \<Rightarrow> \<exists>c \<in> set (eb_calls b). \<forall>r. c \<noteq> Ended r
    | Some (Inl e) \<Rightarrow> \<exists>u \<in> set (eb_urls b). scrape_answer env u (Inl e)
    | Some (Inr rs) \<Rightarrow> eb_calls b = map (Ended \<circ> Inr) rs \<and> list_all2 (\<lambda>u r. scrape_answer env u (Inr r)) (eb_urls b) rs"
proof (cases "eb_raised b")
  case (Some e)
  then have "Ended (Inl e) \<in> set (eb_calls b)" using assms by (simp add: eb_inv_def raised_ok_def)
  then obtain i where i: "i < length (eb_calls b)" "eb_calls b ! i = Ended (Inl e)" by (auto simp: in_set_conv_nth)
  have "call_ok env (pool s0) (eb_urls b ! i) (Ended (Inl e)) \<and> i < length (eb_urls b)"
    using assms i by (auto simp: eb_inv_def list_all2_conv_all_nth)
  then show ?thesis using Some by (auto simp: eb_answer_def call_ok_def)
next
  case None
  then have no: "\<forall>e. Ended (Inl e) \<notin> set (eb_calls b)" using assms by (simp add: eb_inv_def raised_ok_def)
  show ?thesis
  proof (cases "list_all (\<lambda>c. \<exists>r. c = Ended (Inr r)) (eb_calls b)")
    case False
    then obtain c where "c \<in> set (eb_calls b)" "\<forall>r. c \<noteq> Ended (Inr r)" by (auto simp: list_all_iff)
    then have "\<exists>c \<in> set (eb_calls b). \<forall>r. c \<noteq> Ended r" using no by (metis old.sum.exhaust)
    then show ?thesis using False None by (simp add: eb_answer_def)
  next
    case True
    define rs where "rs = map (\<lambda>c. case c of Ended (Inr r) \<Rightarrow> r) (eb_calls b)"
    have rs: "eb_calls b = map (Ended \<circ> Inr) rs"
      unfolding rs_def map_map by (rule sym, rule map_idI) (use True in \<open>auto simp: list_all_iff\<close>)
    have "list_all2 (\<lambda>u r. scrape_answer env u (Inr r)) (eb_urls b) rs"
      using assms unfolding eb_inv_def rs by (simp add: list_all2_map2 call_ok_def)
    moreover have "eb_answer b = Some (Inr rs)" unfolding eb_answer_def rs_def using None True by simp
    ultimately show ?thesis using rs by simp
  qed
qed

lemma rate_limiter_spaced:
  "rl_reach (rl_init dflt overrides now) rl \<Longrightarrow> spaced (case overrides d of Some i \<Rightarrow> i | None \<Rightarrow> dflt) (map snd (grants d rl))"
  using rl_inv_reach [OF _ rl_inv_init, of dflt overrides now rl d] unfolding rl_inv_def rl_interval_init by auto

text \<open>
  C4.  \<open>batch_scrape\<close> on an engine that has served any calls, under every interleaving of its calls and of what
  happens around them.  It ends: there are at most \<open>7\<close> steps and one per proxy for every URL, and as long
  as a call has not ended another step follows, at the latest when its turn at the domain comes.  It is
  polite: the slots of a domain stay an interval apart, before and during the batch, and no scraper is
  asked for a page without a slot of its own.  The breaker stays the documented policy for what the calls
  have recorded.  The caller waits while a call goes on, gets the exception of a call that raised
  one, and else for every URL in order an answer of the sequential \<open>scrape\<close>, successes stored.
\<close>

theorem engine_batch_contract:
  assumes "monotone_clock env" and "0 \<le> pause_minutes" and "now0 \<le> ee_clock env w0"
    and s: "s = snd (engine_run env us (engine_init (cb_init threshold pause_minutes window_minutes) (rl_init dflt overrides now0) rot w0))"
    and run: "eb_run env (eb_init urls s) n b"
  shows "n \<le> (pool s + 7) * length urls \<and>
    (list_all (\<lambda>c. \<exists>r. c = Ended r) (eb_calls b) \<or> (\<exists>w b1 b2. eb_passes env w b b1 \<and> eb_work env b1 b2)) \<and>
    (\<forall>d. spaced (case overrides d of Some i \<Rightarrow> i | None \<Rightarrow> dflt) (map snd (grants d (en_limiter (eb_engine b)))) \<and>
      length (grants d (en_limiter s)) + count_list (eb_fetched b) d \<le> length (grants d (en_limiter (eb_engine b))) \<and>
      (fst (cb_allow d (en_now env (eb_engine b)) (en_breaker (eb_engine b))) \<longleftrightarrow>
        \<not> hist_open threshold (of_int pause_minutes * 60) (of_int window_minutes * 60)
          (failures_since d (en_calls (eb_engine b)) []) (en_now env (eb_engine b)))) \<and>
    (case eb_answer b of
        None \<Rightarrow> \<exists>c \<in> set (eb_calls b). \<forall>r. c \<noteq> Ended r
      | Some (Inl e) \<Rightarrow> \<exists>u \<in> set urls. scrape_answer env u (Inl e)
      | Some (Inr rs) \<Rightarrow> eb_calls b = map (Ended \<circ> Inr) rs \<and> list_all2 (\<lambda>u r. scrape_answer env u (Inr r)) urls rs)"
proof -
  let ?cb = "cb_init threshold pause_minutes window_minutes" and ?rl = "rl_init dflt overrides now0"
  have pause: "0 \<le> cb_pause_s ?cb" using assms(2) by (simp add: cb_init_def)
  have "engine_ok env ?cb ?rl s" unfolding s by (rule run_ok [OF init_ok [OF assms(3)] assms(1) pause])
  note inv = run_inv [OF run this assms(1) pause]
  have ok: "eb_inv env ?cb ?rl s b" using inv by blast
  have sound: "engine_sound env ?cb ?rl (eb_engine b)" and slots: "count_ok (en_limiter s) (en_limiter (eb_engine b)) (eb_calls b) (eb_fetched b)"
    using ok by (simp_all add: eb_inv_def)
  have ended: "list_all (\<lambda>c. \<exists>r. c = Ended r) (eb_calls b) \<or> (\<exists>w b1 b2. eb_passes env w b b1 \<and> eb_work env b1 b2)"
    unfolding list_all_length using batch_goes_on [OF ok assms(1)] by blast
  have "spaced (case overrides d of Some i \<Rightarrow> i | None \<Rightarrow> dflt) (map snd (grants d (en_limiter (eb_engine b)))) \<and>
      length (grants d (en_limiter s)) + count_list (eb_fetched b) d \<le> length (grants d (en_limiter (eb_engine b)))" for d
    using rate_limiter_spaced [of dflt overrides now0] sound slots by (auto simp: engine_sound_def count_ok_def slots_def)
  moreover have "fst (cb_allow d (en_now env (eb_engine b)) (en_breaker (eb_engine b))) \<longleftrightarrow>
      \<not> hist_open threshold (of_int pause_minutes * 60) (of_int window_minutes * 60)
        (failures_since d (en_calls (eb_engine b)) []) (en_now env (eb_engine b))" for d
    using allow_dom_ok [OF breaker_dom_ok, of env ?cb "eb_engine b" d] sound by (simp add: engine_sound_def breaker_ok_def cb_init_def)
  moreover have "eb_urls b = urls" using inv by blast
  note batch_answer [OF ok, unfolded this]
  ultimately show ?thesis using inv ended by simp
qed

text \<open>
  The breaker is asked by every call before any of them has an outcome: when the calls of a batch for one
  domain begin in order, as the event loop starts them, none of them is refused, whatever the threshold and
  however many there are.
\<close>

lemma allow_again:
  "fst (cb_allow d t cb) \<Longrightarrow> fst (cb_allow d t (snd (cb_allow d t cb)))"
  by (auto simp: cb_allow_def split: option.splits if_splits)

lemma batch_all_admitted:
  assumes "\<forall>u \<in> set urls. url_domain u = Inr d" and "fst (cb_allow d (en_now env s) (en_breaker s))"
  shows "\<exists>b. eb_run env (eb_init urls s) (length urls) b \<and> eb_calls b = replicate (length urls) (Locking d)"
proof -
  have "\<exists>b. eb_run env (eb_init urls s) k b \<and> eb_calls b = replicate k (Locking d) @ replicate (length urls - k) Fresh \<and> eb_urls b = urls \<and>
      fst (cb_allow d (en_now env (eb_engine b)) (en_breaker (eb_engine b)))" if "k \<le> length urls" for k
    using that
  proof (induction k)
    case 0
    show ?case using assms(2) by (intro exI [of _ "eb_init urls s"]) (simp add: eb_run.Start, simp add: eb_init_def)
  next
    case (Suc k)
    then obtain b where b: "eb_run env (eb_init urls s) k b" "eb_calls b = replicate k (Locking d) @ replicate (length urls - k) Fresh"
      "eb_urls b = urls" "fst (cb_allow d (en_now env (eb_engine b)) (en_breaker (eb_engine b)))" by auto
    let ?b = "settle_call k (call_begin env k (eb_urls b ! k) (eb_engine b)) b"
    have d: "url_domain (urls ! k) = Inr d" using assms(1) Suc.prems by simp
    have "eb_work env b ?b" using Suc.prems b(2) by (intro eb_work.Begin) (simp_all add: nth_append)
    then have run: "eb_run env (eb_init urls s) (Suc k) ?b" using eb_run.Work [OF b(1)] by simp
    have begun: "fst (call_begin env k (urls ! k) (eb_engine b)) = Locking d \<and>
        fst (cb_allow d (en_now env (snd (call_begin env k (urls ! k) (eb_engine b)))) (en_breaker (snd (call_begin env k (urls ! k) (eb_engine b)))))"
      using d b(4) allow_again [OF b(4)] by (auto simp: call_begin_def en_allow_def on_limiter_def en_now_def split: prod.splits bool.splits)
    have "length urls - k = Suc (length urls - Suc k)" using Suc.prems by simp
    then have "eb_calls b = replicate k (Locking d) @ Fresh # replicate (length urls - Suc k) Fresh" using b(2) by simp
    then have "eb_calls ?b = (replicate k (Locking d) @ [Locking d]) @ replicate (length urls - Suc k) Fresh"
      using b(3) begun by (simp add: list_update_append)
    then have "eb_calls ?b = replicate (Suc k) (Locking d) @ replicate (length urls - Suc k) Fresh"
      by (simp only: replicate_append_same replicate_Suc [symmetric])
    then show ?case using run begun b(3) by (intro exI [of _ ?b]) simp
  qed
  from this [of "length urls"] show ?thesis by auto
qed

text \<open>One malformed URL, and the caller loses the results of all the others.\<close>

lemma batch_malformed:
  assumes "eb_inv env cb0 rl0 s0 b" and "u \<in> set (eb_urls b)" and "url_domain u = Inl e" and "list_all (\<lambda>c. \<exists>r. c = Ended r) (eb_calls b)"
  shows "\<exists>e'. eb_answer b = Some (Inl e')"
proof -
  obtain i where i: "i < length (eb_urls b)" "eb_urls b ! i = u" using assms(2) by (auto simp: in_set_conv_nth)
  then have c: "call_ok env (pool s0) u (eb_calls b ! i)" "i < length (eb_calls b)" using assms(1) by (auto simp: eb_inv_def list_all2_conv_all_nth)
  then obtain r where "eb_calls b ! i = Ended r" using assms(4) by (auto simp: list_all_length)
  then have "\<exists>e'. Ended (Inl e') \<in> set (eb_calls b)"
    using c assms(3) nth_mem [OF c(2)] by (cases r) (auto simp: call_ok_def scrape_answer_def fetched_result_def)
  then show ?thesis using assms(1) by (auto simp: eb_inv_def raised_ok_def eb_answer_def split: option.splits)
qed

section \<open>Witness\<close>

text \<open>One call against the failing world: it begins, takes its slot, finds no proxy, and its scraper fails.\<close>

theorem engine_batch_contract_witness:
  "\<exists>b. eb_run failing_env (eb_init [failing_url] failing_start) 6 b \<and> eb_fetched b = [''ft.com''] \<and>
     count_list (eb_fetched b) ''ft.com'' \<le> length (grants ''ft.com'' (en_limiter (eb_engine b))) \<and>
     eb_answer b = Some (Inr [(mk_result ''error'' ''curl_cffi'')\<lparr>sr_error := Some ''no route''\<rparr>])"
proof -
  let ?d = "''ft.com''" and ?r = "(mk_result ''error'' ''curl_cffi'')\<lparr>sr_error := Some ''no route''\<rparr>"
  let ?B = "\<lambda>c e x. \<lparr>eb_urls = [failing_url], eb_calls = [c], eb_engine = e, eb_raised = None, eb_fetched = x\<rparr>"
  let ?e1 = "on_limiter failing_env (rl_request ?d 0) (failing_start\<lparr>en_calls := [Allow ?d 0]\<rparr>)"
  let ?e2 = "on_limiter failing_env (rl_enter ?d 0 []) ?e1" let ?e3 = "on_limiter failing_env (rl_grant ?d 0) ?e2"
  let ?e6 = "en_record failing_env ?d False (?e3\<lparr>en_world := 1\<rparr>)"
  note [simp] = settle_call_def failing_env_def failing_start_def engine_init_def on_limiter_def en_now_def rotator_init_def rl_init_def load_proxies_def
  have domain: "url_domain failing_url = Inr ?d" by (rule failing_domain)
  have w1: "eb_work failing_env (?B Fresh failing_start []) (?B (Locking ?d) ?e1 [])"
    using eb_work.Begin [of 0 "?B Fresh failing_start []" failing_env] by (simp add: domain call_begin_def en_allow_def cb_allow_def cb_init_def)
  have w2: "eb_work failing_env (?B (Locking ?d) ?e1 []) (?B (Sleeping ?d) ?e2 [])"
    using eb_work.Enter [of "?B (Locking ?d) ?e1 []" ?d 0 "[]" failing_env] by (simp add: rl_request_def)
  have w3: "eb_work failing_env (?B (Sleeping ?d) ?e2 []) (?B (Granted ?d) ?e3 [])"
    using eb_work.Wake [of "?B (Sleeping ?d) ?e2 []" ?d 0 0 failing_env] by (simp add: rl_defs)
  have w4: "eb_work failing_env (?B (Granted ?d) ?e3 []) (?B (Probing ?d []) ?e3 [])"
    using eb_work.Candidates [of 0 "?B (Granted ?d) ?e3 []" ?d failing_env] by (simp add: call_candidates_def)
  have w5: "eb_work failing_env (?B (Probing ?d []) ?e3 []) (?B (Fetching ?d None) ?e3 [])"
    using eb_work.Probe [of 0 "?B (Probing ?d []) ?e3 []" ?d "[]" failing_env] by (simp add: call_probe_def)
  have w6: "eb_work failing_env (?B (Fetching ?d None) ?e3 []) (?B (Ended (Inr ?r)) ?e6 [?d])"
    using eb_work.Fetch [of 0 "?B (Fetching ?d None) ?e3 []" ?d None failing_env]
    by (simp add: call_fetch_def on_world_def dispatch_result_def exn_status_def mk_result_def)
  have "eb_init [failing_url] failing_start = ?B Fresh failing_start []" by (simp add: eb_init_def)
  then have run: "eb_run failing_env (eb_init [failing_url] failing_start) 6 (?B (Ended (Inr ?r)) ?e6 [?d])"
    using eb_run.Work [OF eb_run.Work [OF eb_run.Work [OF eb_run.Work [OF eb_run.Work [OF eb_run.Work [OF eb_run.Start w1] w2] w3] w4] w5] w6]
    by (simp only:) (simp add: numeral_eq_Suc)
  have start: "failing_start = snd (engine_run failing_env [] (engine_init (cb_init 2 30 10) (rl_init 1 (\<lambda>_. None) 0) (rotator_init (\<lambda>_. None) None None) 0))"
    unfolding failing_start_def by (simp only: engine_run.simps snd_conv)
  from engine_batch_contract [OF failing_clock _ _ start run, THEN conjunct2, THEN conjunct2, THEN conjunct1, THEN spec, of ?d]
  have "count_list [?d] ?d \<le> length (grants ?d (en_limiter ?e6))" by simp
  then show ?thesis using run by (intro exI [of _ "?B (Ended (Inr ?r)) ?e6 [?d]"]) (simp add: eb_answer_def)
qed

end
