(* ===== verification/Object_Store.thy ===== *)
theory Object_Store
  imports Models
begin

text \<open>
  The object-store port (\<open>core/objectstore/base.py\<close>), its in-memory implementation (\<open>memory.py\<close>) and
  the S3 adapter (\<open>minio_store.py\<close>).

  The locale \<open>object_store\<close> is the port: under its invariant the four operations act on a finite map
  from keys to contents.  Both implementations interpret it, the adapter for every S3 service that
  satisfies \<open>s3_service\<close>, the documented behaviour of the client calls it makes.

  All the bytes the program stores are the UTF-8 encoding of a \<open>str\<close>; \<open>Utf8 s\<close> are these bytes.
\<close>

section \<open>Bytes and the port\<close>

datatype pybytes = Utf8 string

fun decode_utf8 :: "pybytes \<Rightarrow> string" where
  "decode_utf8 (Utf8 s) = s"

record 's store_ops =
  st_put :: "string \<Rightarrow> pybytes \<Rightarrow> string \<Rightarrow> ('s, unit) py"
  st_get :: "string \<Rightarrow> ('s, pybytes) py"
  st_exists :: "string \<Rightarrow> ('s, bool) py"
  st_delete :: "string \<Rightarrow> ('s, unit) py"

definition not_found :: "string \<Rightarrow> exn" where
  "not_found key = ObjectNotFound (''Object not found: '' @ py_repr key)"

locale object_store =
  fixes ops :: "'s store_ops"
    and inv :: "'s \<Rightarrow> bool"
    and view :: "'s \<Rightarrow> string \<Rightarrow> pybytes option"
  assumes put_law: "inv s \<Longrightarrow> \<exists>s'. st_put ops k d ct s = (Inr (), s') \<and> inv s' \<and> view s' = (view s)(k := Some d)"
    and get_law: "inv s \<Longrightarrow> \<exists>s'. st_get ops k s =
        ((case view s k of Some d \<Rightarrow> Inr d | None \<Rightarrow> Inl (not_found k)), s') \<and> inv s' \<and> view s' = view s"
    and exists_law: "inv s \<Longrightarrow> \<exists>s'. st_exists ops k s = (Inr (view s k \<noteq> None), s') \<and> inv s' \<and> view s' = view s"
    and delete_law: "inv s \<Longrightarrow> \<exists>s'. st_delete ops k s = (Inr (), s') \<and> inv s' \<and> view s' = (view s)(k := None)"
begin

lemma put_get:
  assumes "inv s"
  shows "\<exists>s1 s2. st_put ops k d ct s = (Inr (), s1) \<and> st_get ops k s1 = (Inr d, s2) \<and> inv s2"
proof -
  obtain s1 where "st_put ops k d ct s = (Inr (), s1)" "inv s1" "view s1 = (view s)(k := Some d)"
    using put_law [OF assms] by blast
  with get_law [of s1 k] show ?thesis by auto
qed

text \<open>A claim-check write: putting the same object again changes nothing a reader can see.\<close>

lemma put_idempotent:
  assumes "inv s"
  shows "\<exists>s1 s2. st_put ops k d ct s = (Inr (), s1) \<and> st_put ops k d ct s1 = (Inr (), s2) \<and>
    inv s2 \<and> view s2 = view s1"
proof -
  obtain s1 where s1: "st_put ops k d ct s = (Inr (), s1)" "inv s1" "view s1 = (view s)(k := Some d)"
    using put_law [OF assms] by blast
  obtain s2 where "st_put ops k d ct s1 = (Inr (), s2)" "inv s2" "view s2 = (view s1)(k := Some d)"
    using put_law [OF s1(2)] by blast
  with s1 show ?thesis by simp
qed

lemma delete_exists:
  assumes "inv s"
  shows "\<exists>s1 s2. st_delete ops k s = (Inr (), s1) \<and> st_exists ops k s1 = (Inr False, s2)"
proof -
  obtain s1 where "st_delete ops k s = (Inr (), s1)" "inv s1" "view s1 = (view s)(k := None)"
    using delete_law [OF assms] by blast
  with exists_law [of s1 k] show ?thesis by auto
qed

end

section \<open>The in-memory store\<close>

type_synonym memstore = "string \<Rightarrow> (pybytes \<times> string) option"

definition memstore_init :: memstore where "memstore_init = (\<lambda>_. None)"

definition ms_put :: "string \<Rightarrow> pybytes \<Rightarrow> string \<Rightarrow> (memstore, unit) py" where
  "ms_put key data content_type s = (Inr (), s(key := Some (data, content_type)))"

definition ms_get :: "string \<Rightarrow> (memstore, pybytes) py" where
  "ms_get key s = (case s key of None \<Rightarrow> (Inl (not_found key), s) | Some (data, _) \<Rightarrow> (Inr data, s))"

definition ms_exists :: "string \<Rightarrow> (memstore, bool) py" where
  "ms_exists key s = (Inr (s key \<noteq> None), s)"

definition ms_delete :: "string \<Rightarrow> (memstore, unit) py" where
  "ms_delete key s = (Inr (), s(key := None))"

definition memstore_ops :: "memstore store_ops" where
  "memstore_ops = \<lparr>st_put = ms_put, st_get = ms_get, st_exists = ms_exists, st_delete = ms_delete\<rparr>"

definition memstore_view :: "memstore \<Rightarrow> string \<Rightarrow> pybytes option" where
  "memstore_view s k = map_option fst (s k)"

lemmas memstore_defs = ms_put_def ms_get_def ms_exists_def ms_delete_def memstore_ops_def

interpretation memstore: object_store memstore_ops "\<lambda>_. True" memstore_view
  by unfold_locales (auto simp: memstore_defs memstore_view_def [abs_def] split: option.splits)

section \<open>The S3 adapter\<close>

text \<open>
  The client calls of one S3 bucket.  A call returns \<open>Inl code\<close> for a \<open>ClientError\<close> with that error
  code.  \<open>head_bucket\<close> and \<open>create_bucket\<close> are used by \<open>ensure_bucket\<close> only.
\<close>

record 's s3_client =
  s3_put_object :: "string \<Rightarrow> pybytes \<Rightarrow> string \<Rightarrow> 's \<Rightarrow> (string + unit) \<times> 's"
  s3_get_object :: "string \<Rightarrow> 's \<Rightarrow> (string + pybytes) \<times> 's"
  s3_head_object :: "string \<Rightarrow> 's \<Rightarrow> (string + unit) \<times> 's"
  s3_delete_object :: "string \<Rightarrow> 's \<Rightarrow> (string + unit) \<times> 's"
  s3_head_bucket :: "'s \<Rightarrow> (string + unit) \<times> 's"
  s3_create_bucket :: "string option \<Rightarrow> 's \<Rightarrow> (string + unit) \<times> 's"

definition client_error :: "string \<Rightarrow> exn" where "client_error code = OtherError code"

definition s3_call :: "('s \<Rightarrow> (string + 'a) \<times> 's) \<Rightarrow> ('s, 'a) py" where
  "s3_call f s = (case f s of (Inl code, s') \<Rightarrow> (Inl (client_error code), s') | (Inr a, s') \<Rightarrow> (Inr a, s'))"

definition missing_code :: "string \<Rightarrow> bool" where
  "missing_code code = (code \<in> {''NoSuchKey'', ''404''})"

definition minio_put :: "'s s3_client \<Rightarrow> string \<Rightarrow> pybytes \<Rightarrow> string \<Rightarrow> ('s, unit) py" where
  "minio_put c key data content_type = s3_call (s3_put_object c key data content_type)"

definition minio_get :: "'s s3_client \<Rightarrow> string \<Rightarrow> ('s, pybytes) py" where
  "minio_get c key s = (case s3_get_object c key s of
      (Inr data, s') \<Rightarrow> (Inr data, s')
    | (Inl code, s') \<Rightarrow> (Inl (if missing_code code then not_found key else client_error code), s'))"

definition minio_exists :: "'s s3_client \<Rightarrow> string \<Rightarrow> ('s, bool) py" where
  "minio_exists c key s = (case s3_head_object c key s of
      (Inr _, s') \<Rightarrow> (Inr True, s')
    | (Inl code, s') \<Rightarrow> ((if missing_code code then Inr False else Inl (client_error code)), s'))"

definition minio_delete :: "'s s3_client \<Rightarrow> string \<Rightarrow> ('s, unit) py" where
  "minio_delete c key = s3_call (s3_delete_object c key)"

definition minio_ensure_bucket :: "'s s3_client \<Rightarrow> string \<Rightarrow> ('s, unit) py" where
  "minio_ensure_bucket c region s = (case s3_head_bucket c s of
      (Inr _, s') \<Rightarrow> (Inr (), s')
    | (Inl code, s') \<Rightarrow>
        if code \<in> {''NoSuchBucket'', ''404''}
        then s3_call (s3_create_bucket c (if region \<noteq> ''us-east-1'' then Some region else None)) s'
        else (Inl (client_error code), s'))"

definition minio_ops :: "'s s3_client \<Rightarrow> 's store_ops" where
  "minio_ops c = \<lparr>st_put = minio_put c, st_get = minio_get c, st_exists = minio_exists c,
     st_delete = minio_delete c\<rparr>"

lemmas minio_defs = minio_put_def minio_get_def minio_exists_def minio_delete_def minio_ops_def s3_call_def

locale s3_service =
  fixes client :: "'s s3_client"
    and ok :: "'s \<Rightarrow> bool"
    and objects :: "'s \<Rightarrow> string \<Rightarrow> pybytes option"
  assumes put_object: "ok s \<Longrightarrow> \<exists>s'. s3_put_object client k d ct s = (Inr (), s') \<and> ok s' \<and>
      objects s' = (objects s)(k := Some d)"
    and get_object: "ok s \<Longrightarrow> \<exists>s'. s3_get_object client k s =
      ((case objects s k of Some d \<Rightarrow> Inr d | None \<Rightarrow> Inl ''NoSuchKey''), s') \<and> ok s' \<and> objects s' = objects s"
    and head_object: "ok s \<Longrightarrow> \<exists>s'. s3_head_object client k s =
      ((case objects s k of Some d \<Rightarrow> Inr () | None \<Rightarrow> Inl ''404''), s') \<and> ok s' \<and> objects s' = objects s"
    and delete_object: "ok s \<Longrightarrow> \<exists>s'. s3_delete_object client k s = (Inr (), s') \<and> ok s' \<and>
      objects s' = (objects s)(k := None)"

sublocale s3_service \<subseteq> minio: object_store "minio_ops client" ok objects
proof unfold_locales
  fix s k d ct assume ok: "ok s"
  show "\<exists>s'. st_put (minio_ops client) k d ct s = (Inr (), s') \<and> ok s' \<and> objects s' = (objects s)(k := Some d)"
    using put_object [OF ok, of k d ct] by (auto simp: minio_defs)
  show "\<exists>s'. st_get (minio_ops client) k s = ((case objects s k of Some d \<Rightarrow> Inr d | None \<Rightarrow> Inl (not_found k)), s') \<and>
      ok s' \<and> objects s' = objects s"
    using get_object [OF ok, of k] by (auto simp: minio_defs missing_code_def split: option.splits)
  show "\<exists>s'. st_exists (minio_ops client) k s = (Inr (objects s k \<noteq> None), s') \<and> ok s' \<and> objects s' = objects s"
    using head_object [OF ok, of k] by (auto simp: minio_defs missing_code_def split: option.splits)
  show "\<exists>s'. st_delete (minio_ops client) k s = (Inr (), s') \<and> ok s' \<and> objects s' = (objects s)(k := None)"
    using delete_object [OF ok, of k] by (auto simp: minio_defs)
qed

text \<open>A bucket that is a map, and the in-memory store seen through the adapter's interface.\<close>

definition map_bucket :: "(string \<Rightarrow> pybytes option) s3_client" where
  "map_bucket = \<lparr>s3_put_object = \<lambda>k d ct s. (Inr (), s(k := Some d)),
     s3_get_object = \<lambda>k s. (case s k of Some d \<Rightarrow> Inr d | None \<Rightarrow> Inl ''NoSuchKey'', s),
     s3_head_object = \<lambda>k s. (case s k of Some d \<Rightarrow> Inr () | None \<Rightarrow> Inl ''404'', s),
     s3_delete_object = \<lambda>k s. (Inr (), s(k := None)),
     s3_head_bucket = \<lambda>s. (Inr (), s), s3_create_bucket = \<lambda>r s. (Inr (), s)\<rparr>"

interpretation map_bucket: s3_service map_bucket "\<lambda>_. True" "\<lambda>s. s"
  by unfold_locales (auto simp: map_bucket_def)

context s3_service
begin

lemmas minio_put_get = minio.put_get
lemmas minio_get_law = minio.get_law
lemmas minio_delete_exists = minio.delete_exists

end

text \<open>
  The S3 adapter keeps the contract of the object-store port for every service that behaves as
  S3 documents: what was put is what \<open>get\<close> returns, \<open>get\<close> of a missing key raises
  \<open>ObjectNotFound\<close> and not a client error, and after \<open>delete\<close> the key does not exist.
\<close>

theorem minio_contract:
  assumes "s3_service client ok objects" and "ok s"
  shows "(\<exists>s1 s2. minio_put client k d ct s = (Inr (), s1) \<and> minio_get client k s1 = (Inr d, s2)) \<and>
    (objects s k = None \<longrightarrow> (\<exists>s1. minio_get client k s = (Inl (not_found k), s1))) \<and>
    (\<exists>s1 s2. minio_delete client k s = (Inr (), s1) \<and> minio_exists client k s1 = (Inr False, s2))"
  using s3_service.minio_put_get [OF assms, of k d ct] s3_service.minio_get_law [OF assms, of k]
    s3_service.minio_delete_exists [OF assms, of k]
  by (auto simp: minio_ops_def)

theorem minio_contract_witness:
  "(\<exists>s1 s2. minio_put map_bucket ''k'' (Utf8 ''v'') ''text/html'' (\<lambda>_. None) = (Inr (), s1) \<and>
      minio_get map_bucket ''k'' s1 = (Inr (Utf8 ''v''), s2)) \<and>
   (\<exists>s1. minio_get map_bucket ''k'' (\<lambda>_. None) = (Inl (not_found ''k''), s1))"
  using minio_contract [OF map_bucket.s3_service_axioms, where s = "\<lambda>_. None" and k = "''k''" and d = "Utf8 ''v''" and
      ct = "''text/html''"]
  by auto

end
