(* ===== verification/Database.thy ===== *)
theory Database
  imports Models
begin

text \<open>
  The serving database: the tables of \<open>core/db/models.py\<close>, the repository functions of
  \<open>core/db/repositories.py\<close> and the retention job of \<open>pipeline/retention.py\<close>.

  A table is the list of its rows in insertion order, with its primary key unique (\<open>db_ok\<close>).  The
  SQL statements the sources build are given their meaning on these lists: a SELECT filters, sorts
  and cuts, an INSERT with a conflict clause updates the row or appends it, a DELETE filters.  Each
  session of the sources makes one statement and commits, so a call is one step; what a failing
  server would do is not modelled.  The reading of the clock is the argument \<open>now\<close>.
\<close>

section \<open>Rows\<close>

record article_row =
  a_id :: string
  a_url :: string
  a_domain :: string
  a_bucket :: string
  a_title :: string
  a_content :: string
  a_author :: "string option"
  a_publish_date :: "datetime option"
  a_fetched_at :: datetime
  a_raw_key :: "string option"
  a_meta :: pydict
  a_embedding :: "real list option"
  a_relevance :: "int option"
  a_summary :: "pydict option"

text \<open>The statuses of a job are the strings of the source; their order is that of its life.\<close>

datatype job_status = Queued | Running | Done | JobError

fun status_rank :: "job_status \<Rightarrow> nat" where
  "status_rank Queued = 0"
| "status_rank Running = 1"
| "status_rank Done = 2"
| "status_rank JobError = 3"

fun status_str :: "job_status \<Rightarrow> string" where
  "status_str Queued = ''queued''"
| "status_str Running = ''running''"
| "status_str Done = ''done''"
| "status_str JobError = ''error''"

instantiation job_status :: linorder
begin

definition less_eq_job_status :: "job_status \<Rightarrow> job_status \<Rightarrow> bool" where
  "less_eq_job_status a b = (status_rank a \<le> status_rank b)"

definition less_job_status :: "job_status \<Rightarrow> job_status \<Rightarrow> bool" where
  "less_job_status a b = (status_rank a < status_rank b)"

instance
proof
  fix a b c :: job_status
  show "(a < b) = (a \<le> b \<and> \<not> b \<le> a)" by (auto simp: less_job_status_def less_eq_job_status_def)
  show "a \<le> a" by (simp add: less_eq_job_status_def)
  show "a \<le> b \<Longrightarrow> b \<le> c \<Longrightarrow> a \<le> c" by (simp add: less_eq_job_status_def)
  show "a \<le> b \<Longrightarrow> b \<le> a \<Longrightarrow> a = b"
    by (cases a; cases b) (simp_all add: less_eq_job_status_def)
  show "a \<le> b \<or> b \<le> a" by (simp add: less_eq_job_status_def linear)
qed

end

record job_row =
  j_id :: string
  j_status :: job_status
  j_source :: string
  j_params :: pydict
  j_created_at :: datetime
  j_started_at :: "datetime option"
  j_finished_at :: "datetime option"
  j_error :: "string option"
  j_result_count :: int

record source_row =
  s_id :: int
  s_name :: string
  s_bucket :: string
  s_params :: pydict
  s_cron :: "string option"
  s_enabled :: bool

record user_profile =
  u_id :: string
  u_portfolio :: "string list"
  u_sectors :: "string list"
  u_focus :: "string option"
  u_email :: "string option"
  u_updated_at :: datetime

record user_vector =
  v_user :: string
  v_embedding :: "real list"
  v_source_hash :: string
  v_updated_at :: datetime

record user_relevance =
  r_user :: string
  r_article :: string
  r_score :: real
  r_computed_at :: datetime

record db =
  db_articles :: "article_row list"
  db_jobs :: "job_row list"
  db_sources :: "source_row list"
  db_users :: "user_profile list"
  db_vectors :: "user_vector list"
  db_relevance :: "user_relevance list"

definition db_empty :: db where
  "db_empty = \<lparr>db_articles = [], db_jobs = [], db_sources = [], db_users = [], db_vectors = [], db_relevance = []\<rparr>"

definition db_ok :: "db \<Rightarrow> bool" where
  "db_ok d = (distinct (map a_id (db_articles d)) \<and> distinct (map j_id (db_jobs d)))"

section \<open>Articles\<close>

definition find_by :: "('r \<Rightarrow> 'k) \<Rightarrow> 'k \<Rightarrow> 'r list \<Rightarrow> 'r option" where
  "find_by key k rows = find (\<lambda>r. key r = k) rows"

definition get_article :: "string \<Rightarrow> db \<Rightarrow> article_row option" where
  "get_article i d = find_by a_id i (db_articles d)"

text \<open>\<open>ORDER BY fetched_at DESC, id\<close> and the additive filters of \<open>query_articles\<close>.\<close>

definition query_articles ::
  "string option \<Rightarrow> string option \<Rightarrow> datetime option \<Rightarrow> nat \<Rightarrow> nat \<Rightarrow> db \<Rightarrow> article_row list" where
  "query_articles domain bucket since limit offset d =
     take limit (drop offset
       (filter (\<lambda>r. (domain = None \<or> domain = Some (a_domain r)) \<and> (bucket = None \<or> bucket = Some (a_bucket r))
            \<and> (case since of None \<Rightarrow> True | Some t \<Rightarrow> a_fetched_at r \<ge> t))
         (sort_key (\<lambda>r. - a_fetched_at r) (sort_key a_id (db_articles d)))))"

text \<open>
  The UPSERT of the sink: the columns of \<open>_UPSERT_UPDATE_COLUMNS\<close> are overwritten on a conflict; the
  id, the url and the three columns other jobs own are kept.
\<close>

definition upsert_columns :: "article_row \<Rightarrow> article_row \<Rightarrow> article_row" where
  "upsert_columns new old = old\<lparr>a_domain := a_domain new, a_bucket := a_bucket new, a_title := a_title new,
     a_content := a_content new, a_author := a_author new, a_publish_date := a_publish_date new,
     a_fetched_at := a_fetched_at new, a_raw_key := a_raw_key new, a_meta := a_meta new\<rparr>"

text \<open>\<open>INSERT ... ON CONFLICT (key) DO UPDATE\<close>: \<open>overwrite new old\<close> is what the update leaves in an old row.\<close>

definition upsert_by :: "('r \<Rightarrow> 'k) \<Rightarrow> ('r \<Rightarrow> 'r \<Rightarrow> 'r) \<Rightarrow> 'r \<Rightarrow> 'r list \<Rightarrow> 'r list" where
  "upsert_by key overwrite row rows =
     (if find_by key (key row) rows = None then rows @ [row]
      else map (\<lambda>r. if key r = key row then overwrite row r else r) rows)"

definition upsert_article :: "article_row \<Rightarrow> db \<Rightarrow> db" where
  "upsert_article row d = d\<lparr>db_articles := upsert_by a_id upsert_columns row (db_articles d)\<rparr>"

section \<open>Jobs\<close>

definition get_job :: "string \<Rightarrow> db \<Rightarrow> job_row option" where
  "get_job i d = find_by j_id i (db_jobs d)"

definition create_job :: "string \<Rightarrow> string \<Rightarrow> pydict \<Rightarrow> datetime \<Rightarrow> (db, job_row) py" where
  "create_job i source params now d =
     (if get_job i d \<noteq> None then (Inl (OtherError ''IntegrityError''), d)
      else (let job = \<lparr>j_id = i, j_status = Queued, j_source = source, j_params = params, j_created_at = now,
                j_started_at = None, j_finished_at = None, j_error = None, j_result_count = 0\<rparr>
            in (Inr job, d\<lparr>db_jobs := db_jobs d @ [job]\<rparr>)))"

definition list_jobs :: "nat \<Rightarrow> db \<Rightarrow> job_row list" where
  "list_jobs limit d = take limit (sort_key (\<lambda>j. - j_created_at j) (sort_key j_id (db_jobs d)))"

record job_update =
  ju_status :: job_status
  ju_result_count :: "int option"
  ju_error :: "string option"
  ju_started :: bool
  ju_finished :: bool

definition apply_update :: "job_update \<Rightarrow> datetime \<Rightarrow> job_row \<Rightarrow> job_row" where
  "apply_update u now j = j\<lparr>j_status := ju_status u,
     j_started_at := (if ju_started u then Some now else j_started_at j),
     j_finished_at := (if ju_finished u then Some now else j_finished_at j),
     j_result_count := (case ju_result_count u of Some c \<Rightarrow> c | None \<Rightarrow> j_result_count j),
     j_error := (case ju_error u of Some e \<Rightarrow> Some e | None \<Rightarrow> j_error j)\<rparr>"

definition update_job_status :: "string \<Rightarrow> job_update \<Rightarrow> datetime \<Rightarrow> (db, unit) py" where
  "update_job_status i u now d = (case get_job i d of
      None \<Rightarrow> (Inl (ValueError (''Job '' @ py_repr i @ '' not found'')), d)
    | Some _ \<Rightarrow> (Inr (), d\<lparr>db_jobs := map (\<lambda>j. if j_id j = i then apply_update u now j else j) (db_jobs d)\<rparr>))"

section \<open>Retention\<close>

definition day_us :: int where "day_us = 86400000000"

text \<open>
  \<open>prune_articles\<close>: by age, by irrelevance past half the window, then the oldest above the cap.  SQL
  leaves the order of rows fetched at the same time open; the model keeps their insertion order.
  Deleting an article deletes its relevance rows (\<open>ON DELETE CASCADE\<close>).
\<close>

definition prune_age :: "datetime \<Rightarrow> int \<Rightarrow> article_row list \<Rightarrow> article_row list" where
  "prune_age now retention_days rows = filter (\<lambda>r. \<not> a_fetched_at r < now - retention_days * day_us) rows"

definition prune_irrelevant :: "datetime \<Rightarrow> int \<Rightarrow> int \<Rightarrow> article_row list \<Rightarrow> article_row list" where
  "prune_irrelevant now retention_days fl rows =
     (if fl > 0 then
        (let half_cutoff = now - max 1 (retention_days div 2) * day_us in
         filter (\<lambda>r. \<not> ((case a_relevance r of None \<Rightarrow> False | Some s \<Rightarrow> s < fl) \<and> a_fetched_at r < half_cutoff)) rows)
      else rows)"

definition prune_cap :: "int \<Rightarrow> article_row list \<Rightarrow> article_row list" where
  "prune_cap max_articles rows =
     (let total = int (length rows) in
      if total > max_articles then
        (let oldest = map a_id (take (nat (total - max_articles)) (sort_key a_fetched_at rows)) in
         filter (\<lambda>r. a_id r \<notin> set oldest) rows)
      else rows)"

definition prune_articles :: "int \<Rightarrow> int \<Rightarrow> int \<Rightarrow> datetime \<Rightarrow> db \<Rightarrow> nat \<times> db" where
  "prune_articles retention_days max_articles relevance_floor now d =
     (let r0 = db_articles d;
          r1 = prune_age now retention_days r0;
          r2 = prune_irrelevant now retention_days relevance_floor r1;
          r3 = prune_cap max_articles r2
      in ((length r0 - length r1) + (length r1 - length r2) + (length r2 - length r3),
          d\<lparr>db_articles := r3,
            db_relevance := filter (\<lambda>u. r_article u \<in> a_id ` set r3 \<or> r_article u \<notin> a_id ` set r0) (db_relevance d)\<rparr>))"

section \<open>Lemmas\<close>

lemma find_by_Some: "find_by key k rows = Some r \<Longrightarrow> r \<in> set rows \<and> key r = k"
  by (induction rows) (auto simp: find_by_def split: if_splits)

lemma find_by_None: "find_by key k rows = None \<longleftrightarrow> k \<notin> key ` set rows"
  by (induction rows) (auto simp: find_by_def)

lemma find_by_unique:
  "distinct (map key rows) \<Longrightarrow> find_by key k rows = Some r \<longleftrightarrow> r \<in> set rows \<and> key r = k"
  by (induction rows) (auto simp: find_by_def rev_image_eqI)

lemma find_by_simps [simp]: "find_by key k [] = None" "find_by key k (x # xs) = (if key x = k then Some x else find_by key k xs)"
  by (simp_all add: find_by_def)

lemma find_by_append: "find_by key k (xs @ ys) = (case find_by key k xs of Some r \<Rightarrow> Some r | None \<Rightarrow> find_by key k ys)"
  by (induction xs) (auto simp: find_by_def)

lemma find_by_single: "find_by key k [r] = (if key r = k then Some r else None)"
  by (simp add: find_by_def)

lemma find_by_map:
  "(\<And>r. key (f r) = key r) \<Longrightarrow> find_by key k (map f rows) = map_option f (find_by key k rows)"
  by (induction rows) (auto simp: find_by_def)

lemma upsert_columns_id [simp]: "a_id (upsert_columns new old) = a_id old"
  by (simp add: upsert_columns_def)

text \<open>Upserts, one and many.\<close>

lemma distinct_upsert_by:
  assumes "\<And>n r. key (overwrite n r) = key r" and "distinct (map key rows)"
  shows "distinct (map key (upsert_by key overwrite row rows))"
proof -
  have "map key (map (\<lambda>r. if key r = key row then overwrite row r else r) rows) = map key rows"
    using assms(1) by (induction rows) auto
  then show ?thesis using assms(2) by (auto simp: upsert_by_def find_by_None simp del: map_map)
qed

lemma find_upsert_by:
  assumes "\<And>n r. key (overwrite n r) = key r"
  shows "find_by key k (upsert_by key overwrite row rows) =
     (if k = key row then Some (case find_by key k rows of None \<Rightarrow> row | Some old \<Rightarrow> overwrite row old) else find_by key k rows)"
proof (cases "find_by key (key row) rows")
  case None
  then show ?thesis by (simp add: upsert_by_def find_by_append find_by_single split: option.splits)
next
  case (Some old)
  let ?f = "\<lambda>r. if key r = key row then overwrite row r else r"
  have "key (?f r) = key r" for r using assms by simp
  from find_by_map [of key ?f k rows, OF this] show ?thesis
    using Some find_by_Some [of key k rows] by (cases "find_by key k rows") (auto simp: upsert_by_def)
qed

lemma upsert_by_keys:
  assumes "\<And>n r. key (overwrite n r) = key r"
  shows "map key (upsert_by key overwrite row rows) = map key rows @ (if key row \<in> key ` set rows then [] else [key row])"
proof -
  have "map key (map (\<lambda>r. if key r = key row then overwrite row r else r) rows) = map key rows"
    using assms by (induction rows) auto
  then show ?thesis by (auto simp: upsert_by_def find_by_None simp del: map_map)
qed

lemma distinct_upserts:
  "(\<And>n r. key (overwrite n r) = key r) \<Longrightarrow> distinct (map key rows) \<Longrightarrow> distinct (map key (fold (upsert_by key overwrite) xs rows))"
  by (induction xs arbitrary: rows) (simp_all add: distinct_upsert_by)

lemma find_upserts:
  assumes "\<And>n r. key (overwrite n r) = key r" and "distinct (map key xs)"
  shows "find_by key k (fold (upsert_by key overwrite) xs rows) = (case find_by key k xs of
     None \<Rightarrow> find_by key k rows
   | Some x \<Rightarrow> Some (case find_by key k rows of None \<Rightarrow> x | Some old \<Rightarrow> overwrite x old))"
  using assms(2)
proof (induction xs arbitrary: rows)
  case (Cons x xs)
  have none: "find_by key (key x) xs = None" using Cons.prems by (simp add: find_by_None)
  show ?case
    using Cons by (cases "k = key x") (simp_all add: find_upsert_by assms(1) none split: option.splits)
qed simp

text \<open>With updates that overwrite the whole row, the last of the upserts of a key counts.\<close>

lemma find_upserts_last:
  assumes "\<And>n r. key n = key r \<Longrightarrow> overwrite n r = n" and "\<And>n r. key (overwrite n r) = key r"
  shows "find_by key k (fold (upsert_by key overwrite) xs rows) = (case find_by key k (rev xs) of
     None \<Rightarrow> find_by key k rows | Some x \<Rightarrow> Some x)"
proof (induction xs arbitrary: rows)
  case (Cons x xs)
  have "(case find_by key k rows of None \<Rightarrow> x | Some old \<Rightarrow> overwrite x old) = x" if "k = key x"
    using that assms(1) find_by_Some [of key k rows] by (auto split: option.splits)
  with Cons show ?case
    by (simp add: find_upsert_by assms(2) find_by_append split: option.splits)
qed simp

lemma upserts_same_keys:
  assumes "\<And>n r. key (overwrite n r) = key r" and "key ` set xs \<subseteq> key ` set rows"
  shows "map key (fold (upsert_by key overwrite) xs rows) = map key rows"
  using assms(2)
proof (induction xs arbitrary: rows)
  case (Cons x xs)
  have k: "map key (upsert_by key overwrite x rows) = map key rows" using Cons.prems by (simp add: upsert_by_keys assms(1))
  then have "key ` set (upsert_by key overwrite x rows) = key ` set rows" by (metis list.set_map)
  with Cons k show ?case by simp
qed simp

lemma map_eq_by_find:
  assumes "map key xs = map key ys" and "distinct (map key xs)"
    and "\<And>k x y. find_by key k xs = Some x \<Longrightarrow> find_by key k ys = Some y \<Longrightarrow> g x = g y"
  shows "map g xs = map g ys"
proof (rule nth_equalityI)
  have len: "length xs = length ys" using assms(1) by (rule map_eq_imp_length_eq)
  then show "length (map g xs) = length (map g ys)" by simp
  fix i assume "i < length (map g xs)"
  then have i: "i < length xs" by simp
  have k: "key (xs ! i) = key (ys ! i)" using arg_cong [OF assms(1), of "\<lambda>l. l ! i"] i len by simp
  have "find_by key (key (xs ! i)) xs = Some (xs ! i)" using i by (simp add: find_by_unique [OF assms(2)])
  moreover have "distinct (map key ys)" using assms(2) unfolding assms(1) .
  then have "find_by key (key (xs ! i)) ys = Some (ys ! i)" unfolding k using i len by (simp add: find_by_unique)
  ultimately have "g (xs ! i) = g (ys ! i)" by (rule assms(3))
  then show "map g xs ! i = map g ys ! i" using i len by simp
qed

lemma eq_by_find:
  assumes "map key xs = map key ys" and "distinct (map key xs)" and "\<And>k. find_by key k xs = find_by key k ys"
  shows "xs = ys"
  using map_eq_by_find [OF assms(1,2), of "\<lambda>x. x"] assms(3) by simp

lemma upsert_db_ok: "db_ok d \<Longrightarrow> db_ok (upsert_article row d)"
  by (simp add: db_ok_def upsert_article_def distinct_upsert_by)

lemma get_upsert:
  "get_article i (upsert_article row d) =
     (if i = a_id row then Some (case get_article i d of None \<Rightarrow> row | Some old \<Rightarrow> upsert_columns row old)
      else get_article i d)"
  by (simp add: get_article_def upsert_article_def find_upsert_by)

lemma get_job_update:
  "update_job_status i u now d = (r, d') \<Longrightarrow>
     (case r of
        Inr _ \<Rightarrow> get_job k d' = map_option (\<lambda>j. if k = i then apply_update u now j else j) (get_job k d)
      | Inl e \<Rightarrow> d' = d \<and> get_job i d = None)
     \<and> db_articles d' = db_articles d \<and> (db_ok d \<longrightarrow> db_ok d')"
proof (cases "get_job i d")
  case None
  then show "update_job_status i u now d = (r, d') \<Longrightarrow> ?thesis" by (auto simp: update_job_status_def)
next
  case (Some j)
  assume u: "update_job_status i u now d = (r, d')"
  let ?f = "\<lambda>j. if j_id j = i then apply_update u now j else j"
  have key: "j_id (?f j) = j_id j" for j by (simp add: apply_update_def)
  have ids: "map j_id (map ?f rows) = map j_id rows" for rows
    using key by (induction rows) auto
  have d': "r = Inr ()" "d' = d\<lparr>db_jobs := map ?f (db_jobs d)\<rparr>" using u Some by (auto simp: update_job_status_def)
  have "get_job k d' = map_option ?f (get_job k d)"
    using find_by_map [of j_id ?f k "db_jobs d", OF key] by (simp add: get_job_def d')
  also have "\<dots> = map_option (\<lambda>j. if k = i then apply_update u now j else j) (get_job k d)"
    using find_by_Some [of j_id k "db_jobs d"] by (cases "get_job k d") (auto simp: get_job_def)
  finally show ?thesis using d' ids [of "db_jobs d"] by (simp add: db_ok_def del: map_map)
qed

text \<open>Sorting by a second key and then, stably, by a first key.\<close>

lemma sorted_two_keys:
  fixes f :: "'r \<Rightarrow> int" and g :: "'r \<Rightarrow> 'k :: linorder"
  shows "sorted_wrt (\<lambda>r s. f s < f r \<or> f s = f r \<and> g r \<le> g s) (sort_key (\<lambda>r. - f r) (sort_key g xs))"
proof -
  let ?ys = "sort_key g xs" and ?R = "\<lambda>r s. f s < f r \<or> f s = f r \<and> g r \<le> g s"
  have srt: "sorted_wrt (\<lambda>r s. g r \<le> g s) ?ys" using sorted_sort_key [of g xs] by (simp add: sorted_map)
  have ins: "sorted_wrt ?R (insort_key (\<lambda>r. - f r) y zs)"
    if "sorted_wrt ?R zs" "\<forall>z \<in> set zs. g y \<le> g z" for y zs
    using that
  proof (induction zs)
    case (Cons z zs)
    then show ?case by (auto simp: set_insort_key)
  qed simp
  have "sorted_wrt ?R (sort_key (\<lambda>r. - f r) zs)" if "sorted_wrt (\<lambda>r s. g r \<le> g s) zs" for zs
    using that
  proof (induction zs)
    case (Cons z zs)
    then show ?case using ins [of "sort_key (\<lambda>r. - f r) zs" z] by simp
  qed simp
  then show ?thesis using srt by blast
qed

section \<open>Properties\<close>

lemma prune_length:
  "length (prune_age now days rows) \<le> length rows" "length (prune_irrelevant now days fl rows) \<le> length rows"
  "length (prune_cap mx rows) \<le> length rows"
  by (simp_all add: prune_age_def prune_irrelevant_def prune_cap_def Let_def)

text \<open>Cutting a table to its newest rows.\<close>

lemma length_filter_ids:
  assumes "distinct (map a_id rows)" and "set ys \<subseteq> set rows" and "distinct ys"
  shows "length (filter (\<lambda>r. a_id r \<notin> set (map a_id ys)) rows) = length rows - length ys"
proof -
  have inj: "inj_on a_id (set rows)" and dr: "distinct rows"
    using assms(1) by (auto simp: distinct_map)
  have "set (filter (\<lambda>r. a_id r \<notin> set (map a_id ys)) rows) = set rows - set ys"
    using inj assms(2) by (auto simp: inj_on_def)
  moreover have "distinct (filter (\<lambda>r. a_id r \<notin> set (map a_id ys)) rows)" using dr by simp
  ultimately have "length (filter (\<lambda>r. a_id r \<notin> set (map a_id ys)) rows) = card (set rows - set ys)"
    by (metis distinct_card)
  also have "\<dots> = card (set rows) - card (set ys)" using assms(2) by (intro card_Diff_subset) auto
  finally show ?thesis using dr assms(3) by (simp add: distinct_card)
qed

lemma prune_cap_props:
  assumes "distinct (map a_id rows)" and "0 \<le> max_articles"
  shows "int (length (prune_cap max_articles rows)) \<le> max_articles"
    and "set (prune_cap max_articles rows) \<subseteq> set rows"
    and "r \<in> set (prune_cap max_articles rows) \<Longrightarrow> x \<in> set rows - set (prune_cap max_articles rows) \<Longrightarrow>
      a_fetched_at x \<le> a_fetched_at r"
    and "int (length rows) \<le> max_articles \<Longrightarrow> prune_cap max_articles rows = rows"
proof -
  let ?n = "nat (int (length rows) - max_articles)" and ?s = "sort_key a_fetched_at rows"
  have dist: "distinct rows" "inj_on a_id (set rows)" using assms(1) by (auto simp: distinct_map)
  have ys: "set (take ?n ?s) \<subseteq> set rows" "distinct (take ?n ?s)"
    using set_take_subset [of ?n ?s] dist by auto
  note len = length_filter_ids [OF assms(1) ys]
  show "int (length (prune_cap max_articles rows)) \<le> max_articles"
    using len assms(2) by (simp add: prune_cap_def Let_def del: set_map)
  show "set (prune_cap max_articles rows) \<subseteq> set rows" by (auto simp: prune_cap_def Let_def)
  show "int (length rows) \<le> max_articles \<Longrightarrow> prune_cap max_articles rows = rows"
    by (simp add: prune_cap_def)
  show "a_fetched_at x \<le> a_fetched_at r"
    if r: "r \<in> set (prune_cap max_articles rows)" and x: "x \<in> set rows - set (prune_cap max_articles rows)"
  proof -
    have over: "int (length rows) > max_articles" using x by (auto simp: prune_cap_def Let_def split: if_splits)
    have x': "x \<in> set (take ?n ?s)"
    proof -
      have "x \<in> set rows" "a_id x \<in> a_id ` set (take ?n ?s)" using x over by (auto simp: prune_cap_def Let_def)
      then show ?thesis using dist(2) ys(1) by (auto dest: inj_onD)
    qed
    have "r \<in> set ?s" "r \<notin> set (take ?n ?s)" using r over by (auto simp: prune_cap_def Let_def)
    then have "r \<in> set (drop ?n ?s)" by (metis Un_iff append_take_drop_id set_append)
    with x' show ?thesis
      using sorted_wrt_take_drop [of "\<lambda>a b. a_fetched_at a \<le> a_fetched_at b" ?s x ?n r] sorted_sort_key [of a_fetched_at rows]
      by (simp add: sorted_map)
  qed
qed

text \<open>
  C40.  Retention: after \<open>prune_articles\<close> no more than \<open>max_articles\<close> rows are left, none is older than
  the retention window, and none that was scored below the floor is older than half of it; a row
  that passes the two filters is deleted only for the cap, and then no kept row is older than it.
  The returned number is the number of rows deleted.
\<close>

theorem retention_bounds:
  assumes "db_ok d" and "0 \<le> max_articles"
    and "prune_articles retention_days max_articles relevance_floor now d = (n, d')"
  shows "int (length (db_articles d')) \<le> max_articles \<and> set (db_articles d') \<subseteq> set (db_articles d) \<and>
    n = length (db_articles d) - length (db_articles d') \<and>
    (\<forall>r \<in> set (db_articles d'). now - retention_days * day_us \<le> a_fetched_at r \<and>
      (\<forall>s. a_relevance r = Some s \<longrightarrow> 0 < relevance_floor \<longrightarrow> s < relevance_floor \<longrightarrow>
        now - max 1 (retention_days div 2) * day_us \<le> a_fetched_at r)) \<and>
    (\<forall>x \<in> set (prune_irrelevant now retention_days relevance_floor (prune_age now retention_days (db_articles d))) -
        set (db_articles d'). \<forall>r \<in> set (db_articles d'). a_fetched_at x \<le> a_fetched_at r)"
proof -
  define r1 where "r1 = prune_age now retention_days (db_articles d)"
  define r2 where "r2 = prune_irrelevant now retention_days relevance_floor r1"
  have d': "db_articles d' = prune_cap max_articles r2"
    and n: "n = (length (db_articles d) - length r1) + (length r1 - length r2) + (length r2 - length (db_articles d'))"
    using assms(3) by (auto simp: prune_articles_def Let_def r1_def r2_def)
  have dist: "distinct (map a_id r2)"
    using assms(1) by (auto simp: db_ok_def r1_def r2_def prune_age_def prune_irrelevant_def distinct_map_filter Let_def)
  note cap = prune_cap_props [OF dist assms(2), folded d']
  have len: "length r1 \<le> length (db_articles d)" "length r2 \<le> length r1" "length (db_articles d') \<le> length r2"
    unfolding d' r1_def r2_def by (rule prune_length)+
  have sub: "set r2 \<subseteq> set (db_articles d)"
    by (auto simp: r1_def r2_def prune_age_def prune_irrelevant_def Let_def split: if_splits)
  have kept: "now - retention_days * day_us \<le> a_fetched_at r \<and> (\<forall>s. a_relevance r = Some s \<longrightarrow> 0 < relevance_floor \<longrightarrow> s < relevance_floor \<longrightarrow>
      now - max 1 (retention_days div 2) * day_us \<le> a_fetched_at r)" if r: "r \<in> set r2" for r
  proof
    show "now - retention_days * day_us \<le> a_fetched_at r"
      using r by (auto simp: r1_def r2_def prune_age_def prune_irrelevant_def Let_def split: if_splits)
    show "\<forall>s. a_relevance r = Some s \<longrightarrow> 0 < relevance_floor \<longrightarrow> s < relevance_floor \<longrightarrow>
        now - max 1 (retention_days div 2) * day_us \<le> a_fetched_at r"
      using r by (auto simp: r2_def prune_irrelevant_def Let_def)
  qed
  show ?thesis
    using cap(1,2) sub kept n len cap(3) unfolding r1_def [symmetric] r2_def [symmetric] by auto
qed

definition old_row :: "string \<Rightarrow> datetime \<Rightarrow> int option \<Rightarrow> article_row" where
  "old_row i t rel = \<lparr>a_id = i, a_url = i, a_domain = [], a_bucket = [], a_title = [], a_content = [],
     a_author = None, a_publish_date = None, a_fetched_at = t, a_raw_key = None, a_meta = [],
     a_embedding = None, a_relevance = rel, a_summary = None\<rparr>"

definition retention_db :: db where
  "retention_db = db_empty\<lparr>db_articles := [old_row ''a'' 0 None, old_row ''b'' (80 * day_us) (Some 1),
     old_row ''c'' (99 * day_us) None, old_row ''d'' (98 * day_us) None, old_row ''e'' (97 * day_us) (Some 9)]\<rparr>"

theorem retention_bounds_witness:
  "\<exists>d'. prune_articles 30 2 3 (100 * day_us) retention_db = (3, d') \<and> length (db_articles d') \<le> 2 \<and>
     (\<forall>r \<in> set (db_articles d'). 70 * day_us \<le> a_fetched_at r)"
proof -
  have ok: "db_ok retention_db" by (simp add: db_ok_def retention_db_def db_empty_def old_row_def)
  obtain n d' where p: "prune_articles 30 2 3 (100 * day_us) retention_db = (n, d')" by (metis surj_pair)
  have "fst (prune_articles 30 2 3 (100 * day_us) retention_db) = 3" by code_simp
  then have "n = 3" using p by simp
  with retention_bounds [OF ok _ p] p show ?thesis by (auto simp: day_us_def)
qed

text \<open>
  Pagination of articles: the rows \<open>query_articles\<close> can return are exactly the rows that pass the
  filters, newest first with ties by id, and two consecutive pages together are the one page of the
  added lengths: no row is repeated or skipped while the table does not change.
\<close>

theorem query_pages:
  "query_articles domain bucket since l o1 d @ query_articles domain bucket since l' (o1 + l) d =
     query_articles domain bucket since (l + l') o1 d \<and>
   set (query_articles domain bucket since (length (db_articles d)) 0 d) =
     {r \<in> set (db_articles d). (domain = None \<or> domain = Some (a_domain r)) \<and> (bucket = None \<or> bucket = Some (a_bucket r)) \<and>
        (case since of None \<Rightarrow> True | Some t \<Rightarrow> t \<le> a_fetched_at r)} \<and>
   sorted_wrt (\<lambda>r s. a_fetched_at s < a_fetched_at r \<or> a_fetched_at s = a_fetched_at r \<and> a_id r \<le> a_id s)
     (query_articles domain bucket since l o1 d)"
proof (intro conjI)
  let ?P = "\<lambda>r. (domain = None \<or> domain = Some (a_domain r)) \<and> (bucket = None \<or> bucket = Some (a_bucket r))
            \<and> (case since of None \<Rightarrow> True | Some t \<Rightarrow> a_fetched_at r \<ge> t)"
  let ?xs = "filter ?P (sort_key (\<lambda>r. - a_fetched_at r) (sort_key a_id (db_articles d)))"
  show "query_articles domain bucket since l o1 d @ query_articles domain bucket since l' (o1 + l) d =
     query_articles domain bucket since (l + l') o1 d"
    by (simp add: query_articles_def take_add add.commute [of o1 l])
  have "length ?xs \<le> length (db_articles d)" by (rule order_trans [OF length_filter_le]) simp
  then show "set (query_articles domain bucket since (length (db_articles d)) 0 d) =
     {r \<in> set (db_articles d). (domain = None \<or> domain = Some (a_domain r)) \<and> (bucket = None \<or> bucket = Some (a_bucket r)) \<and>
        (case since of None \<Rightarrow> True | Some t \<Rightarrow> t \<le> a_fetched_at r)}"
    by (auto simp: query_articles_def)
  show "sorted_wrt (\<lambda>r s. a_fetched_at s < a_fetched_at r \<or> a_fetched_at s = a_fetched_at r \<and> a_id r \<le> a_id s)
     (query_articles domain bucket since l o1 d)"
    unfolding query_articles_def
    by (intro sorted_wrt_take sorted_wrt_drop sorted_wrt_filter) (rule sorted_two_keys [where f = a_fetched_at and g = a_id])
qed

end
