(* ===== verification/Sinks.thy ===== *)
theory Sinks
  imports Database Url
begin

text \<open>
  The two article sinks, \<open>core/storage/jsonl.py\<close> and \<open>core/storage/postgres.py\<close>, and \<open>url_id\<close>
  (\<open>core/storage/base.py\<close>).

  \<open>sha\<close> is the SHA-256 hex digest of a string's UTF-8 bytes and \<open>isof\<close> is \<open>datetime.isoformat\<close>; both are
  arguments.  A text file is the list of its lines: the sinks append whole lines, and a crash is
  taken between, not within, the appends.
\<close>

definition url_id :: "(string \<Rightarrow> string) \<Rightarrow> string \<Rightarrow> string" where
  "url_id sha url = sha url"

text \<open>What the code relies on: a digest is 64 hexadecimal digits.\<close>

definition hex_digest :: "(string \<Rightarrow> string) \<Rightarrow> bool" where
  "hex_digest sha = (\<forall>s. length (sha s) = 64 \<and> (\<forall>c \<in> set (sha s). is_digit c \<or> c \<in> set ''abcdef''))"

lemma strip_id: "(\<And>c. c \<in> set s \<Longrightarrow> \<not> P c) \<Longrightarrow> strip_by P s = s"
proof -
  assume n: "\<And>c. c \<in> set s \<Longrightarrow> \<not> P c"
  have id: "dropWhile P t = t" if "set t \<subseteq> set s" for t
    using n that by (cases t) auto
  have "dropWhile P s = s" "dropWhile P (rev s) = rev s" by (simp_all add: id)
  then show ?thesis by (simp add: strip_by_def rstrip_by_def lstrip_by_def)
qed

lemma hex_digest_strip: "hex_digest sha \<Longrightarrow> strip (sha s) = sha s \<and> sha s \<noteq> []"
proof
  assume h: "hex_digest sha"
  show "strip (sha s) = sha s"
  proof (rule strip_id)
    fix c assume "c \<in> set (sha s)"
    then have "is_digit c \<or> c \<in> set ''abcdef''" using h by (auto simp: hex_digest_def)
    then show "\<not> is_space c" by (auto simp: is_digit_def is_space_def)
  qed
  have "length (sha s) = 64" using h by (simp add: hex_digest_def)
  then show "sha s \<noteq> []" by auto
qed

section \<open>The JSONL sink\<close>

record jsonl_disk =
  jd_data :: "string list option"
  jd_manifest :: "string list option"

record jsonl =
  jl_disk :: jsonl_disk
  jl_seen_urls :: "string set"
  jl_seen_content :: "string set"

definition load_manifest :: "jsonl_disk \<Rightarrow> string set" where
  "load_manifest d = (case jd_manifest d of
      None \<Rightarrow> {}
    | Some ls \<Rightarrow> {strip l | l. l \<in> set ls \<and> strip l \<noteq> []})"

definition jsonl_open :: "jsonl_disk \<Rightarrow> jsonl" where
  "jsonl_open d = \<lparr>jl_disk = d, jl_seen_urls = load_manifest d, jl_seen_content = {}\<rparr>"

definition jsonl_seen :: "(string \<Rightarrow> string) \<Rightarrow> string \<Rightarrow> jsonl \<Rightarrow> bool" where
  "jsonl_seen sha url s = (url_id sha url \<in> jl_seen_urls s)"

definition jsonl_record :: "(string \<Rightarrow> string) \<Rightarrow> (datetime \<Rightarrow> string) \<Rightarrow> article \<Rightarrow> pydict" where
  "jsonl_record sha isof a =
     [(''id'', JStr (url_id sha (ar_url a))), (''url'', JStr (ar_url a)), (''title'', JStr (ar_title a)),
      (''content'', JStr (ar_content a)), (''author'', opt_str (ar_author a)),
      (''publish_date'', opt_str (map_option isof (ar_publish_date a))), (''metadata'', JObj (ar_metadata a))]"

definition append_line :: "string \<Rightarrow> string list option \<Rightarrow> string list option" where
  "append_line l f = Some ((case f of None \<Rightarrow> [] | Some ls \<Rightarrow> ls) @ [l])"

text \<open>\<open>write\<close> as the sequence of its three effects; the list is empty when the result is skipped.\<close>

definition jsonl_write_steps ::
  "(string \<Rightarrow> string) \<Rightarrow> (datetime \<Rightarrow> string) \<Rightarrow> (real \<Rightarrow> string) \<Rightarrow> scrape_result \<Rightarrow> jsonl \<Rightarrow> (jsonl \<Rightarrow> jsonl) list" where
  "jsonl_write_steps sha isof fr result s = (case sr_article result of
      None \<Rightarrow> []
    | Some a \<Rightarrow>
        if sr_status result \<noteq> ''success'' then []
        else if sha (ar_content a) \<in> jl_seen_content s then []
        else [\<lambda>s. s\<lparr>jl_disk := (jl_disk s)\<lparr>jd_data :=
                append_line (dumps_raw fr (JObj (jsonl_record sha isof a))) (jd_data (jl_disk s))\<rparr>\<rparr>,
              \<lambda>s. s\<lparr>jl_disk := (jl_disk s)\<lparr>jd_manifest :=
                append_line (url_id sha (ar_url a)) (jd_manifest (jl_disk s))\<rparr>\<rparr>,
              \<lambda>s. s\<lparr>jl_seen_urls := insert (url_id sha (ar_url a)) (jl_seen_urls s),
                    jl_seen_content := insert (sha (ar_content a)) (jl_seen_content s)\<rparr>])"

definition jsonl_write ::
  "(string \<Rightarrow> string) \<Rightarrow> (datetime \<Rightarrow> string) \<Rightarrow> (real \<Rightarrow> string) \<Rightarrow> scrape_result \<Rightarrow> jsonl \<Rightarrow> jsonl" where
  "jsonl_write sha isof fr result s = fold (\<lambda>f s. f s) (jsonl_write_steps sha isof fr result s) s"

text \<open>A run: complete writes, and processes that die after some effects of a write and are started again.\<close>

datatype jsonl_event = Wrote scrape_result | Died scrape_result nat

fun jsonl_step :: "(string \<Rightarrow> string) \<Rightarrow> (datetime \<Rightarrow> string) \<Rightarrow> (real \<Rightarrow> string) \<Rightarrow> jsonl_event \<Rightarrow> jsonl \<Rightarrow> jsonl" where
  "jsonl_step sha isof fr (Wrote r) s = jsonl_write sha isof fr r s"
| "jsonl_step sha isof fr (Died r k) s =
     jsonl_open (jl_disk (fold (\<lambda>f s. f s) (take k (jsonl_write_steps sha isof fr r s)) s))"

definition jsonl_run :: "(string \<Rightarrow> string) \<Rightarrow> (datetime \<Rightarrow> string) \<Rightarrow> (real \<Rightarrow> string) \<Rightarrow> jsonl_event list \<Rightarrow> jsonl \<Rightarrow> jsonl" where
  "jsonl_run sha isof fr es s = fold (jsonl_step sha isof fr) es s"

text \<open>Every manifest entry has its line, and the sets in memory are backed by the files.\<close>

definition has_line :: "(string \<Rightarrow> string) \<Rightarrow> (datetime \<Rightarrow> string) \<Rightarrow> (real \<Rightarrow> string) \<Rightarrow> string \<Rightarrow> jsonl_disk \<Rightarrow> bool" where
  "has_line sha isof fr i d = (\<exists>a ls. jd_data d = Some ls \<and> i = url_id sha (ar_url a) \<and>
     dumps_raw fr (JObj (jsonl_record sha isof a)) \<in> set ls)"

definition jsonl_inv :: "(string \<Rightarrow> string) \<Rightarrow> (datetime \<Rightarrow> string) \<Rightarrow> (real \<Rightarrow> string) \<Rightarrow> jsonl \<Rightarrow> bool" where
  "jsonl_inv sha isof fr s = ((\<forall>ls l. jd_manifest (jl_disk s) = Some ls \<longrightarrow> l \<in> set ls \<longrightarrow>
       (\<exists>u. l = sha u) \<and> has_line sha isof fr l (jl_disk s)) \<and>
     (\<forall>i \<in> jl_seen_urls s. \<exists>ls. jd_manifest (jl_disk s) = Some ls \<and> i \<in> set ls))"

lemma has_line_append:
  "has_line sha isof fr i d \<Longrightarrow> has_line sha isof fr i (d\<lparr>jd_data := append_line l (jd_data d)\<rparr>)"
  "has_line sha isof fr i (d\<lparr>jd_manifest := m\<rparr>) = has_line sha isof fr i d"
  by (auto simp: has_line_def append_line_def)

lemma has_line_new:
  "has_line sha isof fr (url_id sha (ar_url a))
     (d\<lparr>jd_data := append_line (dumps_raw fr (JObj (jsonl_record sha isof a))) (jd_data d)\<rparr>)"
  unfolding has_line_def by (rule exI [of _ a]) (auto simp: append_line_def)

lemma jsonl_inv_data:
  "jsonl_inv sha isof fr s \<Longrightarrow>
     jsonl_inv sha isof fr (s\<lparr>jl_disk := (jl_disk s)\<lparr>jd_data := append_line l (jd_data (jl_disk s))\<rparr>\<rparr>)"
  using has_line_append(1) by (fastforce simp: jsonl_inv_def)

lemma jsonl_inv_manifest:
  assumes "jsonl_inv sha isof fr s" and "has_line sha isof fr (sha u) (jl_disk s)"
  shows "jsonl_inv sha isof fr (s\<lparr>jl_disk := (jl_disk s)\<lparr>jd_manifest := append_line (sha u) (jd_manifest (jl_disk s))\<rparr>\<rparr>)"
  using assms by (cases "jd_manifest (jl_disk s)") (auto simp: jsonl_inv_def has_line_append(2) append_line_def)

lemma jsonl_inv_steps:
  assumes "jsonl_inv sha isof fr s"
  shows "jsonl_inv sha isof fr (fold (\<lambda>f s. f s) (take k (jsonl_write_steps sha isof fr r s)) s)"
proof (cases "jsonl_write_steps sha isof fr r s = []")
  case True
  with assms show ?thesis by simp
next
  case False
  then obtain a where a: "sr_article r = Some a" by (auto simp: jsonl_write_steps_def split: option.splits)
  let ?l = "dumps_raw fr (JObj (jsonl_record sha isof a))" and ?i = "url_id sha (ar_url a)"
  let ?f1 = "\<lambda>s. s\<lparr>jl_disk := (jl_disk s)\<lparr>jd_data := append_line ?l (jd_data (jl_disk s))\<rparr>\<rparr>"
  let ?f2 = "\<lambda>s. s\<lparr>jl_disk := (jl_disk s)\<lparr>jd_manifest := append_line ?i (jd_manifest (jl_disk s))\<rparr>\<rparr>"
  let ?f3 = "\<lambda>s. s\<lparr>jl_seen_urls := insert ?i (jl_seen_urls s), jl_seen_content := insert (sha (ar_content a)) (jl_seen_content s)\<rparr>"
  have steps: "jsonl_write_steps sha isof fr r s = [?f1, ?f2, ?f3]"
    using False a by (auto simp: jsonl_write_steps_def split: if_splits)
  have i1: "jsonl_inv sha isof fr (?f1 s)"
    by (rule jsonl_inv_data [OF assms])
  have "has_line sha isof fr ?i (jl_disk (?f1 s))" using has_line_new [of sha isof fr a "jl_disk s"] by simp
  then have i2: "jsonl_inv sha isof fr (?f2 (?f1 s))"
    using jsonl_inv_manifest [OF i1, of "ar_url a"] by (simp add: url_id_def)
  have "\<exists>ls. jd_manifest (jl_disk (?f2 (?f1 s))) = Some ls \<and> ?i \<in> set ls" by (simp add: append_line_def)
  with i2 have i3: "jsonl_inv sha isof fr (?f3 (?f2 (?f1 s)))"
    unfolding jsonl_inv_def by simp
  consider "k = 0" | "k = 1" | "k = 2" | "3 \<le> k" by linarith
  then show ?thesis
    unfolding steps using assms i1 i2 i3 by cases (simp_all add: numeral_2_eq_2)
qed

lemma jsonl_inv_open:
  assumes "hex_digest sha" and "jsonl_inv sha isof fr s"
  shows "jsonl_inv sha isof fr (jsonl_open (jl_disk s))"
proof -
  have "strip l = l" if "jd_manifest (jl_disk s) = Some ls" "l \<in> set ls" for l ls
    using assms that hex_digest_strip [OF assms(1)] by (fastforce simp: jsonl_inv_def)
  then show ?thesis
    using assms(2) by (auto simp: jsonl_inv_def jsonl_open_def load_manifest_def split: option.splits)
qed

lemma jsonl_inv_run:
  "hex_digest sha \<Longrightarrow> jsonl_inv sha isof fr s \<Longrightarrow> jsonl_inv sha isof fr (jsonl_run sha isof fr es s)"
proof (induction es arbitrary: s)
  case (Cons e es)
  have "jsonl_inv sha isof fr (jsonl_step sha isof fr e s)"
  proof (cases e)
    case (Wrote r)
    have "length (jsonl_write_steps sha isof fr r s) \<le> 3"
      by (auto simp: jsonl_write_steps_def split: option.splits)
    then show ?thesis
      using jsonl_inv_steps [OF Cons.prems(2), of 3 r] Wrote by (simp add: jsonl_write_def)
  next
    case (Died r k)
    then show ?thesis
      using jsonl_inv_open [OF Cons.prems(1) jsonl_inv_steps [OF Cons.prems(2), of k r]] by simp
  qed
  with Cons show ?case by (simp add: jsonl_run_def)
qed (simp add: jsonl_run_def)

text \<open>
  C22.  Crash safety of the JSONL sink: start without files and let any number of writes complete or die
  after any of their effects, each time restarting from the files; then whatever URL \<open>seen\<close>
  reports, so that a batch job skips it, has its article in the data file.
\<close>

theorem jsonl_crash_safe:
  assumes "hex_digest sha"
    and "s = jsonl_run sha isof fr es (jsonl_open \<lparr>jd_data = None, jd_manifest = None\<rparr>)"
    and "jsonl_seen sha url s"
  shows "\<exists>a ls. jd_data (jl_disk s) = Some ls \<and> sha (ar_url a) = sha url \<and>
    dumps_raw fr (JObj (jsonl_record sha isof a)) \<in> set ls"
proof -
  have "jsonl_inv sha isof fr (jsonl_open \<lparr>jd_data = None, jd_manifest = None\<rparr>)"
    by (simp add: jsonl_inv_def jsonl_open_def load_manifest_def)
  from jsonl_inv_run [OF assms(1) this] have "jsonl_inv sha isof fr s" using assms(2) by simp
  with assms(3) have "has_line sha isof fr (sha url) (jl_disk s)"
    by (auto simp: jsonl_inv_def jsonl_seen_def url_id_def)
  then show ?thesis by (auto simp: has_line_def url_id_def)
qed

definition toy_sha :: "string \<Rightarrow> string" where
  "toy_sha s = replicate 64 (if s = ''u'' then CHR ''a'' else CHR ''b'')"

definition ok_result :: "article \<Rightarrow> scrape_result" where
  "ok_result a = (mk_result ''success'' ''curl_cffi'')\<lparr>sr_article := Some a\<rparr>"

theorem jsonl_crash_safe_witness:
  "let s = jsonl_run toy_sha (\<lambda>_. []) (\<lambda>_. []) [Died (ok_result (mk_article ''u'' ''t'' ''x'')) 1,
       Wrote (ok_result (mk_article ''u'' ''t'' ''x''))] (jsonl_open \<lparr>jd_data = None, jd_manifest = None\<rparr>)
   in \<exists>a ls. jd_data (jl_disk s) = Some ls \<and> toy_sha (ar_url a) = toy_sha ''u'' \<and>
     dumps_raw (\<lambda>_. []) (JObj (jsonl_record toy_sha (\<lambda>_. []) a)) \<in> set ls"
proof -
  have h: "hex_digest toy_sha" by (auto simp: hex_digest_def toy_sha_def is_digit_def)
  have seen: "jsonl_seen toy_sha ''u'' (jsonl_run toy_sha (\<lambda>_. []) (\<lambda>_. [])
      [Died (ok_result (mk_article ''u'' ''t'' ''x'')) 1, Wrote (ok_result (mk_article ''u'' ''t'' ''x''))]
      (jsonl_open \<lparr>jd_data = None, jd_manifest = None\<rparr>))"
    by (simp add: jsonl_run_def jsonl_seen_def jsonl_write_def jsonl_write_steps_def ok_result_def mk_result_def
        mk_article_def jsonl_open_def load_manifest_def)
  show ?thesis unfolding Let_def by (rule jsonl_crash_safe [OF h refl seen])
qed

section \<open>The Postgres sink\<close>

text \<open>
  The state is the ids this instance has written and the database.  Metadata values go into text
  columns: a value that is neither a string nor, for the nullable column, \<open>None\<close> is refused by the
  database driver.
\<close>

type_synonym pg_sink = "string set \<times> db"

definition bind_error :: exn where "bind_error = OtherError ''DBAPIError''"

text \<open>\<open>metadata.get("source_domain") or (urlsplit(url).hostname or "")\<close>\<close>

definition sink_domain :: "article \<Rightarrow> exn + string" where
  "sink_domain a = (case dict_get (ar_metadata a) ''source_domain'' of
      Some (JStr (c # cs)) \<Rightarrow> Inr (c # cs)
    | Some v \<Rightarrow> if truthy v then Inl bind_error else url_domain (ar_url a)
    | None \<Rightarrow> url_domain (ar_url a))"

definition sink_bucket :: "article \<Rightarrow> exn + string" where
  "sink_bucket a = (case dict_get (ar_metadata a) ''bucket'' of
      None \<Rightarrow> Inr [] | Some (JStr b) \<Rightarrow> Inr b | Some _ \<Rightarrow> Inl bind_error)"

definition sink_raw_key :: "article \<Rightarrow> exn + string option" where
  "sink_raw_key a = (case dict_get (ar_metadata a) ''raw_key'' of
      None \<Rightarrow> Inr None | Some JNull \<Rightarrow> Inr None | Some (JStr k) \<Rightarrow> Inr (Some k) | Some _ \<Rightarrow> Inl bind_error)"

definition provenance :: "scrape_result \<Rightarrow> pydict" where
  "provenance r = [(''driver_used'', JStr (sr_driver_used r)), (''proxy_used'', opt_str (sr_proxy_used r)),
     (''challenge_solved'', JBool (sr_challenge_solved r)), (''fetch_duration_ms'', JInt (sr_fetch_duration_ms r))]"

definition sink_row :: "(string \<Rightarrow> string) \<Rightarrow> datetime \<Rightarrow> scrape_result \<Rightarrow> article \<Rightarrow> exn + article_row" where
  "sink_row sha now r a = (case (sink_domain a, sink_bucket a, sink_raw_key a) of
      (Inr d, Inr b, Inr k) \<Rightarrow> Inr \<lparr>a_id = url_id sha (ar_url a), a_url = ar_url a, a_domain = d, a_bucket = b,
          a_title = ar_title a, a_content = ar_content a, a_author = ar_author a,
          a_publish_date = ar_publish_date a, a_fetched_at = now, a_raw_key = k,
          a_meta = dict_merge (ar_metadata a) (provenance r),
          a_embedding = None, a_relevance = None, a_summary = None\<rparr>
    | (Inl e, _, _) \<Rightarrow> Inl e | (_, Inl e, _) \<Rightarrow> Inl e | (_, _, Inl e) \<Rightarrow> Inl e)"

definition pg_write :: "(string \<Rightarrow> string) \<Rightarrow> datetime \<Rightarrow> scrape_result \<Rightarrow> (pg_sink, unit) py" where
  "pg_write sha now r s = (case sr_article r of
      None \<Rightarrow> (Inr (), s)
    | Some a \<Rightarrow>
        if sr_status r \<noteq> ''success'' then (Inr (), s)
        else (case sink_row sha now r a of
            Inl e \<Rightarrow> (Inl e, s)
          | Inr row \<Rightarrow> (Inr (), (insert (url_id sha (ar_url a)) (fst s), upsert_article row (snd s)))))"

definition pg_seen :: "(string \<Rightarrow> string) \<Rightarrow> string \<Rightarrow> pg_sink \<Rightarrow> bool" where
  "pg_seen sha url s = (url_id sha url \<in> fst s)"

lemma sink_row_id: "sink_row sha now r a = Inr row \<Longrightarrow> a_id row = url_id sha (ar_url a) \<and> a_url row = ar_url a
    \<and> a_content row = ar_content a \<and> a_title row = ar_title a \<and> a_fetched_at row = now \<and> a_summary row = None"
  by (auto simp: sink_row_def split: sum.splits)

lemma pg_write_success:
  assumes "sr_status r = ''success''" and "sr_article r = Some a" and "sink_row sha now r a = Inr row"
  shows "pg_write sha now r s = (Inr (), (insert (url_id sha (ar_url a)) (fst s), upsert_article row (snd s)))"
  using assms by (simp add: pg_write_def)

lemma upsert_jobs [simp]: "db_jobs (upsert_article row d) = db_jobs d" "get_job i (upsert_article row d) = get_job i d"
  by (simp_all add: upsert_article_def get_job_def)

lemma upsert_count:
  "length (db_articles (upsert_article row d)) =
     length (db_articles d) + (if get_article (a_id row) d = None then 1 else 0)"
  by (simp add: upsert_article_def upsert_by_def get_article_def)

text \<open>
  C30.  The Postgres sink writes a URL at most once: a successful result leaves exactly one row for its
  URL, with the article's content, and writing a second result for the same URL adds no row; what
  the other jobs computed for the row (summary, relevance, embedding) survives the second write,
  the scraped columns are the newest, and no other row and no job changes.
\<close>

theorem pg_write_idempotent:
  assumes "db_ok d" and "sr_status r = ''success''" and "sr_article r = Some a"
    and "sink_row sha now r a = Inr row"
  shows "\<exists>d' row'. pg_write sha now r (seen, d) = (Inr (), (insert (url_id sha (ar_url a)) seen, d')) \<and> db_ok d' \<and>
    get_article (url_id sha (ar_url a)) d' = Some row' \<and> a_content row' = ar_content a \<and> a_fetched_at row' = now \<and>
    (\<forall>old. get_article (url_id sha (ar_url a)) d = Some old \<longrightarrow>
       a_summary row' = a_summary old \<and> a_relevance row' = a_relevance old \<and> a_embedding row' = a_embedding old \<and>
       length (db_articles d') = length (db_articles d)) \<and>
    (\<forall>i. i \<noteq> url_id sha (ar_url a) \<longrightarrow> get_article i d' = get_article i d) \<and> db_jobs d' = db_jobs d"
proof -
  let ?i = "url_id sha (ar_url a)" and ?d = "upsert_article row d"
  let ?row = "case get_article ?i d of None \<Rightarrow> row | Some old \<Rightarrow> upsert_columns row old"
  note row = sink_row_id [OF assms(4)]
  have "get_article ?i ?d = Some ?row" using get_upsert [of ?i row d] row by simp
  moreover have "a_content ?row = ar_content a" "a_fetched_at ?row = now"
    using row by (auto simp: upsert_columns_def split: option.splits)
  moreover have "get_article i ?d = get_article i d" if "i \<noteq> ?i" for i using that get_upsert [of i row d] row by simp
  ultimately show ?thesis
    using upsert_db_ok [OF assms(1), of row] row
    by (intro exI [of _ ?d] exI [of _ ?row])
      (auto simp: pg_write_success [OF assms(2-4)] upsert_count upsert_columns_def)
qed

definition sample_article :: article where
  "sample_article = (mk_article ''https://ft.com/a'' ''T'' ''body'')\<lparr>ar_metadata := [(''bucket'', JStr ''public'')]\<rparr>"

definition sample_row :: article_row where
  "sample_row = \<lparr>a_id = toy_sha ''https://ft.com/a'', a_url = ''https://ft.com/a'', a_domain = ''ft.com'',
     a_bucket = ''public'', a_title = ''T'', a_content = ''body'', a_author = None, a_publish_date = None,
     a_fetched_at = 5, a_raw_key = None,
     a_meta = (''bucket'', JStr ''public'') # provenance (ok_result sample_article),
     a_embedding = None, a_relevance = None, a_summary = None\<rparr>"

lemma sample_sink_row: "sink_row toy_sha 5 (ok_result sample_article) sample_article = Inr sample_row"
proof -
  have "url_domain ''https://ft.com/a'' = Inr ''ft.com''" by code_simp
  moreover have "dict_merge (ar_metadata sample_article) (provenance (ok_result sample_article)) =
      (''bucket'', JStr ''public'') # provenance (ok_result sample_article)"
    by (simp add: sample_article_def mk_article_def dict_merge_def provenance_def)
  ultimately show ?thesis
    by (simp add: sink_row_def sink_domain_def sink_bucket_def sink_raw_key_def dict_get_def url_id_def
        sample_article_def mk_article_def sample_row_def)
qed

theorem pg_write_idempotent_witness:
  "\<exists>d' row'. pg_write toy_sha 5 (ok_result sample_article) ({}, db_empty) =
      (Inr (), ({toy_sha ''https://ft.com/a''}, d')) \<and>
    get_article (toy_sha ''https://ft.com/a'') d' = Some row' \<and> a_content row' = ''body''"
proof -
  have ok: "db_ok db_empty" by (simp add: db_ok_def db_empty_def)
  show ?thesis
    using pg_write_idempotent [OF ok _ _ sample_sink_row, of "{}"]
    by (auto simp: ok_result_def mk_result_def sample_article_def mk_article_def url_id_def)
qed

end
