(* ===== verification/Worker_Messages.thy ===== *)
theory Worker_Messages
  imports Queue Object_Store Sinks
begin

text \<open>
  The message contracts of the pipeline, \<open>worker/messages.py\<close>, and how the workers read them.

  A message is a dictionary without key order; \<open>message_dict\<close> keeps it in the canonical order in which
  the queues transport it.  The annotations of the contracts say which fields are strings and
  numbers: reading a field of another type is an error of the model (\<open>TypeError\<close>).
\<close>

definition message_dict :: "pydict \<Rightarrow> pydict" where
  "message_dict kvs = sort_key fst kvs"

lemma map_of_sort_key: "distinct (map fst kvs) \<Longrightarrow> map_of (sort_key fst kvs) k = map_of kvs k"
proof -
  assume d: "distinct (map fst kvs)"
  have "distinct (map fst (sort_key fst kvs))"
    using d by (metis distinct_map distinct_sort set_sort)
  from map_of_inject_set [OF this d] show ?thesis by simp
qed

lemma message_dict_get [simp]: "distinct (map fst kvs) \<Longrightarrow> dict_get (message_dict kvs) k = map_of kvs k"
  by (simp add: dict_get_def message_dict_def map_of_sort_key)

lemma message_dict_ok:
  assumes "distinct (map fst kvs)" and "\<And>k v. (k, v) \<in> set kvs \<Longrightarrow> json_ok v \<and> sort_json v = v"
  shows "payload_ok (message_dict kvs)"
proof -
  have "distinct (map fst (sort_key fst kvs))" using assms(1) by (metis distinct_map distinct_sort set_sort)
  moreover have "map (\<lambda>(k, v). (k, sort_json v)) (sort_key fst kvs) = sort_key fst kvs"
    using assms(2) by (intro map_idI) auto
  moreover have "sort_key fst (sort_key fst kvs) = sort_key fst kvs"
    by (rule sort_key_fst_id) simp
  ultimately show ?thesis
    using assms(2) by (auto simp: payload_ok_def message_dict_def list_all_iff)
qed

section \<open>Reading a message\<close>

definition get_str :: "pydict \<Rightarrow> string \<Rightarrow> exn + string" where
  "get_str d k = (case dict_get d k of
      None \<Rightarrow> Inl (KeyError k) | Some (JStr s) \<Rightarrow> Inr s | Some _ \<Rightarrow> Inl (TypeError k))"

definition get_int :: "pydict \<Rightarrow> string \<Rightarrow> exn + int" where
  "get_int d k = (case dict_get d k of
      None \<Rightarrow> Inl (KeyError k) | Some (JInt i) \<Rightarrow> Inr i | Some _ \<Rightarrow> Inl (TypeError k))"

text \<open>\<open>d.get(k)\<close> of a field that is an optional string.\<close>

definition get_opt_str :: "pydict \<Rightarrow> string \<Rightarrow> exn + string option" where
  "get_opt_str d k = (case dict_get d k of
      None \<Rightarrow> Inr None | Some JNull \<Rightarrow> Inr None | Some (JStr s) \<Rightarrow> Inr (Some s) | Some _ \<Rightarrow> Inl (TypeError k))"

definition sum_bind :: "exn + 'a \<Rightarrow> ('a \<Rightarrow> exn + 'b) \<Rightarrow> exn + 'b" where
  "sum_bind x f = (case x of Inl e \<Rightarrow> Inl e | Inr a \<Rightarrow> f a)"

definition py_lift :: "exn + 'a \<Rightarrow> ('s, 'a) py" where
  "py_lift x s = (x, s)"

section \<open>The contracts\<close>

definition raw_object_key :: "string \<Rightarrow> string \<Rightarrow> string" where
  "raw_object_key bucket uid = ''raw/'' @ (if bucket = [] then ''unknown'' else bucket) @ ''/'' @ uid"

record job_message =
  jm_job_id :: string
  jm_url :: string
  jm_bucket :: "string option"

record result_pointer =
  rp_job_id :: string
  rp_object_key :: string
  rp_url :: string
  rp_url_id :: string
  rp_domain :: string
  rp_bucket :: string
  rp_status :: string
  rp_fetched_at :: "string option"

record ingest_message =
  im_job_id :: string
  im_platform :: string
  im_target :: string
  im_bucket :: string
  im_limit :: int

definition job_dict :: "job_message \<Rightarrow> pydict" where
  "job_dict m = message_dict [(''job_id'', JStr (jm_job_id m)), (''url'', JStr (jm_url m)), (''bucket'', opt_str (jm_bucket m))]"

definition pointer_dict :: "result_pointer \<Rightarrow> pydict" where
  "pointer_dict p = message_dict ([(''job_id'', JStr (rp_job_id p)), (''object_key'', JStr (rp_object_key p)),
     (''url'', JStr (rp_url p)), (''url_id'', JStr (rp_url_id p)), (''domain'', JStr (rp_domain p)),
     (''bucket'', JStr (rp_bucket p)), (''status'', JStr (rp_status p))] @
     (case rp_fetched_at p of None \<Rightarrow> [] | Some t \<Rightarrow> [(''fetched_at'', JStr t)]))"

definition ingest_dict :: "ingest_message \<Rightarrow> pydict" where
  "ingest_dict m = message_dict [(''job_id'', JStr (im_job_id m)), (''platform'', JStr (im_platform m)),
     (''target'', JStr (im_target m)), (''bucket'', JStr (im_bucket m)), (''limit'', JInt (im_limit m))]"

text \<open>The reads each consumer makes at its start.\<close>

definition read_job :: "pydict \<Rightarrow> exn + job_message" where
  "read_job d = sum_bind (get_str d ''job_id'') (\<lambda>j. sum_bind (get_str d ''url'') (\<lambda>u.
     sum_bind (get_opt_str d ''bucket'') (\<lambda>b. Inr \<lparr>jm_job_id = j, jm_url = u, jm_bucket = b\<rparr>)))"

definition read_pointer :: "pydict \<Rightarrow> exn + result_pointer" where
  "read_pointer d = sum_bind (get_str d ''job_id'') (\<lambda>j. sum_bind (get_str d ''url'') (\<lambda>u.
     sum_bind (get_str d ''domain'') (\<lambda>dm. sum_bind (get_str d ''bucket'') (\<lambda>b.
     sum_bind (get_str d ''object_key'') (\<lambda>k. sum_bind (get_str d ''status'') (\<lambda>st.
     sum_bind (get_opt_str d ''fetched_at'') (\<lambda>f.
       Inr \<lparr>rp_job_id = j, rp_object_key = k, rp_url = u, rp_url_id = [], rp_domain = dm, rp_bucket = b,
            rp_status = st, rp_fetched_at = f\<rparr>)))))))"

definition read_ingest :: "pydict \<Rightarrow> exn + ingest_message" where
  "read_ingest d = sum_bind (get_str d ''job_id'') (\<lambda>j. sum_bind (get_str d ''target'') (\<lambda>t.
     sum_bind (get_str d ''bucket'') (\<lambda>b. sum_bind (get_int d ''limit'') (\<lambda>l. sum_bind (get_str d ''platform'') (\<lambda>p.
       Inr \<lparr>im_job_id = j, im_platform = p, im_target = t, im_bucket = b, im_limit = l\<rparr>)))))"

lemmas message_defs = job_dict_def pointer_dict_def ingest_dict_def
lemmas read_defs = read_job_def read_pointer_def read_ingest_def get_str_def get_int_def get_opt_str_def sum_bind_def

lemma opt_str_json [simp]: "json_ok (opt_str s)" "sort_json (opt_str s) = opt_str s"
  by (cases s; simp add: opt_str_def)+

lemma job_dict_ok: "payload_ok (job_dict m)"
  unfolding job_dict_def by (rule message_dict_ok) auto

lemma pointer_dict_ok: "payload_ok (pointer_dict p)"
  unfolding pointer_dict_def by (rule message_dict_ok) (auto split: option.splits)

lemma ingest_dict_ok: "payload_ok (ingest_dict m)"
  unfolding ingest_dict_def by (rule message_dict_ok) auto

text \<open>Producer and consumer agree: what is read is what was sent.\<close>

lemma read_job_dict: "read_job (job_dict m) = Inr m"
  by (cases m; cases "jm_bucket m") (simp_all add: read_defs job_dict_def opt_str_def)

lemma read_pointer_dict: "read_pointer (pointer_dict p) = Inr (p\<lparr>rp_url_id := []\<rparr>)"
  by (cases p; cases "rp_fetched_at p") (simp_all add: read_defs pointer_dict_def)

lemma read_ingest_dict: "read_ingest (ingest_dict m) = Inr m"
  by (simp add: read_defs ingest_dict_def)

end
