(* ===== verification/Scraper_Worker.thy ===== *)
theory Scraper_Worker
  imports Worker_Messages
begin

text \<open>
  The scraper stage, \<open>worker/scraper_worker.py\<close>: fetch a URL, archive the raw payload, publish a pointer.

  The state of the worker is the queue, the object store and the rest of the world, in this order.
  The engine, the object store and the queue are arguments (\<open>scrape\<close>, \<open>sops\<close>, \<open>qops\<close>), as in the source,
  which takes any object with these methods.  The locale \<open>scraper_stage\<close> joins the two ports; the
  theorems hold for every implementation of them and are used on the in-memory ones.
\<close>

section \<open>The handler\<close>

record 'e scrape_env =
  se_scrape :: "string \<Rightarrow> ('e, scrape_result) py"
  se_now_iso :: "'e \<Rightarrow> string \<times> 'e"

text \<open>Steps 2 and 3 of the handler: the bytes to archive and the bucket.\<close>

definition raw_payload :: "(real \<Rightarrow> string) \<Rightarrow> string \<Rightarrow> scrape_result \<Rightarrow> pybytes \<times> string" where
  "raw_payload fr url r = (case sr_article r of
      Some a \<Rightarrow> (case ar_raw_html a of
          Some (c # cs) \<Rightarrow> (Utf8 (c # cs), ''text/html; charset=utf-8'')
        | _ \<Rightarrow> (Utf8 (dumps_ascii fr (JObj [(''status'', JStr (sr_status r)), (''error'', opt_str (sr_error r)),
                   (''url'', JStr url)])), ''application/json''))
    | None \<Rightarrow> (Utf8 (dumps_ascii fr (JObj [(''status'', JStr (sr_status r)), (''error'', opt_str (sr_error r)),
                   (''url'', JStr url)])), ''application/json''))"

definition resolve_bucket :: "string option \<Rightarrow> scrape_result \<Rightarrow> exn + string" where
  "resolve_bucket hint r = sum_bind
     (case sr_article r of None \<Rightarrow> Inr None | Some a \<Rightarrow> get_opt_str (ar_metadata a) ''bucket'')
     (\<lambda>b. Inr (str_or hint (str_or b ''public'')))"

definition handle_scrape_job ::
  "(string \<Rightarrow> string) \<Rightarrow> (real \<Rightarrow> string) \<Rightarrow> 'e scrape_env \<Rightarrow> 's store_ops \<Rightarrow> 'q mq_ops \<Rightarrow> string \<Rightarrow> pydict \<Rightarrow>
     ('q \<times> 's \<times> 'e, result_pointer) py" where
  "handle_scrape_job sha fr env sops qops results_queue payload =
     py_bind (py_lift (read_job payload)) (\<lambda>jm.
     py_bind (on_snd (on_snd (se_scrape env (jm_url jm)))) (\<lambda>result.
     (let (raw, content_type) = raw_payload fr (jm_url jm) result; uid = url_id sha (jm_url jm) in
     py_bind (py_lift (resolve_bucket (jm_bucket jm) result)) (\<lambda>bkt.
     (let object_key = raw_object_key bkt uid in
     py_bind (on_snd (on_fst (st_put sops object_key raw content_type))) (\<lambda>_.
     py_bind (py_lift (url_domain (jm_url jm))) (\<lambda>domain.
     py_bind (on_snd (on_snd (\<lambda>e. case se_now_iso env e of (t, e') \<Rightarrow> (Inr t, e')))) (\<lambda>now.
     (let pointer = \<lparr>rp_job_id = jm_job_id jm, rp_object_key = object_key, rp_url = jm_url jm, rp_url_id = uid,
            rp_domain = domain, rp_bucket = bkt, rp_status = sr_status result, rp_fetched_at = Some now\<rparr> in
     py_bind (on_fst (op_publish qops results_queue (pointer_dict pointer))) (\<lambda>_. py_ret pointer))))))))))"

text \<open>\<open>run_scraper_worker\<close>: the drain loop.  The bound is the number of rounds it may make.\<close>

definition run_scraper_worker ::
  "(string \<Rightarrow> string) \<Rightarrow> (real \<Rightarrow> string) \<Rightarrow> 'e scrape_env \<Rightarrow> 's store_ops \<Rightarrow> 'q mq_ops \<Rightarrow> string \<Rightarrow> string \<Rightarrow> int \<Rightarrow>
     nat \<Rightarrow> 'q \<times> 's \<times> 'e \<Rightarrow> ((exn + unit) \<times> ('q \<times> 's \<times> 'e)) option" where
  "run_scraper_worker sha fr env sops qops job_queue results_queue max_retries fuel s =
     drain fuel (consume_once (lift_ops qops) job_queue (handle_scrape_job sha fr env sops qops results_queue) max_retries) s"

text \<open>
  What a call does: it raises, and leaves the queue alone; or it puts the payload and then publishes a
  pointer to it, with the id of the job and the domain of the URL, and returns what it published.
\<close>

lemma handle_scrape_job_run:
  assumes "handle_scrape_job sha fr env sops qops rq p (a, st, e) = (r, (a', st', e'))"
  shows "(\<exists>ex. r = Inl ex) \<and> a' = a \<and> (st' = st \<or> (\<exists>k d ct x. st_put sops k d ct st = (x, st'))) \<or>
    (\<exists>jm ptr d ct x. read_job p = Inr jm \<and> rp_job_id ptr = jm_job_id jm \<and> url_domain (rp_url ptr) = Inr (rp_domain ptr) \<and>
       st_put sops (rp_object_key ptr) d ct st = (Inr (), st') \<and> op_publish qops rq (pointer_dict ptr) a = (x, a') \<and>
       r = (case x of Inl ex \<Rightarrow> Inl ex | Inr i \<Rightarrow> Inr ptr))"
proof (cases "read_job p")
  case (Inl ex)
  with assms show ?thesis by (auto simp: handle_scrape_job_def py_monad_defs py_lift_def)
next
  case (Inr jm)
  obtain x1 e1 where sc: "se_scrape env (jm_url jm) e = (x1, e1)" by (cases "se_scrape env (jm_url jm) e")
  show ?thesis
  proof (cases x1)
    case (Inl ex)
    with assms Inr sc show ?thesis by (auto simp: handle_scrape_job_def py_monad_defs py_lift_def on_snd_def)
  next
    case res: (Inr result)
    obtain raw ct where raw: "raw_payload fr (jm_url jm) result = (raw, ct)" by (cases "raw_payload fr (jm_url jm) result")
    show ?thesis
    proof (cases "resolve_bucket (jm_bucket jm) result")
      case (Inl ex)
      with assms Inr sc res raw show ?thesis
        by (auto simp: handle_scrape_job_def py_monad_defs py_lift_def on_snd_def Let_def)
    next
      case bkt: (Inr bkt)
      let ?k = "raw_object_key bkt (url_id sha (jm_url jm))"
      obtain x2 st1 where put: "st_put sops ?k raw ct st = (x2, st1)" by (cases "st_put sops ?k raw ct st")
      obtain now e2 where now: "se_now_iso env e1 = (now, e2)" by (cases "se_now_iso env e1")
      note simps = handle_scrape_job_def py_monad_defs py_lift_def on_snd_def on_fst_def Let_def
      show ?thesis
      proof (cases "x2")
        case (Inl ex)
        with assms Inr sc res raw bkt put show ?thesis by (auto simp: simps)
      next
        case put_ok: (Inr u)
        show ?thesis
        proof (cases "url_domain (jm_url jm)")
          case (Inl ex)
          with assms Inr sc res raw bkt put put_ok show ?thesis by (auto simp: simps)
        next
          case dom: (Inr dm)
          let ?ptr = "\<lparr>rp_job_id = jm_job_id jm, rp_object_key = ?k, rp_url = jm_url jm,
            rp_url_id = url_id sha (jm_url jm), rp_domain = dm, rp_bucket = bkt, rp_status = sr_status result,
            rp_fetched_at = Some now\<rparr>"
          obtain x3 a3 where pub: "op_publish qops rq (pointer_dict ?ptr) a = (x3, a3)"
            by (cases "op_publish qops rq (pointer_dict ?ptr) a")
          have "st' = st1 \<and> a' = a3 \<and> r = (case x3 of Inl ex \<Rightarrow> Inl ex | Inr i \<Rightarrow> Inr ?ptr)"
            using assms Inr sc res raw bkt put put_ok dom now pub by (auto simp: simps split: sum.splits)
          then show ?thesis using put put_ok pub Inr dom by (intro disjI2 exI [of _ jm] exI [of _ ?ptr]) auto
        qed
      qed
    qed
  qed
qed

lemma handle_scrape_job_cases:
  assumes "handle_scrape_job sha fr env sops qops rq p (a, st, e) = (r, (a', st', e'))"
  shows "(a' = a \<and> (st' = st \<or> (\<exists>k d ct x. st_put sops k d ct st = (x, st')))) \<or>
    (\<exists>ptr d ct x. st_put sops (rp_object_key ptr) d ct st = (Inr (), st') \<and>
       op_publish qops rq (pointer_dict ptr) a = (x, a'))"
  using handle_scrape_job_run [OF assms] by (elim disjE) blast+

section \<open>The stage over any queue and store\<close>

text \<open>A pointer message whose object is in the store.\<close>

definition claim_ok :: "(string \<Rightarrow> pybytes option) \<Rightarrow> pydict \<Rightarrow> bool" where
  "claim_ok objs p = (\<exists>ptr. read_pointer p = Inr ptr \<and> objs (rp_object_key ptr) \<noteq> None)"

locale scraper_stage =
  queue: message_queue qops valid qinv qabs rest + store: object_store sops sinv view
  for qops :: "'q mq_ops" and valid :: "string \<Rightarrow> bool" and qinv :: "'q \<Rightarrow> bool" and qabs :: "'q \<Rightarrow> aqueue"
    and rest :: "'q \<Rightarrow> 'r" and sops :: "'s store_ops" and sinv :: "'s \<Rightarrow> bool" and view :: "'s \<Rightarrow> string \<Rightarrow> pybytes option"
begin

text \<open>
  One call of the handler: it leaves every queue but the results queue alone, and there it appends
  nothing, or a pointer whose object it has put before.
\<close>

lemma handler_effect:
  assumes "qinv a" and "valid rq" and "handle_scrape_job sha fr env sops qops rq p (a, st, e) = (r, (a', st', e'))"
  shows "qinv a' \<and> aq_fly (qabs a') = aq_fly (qabs a) \<and> aq_dead (qabs a') = aq_dead (qabs a) \<and>
    (\<forall>q. q \<noteq> rq \<longrightarrow> aq_wait (qabs a') q = aq_wait (qabs a) q) \<and>
    (sinv st \<longrightarrow> sinv st' \<and> (\<forall>k. view st k \<noteq> None \<longrightarrow> view st' k \<noteq> None)) \<and>
    (aq_wait (qabs a') rq = aq_wait (qabs a) rq \<or>
      (\<exists>i ptr. aq_wait (qabs a') rq = aq_wait (qabs a) rq @
          [\<lparr>m_id = i, m_queue = rq, m_payload = pointer_dict ptr, m_attempts = 0\<rparr>] \<and>
        (sinv st \<longrightarrow> view st' (rp_object_key ptr) \<noteq> None)))"
  using handle_scrape_job_cases [OF assms(3)]
proof (elim disjE conjE exE)
  assume "a' = a" "st' = st"
  with assms(1) show ?thesis by simp
next
  fix k d ct x assume a: "a' = a" and put: "st_put sops k d ct st = (x, st')"
  have "sinv st \<longrightarrow> sinv st' \<and> (\<forall>k. view st k \<noteq> None \<longrightarrow> view st' k \<noteq> None)"
    using store.put_law [of st k d ct] put by auto
  with a assms(1) show ?thesis by simp
next
  fix ptr d ct x assume put: "st_put sops (rp_object_key ptr) d ct st = (Inr (), st')"
    and pub: "op_publish qops rq (pointer_dict ptr) a = (x, a')"
  have s: "sinv st \<longrightarrow> sinv st' \<and> view st' (rp_object_key ptr) \<noteq> None \<and> (\<forall>k. view st k \<noteq> None \<longrightarrow> view st' k \<noteq> None)"
    using store.put_law [of st "rp_object_key ptr" d ct] put by auto
  obtain i where i: "qinv a'" "qabs a' = a_publish i rq (pointer_dict ptr) (qabs a)"
    using queue.publish_refines [OF assms(1,2) pointer_dict_ok [of ptr]] pub by auto
  then show ?thesis using s by (auto simp: a_publish_def)
qed

text \<open>All pointers waiting on the results queue have their object.\<close>

definition claims_ok :: "string \<Rightarrow> aqueue \<Rightarrow> 's \<Rightarrow> bool" where
  "claims_ok rq a st = (sinv st \<and> (\<forall>m \<in> set (aq_wait a rq). claim_ok (view st) (m_payload m)))"

lemma handler_claims:
  assumes "qinv a" and "valid rq" and "handle_scrape_job sha fr env sops qops rq p (a, st, e) = (r, (a', st', e'))"
    and "claims_ok rq (qabs a) st"
  shows "claims_ok rq (qabs a') st'"
proof -
  have st: "sinv st" and old: "\<forall>m \<in> set (aq_wait (qabs a) rq). claim_ok (view st) (m_payload m)"
    using assms(4) by (auto simp: claims_ok_def)
  note eff = handler_effect [OF assms(1-3)]
  have old': "claim_ok (view st') (m_payload m)" if "m \<in> set (aq_wait (qabs a) rq)" for m
    using old that eff st unfolding claim_ok_def by blast
  have new: "claim_ok (view st') (pointer_dict ptr)" if "view st' (rp_object_key ptr) \<noteq> None" for ptr
    using that by (auto simp: claim_ok_def read_pointer_dict)
  show ?thesis unfolding claims_ok_def using eff st old' new by auto
qed

lemma handler_well_behaved:
  assumes "valid rq" and "jq \<noteq> rq"
  shows "message_queue.well_behaved (\<lambda>s. qinv (fst s)) (\<lambda>s. qabs (fst s)) jq
    (handle_scrape_job sha fr (env :: 'f scrape_env) sops qops rq)"
  unfolding message_queue.well_behaved_def [OF message_queue_lift [OF queue.message_queue_axioms, where ?'w = "'s \<times> 'f"]]
proof (intro allI impI)
  fix p s r s' assume i: "qinv (fst s)" and h: "handle_scrape_job sha fr env sops qops rq p s = (r, s')"
  obtain a st e a' st' e' where s: "s = (a, st, e)" "s' = (a', st', e')" by (cases s, cases s')
  show "qinv (fst s') \<and> aq_wait (qabs (fst s')) jq = aq_wait (qabs (fst s)) jq \<and>
      aq_fly (qabs (fst s')) = aq_fly (qabs (fst s)) \<and> aq_dead (qabs (fst s')) = aq_dead (qabs (fst s))"
    using handler_effect [OF _ assms(1) h [unfolded s]] i assms(2) s by simp
qed

lemma worker_claims:
  assumes "qinv a" and "valid jq" and "valid rq" and "jq \<noteq> rq" and "claims_ok rq (qabs a) st"
    and "work mx (aq_wait (qabs a) jq) < fuel"
  shows "\<exists>a' st' (e' :: 'f). run_scraper_worker sha fr env sops qops jq rq mx fuel (a, st, e) = Some (Inr (), (a', st', e')) \<and>
    qinv a' \<and> aq_wait (qabs a') jq = [] \<and> claims_ok rq (qabs a') st'"
proof -
  let ?h = "handle_scrape_job sha fr env sops qops rq"
  note lifted = message_queue_lift [OF queue.message_queue_axioms, where ?'w = "'s \<times> 'f"]
  note wb = handler_well_behaved [OF assms(3,4), of sha fr env]
  have "\<exists>s'. drain fuel (consume_once (lift_ops qops) jq ?h mx) (a, st, e) = Some (Inr (), s') \<and> qinv (fst s') \<and>
      aq_wait (qabs (fst s')) jq = [] \<and> aq_fly (qabs (fst s')) \<subseteq> aq_fly (qabs (fst (a, st, e)))"
    by (rule message_queue.drain_terminates [OF lifted _ assms(2) wb]) (use assms(1,6) in simp_all)
  then obtain s' where s': "drain fuel (consume_once (lift_ops qops) jq ?h mx) (a, st, e) = Some (Inr (), s')"
    "qinv (fst s')" "aq_wait (qabs (fst s')) jq = []" by blast
  have "claims_ok rq (qabs (fst s')) (fst (snd s'))"
  proof (rule message_queue.drain_invariant [OF lifted s'(1) _ assms(2) wb, where P = "\<lambda>b w. claims_ok rq b (fst w)"])
    show "qinv (fst (a, st, e))" "claims_ok rq (qabs (fst (a, st, e))) (fst (snd (a, st, e)))"
      using assms(1,5) by simp_all
    show "claims_ok rq (snd (a_reserve jq b)) (fst w)" if "claims_ok rq b (fst w)" for b and w :: "'s \<times> 'f"
      using that assms(4) by (auto simp: claims_ok_def a_reserve_def split: list.splits)
    show "claims_ok rq (settle mx m r b) (fst w)" if "claims_ok rq b (fst w)" "m_queue m = jq"
      for b m and w :: "'s \<times> 'f" and r :: "exn + result_pointer"
      using that assms(4) by (auto simp: claims_ok_def settle_def aqueue_defs split: sum.splits)
    show "claims_ok rq (qabs (fst s')) (fst (snd s'))"
      if "qinv (fst s)" "claims_ok rq (qabs (fst s)) (fst (snd s))" "?h p s = (r, s')" for p s r s'
      using handler_claims [where a = "fst s" and rq = rq and p = p and st = "fst (snd s)" and e = "snd (snd s)" and
          r = r and a' = "fst s'" and st' = "fst (snd s')" and e' = "snd (snd s')"]
        that assms(3) by simp
  qed
  with s' show ?thesis unfolding run_scraper_worker_def by (cases s') auto
qed

end

interpretation mem_stage: scraper_stage memq_ops "\<lambda>_. True" memq_inv memq_abs "\<lambda>_. ()" memstore_ops "\<lambda>_. True" memstore_view
  by unfold_locales

text \<open>
  C12.  The claim check: whatever the engine answers or raises for each job, the drain loop of the scraper
  worker returns with an empty job queue, and every pointer that then waits on the results queue
  names an object that is in the store.  It holds for every queue and every store that keep their
  ports' contracts.
\<close>

theorem scraper_claim_check:
  assumes "message_queue qops valid qinv qabs rest" and "object_store sops sinv view"
    and "qinv a" and "sinv st" and "valid jq" and "valid rq" and "jq \<noteq> rq"
    and "\<forall>m \<in> set (aq_wait (qabs a) rq). claim_ok (view st) (m_payload m)"
    and "work mx (aq_wait (qabs a) jq) < fuel"
  shows "\<exists>a' st' e'. run_scraper_worker sha fr env sops qops jq rq mx fuel (a, st, e) = Some (Inr (), (a', st', e')) \<and>
    aq_wait (qabs a') jq = [] \<and> (\<forall>m \<in> set (aq_wait (qabs a') rq). claim_ok (view st') (m_payload m))"
proof -
  have stage: "scraper_stage qops valid qinv qabs rest sops sinv view"
    by (rule scraper_stage.intro [OF assms(1,2)])
  have "scraper_stage.claims_ok sinv view rq (qabs a) st"
    using assms(4,8) by (simp add: scraper_stage.claims_ok_def [OF stage])
  from scraper_stage.worker_claims [OF stage assms(3,5-7) this assms(9), of sha fr env e] show ?thesis
    by (auto simp: scraper_stage.claims_ok_def [OF stage])
qed

definition page_env :: "nat scrape_env" where
  "page_env = \<lparr>se_scrape = \<lambda>u n. (Inr (ok_result ((mk_article u ''t'' ''c'')\<lparr>ar_raw_html := Some ''<p>c</p>''\<rparr>)), Suc n),
     se_now_iso = \<lambda>n. (''now'', n)\<rparr>"

definition scrape_queue :: memq where
  "scrape_queue = snd (mq_publish ''jobs'' (job_dict \<lparr>jm_job_id = ''j'', jm_url = ''https://ft.com/a'', jm_bucket = None\<rparr>)
     (memq_init (\<lambda>n. replicate n (CHR ''u''))))"

lemma scrape_queue_inv: "memq_inv scrape_queue"
proof -
  have "inj (\<lambda>n. replicate n (CHR ''u''))" by (rule injI) (metis length_replicate)
  then have "memq_inv (memq_init (\<lambda>n. replicate n (CHR ''u'')))"
    unfolding memq_inv_def
    by (auto simp: memq_abs_def memq_init_def aq_ok_def all_ids_def wait_ids_def fly_ids_def dead_ids_def)
  from memq.publish_refines [OF this TrueI job_dict_ok] show ?thesis
    unfolding scrape_queue_def memq_ops_def by (metis mq_ops.select_convs(1) snd_conv)
qed

theorem scraper_claim_check_witness:
  "\<exists>a' st' e'. run_scraper_worker toy_sha (\<lambda>_. []) page_env memstore_ops memq_ops ''jobs'' ''results'' 3 9
      (scrape_queue, memstore_init, 0) = Some (Inr (), (a', st', e')) \<and>
    aq_wait (memq_abs a') ''jobs'' = [] \<and> (\<forall>m \<in> set (aq_wait (memq_abs a') ''results''). claim_ok (memstore_view st') (m_payload m))"
proof (rule scraper_claim_check [OF memq.message_queue_axioms memstore.object_store_axioms scrape_queue_inv])
  show "work 3 (aq_wait (memq_abs scrape_queue) ''jobs'') < 9"
    by (simp add: scrape_queue_def mq_publish_def memq_init_def memq_abs_def work_def Let_def)
  show "\<forall>m \<in> set (aq_wait (memq_abs scrape_queue) ''results''). claim_ok (memstore_view memstore_init) (m_payload m)"
    by (simp add: scrape_queue_def mq_publish_def memq_init_def memq_abs_def Let_def)
qed simp_all

end
