(* ===== verification/Parsers.thy ===== *)
theory Parsers
  imports Registry
begin

text \<open>
  Extraction and validation: \<open>utils/parsers.py\<close>, \<open>utils/validators.py\<close> and the selector resolution of the
  transform worker.

  The DOM library is the argument \<open>css_first\<close>: for a document and one selector it gives None when no
  node matches, \<open>Some t\<close> with the node's text \<open>t\<close> otherwise.
\<close>

type_synonym dom = "string \<Rightarrow> string \<Rightarrow> string option option"
type_synonym selectors = "(string \<times> string option) list"

definition css_candidates :: "string \<Rightarrow> string list" where
  "css_candidates css = filter (\<lambda>s. s \<noteq> []) (map strip (split_on (CHR '','') css))"

fun first_of :: "dom \<Rightarrow> string \<Rightarrow> string list \<Rightarrow> string option" where
  "first_of css_first html [] = None"
| "first_of css_first html (sel # sels) = (case css_first html sel of
      None \<Rightarrow> first_of css_first html sels
    | Some None \<Rightarrow> None
    | Some (Some t) \<Rightarrow> if t = [] then None else Some (strip t))"

definition first_match :: "dom \<Rightarrow> string \<Rightarrow> string option \<Rightarrow> string option" where
  "first_match css_first html css = (case css of None \<Rightarrow> None | Some c \<Rightarrow> first_of css_first html (css_candidates c))"

definition extract_fields :: "dom \<Rightarrow> string \<Rightarrow> selectors \<Rightarrow> (string \<times> string option) list" where
  "extract_fields css_first html sels = map (\<lambda>(field, css). (field, first_match css_first html css)) sels"

definition main_text :: "dom \<Rightarrow> string \<Rightarrow> string option \<Rightarrow> string" where
  "main_text css_first html css = (case first_match css_first html css of None \<Rightarrow> [] | Some t \<Rightarrow> t)"

definition block_signatures :: "string list" where
  "block_signatures = [''just a moment'', ''request unsuccessful. incapsula incident'',
     ''attention required! | cloudflare'', ''cf-browser-verification'', ''_cf_chl_opt'', ''imperva'',
     ''incapsula'', ''checking your browser'']"

text \<open>\<open>d.get(k)\<close> on a dict of optional strings.\<close>

definition field_get :: "(string \<times> string option) list \<Rightarrow> string \<Rightarrow> string option" where
  "field_get d k = (case map_of d k of None \<Rightarrow> None | Some v \<Rightarrow> v)"

definition response_is_valid :: "dom \<Rightarrow> string \<Rightarrow> selectors \<Rightarrow> nat \<Rightarrow> bool" where
  "response_is_valid css_first html sels min_len =
     (if list_ex (\<lambda>sig. contains sig (lower html)) block_signatures then False
      else case field_get sels ''content'' of
        None \<Rightarrow> False
      | Some css \<Rightarrow> (let t = main_text css_first html (Some css) in
          if t = [] then False else length t \<ge> min_len))"

text \<open>\<open>_selectors_for\<close>: the selectors of the registered class, or of the public scraper.\<close>

definition selectors_for :: "'c registry \<Rightarrow> ('c \<Rightarrow> selectors) \<Rightarrow> 'c \<Rightarrow> string \<Rightarrow> selectors" where
  "selectors_for reg get_selectors public domain =
     get_selectors (case get_scraper_for reg domain of Some c \<Rightarrow> c | None \<Rightarrow> public)"

lemma valid_response:
  assumes "response_is_valid css_first html sels n"
  shows "\<exists>css t. field_get sels ''content'' = Some css \<and> first_match css_first html (Some css) = Some t \<and>
    n \<le> length t \<and> t \<noteq> [] \<and> (\<forall>sig \<in> set block_signatures. \<not> contains sig (lower html))"
  using assms
  by (auto simp: response_is_valid_def main_text_def list_ex_iff Let_def split: if_splits option.splits)

lemma extract_get: "field_get (extract_fields css_first html sels) k =
    (case map_of sels k of None \<Rightarrow> None | Some css \<Rightarrow> first_match css_first html css)"
  by (induction sels) (auto simp: field_get_def extract_fields_def)

text \<open>The text of a valid page is what \<open>extract\<close> returns as its content.\<close>

lemma valid_extract:
  assumes "response_is_valid css_first html sels n"
  shows "\<exists>t. field_get (extract_fields css_first html sels) ''content'' = Some t \<and> n \<le> length t \<and> t \<noteq> []"
proof -
  obtain css t where c: "field_get sels ''content'' = Some css" "first_match css_first html (Some css) = Some t"
    "n \<le> length t" "t \<noteq> []" using valid_response [OF assms] by blast
  then have "map_of sels ''content'' = Some (Some css)" by (simp add: field_get_def split: option.splits)
  with c show ?thesis by (simp add: extract_get)
qed

end
