(* ===== verification/Transform_Worker.thy ===== *)
theory Transform_Worker
  imports Worker_Messages Parsers
begin

text \<open>
  The transform stage, \<open>worker/transform_worker.py\<close>: read an archived page, validate and extract it,
  UPSERT the article row, and drive the status of the job.

  The state of a worker is the object store, the database and the clock, whose next readings are a
  sequence.  \<open>env\<close> holds what the stage is given: the digest, the DOM library, the selectors of a
  domain (\<open>selectors_for\<close> on the registry) and the store operations.
\<close>

section \<open>State\<close>

record 's tworld =
  tw_store :: 's
  tw_db :: db
  tw_clock :: "nat \<Rightarrow> datetime"

definition read_clock :: "('s tworld, datetime) py" where
  "read_clock w = (Inr (tw_clock w 0), w\<lparr>tw_clock := (\<lambda>n. tw_clock w (Suc n))\<rparr>)"

definition on_db :: "(db, 'a) py \<Rightarrow> ('s tworld, 'a) py" where
  "on_db f w = (case f (tw_db w) of (r, d) \<Rightarrow> (r, w\<lparr>tw_db := d\<rparr>))"

definition on_store :: "('s, 'a) py \<Rightarrow> ('s tworld, 'a) py" where
  "on_store f w = (case f (tw_store w) of (r, st) \<Rightarrow> (r, w\<lparr>tw_store := st\<rparr>))"

text \<open>\<open>update_job_status\<close> in a session of its own; it reads the clock when the job exists.\<close>

definition set_status :: "string \<Rightarrow> job_update \<Rightarrow> ('s tworld, unit) py" where
  "set_status job_id u w = (case get_job job_id (tw_db w) of
      None \<Rightarrow> on_db (update_job_status job_id u 0) w
    | Some _ \<Rightarrow> py_bind read_clock (\<lambda>now. on_db (update_job_status job_id u now)) w)"

definition upd_running :: job_update where
  "upd_running = \<lparr>ju_status = Running, ju_result_count = None, ju_error = None, ju_started = True, ju_finished = False\<rparr>"

definition upd_error :: "int \<Rightarrow> string \<Rightarrow> job_update" where
  "upd_error n msg = \<lparr>ju_status = JobError, ju_result_count = Some n, ju_error = Some msg, ju_started = False, ju_finished = True\<rparr>"

definition upd_done :: "int \<Rightarrow> job_update" where
  "upd_done n = \<lparr>ju_status = Done, ju_result_count = Some n, ju_error = None, ju_started = False, ju_finished = True\<rparr>"

section \<open>The handler\<close>

record 's transform_env =
  te_sha :: "string \<Rightarrow> string"
  te_iso :: "datetime \<Rightarrow> string"
  te_dom :: dom
  te_selectors :: "string \<Rightarrow> selectors"
  te_store :: "'s store_ops"

text \<open>Step 6: the article of the extracted fields.\<close>

definition transform_article :: "result_pointer \<Rightarrow> string \<Rightarrow> (string \<times> string option) list \<Rightarrow> article" where
  "transform_article p now_iso fs =
     (mk_article (rp_url p) (str_or (field_get fs ''title'') []) (str_or (field_get fs ''content'') []))
       \<lparr>ar_author := field_get fs ''author'',
        ar_metadata := [(''source_domain'', JStr (rp_domain p)), (''bucket'', JStr (rp_bucket p)),
          (''raw_key'', JStr (rp_object_key p)),
          (''fetched_at'', JStr (case rp_fetched_at p of Some t \<Rightarrow> t | None \<Rightarrow> now_iso))]\<rparr>"

definition transform_result :: "article \<Rightarrow> scrape_result" where
  "transform_result a = (mk_result ''success'' ''transform'')\<lparr>sr_article := Some a\<rparr>"

text \<open>\<open>sink.write(result)\<close> on a fresh sink.\<close>

definition sink_write :: "(string \<Rightarrow> string) \<Rightarrow> scrape_result \<Rightarrow> ('s tworld, unit) py" where
  "sink_write sha r = py_bind read_clock (\<lambda>now. on_db (\<lambda>d. case pg_write sha now r ({}, d) of (x, (_, d')) \<Rightarrow> (x, d')))"

definition handle_result_pointer :: "'s transform_env \<Rightarrow> pydict \<Rightarrow> ('s tworld, unit) py" where
  "handle_result_pointer env payload =
     py_bind (py_lift (read_pointer payload)) (\<lambda>p.
     py_bind (set_status (rp_job_id p) upd_running) (\<lambda>_.
     if rp_status p \<noteq> ''success''
     then set_status (rp_job_id p) (upd_error 0 (''scraper returned status '' @ [CHR 0x27] @ rp_status p @ [CHR 0x27]))
     else
     (\<lambda>w. case on_store (st_get (te_store env) (rp_object_key p)) w of
        (Inl (ObjectNotFound _), w') \<Rightarrow> set_status (rp_job_id p) (upd_error 0 ''raw payload missing'') w'
      | (Inl e, w') \<Rightarrow> (Inl e, w')
      | (Inr raw, w') \<Rightarrow>
          (let html = decode_utf8 raw; sels = te_selectors env (rp_domain p) in
           if \<not> response_is_valid (te_dom env) html sels 500
           then set_status (rp_job_id p) (upd_error 0 ''soft block or challenge page detected'') w'
           else py_bind read_clock (\<lambda>now.
                py_bind (sink_write (te_sha env) (transform_result
                    (transform_article p (te_iso env now) (extract_fields (te_dom env) html sels))))
                  (\<lambda>_. set_status (rp_job_id p) (upd_done 1))) w'))))"

definition run_transform_worker ::
  "'s transform_env \<Rightarrow> 'q mq_ops \<Rightarrow> string \<Rightarrow> int \<Rightarrow> nat \<Rightarrow> 'q \<times> 's tworld \<Rightarrow> ((exn + unit) \<times> ('q \<times> 's tworld)) option" where
  "run_transform_worker env qops results_queue max_retries fuel s =
     drain fuel (consume_once (lift_ops qops) results_queue (\<lambda>p. on_snd (handle_result_pointer env p)) max_retries) s"

section \<open>Lemmas\<close>

lemma set_status_Some:
  assumes "get_job i (tw_db w) = Some j"
  shows "\<exists>w'. set_status i u w = (Inr (), w') \<and> tw_store w' = tw_store w \<and>
    get_job i (tw_db w') = Some (apply_update u (tw_clock w 0) j) \<and>
    (\<forall>k. k \<noteq> i \<longrightarrow> get_job k (tw_db w') = get_job k (tw_db w)) \<and>
    db_articles (tw_db w') = db_articles (tw_db w) \<and> (db_ok (tw_db w) \<longrightarrow> db_ok (tw_db w'))"
proof -
  obtain d' where u: "update_job_status i u (tw_clock w 0) (tw_db w) = (Inr (), d')"
    using assms by (simp add: update_job_status_def)
  have g: "get_job k d' = map_option (\<lambda>j. if k = i then apply_update u (tw_clock w 0) j else j) (get_job k (tw_db w))" for k
    using get_job_update [OF u, of k] by simp
  have g': "get_job k d' = get_job k (tw_db w)" if "k \<noteq> i" for k
    using g [of k] that by (cases "get_job k (tw_db w)") simp_all
  show ?thesis
    using assms u g [of i] g' get_job_update [OF u, of i]
    by (simp add: set_status_def py_monad_defs read_clock_def on_db_def)
qed

lemma set_status_None:
  "get_job i (tw_db w) = None \<Longrightarrow> \<exists>e. set_status i u w = (Inl e, w)"
  by (simp add: set_status_def on_db_def update_job_status_def)

text \<open>
  The row the stage writes for a pointer that names a domain, or whose URL can be parsed for one.
\<close>

definition domain_known :: "result_pointer \<Rightarrow> bool" where
  "domain_known p = (rp_domain p \<noteq> [] \<or> (\<exists>d. url_domain (rp_url p) = Inr d))"

lemma transform_sink_row:
  assumes "domain_known p"
  shows "\<exists>row. sink_row sha now (transform_result (transform_article p t fs)) (transform_article p t fs) = Inr row \<and>
    a_id row = url_id sha (rp_url p) \<and> a_bucket row = rp_bucket p \<and>
    a_raw_key row = Some (rp_object_key p) \<and> a_content row = str_or (field_get fs ''content'') []"
proof -
  have "\<exists>d. sink_domain (transform_article p t fs) = Inr d"
    using assms by (cases "rp_domain p") (simp_all add: domain_known_def sink_domain_def transform_article_def mk_article_def dict_get_def)
  then show ?thesis
    by (auto simp: sink_row_def sink_bucket_def sink_raw_key_def transform_article_def mk_article_def dict_get_def)
qed

text \<open>What one delivery does once the job is marked running, on every branch.\<close>

definition outcome :: "'s transform_env \<Rightarrow> (string \<Rightarrow> pybytes option) \<Rightarrow> result_pointer \<Rightarrow> job_status \<times> string option" where
  "outcome env objs p =
     (if rp_status p \<noteq> ''success'' then (JobError, Some (''scraper returned status '' @ [CHR 0x27] @ rp_status p @ [CHR 0x27]))
      else case objs (rp_object_key p) of
        None \<Rightarrow> (JobError, Some ''raw payload missing'')
      | Some raw \<Rightarrow>
          if response_is_valid (te_dom env) (decode_utf8 raw) (te_selectors env (rp_domain p)) 500 then (Done, None)
          else (JobError, Some ''soft block or challenge page detected''))"

locale transform_stage = object_store sops sinv view
  for sops :: "'s store_ops" and sinv :: "'s \<Rightarrow> bool" and view :: "'s \<Rightarrow> string \<Rightarrow> pybytes option" +
  fixes env :: "'s transform_env"
  assumes env_store: "te_store env = sops"
begin

text \<open>Every branch ends with one last status of the job.\<close>

lemma handle_success:
  assumes p: "read_pointer payload = Inr p" and dom: "domain_known p" and st: "sinv (tw_store w)"
    and run: "set_status (rp_job_id p) upd_running w = (Inr (), w1)" and same: "tw_store w1 = tw_store w"
  shows "\<exists>w2. handle_result_pointer env payload w = set_status (rp_job_id p)
        (case outcome env (view (tw_store w)) p of (_, Some msg) \<Rightarrow> upd_error 0 msg | (_, None) \<Rightarrow> upd_done 1) w2 \<and>
    sinv (tw_store w2) \<and> view (tw_store w2) = view (tw_store w) \<and>
    (case outcome env (view (tw_store w)) p of
       (_, Some _) \<Rightarrow> tw_db w2 = tw_db w1
     | (_, None) \<Rightarrow> \<exists>row. tw_db w2 = upsert_article row (tw_db w1) \<and> a_id row = url_id (te_sha env) (rp_url p) \<and>
         a_raw_key row = Some (rp_object_key p) \<and> 500 \<le> length (a_content row))"
proof -
  note simps = handle_result_pointer_def p run py_monad_defs py_lift_def outcome_def same env_store on_store_def Let_def
  show ?thesis
  proof (cases "rp_status p = ''success''")
    case False
    then show ?thesis using st same by (intro exI [of _ w1]) (simp add: simps)
  next
    case success: True
    obtain s2 where get: "st_get sops (rp_object_key p) (tw_store w) =
        ((case view (tw_store w) (rp_object_key p) of Some d \<Rightarrow> Inr d | None \<Rightarrow> Inl (not_found (rp_object_key p))), s2)"
      "sinv s2" "view s2 = view (tw_store w)"
      using get_law [OF st] by blast
    let ?w = "w1\<lparr>tw_store := s2\<rparr>"
    show ?thesis
    proof (cases "view (tw_store w) (rp_object_key p)")
      case None
      then show ?thesis using success get by (intro exI [of _ ?w]) (simp add: simps not_found_def)
    next
      case (Some raw)
      let ?html = "decode_utf8 raw" and ?sels = "te_selectors env (rp_domain p)"
      show ?thesis
      proof (cases "response_is_valid (te_dom env) ?html ?sels 500")
        case False
        then show ?thesis using success get Some by (intro exI [of _ ?w]) (simp add: simps)
      next
        case valid: True
        let ?fs = "extract_fields (te_dom env) ?html ?sels" and ?t = "te_iso env (tw_clock w1 0)"
        obtain t where t: "field_get ?fs ''content'' = Some t" "500 \<le> length t" "t \<noteq> []"
          using valid_extract [OF valid] by blast
        obtain row where row: "sink_row (te_sha env) (tw_clock w1 1) (transform_result (transform_article p ?t ?fs))
              (transform_article p ?t ?fs) = Inr row"
          "a_id row = url_id (te_sha env) (rp_url p)" "a_raw_key row = Some (rp_object_key p)"
          "a_content row = str_or (field_get ?fs ''content'') []"
          using transform_sink_row [OF dom] by blast
        have content: "500 \<le> length (a_content row)" using row(4) t by (cases t) (simp_all add: str_or_def)
        let ?w2 = "?w\<lparr>tw_clock := \<lambda>n. tw_clock w1 (Suc (Suc n)), tw_db := upsert_article row (tw_db w1)\<rparr>"
        show ?thesis
          using success get Some valid row content
          by (intro exI [of _ ?w2]) (auto simp: simps read_clock_def sink_write_def on_db_def pg_write_def
              transform_result_def mk_result_def intro!: exI [of _ row])
      qed
    qed
  qed
qed

lemma transform_delivery:
  assumes p: "read_pointer payload = Inr p" and dom: "domain_known p"
    and job: "get_job (rp_job_id p) (tw_db w) = Some j" and ok: "db_ok (tw_db w)" and st: "sinv (tw_store w)"
  shows "\<exists>w' j'. handle_result_pointer env payload w = (Inr (), w') \<and> sinv (tw_store w') \<and>
    view (tw_store w') = view (tw_store w) \<and> db_ok (tw_db w') \<and>
    get_job (rp_job_id p) (tw_db w') = Some j' \<and> j_status j' = fst (outcome env (view (tw_store w)) p) \<and>
    j_finished_at j' \<noteq> None \<and>
    (\<forall>k. k \<noteq> rp_job_id p \<longrightarrow> get_job k (tw_db w') = get_job k (tw_db w)) \<and>
    (case outcome env (view (tw_store w)) p of
       (_, Some msg) \<Rightarrow> j_error j' = Some msg \<and> j_result_count j' = 0 \<and> db_articles (tw_db w') = db_articles (tw_db w)
     | (_, None) \<Rightarrow> j_result_count j' = 1 \<and>
         (\<exists>row. get_article (url_id (te_sha env) (rp_url p)) (tw_db w') = Some row \<and> a_raw_key row = Some (rp_object_key p) \<and>
           500 \<le> length (a_content row)) \<and>
         (\<forall>i. i \<noteq> url_id (te_sha env) (rp_url p) \<longrightarrow> get_article i (tw_db w') = get_article i (tw_db w)) \<and>
         length (db_articles (tw_db w')) = length (db_articles (tw_db w)) +
           (if get_article (url_id (te_sha env) (rp_url p)) (tw_db w) = None then 1 else 0))"
proof -
  let ?o = "outcome env (view (tw_store w)) p"
  let ?u = "case ?o of (_, Some msg) \<Rightarrow> upd_error 0 msg | (_, None) \<Rightarrow> upd_done 1"
  obtain w1 where w1: "set_status (rp_job_id p) upd_running w = (Inr (), w1)" "tw_store w1 = tw_store w"
    "get_job (rp_job_id p) (tw_db w1) = Some (apply_update upd_running (tw_clock w 0) j)"
    "\<forall>k. k \<noteq> rp_job_id p \<longrightarrow> get_job k (tw_db w1) = get_job k (tw_db w)"
    "db_articles (tw_db w1) = db_articles (tw_db w)" "db_ok (tw_db w1)"
    using set_status_Some [OF job, of upd_running] ok by blast
  obtain w2 where h: "handle_result_pointer env payload w = set_status (rp_job_id p) ?u w2"
    and w2: "sinv (tw_store w2)" "view (tw_store w2) = view (tw_store w)"
    and db2: "case ?o of (_, Some _) \<Rightarrow> tw_db w2 = tw_db w1
     | (_, None) \<Rightarrow> \<exists>row. tw_db w2 = upsert_article row (tw_db w1) \<and> a_id row = url_id (te_sha env) (rp_url p) \<and>
         a_raw_key row = Some (rp_object_key p) \<and> 500 \<le> length (a_content row)"
    using handle_success [OF p dom st w1(1,2)] by (elim exE conjE) (rule that)
  have jobs2: "get_job k (tw_db w2) = get_job k (tw_db w1)" for k
    using db2 by (auto split: prod.splits option.splits)
  have ok2: "db_ok (tw_db w2)"
    using db2 w1(6) upsert_db_ok by (auto split: prod.splits option.splits)
  have job2: "get_job (rp_job_id p) (tw_db w2) = Some (apply_update upd_running (tw_clock w 0) j)"
    using jobs2 w1(3) by simp
  obtain w' where w': "set_status (rp_job_id p) ?u w2 = (Inr (), w')" "tw_store w' = tw_store w2"
    "get_job (rp_job_id p) (tw_db w') = Some (apply_update ?u (tw_clock w2 0) (apply_update upd_running (tw_clock w 0) j))"
    "\<forall>k. k \<noteq> rp_job_id p \<longrightarrow> get_job k (tw_db w') = get_job k (tw_db w2)"
    "db_articles (tw_db w') = db_articles (tw_db w2)" "db_ok (tw_db w')"
    using set_status_Some [OF job2, of ?u] ok2 that by (elim exE conjE) (simp only: simp_thms)
  have arts: "get_article i (tw_db w') = get_article i (tw_db w2)" "get_article i (tw_db w1) = get_article i (tw_db w)" for i
    using w'(5) w1(5) by (simp_all add: get_article_def)
  have fin: "j_status (apply_update ?u t x) = fst ?o \<and> j_finished_at (apply_update ?u t x) \<noteq> None \<and>
      (case snd ?o of Some msg \<Rightarrow> j_error (apply_update ?u t x) = Some msg \<and> j_result_count (apply_update ?u t x) = 0
       | None \<Rightarrow> j_result_count (apply_update ?u t x) = 1)" for t x
    by (auto simp: outcome_def apply_update_def upd_error_def upd_done_def split: option.splits)
  let ?j = "apply_update ?u (tw_clock w2 0) (apply_update upd_running (tw_clock w 0) j)"
  have last: "case ?o of
       (_, Some msg) \<Rightarrow> j_error ?j = Some msg \<and> j_result_count ?j = 0 \<and> db_articles (tw_db w') = db_articles (tw_db w)
     | (_, None) \<Rightarrow> j_result_count ?j = 1 \<and>
         (\<exists>row. get_article (url_id (te_sha env) (rp_url p)) (tw_db w') = Some row \<and> a_raw_key row = Some (rp_object_key p) \<and>
           500 \<le> length (a_content row)) \<and>
         (\<forall>i. i \<noteq> url_id (te_sha env) (rp_url p) \<longrightarrow> get_article i (tw_db w') = get_article i (tw_db w)) \<and>
         length (db_articles (tw_db w')) = length (db_articles (tw_db w)) +
           (if get_article (url_id (te_sha env) (rp_url p)) (tw_db w) = None then 1 else 0)"
  proof (cases ?o)
    case (Pair status msg)
    show ?thesis
    proof (cases msg)
      case None
      then obtain row where row: "tw_db w2 = upsert_article row (tw_db w1)" "a_id row = url_id (te_sha env) (rp_url p)"
        "a_raw_key row = Some (rp_object_key p)" "500 \<le> length (a_content row)"
        using db2 Pair by auto
      have n: "length (db_articles (tw_db w')) = length (db_articles (tw_db w)) +
          (if get_article (a_id row) (tw_db w) = None then 1 else 0)"
        using w'(5) w1(5) row(1) arts(2) [of "a_id row"] by (simp add: upsert_count)
      show ?thesis
        using n row Pair None fin [of "tw_clock w2 0" "apply_update upd_running (tw_clock w 0) j"]
        by (auto simp: arts get_upsert upsert_columns_def split: option.splits)
    next
      case (Some m)
      then show ?thesis
        using w'(5) w1(5) db2 Pair fin [of "tw_clock w2 0" "apply_update upd_running (tw_clock w 0) j"] by simp
    qed
  qed
  have same: "get_job k (tw_db w') = get_job k (tw_db w)" if "k \<noteq> rp_job_id p" for k
    using that w'(4) w1(4) jobs2 by simp
  show ?thesis
    using h w'(1-3,6) w2 same last fin [of "tw_clock w2 0" "apply_update upd_running (tw_clock w 0) j"]
    by (intro exI [of _ w'] exI [of _ ?j] conjI) (simp_all del: split_paired_Ex)
qed

end

interpretation mem_transform: transform_stage memstore_ops "\<lambda>_. True" memstore_view
    "\<lparr>te_sha = sha, te_iso = isof, te_dom = css_first, te_selectors = sels, te_store = memstore_ops\<rparr>"
  for sha isof css_first sels
  by unfold_locales simp

text \<open>
  C11.  Delivering a pointer settles its job on every branch: if the job exists and the pointer names a
  domain, the handler returns, and the job is then done when the page is in the store and valid, and
  in error, with the reason, when the scraper failed, the page is missing or it is a block page.
  Only in the first case is an article written: one row for the URL, with at least 500 characters of
  content and the key of the raw page; a second delivery of the pointer adds no row.  Other jobs,
  other articles and the store are untouched.
\<close>

theorem transform_settles_job:
  assumes "object_store (te_store env) sinv view" and "read_pointer payload = Inr p" and "rp_domain p \<noteq> []"
    and "get_job (rp_job_id p) (tw_db w) = Some j" and "db_ok (tw_db w)" and "sinv (tw_store w)"
  shows "\<exists>w' j'. handle_result_pointer env payload w = (Inr (), w') \<and> sinv (tw_store w') \<and>
    view (tw_store w') = view (tw_store w) \<and> db_ok (tw_db w') \<and>
    get_job (rp_job_id p) (tw_db w') = Some j' \<and> j_status j' = fst (outcome env (view (tw_store w)) p) \<and>
    j_finished_at j' \<noteq> None \<and>
    (\<forall>k. k \<noteq> rp_job_id p \<longrightarrow> get_job k (tw_db w') = get_job k (tw_db w)) \<and>
    (case outcome env (view (tw_store w)) p of
       (_, Some msg) \<Rightarrow> j_error j' = Some msg \<and> j_result_count j' = 0 \<and> db_articles (tw_db w') = db_articles (tw_db w)
     | (_, None) \<Rightarrow> j_result_count j' = 1 \<and>
         (\<exists>row. get_article (url_id (te_sha env) (rp_url p)) (tw_db w') = Some row \<and> a_raw_key row = Some (rp_object_key p) \<and>
           500 \<le> length (a_content row)) \<and>
         (\<forall>i. i \<noteq> url_id (te_sha env) (rp_url p) \<longrightarrow> get_article i (tw_db w') = get_article i (tw_db w)) \<and>
         length (db_articles (tw_db w')) = length (db_articles (tw_db w)) +
           (if get_article (url_id (te_sha env) (rp_url p)) (tw_db w) = None then 1 else 0))"
proof -
  have stage: "transform_stage (te_store env) sinv view env"
    by (intro transform_stage.intro transform_stage_axioms.intro assms(1) refl)
  have dom: "domain_known p" using assms(3) by (simp add: domain_known_def)
  show ?thesis by (rule transform_stage.transform_delivery [OF stage assms(2) dom assms(4-6)])
qed

text \<open>A page, its job and the pointer to it.\<close>

definition page_pointer :: result_pointer where
  "page_pointer = \<lparr>rp_job_id = ''j'', rp_object_key = ''raw/public/x'', rp_url = ''https://ft.com/a'', rp_url_id = [],
     rp_domain = ''ft.com'', rp_bucket = ''public'', rp_status = ''success'', rp_fetched_at = None\<rparr>"

definition page_html :: string where "page_html = replicate 500 (CHR ''x'')"

definition page_transform :: "memstore transform_env" where
  "page_transform = \<lparr>te_sha = toy_sha, te_iso = \<lambda>_. ''now'', te_dom = \<lambda>html sel. Some (Some html),
     te_selectors = \<lambda>_. [(''title'', Some ''h1''), (''content'', Some ''p'')], te_store = memstore_ops\<rparr>"

definition page_world :: "memstore tworld" where
  "page_world = \<lparr>tw_store = memstore_init(''raw/public/x'' \<mapsto> (Utf8 page_html, ''text/html'')),
     tw_db = db_empty\<lparr>db_jobs := [\<lparr>j_id = ''j'', j_status = Queued, j_source = ''scrape'', j_params = [], j_created_at = 0,
       j_started_at = None, j_finished_at = None, j_error = None, j_result_count = 0\<rparr>]\<rparr>, tw_clock = int\<rparr>"

lemma page_clean: "\<not> contains (c # cs) (lower page_html)" if "c \<noteq> CHR ''x''"
proof
  assume "contains (c # cs) (lower page_html)"
  then have "c \<in> set (lower page_html)" by (auto simp: contains_iff)
  then show False using that by (simp add: page_html_def lower_def lower_char_def)
qed

lemma page_outcome: "outcome page_transform (memstore_view (tw_store page_world)) page_pointer = (Done, None)"
proof -
  have no: "\<not> list_ex (\<lambda>sig. contains sig (lower page_html)) block_signatures"
    by (simp add: block_signatures_def page_clean)
  have stripped: "strip page_html = page_html"
    by (simp add: page_html_def strip_by_def rstrip_by_def lstrip_by_def dropWhile_replicate is_space_def)
  have sel: "css_candidates ''p'' = [''p'']" by code_simp
  have "response_is_valid (te_dom page_transform) page_html (te_selectors page_transform ''ft.com'') 500"
    using no by (simp add: response_is_valid_def page_transform_def field_get_def main_text_def first_match_def sel stripped Let_def)
      (simp add: page_html_def)
  then show ?thesis
    by (simp add: outcome_def page_pointer_def page_world_def memstore_view_def memstore_init_def)
qed

theorem transform_settles_job_witness:
  "\<exists>w' j'. handle_result_pointer page_transform (pointer_dict page_pointer) page_world = (Inr (), w') \<and>
    get_job ''j'' (tw_db w') = Some j' \<and> j_status j' = Done \<and> length (db_articles (tw_db w')) = 1"
proof -
  have store: "object_store (te_store page_transform) (\<lambda>_. True) memstore_view"
    using memstore.object_store_axioms by (simp add: page_transform_def)
  have read: "read_pointer (pointer_dict page_pointer) = Inr page_pointer"
    by (simp add: read_pointer_dict page_pointer_def)
  have job: "\<exists>j. get_job (rp_job_id page_pointer) (tw_db page_world) = Some j"
    by (simp add: get_job_def find_by_def page_pointer_def page_world_def)
  have ok: "db_ok (tw_db page_world)" by (simp add: db_ok_def page_world_def db_empty_def)
  have dom: "rp_domain page_pointer \<noteq> []" by (simp add: page_pointer_def)
  from job obtain j where "get_job (rp_job_id page_pointer) (tw_db page_world) = Some j" by blast
  from transform_settles_job [OF store read dom this ok TrueI] show ?thesis
    unfolding page_outcome
    by (auto simp: page_pointer_def page_world_def get_article_def find_by_def db_empty_def)
qed

end
