(* ===== verification/Ingest_Worker.thy ===== *)
theory Ingest_Worker
  imports Transform_Worker
begin

text \<open>
  The community-ingestion stage, \<open>worker/community_ingest_worker.py\<close>: scrape one publication, archive and
  persist its successful articles, and settle the job.

  The state is that of the transform stage (object store, database, clock) and the world of the scraper.
  \<open>ie_scrape\<close> stands for \<open>SubstackScraper().scrape_publication\<close>.
\<close>

section \<open>The handler\<close>

record ('s, 'e) ingest_env =
  ie_sha :: "string \<Rightarrow> string"
  ie_fr :: "real \<Rightarrow> string"
  ie_store :: "'s store_ops"
  ie_scrape :: "string \<Rightarrow> int \<Rightarrow> ('e, scrape_result list) py"

definition resolve_platform :: "string \<Rightarrow> exn + unit" where
  "resolve_platform platform =
     (if platform = ''substack'' then Inr ()
      else Inl (ValueError (''no community-ingest scraper for platform '' @ py_repr platform)))"

definition ingest_raw :: "(real \<Rightarrow> string) \<Rightarrow> scrape_result \<Rightarrow> article \<Rightarrow> pybytes \<times> string" where
  "ingest_raw fr r a = (case ar_raw_html a of
      Some (c # cs) \<Rightarrow> (Utf8 (c # cs), ''text/html; charset=utf-8'')
    | _ \<Rightarrow> (Utf8 (dumps_ascii fr (JObj [(''status'', JStr (sr_status r)), (''url'', JStr (ar_url a)),
            (''title'', JStr (ar_title a))])), ''application/json''))"

text \<open>\<open>metadata.setdefault("raw_key", key)\<close>\<close>

definition with_raw_key :: "string \<Rightarrow> article \<Rightarrow> article" where
  "with_raw_key key a = a\<lparr>ar_metadata := dict_setdefault ''raw_key'' (JStr key) (ar_metadata a)\<rparr>"

text \<open>
  The loop over the results.  Its state is the ids the sink has written and the number of articles
  persisted; an exception ends it, with the state it had.
\<close>

type_synonym progress = "string set \<times> int"

fun ingest_results ::
  "('s, 'e) ingest_env \<Rightarrow> string \<Rightarrow> scrape_result list \<Rightarrow> progress \<Rightarrow> 's tworld \<Rightarrow> (exn option \<times> progress) \<times> 's tworld" where
  "ingest_results env bucket [] p w = ((None, p), w)"
| "ingest_results env bucket (r # rs) (seen, n) w = (case sr_article r of
      None \<Rightarrow> ingest_results env bucket rs (seen, n) w
    | Some a \<Rightarrow>
        if sr_status r \<noteq> ''success'' \<or> pg_seen (ie_sha env) (ar_url a) (seen, tw_db w)
        then ingest_results env bucket rs (seen, n) w
        else
          (let key = raw_object_key bucket (url_id (ie_sha env) (ar_url a)); (raw, ct) = ingest_raw (ie_fr env) r a in
           case on_store (st_put (ie_store env) key raw ct) w of
             (Inl e, w1) \<Rightarrow> ((Some e, (seen, n)), w1)
           | (Inr _, w1) \<Rightarrow>
               (let w2 = snd (read_clock w1) in
                case pg_write (ie_sha env) (tw_clock w1 0) (r\<lparr>sr_article := Some (with_raw_key key a)\<rparr>) (seen, tw_db w1) of
                  (Inl e, (seen', d)) \<Rightarrow> ((Some e, (seen', n)), w2\<lparr>tw_db := d\<rparr>)
                | (Inr _, (seen', d)) \<Rightarrow> ingest_results env bucket rs (seen', n + 1) (w2\<lparr>tw_db := d\<rparr>))))"

definition upd_failed :: "int \<Rightarrow> exn \<Rightarrow> job_update" where
  "upd_failed n e = upd_error n (exn_str e)"

definition handle_ingest_job :: "('s, 'e) ingest_env \<Rightarrow> pydict \<Rightarrow> ('s tworld \<times> 'e, int) py" where
  "handle_ingest_job env payload =
     py_bind (py_lift (read_ingest payload)) (\<lambda>m.
     py_bind (py_lift (resolve_platform (im_platform m))) (\<lambda>_.
     py_bind (on_fst (set_status (im_job_id m) upd_running)) (\<lambda>_.
     (\<lambda>(w, x). case ie_scrape env (im_target m) (im_limit m) x of
        (Inl e, x') \<Rightarrow> py_bind (on_fst (set_status (im_job_id m) (upd_failed 0 e))) (\<lambda>_. py_raise e) (w, x')
      | (Inr results, x') \<Rightarrow>
          (case ingest_results env (im_bucket m) results ({}, 0) w of
             ((Some e, (_, n)), w') \<Rightarrow> py_bind (on_fst (set_status (im_job_id m) (upd_failed n e))) (\<lambda>_. py_raise e) (w', x')
           | ((None, (_, n)), w') \<Rightarrow> py_bind (on_fst (set_status (im_job_id m) (upd_done n))) (\<lambda>_. py_ret n) (w', x'))))))"

definition run_community_ingest_worker ::
  "('s, 'e) ingest_env \<Rightarrow> 'q mq_ops \<Rightarrow> string \<Rightarrow> int \<Rightarrow> nat \<Rightarrow> 'q \<times> 's tworld \<times> 'e \<Rightarrow> ((exn + unit) \<times> ('q \<times> 's tworld \<times> 'e)) option" where
  "run_community_ingest_worker env qops ingest_queue max_retries fuel s =
     drain fuel (consume_once (lift_ops qops) ingest_queue (\<lambda>p. on_snd (handle_ingest_job env p)) max_retries) s"

section \<open>What a run leaves\<close>

lemma with_raw_key_simps [simp]:
  "ar_url (with_raw_key key a) = ar_url a" "ar_content (with_raw_key key a) = ar_content a"
  by (simp_all add: with_raw_key_def)

text \<open>The ids of the successful results.\<close>

definition success_ids :: "(string \<Rightarrow> string) \<Rightarrow> scrape_result list \<Rightarrow> string set" where
  "success_ids sha rs = {url_id sha (ar_url a) | r a. r \<in> set rs \<and> sr_status r = ''success'' \<and> sr_article r = Some a}"

lemma success_ids_simps [simp]:
  "success_ids sha [] = {}"
  "success_ids sha (r # rs) = (case sr_article r of
     Some a \<Rightarrow> if sr_status r = ''success'' then insert (url_id sha (ar_url a)) (success_ids sha rs) else success_ids sha rs
   | None \<Rightarrow> success_ids sha rs)"
  by (auto simp: success_ids_def split: option.splits)

locale ingest_stage = object_store sops sinv view
  for sops :: "'s store_ops" and sinv :: "'s \<Rightarrow> bool" and view :: "'s \<Rightarrow> string \<Rightarrow> pybytes option" +
  fixes env :: "('s, 'e) ingest_env"
  assumes env_store: "ie_store env = sops"
begin

text \<open>An id that has been persisted: its row and its raw object exist.\<close>

definition persisted :: "string \<Rightarrow> 's tworld \<Rightarrow> string \<Rightarrow> bool" where
  "persisted bucket w i = (get_article i (tw_db w) \<noteq> None \<and> view (tw_store w) (raw_object_key bucket i) \<noteq> None)"

definition world_ok :: "'s tworld \<Rightarrow> bool" where
  "world_ok w = (sinv (tw_store w) \<and> db_ok (tw_db w))"

text \<open>One article: the object is put, then the row is written or the write fails.\<close>

lemma loop_effect:
  assumes "ingest_results env bucket rs (seen, n) w = ((x, (seen', n')), w')"
    and "world_ok w" and "finite seen" and "\<forall>i \<in> seen. persisted bucket w i"
  shows "world_ok w' \<and> finite seen' \<and> (\<forall>i \<in> seen'. persisted bucket w' i) \<and> db_jobs (tw_db w') = db_jobs (tw_db w) \<and>
    seen \<subseteq> seen' \<and> seen' \<subseteq> seen \<union> success_ids (ie_sha env) rs \<and> n' - n = int (card seen') - int (card seen) \<and>
    (x = None \<longrightarrow> seen' = seen \<union> success_ids (ie_sha env) rs) \<and>
    (\<forall>i. i \<notin> seen' \<longrightarrow> get_article i (tw_db w') = get_article i (tw_db w))"
  using assms
proof (induction rs arbitrary: seen n w)
  case (Cons r rs)
  show ?case
  proof (cases "\<exists>a. sr_article r = Some a \<and> sr_status r = ''success'' \<and> url_id (ie_sha env) (ar_url a) \<notin> seen")
    case False
    then have "ingest_results env bucket (r # rs) (seen, n) w = ingest_results env bucket rs (seen, n) w"
      by (auto simp: pg_seen_def split: option.splits)
    with Cons.IH [of seen n w] Cons.prems have ih: "world_ok w' \<and> finite seen' \<and> (\<forall>i \<in> seen'. persisted bucket w' i) \<and>
      db_jobs (tw_db w') = db_jobs (tw_db w) \<and> seen \<subseteq> seen' \<and> seen' \<subseteq> seen \<union> success_ids (ie_sha env) rs \<and>
      n' - n = int (card seen') - int (card seen) \<and> (x = None \<longrightarrow> seen' = seen \<union> success_ids (ie_sha env) rs) \<and>
      (\<forall>i. i \<notin> seen' \<longrightarrow> get_article i (tw_db w') = get_article i (tw_db w))" by simp
    have "seen \<union> success_ids (ie_sha env) (r # rs) = seen \<union> success_ids (ie_sha env) rs"
      using False by (auto split: option.splits)
    with ih show ?thesis by simp
  next
    case True
    then obtain a where a: "sr_article r = Some a" "sr_status r = ''success''" "url_id (ie_sha env) (ar_url a) \<notin> seen"
      by blast
    let ?i = "url_id (ie_sha env) (ar_url a)"
    let ?k = "raw_object_key bucket ?i"
    obtain raw ct where raw: "ingest_raw (ie_fr env) r a = (raw, ct)" by (cases "ingest_raw (ie_fr env) r a")
    have i0: "sinv (tw_store w)" "db_ok (tw_db w)" using Cons.prems(2) by (simp_all add: world_ok_def)
    obtain st where st: "st_put sops ?k raw ct (tw_store w) = (Inr (), st)" "sinv st"
      "view st = (view (tw_store w))(?k := Some raw)" using put_law [OF i0(1)] by blast
    let ?w1 = "w\<lparr>tw_store := st\<rparr>"
    let ?r = "r\<lparr>sr_article := Some (with_raw_key ?k a)\<rparr>"
    have step: "ingest_results env bucket (r # rs) (seen, n) w =
        (case pg_write (ie_sha env) (tw_clock w 0) ?r (seen, tw_db w) of
           (Inl e, (s', d)) \<Rightarrow> ((Some e, (s', n)), (snd (read_clock ?w1))\<lparr>tw_db := d\<rparr>)
         | (Inr _, (s', d)) \<Rightarrow> ingest_results env bucket rs (s', n + 1) ((snd (read_clock ?w1))\<lparr>tw_db := d\<rparr>))"
      using a raw st by (simp add: pg_seen_def on_store_def env_store Let_def)
    show ?thesis
    proof (cases "sink_row (ie_sha env) (tw_clock w 0) ?r (with_raw_key ?k a)")
      case (Inl e)
      then have "pg_write (ie_sha env) (tw_clock w 0) ?r (seen, tw_db w) = (Inl e, (seen, tw_db w))"
        using a by (simp add: pg_write_def)
      with step Cons.prems(1) have eqs: "x = Some e" "seen' = seen" "n' = n" "w' = (snd (read_clock ?w1))\<lparr>tw_db := tw_db w\<rparr>"
        by simp_all
      show ?thesis
        using Cons.prems(2-4) st by (auto simp: eqs read_clock_def world_ok_def persisted_def)
    next
      case (Inr row)
      have "pg_write (ie_sha env) (tw_clock w 0) ?r (seen, tw_db w) =
          (Inr (), (insert ?i seen, upsert_article row (tw_db w)))"
        using a Inr by (simp add: pg_write_def)
      with step Cons.prems(1) have rest: "ingest_results env bucket rs (insert ?i seen, n + 1)
          ((snd (read_clock ?w1))\<lparr>tw_db := upsert_article row (tw_db w)\<rparr>) = ((x, (seen', n')), w')"
        by simp
      have id: "a_id row = ?i" using sink_row_id [OF Inr] by simp
      let ?w2 = "(snd (read_clock ?w1))\<lparr>tw_db := upsert_article row (tw_db w)\<rparr>"
      have w2: "world_ok ?w2" using st i0 upsert_db_ok by (simp add: world_ok_def read_clock_def)
      have p2: "\<forall>j \<in> insert ?i seen. persisted bucket ?w2 j"
        using Cons.prems(4) st by (auto simp: persisted_def read_clock_def get_upsert id)
      have ih: "world_ok w' \<and> finite seen' \<and> (\<forall>i \<in> seen'. persisted bucket w' i) \<and>
        db_jobs (tw_db w') = db_jobs (tw_db ?w2) \<and> insert ?i seen \<subseteq> seen' \<and>
        seen' \<subseteq> insert ?i seen \<union> success_ids (ie_sha env) rs \<and>
        n' - (n + 1) = int (card seen') - int (card (insert ?i seen)) \<and>
        (x = None \<longrightarrow> seen' = insert ?i seen \<union> success_ids (ie_sha env) rs) \<and>
        (\<forall>i. i \<notin> seen' \<longrightarrow> get_article i (tw_db w') = get_article i (tw_db ?w2))"
        by (rule Cons.IH [OF rest w2 _ p2]) (use Cons.prems(3) in simp)
      have c: "card (insert ?i seen) = Suc (card seen)" using Cons.prems(3) a(3) by simp
      have same: "get_article j (tw_db ?w2) = get_article j (tw_db w)" if "j \<noteq> ?i" for j
        using that by (simp add: read_clock_def get_upsert id)
      have sids: "success_ids (ie_sha env) (r # rs) = insert ?i (success_ids (ie_sha env) rs)" using a by simp
      have rest_same: "get_article j (tw_db w') = get_article j (tw_db w)" if "j \<notin> seen'" for j
      proof -
        have "j \<noteq> ?i" using ih that by blast
        with same that ih show ?thesis by simp
      qed
      show ?thesis unfolding sids using ih c rest_same by auto
    qed
  qed
qed auto

lemma ingest_delivery:
  assumes m: "read_ingest payload = Inr m" and plat: "im_platform m = ''substack''"
    and job: "get_job (im_job_id m) (tw_db w) = Some j" and ok: "world_ok w"
  shows "\<exists>r w' e' j' seen. handle_ingest_job env payload (w, e) = (r, (w', e')) \<and> world_ok w' \<and>
    get_job (im_job_id m) (tw_db w') = Some j' \<and> j_finished_at j' \<noteq> None \<and> finite seen \<and> j_result_count j' = int (card seen) \<and>
    (\<forall>i \<in> seen. persisted (im_bucket m) w' i) \<and> (\<forall>i. i \<notin> seen \<longrightarrow> get_article i (tw_db w') = get_article i (tw_db w)) \<and>
    (\<forall>k. k \<noteq> im_job_id m \<longrightarrow> get_job k (tw_db w') = get_job k (tw_db w)) \<and>
    (case fst (ie_scrape env (im_target m) (im_limit m) e) of
       Inl x \<Rightarrow> r = Inl x \<and> seen = {}
     | Inr rs \<Rightarrow> seen \<subseteq> success_ids (ie_sha env) rs \<and> (r = Inr (int (card seen)) \<longrightarrow> seen = success_ids (ie_sha env) rs)) \<and>
    (case r of Inr n \<Rightarrow> j_status j' = Done \<and> n = int (card seen)
     | Inl x \<Rightarrow> j_status j' = JobError \<and> j_error j' = Some (exn_str x))"
proof -
  obtain w1 where w1: "set_status (im_job_id m) upd_running w = (Inr (), w1)" "tw_store w1 = tw_store w"
    "get_job (im_job_id m) (tw_db w1) = Some (apply_update upd_running (tw_clock w 0) j)"
    "\<forall>k. k \<noteq> im_job_id m \<longrightarrow> get_job k (tw_db w1) = get_job k (tw_db w)"
    "db_articles (tw_db w1) = db_articles (tw_db w)" "db_ok (tw_db w) \<longrightarrow> db_ok (tw_db w1)"
    using set_status_Some [OF job, of upd_running] by blast
  have ok1: "world_ok w1" using ok w1 by (simp add: world_ok_def)
  obtain ans e1 where ans: "ie_scrape env (im_target m) (im_limit m) e = (ans, e1)"
    by (cases "ie_scrape env (im_target m) (im_limit m) e")
  note head = handle_ingest_job_def m plat resolve_platform_def py_lift_def py_monad_defs on_fst_def w1(1) ans
  have last: "\<exists>w3. set_status (im_job_id m) u w2 = (Inr (), w3) \<and> tw_store w3 = tw_store w2 \<and>
      (\<exists>j2 t. get_job (im_job_id m) (tw_db w3) = Some (apply_update u t j2)) \<and>
      (\<forall>k. k \<noteq> im_job_id m \<longrightarrow> get_job k (tw_db w3) = get_job k (tw_db w)) \<and>
      (\<forall>i. get_article i (tw_db w3) = get_article i (tw_db w2)) \<and> (db_ok (tw_db w2) \<longrightarrow> db_ok (tw_db w3))"
    if "db_jobs (tw_db w2) = db_jobs (tw_db w1)" for u w2
  proof -
    have same: "get_job k (tw_db w2) = get_job k (tw_db w1)" for k using that by (simp add: get_job_def)
    have j2: "get_job (im_job_id m) (tw_db w2) = Some (apply_update upd_running (tw_clock w 0) j)" using same w1(3) by simp
    from set_status_Some [OF j2, of u] show ?thesis
    proof (elim exE conjE)
      fix w3 assume w3: "set_status (im_job_id m) u w2 = (Inr (), w3)" "tw_store w3 = tw_store w2"
        "get_job (im_job_id m) (tw_db w3) = Some (apply_update u (tw_clock w2 0) (apply_update upd_running (tw_clock w 0) j))"
        "\<forall>k. k \<noteq> im_job_id m \<longrightarrow> get_job k (tw_db w3) = get_job k (tw_db w2)"
        "db_articles (tw_db w3) = db_articles (tw_db w2)" "db_ok (tw_db w2) \<longrightarrow> db_ok (tw_db w3)"
      then show ?thesis using same w1(4) by (intro exI [of _ w3]) (auto simp: get_article_def)
    qed
  qed
  have art1: "get_article i (tw_db w1) = get_article i (tw_db w)" for i using w1(5) by (simp add: get_article_def)
  note upd = apply_update_def upd_failed_def upd_error_def upd_done_def
  show ?thesis
  proof (cases ans)
    case (Inl x)
    obtain w3 where w3: "set_status (im_job_id m) (upd_failed 0 x) w1 = (Inr (), w3)" "tw_store w3 = tw_store w1"
      "\<exists>j2 t. get_job (im_job_id m) (tw_db w3) = Some (apply_update (upd_failed 0 x) t j2)"
      "\<forall>k. k \<noteq> im_job_id m \<longrightarrow> get_job k (tw_db w3) = get_job k (tw_db w)"
      "\<forall>i. get_article i (tw_db w3) = get_article i (tw_db w1)" "db_ok (tw_db w1) \<longrightarrow> db_ok (tw_db w3)"
      using last [OF refl, of "upd_failed 0 x"] by blast
    obtain j2 t where j2: "get_job (im_job_id m) (tw_db w3) = Some (apply_update (upd_failed 0 x) t j2)" using w3(3) by blast
    have h: "handle_ingest_job env payload (w, e) = (Inl x, (w3, e1))" using Inl w3(1) by (simp add: head)
    show ?thesis
      by (rule exI [of _ "Inl x"], rule exI [of _ w3], rule exI [of _ e1], rule exI [of _ "apply_update (upd_failed 0 x) t j2"],
          rule exI [of _ "{}"])
        (use h j2 w3(2,4-6) ok1 Inl ans art1 in \<open>simp add: world_ok_def upd\<close>)
  next
    case (Inr rs)
    obtain x seen n w2 where l: "ingest_results env (im_bucket m) rs ({}, 0) w1 = ((x, (seen, n)), w2)"
      by (metis surj_pair)
    note eff = loop_effect [OF l ok1]
    have eff: "world_ok w2" "finite seen" "\<forall>i \<in> seen. persisted (im_bucket m) w2 i" "db_jobs (tw_db w2) = db_jobs (tw_db w1)"
      "seen \<subseteq> success_ids (ie_sha env) rs" "n = int (card seen)" "x = None \<longrightarrow> seen = success_ids (ie_sha env) rs"
      "\<forall>i. i \<notin> seen \<longrightarrow> get_article i (tw_db w2) = get_article i (tw_db w1)"
      using eff by auto
    let ?u = "case x of None \<Rightarrow> upd_done n | Some ex \<Rightarrow> upd_failed n ex"
    let ?r = "case x of None \<Rightarrow> Inr n | Some ex \<Rightarrow> Inl ex"
    obtain w3 where w3: "set_status (im_job_id m) ?u w2 = (Inr (), w3)" "tw_store w3 = tw_store w2"
      "\<exists>j2 t. get_job (im_job_id m) (tw_db w3) = Some (apply_update ?u t j2)"
      "\<forall>k. k \<noteq> im_job_id m \<longrightarrow> get_job k (tw_db w3) = get_job k (tw_db w)"
      "\<forall>i. get_article i (tw_db w3) = get_article i (tw_db w2)" "db_ok (tw_db w2) \<longrightarrow> db_ok (tw_db w3)"
      using last [OF eff(4), of ?u] by (elim exE conjE) (rule that; blast)
    obtain j2 t where j2: "get_job (im_job_id m) (tw_db w3) = Some (apply_update ?u t j2)" using w3(3) by blast
    have h: "handle_ingest_job env payload (w, e) = (?r, (w3, e1))"
      using Inr w3(1) l by (cases x) (simp_all add: head)
    have p: "\<forall>i \<in> seen. persisted (im_bucket m) w3 i" using eff(3) w3(2,5) by (simp add: persisted_def)
    have ok3: "world_ok w3" using eff(1) w3(2,6) by (simp add: world_ok_def)
    have arts: "\<forall>i. i \<notin> seen \<longrightarrow> get_article i (tw_db w3) = get_article i (tw_db w)" using eff(8) w3(5) art1 by simp
    show ?thesis
      by (rule exI [of _ ?r], rule exI [of _ w3], rule exI [of _ e1], rule exI [of _ "apply_update ?u t j2"], rule exI [of _ seen])
        (use h j2 w3(4) ok3 p arts Inr ans eff(2,5,6,7) in \<open>cases x; simp add: upd\<close>)
  qed
qed

end

interpretation mem_ingest: ingest_stage memstore_ops "\<lambda>_. True" memstore_view
    "\<lparr>ie_sha = sha, ie_fr = fr, ie_store = memstore_ops, ie_scrape = scrape\<rparr>"
  for sha fr scrape
  by unfold_locales simp

text \<open>
  C13.  An ingest delivery settles its job whatever the scraper does: on success the job is done with
  the number of distinct articles as its count, on any exception it is in error with the message and
  the number persisted so far, and the exception goes on to the queue.  Either way each article
  counted has its row and its raw object, no other article and no other job changes.
\<close>

theorem ingest_settles_job:
  assumes "object_store (ie_store env) sinv view" and "read_ingest payload = Inr m" and "im_platform m = ''substack''"
    and "get_job (im_job_id m) (tw_db w) = Some j" and "sinv (tw_store w)" and "db_ok (tw_db w)"
  shows "\<exists>r w' e' j' seen. handle_ingest_job env payload (w, e) = (r, (w', e')) \<and>
    get_job (im_job_id m) (tw_db w') = Some j' \<and> j_finished_at j' \<noteq> None \<and> j_result_count j' = int (card seen) \<and>
    (\<forall>i \<in> seen. get_article i (tw_db w') \<noteq> None \<and> view (tw_store w') (raw_object_key (im_bucket m) i) \<noteq> None) \<and>
    (\<forall>i. i \<notin> seen \<longrightarrow> get_article i (tw_db w') = get_article i (tw_db w)) \<and>
    (\<forall>k. k \<noteq> im_job_id m \<longrightarrow> get_job k (tw_db w') = get_job k (tw_db w)) \<and>
    (case fst (ie_scrape env (im_target m) (im_limit m) e) of
       Inl x \<Rightarrow> r = Inl x \<and> seen = {}
     | Inr rs \<Rightarrow> seen \<subseteq> success_ids (ie_sha env) rs \<and> (r = Inr (int (card seen)) \<longrightarrow> seen = success_ids (ie_sha env) rs)) \<and>
    (case r of Inr n \<Rightarrow> j_status j' = Done \<and> n = int (card seen)
     | Inl x \<Rightarrow> j_status j' = JobError \<and> j_error j' = Some (exn_str x))"
proof -
  have stage: "ingest_stage (ie_store env) sinv view env"
    by (intro ingest_stage.intro ingest_stage_axioms.intro assms(1) refl)
  have "ingest_stage.world_ok sinv w" using assms(5,6) by (simp add: ingest_stage.world_ok_def [OF stage])
  from ingest_stage.ingest_delivery [OF stage assms(2-4) this, of e] show ?thesis
    unfolding ingest_stage.persisted_def [OF stage] by (elim exE conjE) (intro exI conjI)
qed

definition feed_env :: "(memstore, unit) ingest_env" where
  "feed_env = \<lparr>ie_sha = toy_sha, ie_fr = \<lambda>_. [], ie_store = memstore_ops,
     ie_scrape = \<lambda>t l e. (Inr [ok_result sample_article, mk_result ''error'' ''rss'', ok_result sample_article], e)\<rparr>"

definition feed_message :: ingest_message where
  "feed_message = \<lparr>im_job_id = ''j'', im_platform = ''substack'', im_target = ''x.substack.com'', im_bucket = ''finance'', im_limit = 25\<rparr>"

theorem ingest_settles_job_witness:
  "\<exists>r w' e' j'. handle_ingest_job feed_env (ingest_dict feed_message) (page_world, ()) = (r, (w', e')) \<and>
    get_job ''j'' (tw_db w') = Some j' \<and> (case r of Inr n \<Rightarrow> j_status j' = Done | Inl x \<Rightarrow> j_status j' = JobError)"
proof -
  have store: "object_store (ie_store feed_env) (\<lambda>_. True) memstore_view"
    using memstore.object_store_axioms by (simp add: feed_env_def)
  have job: "\<exists>j. get_job (im_job_id feed_message) (tw_db page_world) = Some j"
    by (simp add: get_job_def find_by_def feed_message_def page_world_def)
  then obtain j where j: "get_job (im_job_id feed_message) (tw_db page_world) = Some j" by blast
  have ok: "db_ok (tw_db page_world)" by (simp add: db_ok_def page_world_def db_empty_def)
  have plat: "im_platform feed_message = ''substack''" by (simp add: feed_message_def)
  have id: "im_job_id feed_message = ''j''" by (simp add: feed_message_def)
  from ingest_settles_job [OF store read_ingest_dict plat j TrueI ok, of "()"] show ?thesis
    unfolding id by (elim exE conjE) (intro exI conjI, assumption+, auto split: sum.splits)
qed

end
