(* ===== verification/Scheduler.thy ===== *)
theory Scheduler
  imports Worker_Messages
begin

text \<open>
  The producers' half of the pipeline: the state that every submitter of jobs changes, and the
  scheduler, \<open>worker/scheduler.py\<close>.

  A submitter draws an id from \<open>uuid.uuid4().hex\<close> (\<open>pw_uuids\<close>, the values still to be drawn), commits a
  job row and then publishes a message.  The queue is any implementation of the port.
\<close>

section \<open>State\<close>

record pworld =
  pw_db :: db
  pw_clock :: "nat \<Rightarrow> datetime"
  pw_uuids :: "nat \<Rightarrow> string"

definition draw_uuid :: "(pworld, string) py" where
  "draw_uuid w = (Inr (pw_uuids w 0), w\<lparr>pw_uuids := (\<lambda>n. pw_uuids w (Suc n))\<rparr>)"

definition store_job :: "string \<Rightarrow> string \<Rightarrow> pydict \<Rightarrow> (pworld, job_row) py" where
  "store_job job_id source params w = (case create_job job_id source params (pw_clock w 0) (pw_db w) of
     (r, d) \<Rightarrow> (r, w\<lparr>pw_db := d, pw_clock := (\<lambda>n. pw_clock w (Suc n))\<rparr>))"

section \<open>The scheduler\<close>

text \<open>\<open>int(x)\<close> of a JSON value.\<close>

definition int_text :: "string \<Rightarrow> exn + int" where
  "int_text s =
     (let t = strip s; neg = starts_with ''-'' t; u = (if neg \<or> starts_with ''+'' t then tl t else t);
          parts = split_on (CHR ''_'') u
      in if list_all (\<lambda>p. p \<noteq> [] \<and> list_all is_digit p) parts
         then Inr ((if neg then -1 else 1) * int (nat_of_digits (concat parts)))
         else Inl (ValueError (''invalid literal for int() with base 10: '' @ py_repr s)))"

definition trunc_float :: "pyfloat \<Rightarrow> exn + int" where
  "trunc_float f = (case f of
      Fin r \<Rightarrow> Inr (if r \<ge> 0 then \<lfloor>r\<rfloor> else \<lceil>r\<rceil>)
    | NaN \<Rightarrow> Inl (ValueError ''cannot convert float NaN to integer'')
    | _ \<Rightarrow> Inl (OverflowError ''cannot convert float infinity to integer''))"

definition int_type_error :: "string \<Rightarrow> exn" where
  "int_type_error kind = TypeError (''int() argument must be a string, a bytes-like object or a real number, not '' @ py_repr kind)"

fun py_int :: "json \<Rightarrow> exn + int" where
  "py_int (JInt i) = Inr i"
| "py_int (JBool b) = Inr (if b then 1 else 0)"
| "py_int (JFloat f) = trunc_float f"
| "py_int (JStr s) = int_text s"
| "py_int JNull = Inl (int_type_error ''NoneType'')"
| "py_int (JList xs) = Inl (int_type_error ''list'')"
| "py_int (JObj kvs) = Inl (int_type_error ''dict'')"

definition list_enabled_sources :: "db \<Rightarrow> source_row list" where
  "list_enabled_sources d = sort_key s_id (filter s_enabled (db_sources d))"

text \<open>\<open>source.params.get("url") or source.name\<close>\<close>

definition source_target :: "source_row \<Rightarrow> json" where
  "source_target s = (case dict_get (s_params s) ''url'' of
      Some v \<Rightarrow> if truthy v then v else JStr (s_name s)
    | None \<Rightarrow> JStr (s_name s))"

text \<open>The queue and the message of one source.\<close>

definition source_message :: "string \<Rightarrow> string \<Rightarrow> source_row \<Rightarrow> string \<Rightarrow> exn + (string \<times> pydict)" where
  "source_message job_queue ingest_queue s job_id =
     (let platform = dict_get (s_params s) ''platform'' in
      if platform \<noteq> None \<and> truthy (the platform)
      then sum_bind (py_int (case dict_get (s_params s) ''limit'' of Some v \<Rightarrow> v | None \<Rightarrow> JInt 25)) (\<lambda>limit.
        Inr (ingest_queue, message_dict [(''job_id'', JStr job_id), (''platform'', the platform),
          (''target'', source_target s), (''bucket'', JStr (s_bucket s)), (''limit'', JInt limit)]))
      else Inr (job_queue, message_dict [(''job_id'', JStr job_id), (''url'', source_target s), (''bucket'', JStr (s_bucket s))]))"

definition enqueue_source :: "'q mq_ops \<Rightarrow> string \<Rightarrow> string \<Rightarrow> source_row \<Rightarrow> ('q \<times> pworld, unit) py" where
  "enqueue_source qops job_queue ingest_queue s =
     py_bind (on_snd draw_uuid) (\<lambda>job_id.
     py_bind (on_snd (store_job job_id (s_name s) (s_params s))) (\<lambda>_.
     py_bind (py_lift (source_message job_queue ingest_queue s job_id)) (\<lambda>(q, msg).
     py_bind (on_fst (op_publish qops q msg)) (\<lambda>_. py_ret ()))))"

fun enqueue_sources :: "'q mq_ops \<Rightarrow> string \<Rightarrow> string \<Rightarrow> source_row list \<Rightarrow> nat \<Rightarrow> ('q \<times> pworld, nat) py" where
  "enqueue_sources qops job_queue ingest_queue [] count = py_ret count"
| "enqueue_sources qops job_queue ingest_queue (s # ss) count =
     py_bind (enqueue_source qops job_queue ingest_queue s)
       (\<lambda>_. enqueue_sources qops job_queue ingest_queue ss (count + 1))"

definition enqueue_due_sources :: "'q mq_ops \<Rightarrow> string \<Rightarrow> string \<Rightarrow> ('q \<times> pworld, nat) py" where
  "enqueue_due_sources qops job_queue ingest_queue s =
     enqueue_sources qops job_queue ingest_queue (list_enabled_sources (pw_db (snd s))) 0 s"

section \<open>The contract\<close>

text \<open>
  A source as the schema describes it: its platform and its URL are strings, its limit a number.
  \<open>scheduled\<close> is the typed message such a source stands for.
\<close>

definition source_ok :: "source_row \<Rightarrow> bool" where
  "source_ok s = ((case dict_get (s_params s) ''platform'' of None \<Rightarrow> True | Some (JStr p) \<Rightarrow> True | _ \<Rightarrow> False) \<and>
     (case dict_get (s_params s) ''url'' of None \<Rightarrow> True | Some (JStr u) \<Rightarrow> True | _ \<Rightarrow> False) \<and>
     (case dict_get (s_params s) ''limit'' of None \<Rightarrow> True | Some (JInt l) \<Rightarrow> True | _ \<Rightarrow> False))"

definition param_str :: "source_row \<Rightarrow> string \<Rightarrow> string option" where
  "param_str s k = (case dict_get (s_params s) k of Some (JStr v) \<Rightarrow> Some v | _ \<Rightarrow> None)"

definition is_publication :: "source_row \<Rightarrow> bool" where
  "is_publication s = (str_or (param_str s ''platform'') [] \<noteq> [])"

definition scheduled :: "string \<Rightarrow> source_row \<Rightarrow> pydict" where
  "scheduled i s = (let target = str_or (param_str s ''url'') (s_name s) in
     if is_publication s
     then ingest_dict \<lparr>im_job_id = i, im_platform = str_or (param_str s ''platform'') [], im_target = target,
       im_bucket = s_bucket s, im_limit = (case dict_get (s_params s) ''limit'' of Some (JInt l) \<Rightarrow> l | _ \<Rightarrow> 25)\<rparr>
     else job_dict \<lparr>jm_job_id = i, jm_url = target, jm_bucket = Some (s_bucket s)\<rparr>)"

lemma source_target_str:
  "source_ok s \<Longrightarrow> source_target s = JStr (str_or (param_str s ''url'') (s_name s))"
  by (auto simp: source_ok_def source_target_def param_str_def str_or_def split: option.splits json.splits list.splits)

lemma source_message_scheduled:
  assumes "source_ok s"
  shows "source_message jq iq s i = Inr (if is_publication s then iq else jq, scheduled i s)"
proof -
  have pub: "is_publication s \<longleftrightarrow> dict_get (s_params s) ''platform'' \<noteq> None \<and> truthy (the (dict_get (s_params s) ''platform''))"
    using assms by (auto simp: source_ok_def is_publication_def param_str_def str_or_def split: option.splits json.splits list.splits)
  show ?thesis
  proof (cases "is_publication s")
    case True
    obtain p where p: "dict_get (s_params s) ''platform'' = Some (JStr p)" "p \<noteq> []"
      using True by (auto simp: is_publication_def param_str_def str_or_def split: option.splits json.splits list.splits)
    have l: "py_int (case dict_get (s_params s) ''limit'' of Some v \<Rightarrow> v | None \<Rightarrow> JInt 25) =
        Inr (case dict_get (s_params s) ''limit'' of Some (JInt l) \<Rightarrow> l | _ \<Rightarrow> 25)"
      using assms by (auto simp: source_ok_def split: option.splits json.splits)
    have pp: "str_or (param_str s ''platform'') [] = p" using p by (cases p) (simp_all add: param_str_def str_or_def)
    show ?thesis
      using True pub p(1) l pp source_target_str [OF assms]
      by (simp add: source_message_def sum_bind_def scheduled_def ingest_dict_def Let_def)
  next
    case False
    then have n: "\<not> (dict_get (s_params s) ''platform'' \<noteq> None \<and> truthy (the (dict_get (s_params s) ''platform'')))"
      unfolding pub .
    show ?thesis
      unfolding source_message_def Let_def if_not_P [OF n]
      using False source_target_str [OF assms] by (simp add: scheduled_def job_dict_def opt_str_def Let_def)
  qed
qed

lemma scheduled_ok: "payload_ok (scheduled i s)"
  by (simp add: scheduled_def Let_def ingest_dict_ok job_dict_ok)

text \<open>What the consumer of the queue reads from it.\<close>

lemma scheduled_read:
  "if is_publication s then map_sum (\<lambda>e. e) im_job_id (read_ingest (scheduled i s)) = Inr i
   else map_sum (\<lambda>e. e) jm_job_id (read_job (scheduled i s)) = Inr i"
  by (simp add: scheduled_def Let_def read_ingest_dict read_job_dict)

lemma store_job_fresh:
  assumes "get_job i (pw_db w) = None"
  shows "\<exists>w' j. store_job i src ps w = (Inr j, w') \<and> j_id j = i \<and> j_status j = Queued \<and> j_source j = src \<and>
    j_params j = ps \<and> db_jobs (pw_db w') = db_jobs (pw_db w) @ [j] \<and> pw_uuids w' = pw_uuids w"
  using assms by (simp add: store_job_def create_job_def Let_def)

text \<open>The row a scheduled source leaves.\<close>

definition queued_as :: "string \<times> source_row \<Rightarrow> job_row \<Rightarrow> bool" where
  "queued_as x j = (j_id j = fst x \<and> j_status j = Queued \<and> j_source j = s_name (snd x) \<and> j_params j = s_params (snd x))"

text \<open>The messages for the sources of one kind, in order.\<close>

definition jobs_for :: "string list \<Rightarrow> source_row list \<Rightarrow> bool \<Rightarrow> pydict list" where
  "jobs_for ids ss pub = map (\<lambda>(i, s). scheduled i s) (filter (\<lambda>(i, s). is_publication s = pub) (zip ids ss))"

context message_queue
begin

lemma enqueue_source_effect:
  assumes "inv q" and "valid jq" and "valid iq" and "source_ok s" and "get_job (pw_uuids w 0) (pw_db w) = None"
  shows "\<exists>q' w' j k. enqueue_source ops jq iq s (q, w) = (Inr (), (q', w')) \<and> inv q' \<and>
    pw_uuids w' = (\<lambda>n. pw_uuids w (Suc n)) \<and> db_jobs (pw_db w') = db_jobs (pw_db w) @ [j] \<and>
    queued_as (pw_uuids w 0, s) j \<and>
    abs q' = a_publish k (if is_publication s then iq else jq) (scheduled (pw_uuids w 0) s) (abs q)"
proof -
  let ?i = "pw_uuids w 0" and ?qn = "if is_publication s then iq else jq"
  let ?w0 = "w\<lparr>pw_uuids := (\<lambda>n. pw_uuids w (Suc n))\<rparr>"
  obtain w' j where j: "store_job ?i (s_name s) (s_params s) ?w0 = (Inr j, w')" "j_id j = ?i" "j_status j = Queued"
    "j_source j = s_name s" "j_params j = s_params s" "db_jobs (pw_db w') = db_jobs (pw_db w) @ [j]"
    "pw_uuids w' = (\<lambda>n. pw_uuids w (Suc n))"
    using store_job_fresh [of ?i ?w0 "s_name s" "s_params s"] assms(5) by auto
  have "valid ?qn" using assms(2,3) by simp
  from publish_refines [OF assms(1) this scheduled_ok [of ?i s]]
  obtain k q' where q': "op_publish ops ?qn (scheduled ?i s) q = (Inr k, q')" "inv q'"
    "abs q' = a_publish k ?qn (scheduled ?i s) (abs q)" by blast
  have "enqueue_source ops jq iq s (q, w) = (Inr (), (q', w'))"
    using j(1) q'(1) by (simp add: enqueue_source_def py_monad_defs on_snd_def on_fst_def draw_uuid_def py_lift_def
        source_message_scheduled [OF assms(4)])
  then show ?thesis
    using q' j by (intro exI [of _ q'] exI [of _ w'] exI [of _ j] exI [of _ k]) (simp add: queued_as_def)
qed

text \<open>The payloads waiting on a queue.\<close>

definition payloads :: "'s \<Rightarrow> string \<Rightarrow> pydict list" where
  "payloads q n = map m_payload (aq_wait (abs q) n)"

lemma enqueue_sources_effect:
  assumes "inv q" and "valid jq" and "valid iq" and "jq \<noteq> iq" and "\<forall>s \<in> set ss. source_ok s"
    and "inj_on (pw_uuids w) {..<length ss}" and "\<forall>n < length ss. get_job (pw_uuids w n) (pw_db w) = None"
    and "ids = map (pw_uuids w) [0..<length ss]"
  shows "\<exists>q' w' js. enqueue_sources ops jq iq ss c (q, w) = (Inr (c + length ss), (q', w')) \<and> inv q' \<and>
    db_jobs (pw_db w') = db_jobs (pw_db w) @ js \<and> list_all2 queued_as (zip ids ss) js \<and>
    payloads q' iq = payloads q iq @ jobs_for ids ss True \<and> payloads q' jq = payloads q jq @ jobs_for ids ss False \<and>
    (\<forall>n. n \<noteq> iq \<and> n \<noteq> jq \<longrightarrow> payloads q' n = payloads q n)"
  using assms
proof (induction ss arbitrary: q w c ids)
  case Nil
  then show ?case by (simp add: py_ret_def jobs_for_def)
next
  case (Cons s ss)
  let ?i = "pw_uuids w 0"
  obtain q1 w1 j k where s1: "enqueue_source ops jq iq s (q, w) = (Inr (), (q1, w1))" "inv q1"
    "pw_uuids w1 = (\<lambda>n. pw_uuids w (Suc n))" "db_jobs (pw_db w1) = db_jobs (pw_db w) @ [j]" "queued_as (?i, s) j"
    "abs q1 = a_publish k (if is_publication s then iq else jq) (scheduled ?i s) (abs q)"
    using enqueue_source_effect [OF Cons.prems(1-3), of s w] Cons.prems(5,7) by auto
  have ids: "ids = ?i # map (pw_uuids w1) [0..<length ss]"
    using Cons.prems(8) by (simp add: s1(3) upt_rec [of 0] map_Suc_upt [symmetric] comp_def del: upt_Suc)
  have inj: "inj_on (pw_uuids w1) {..<length ss}"
    using Cons.prems(6) unfolding s1(3) by (auto simp: inj_on_def)
  have fresh: "\<forall>n < length ss. get_job (pw_uuids w1 n) (pw_db w1) = None"
  proof (intro allI impI)
    fix n assume n: "n < length ss"
    have "pw_uuids w (Suc n) \<noteq> ?i" using Cons.prems(6) n by (auto simp: inj_on_def)
    moreover have "get_job (pw_uuids w (Suc n)) (pw_db w) = None" using Cons.prems(7) n by simp
    ultimately show "get_job (pw_uuids w1 n) (pw_db w1) = None"
      using s1(3,5) by (simp add: get_job_def s1(4) find_by_append find_by_single queued_as_def)
  qed
  obtain q' w' js where ih: "enqueue_sources ops jq iq ss (c + 1) (q1, w1) = (Inr (c + 1 + length ss), (q', w'))" "inv q'"
    "db_jobs (pw_db w') = db_jobs (pw_db w1) @ js" "list_all2 queued_as (zip (map (pw_uuids w1) [0..<length ss]) ss) js"
    "payloads q' iq = payloads q1 iq @ jobs_for (map (pw_uuids w1) [0..<length ss]) ss True"
    "payloads q' jq = payloads q1 jq @ jobs_for (map (pw_uuids w1) [0..<length ss]) ss False"
    "\<forall>n. n \<noteq> iq \<and> n \<noteq> jq \<longrightarrow> payloads q' n = payloads q1 n"
    using Cons.IH [OF s1(2) Cons.prems(2-4) _ inj fresh refl, of "c + 1"] Cons.prems(5) by auto
  have p1: "payloads q1 n = payloads q n @ (if n = (if is_publication s then iq else jq) then [scheduled ?i s] else [])" for n
    by (auto simp: payloads_def s1(6) a_publish_def)
  have run: "enqueue_sources ops jq iq (s # ss) c (q, w) = (Inr (c + length (s # ss)), (q', w'))"
    using s1(1) ih(1) by (simp add: py_monad_defs)
  show ?case
    using run ih s1(4,5) p1 Cons.prems(4)
    by (intro exI [of _ q'] exI [of _ w'] exI [of _ "j # js"]) (auto simp: ids jobs_for_def)
qed

end

text \<open>
  C39.  A tick of the scheduler, over any queue: the enabled sources are handled in the order of their
  ids; each gets one queued job row with a fresh id, and one message under that id, on the ingest
  queue for a publication and on the job queue otherwise, appended in order and readable by the
  worker of that queue.  Disabled sources and other queues are left alone.
\<close>

theorem scheduler_enqueues:
  assumes "message_queue qops valid qinv qabs rest" and "qinv q" and "valid jq" and "valid iq" and "jq \<noteq> iq"
    and "ss = list_enabled_sources (pw_db w)" and "\<forall>s \<in> set ss. source_ok s"
    and "inj_on (pw_uuids w) {..<length ss}" and "\<forall>n < length ss. get_job (pw_uuids w n) (pw_db w) = None"
    and "ids = map (pw_uuids w) [0..<length ss]"
  shows "\<exists>q' w' js. enqueue_due_sources qops jq iq (q, w) = (Inr (length ss), (q', w')) \<and>
    db_jobs (pw_db w') = db_jobs (pw_db w) @ js \<and> list_all2 queued_as (zip ids ss) js \<and>
    map m_payload (aq_wait (qabs q') iq) = map m_payload (aq_wait (qabs q) iq) @ jobs_for ids ss True \<and>
    map m_payload (aq_wait (qabs q') jq) = map m_payload (aq_wait (qabs q) jq) @ jobs_for ids ss False \<and>
    (\<forall>n. n \<noteq> iq \<and> n \<noteq> jq \<longrightarrow> map m_payload (aq_wait (qabs q') n) = map m_payload (aq_wait (qabs q) n)) \<and>
    (\<forall>(i, s) \<in> set (zip ids ss). s_enabled s \<and>
       (if is_publication s then map_sum (\<lambda>e. e) im_job_id (read_ingest (scheduled i s)) = Inr i
        else map_sum (\<lambda>e. e) jm_job_id (read_job (scheduled i s)) = Inr i))"
proof -
  note mq = assms(1)
  have en: "s_enabled s" if "(i, s) \<in> set (zip ids ss)" for i s
    using set_zip_rightD [OF that] assms(6) by (simp add: list_enabled_sources_def)
  have readable: "\<forall>(i, s) \<in> set (zip ids ss). s_enabled s \<and>
       (if is_publication s then map_sum (\<lambda>e. e) im_job_id (read_ingest (scheduled i s)) = Inr i
        else map_sum (\<lambda>e. e) jm_job_id (read_job (scheduled i s)) = Inr i)"
    by (intro ballI, clarify, intro conjI, erule en, rule scheduled_read)
  have tick: "enqueue_due_sources qops jq iq (q, w) = enqueue_sources qops jq iq ss 0 (q, w)"
    by (simp only: enqueue_due_sources_def snd_conv assms(6))
  from message_queue.enqueue_sources_effect [OF mq assms(2-5,7-10), of 0] show ?thesis
    unfolding message_queue.payloads_def [OF mq] tick add_0
    by (elim exE conjE) (intro exI conjI, assumption+, rule readable)
qed

text \<open>
  Order of effects in the scheduler: when a publication's limit cannot be read as a number, the
  exception leaves after the job row was committed and before anything was published: the job stays
  queued and no message will ever run it.
\<close>

theorem scheduler_orphan_job:
  assumes "platform \<noteq> []" and "dict_get (s_params s) ''platform'' = Some (JStr platform)"
    and "dict_get (s_params s) ''limit'' = Some v" and "py_int v = Inl e" and "get_job (pw_uuids w 0) (pw_db w) = None"
  shows "\<exists>w' j. enqueue_source qops jq iq s (q, w) = (Inl e, (q, w')) \<and> db_jobs (pw_db w') = db_jobs (pw_db w) @ [j] \<and>
    queued_as (pw_uuids w 0, s) j"
proof -
  let ?w0 = "w\<lparr>pw_uuids := (\<lambda>n. pw_uuids w (Suc n))\<rparr>"
  obtain w' j where "store_job (pw_uuids w 0) (s_name s) (s_params s) ?w0 = (Inr j, w')" "j_id j = pw_uuids w 0"
    "j_status j = Queued" "j_source j = s_name s" "j_params j = s_params s" "db_jobs (pw_db w') = db_jobs (pw_db w) @ [j]"
    using store_job_fresh [of "pw_uuids w 0" ?w0 "s_name s" "s_params s"] assms(5) by auto
  then show ?thesis
    using assms(1-4) by (simp add: enqueue_source_def py_monad_defs on_snd_def draw_uuid_def py_lift_def
        source_message_def sum_bind_def queued_as_def)
qed

definition feed_source :: "int \<Rightarrow> pydict \<Rightarrow> source_row" where
  "feed_source i ps = \<lparr>s_id = i, s_name = ''feed'', s_bucket = ''finance'', s_params = ps, s_cron = None, s_enabled = i \<noteq> 3\<rparr>"

definition tick_world :: pworld where
  "tick_world = \<lparr>pw_db = db_empty\<lparr>db_sources := [feed_source 2 [(''platform'', JStr ''substack''), (''url'', JStr ''x.substack.com'')],
       feed_source 3 [], feed_source 1 [(''url'', JStr ''https://ft.com/a'')]]\<rparr>,
     pw_clock = int, pw_uuids = \<lambda>n. replicate n (CHR ''i'')\<rparr>"

definition idle_queue :: memq where "idle_queue = memq_init (\<lambda>n. replicate n (CHR ''u''))"

lemma idle_queue_inv: "memq_inv idle_queue"
proof -
  have "inj (\<lambda>n. replicate n (CHR ''u''))" by (rule injI) (metis length_replicate)
  then show ?thesis
    unfolding memq_inv_def idle_queue_def
    by (auto simp: memq_abs_def memq_init_def aq_ok_def all_ids_def wait_ids_def fly_ids_def dead_ids_def)
qed

theorem scheduler_enqueues_witness:
  "\<exists>q' w' js. enqueue_due_sources memq_ops ''jobs'' ''ingest'' (idle_queue, tick_world) = (Inr 2, (q', w')) \<and>
    db_jobs (pw_db w') = js \<and> map j_id js = [[], ''i''] \<and>
    map m_payload (aq_wait (memq_abs q') ''jobs'') = [scheduled [] (feed_source 1 [(''url'', JStr ''https://ft.com/a'')])]"
proof -
  let ?ss = "[feed_source 1 [(''url'', JStr ''https://ft.com/a'')],
    feed_source 2 [(''platform'', JStr ''substack''), (''url'', JStr ''x.substack.com'')]]"
  have ss: "?ss = list_enabled_sources (pw_db tick_world)"
    by (simp add: list_enabled_sources_def tick_world_def feed_source_def)
  have ok: "\<forall>s \<in> set ?ss. source_ok s" by (simp add: source_ok_def feed_source_def dict_get_def)
  have inj: "inj_on (pw_uuids tick_world) {..<length ?ss}"
    by (rule inj_onI) (metis (no_types, lifting) length_replicate pworld.select_convs(3) tick_world_def)
  have fresh: "\<forall>n < length ?ss. get_job (pw_uuids tick_world n) (pw_db tick_world) = None"
    by (simp add: get_job_def find_by_def tick_world_def db_empty_def)
  have ids: "[[], ''i''] = map (pw_uuids tick_world) [0..<length ?ss]"
    by (simp add: tick_world_def upt_rec)
  have p: "\<not> is_publication (hd ?ss)" "is_publication (?ss ! 1)"
    by (simp_all add: is_publication_def param_str_def feed_source_def dict_get_def str_or_def)
  have idle: "aq_wait (memq_abs idle_queue) n = []" for n
    by (simp add: idle_queue_def memq_abs_def memq_init_def)
  have "''jobs'' \<noteq> ''ingest''" by simp
  from scheduler_enqueues [OF memq.message_queue_axioms idle_queue_inv TrueI TrueI this ss ok inj fresh ids]
  obtain q' w' js where r: "enqueue_due_sources memq_ops ''jobs'' ''ingest'' (idle_queue, tick_world) = (Inr (length ?ss), (q', w'))"
    "db_jobs (pw_db w') = db_jobs (pw_db tick_world) @ js" "list_all2 queued_as (zip [[], ''i''] ?ss) js"
    "map m_payload (aq_wait (memq_abs q') ''jobs'') = map m_payload (aq_wait (memq_abs idle_queue) ''jobs'') @ jobs_for [[], ''i''] ?ss False"
    by (elim exE conjE) (rule that)
  have "db_jobs (pw_db tick_world) = []" by (simp add: tick_world_def db_empty_def)
  moreover have "map j_id js = [[], ''i'']" using r(3) by (auto simp: list_all2_Cons1 queued_as_def)
  ultimately show ?thesis using r p by (intro exI [of _ q'] exI [of _ w'] exI [of _ js]) (simp add: idle jobs_for_def)
qed

theorem scheduler_orphan_job_witness:
  "\<exists>e w' j. enqueue_source memq_ops ''jobs'' ''ingest''
      (feed_source 1 [(''platform'', JStr ''substack''), (''limit'', JStr ''all'')]) (idle_queue, tick_world) = (Inl e, (idle_queue, w')) \<and>
    db_jobs (pw_db w') = [j] \<and> j_status j = Queued"
proof -
  let ?s = "feed_source 1 [(''platform'', JStr ''substack''), (''limit'', JStr ''all'')]"
  have "\<exists>e. py_int (JStr ''all'') = Inl e" by (simp add: int_text_def py_string_defs Let_def)
  then obtain e where e: "py_int (JStr ''all'') = Inl e" by blast
  have "''substack'' \<noteq> []" "dict_get (s_params ?s) ''platform'' = Some (JStr ''substack'')"
    "dict_get (s_params ?s) ''limit'' = Some (JStr ''all'')"
    by (simp_all add: feed_source_def dict_get_def)
  moreover have "get_job (pw_uuids tick_world 0) (pw_db tick_world) = None" "db_jobs (pw_db tick_world) = []"
    by (simp_all add: get_job_def find_by_def tick_world_def db_empty_def)
  ultimately show ?thesis
    using scheduler_orphan_job [where s = ?s and w = tick_world and qops = memq_ops and jq = "''jobs''" and iq = "''ingest''"
        and q = idle_queue and platform = "''substack''" and v = "JStr ''all''"] e
    by (auto simp: queued_as_def)
qed

end
