(* ===== verification/Settings.thy ===== *)
theory Settings
  imports Prelude
begin

text \<open>
  The configuration helpers that compute something: \<open>config/settings.py\<close> and \<open>core/llm/settings.py\<close>.
  The rest of the settings classes are values that the operations of the other theories take as
  arguments.
\<close>

text \<open>A comma-separated list without empty entries.\<close>

definition csv_list :: "string \<Rightarrow> string list" where
  "csv_list s = map strip (filter (\<lambda>k. strip k \<noteq> []) (split_on (CHR '','') s))"

definition api_key_set :: "string \<Rightarrow> string set" where
  "api_key_set api_keys = set (csv_list api_keys)"

definition summary_portfolio :: "string \<Rightarrow> string list" where
  "summary_portfolio s = csv_list s"

definition summary_interests :: "string \<Rightarrow> string list" where
  "summary_interests s = csv_list s"

text \<open>The validator of \<open>STATE_STORE_KEY\<close>, up to the wording of its message.\<close>

definition state_store_key_ok :: "string \<Rightarrow> bool" where
  "state_store_key_ok v = (length v \<ge> 32)"

lemma csv_list_clean: "k \<in> set (csv_list s) \<Longrightarrow> k \<noteq> [] \<and> CHR '','' \<notin> set k \<and> strip k = k"
proof -
  assume "k \<in> set (csv_list s)"
  then obtain p where p: "p \<in> set (split_on (CHR '','') s)" "k = strip p" "strip p \<noteq> []"
    by (auto simp: csv_list_def)
  have "CHR '','' \<notin> set k" using split_on_no_sep [OF p(1)] set_strip_by p(2) by fastforce
  moreover have "strip k = k" by (simp add: p(2) strip_strip)
  ultimately show ?thesis using p by simp
qed

text \<open>Without a configured key the set is empty, and the API rejects everything.\<close>

lemma api_key_set_blank: "list_all is_space s \<Longrightarrow> api_key_set s = {}"
proof -
  assume blank: "list_all is_space s"
  have "\<not> is_space (CHR '','')" by (simp add: is_space_def)
  with blank have "CHR '','' \<notin> set s" unfolding list_all_iff by blast
  then have "split_on (CHR '','') s = [s]" by (rule split_on_id)
  moreover have "strip s = []"
  proof -
    have "dropWhile is_space s = []" using blank by (simp add: list_all_iff)
    then show ?thesis by (simp only: strip_by_def lstrip_by_def rstrip_by_def rev.simps dropWhile.simps)
  qed
  ultimately show ?thesis by (simp add: api_key_set_def csv_list_def)
qed

end
