(* ===== verification/Api.thy ===== *)
theory Api
  imports Scheduler Settings
begin

text \<open>
  The serving plane: authentication and the per-key rate limit (\<open>api/auth.py\<close>), and the endpoints
  (\<open>api/routes\<close>).

  A request carries the reading of \<open>time.time()\<close> and its \<open>X-API-Key\<close> header.  FastAPI resolves the
  dependencies before the handler runs; a request that \<open>require_api_key\<close> refuses reaches no handler.
  Routing, validation of bodies and serialisation are FastAPI's and pydantic's.
\<close>

section \<open>Authentication\<close>

type_synonym counters = "string \<times> int \<Rightarrow> nat option"

definition minute_of :: "real \<Rightarrow> int" where
  "minute_of t = \<lfloor>t / 60\<rfloor>"

definition require_api_key :: "string set \<Rightarrow> int \<Rightarrow> real \<Rightarrow> string option \<Rightarrow> (counters, string) py" where
  "require_api_key valid_keys limit now key c =
     (case key of
        None \<Rightarrow> (Inl (HTTPException 401 ''invalid or missing API key''), c)
      | Some k \<Rightarrow>
          if valid_keys = {} \<or> k \<notin> valid_keys
          then (Inl (HTTPException 401 ''invalid or missing API key''), c)
          else
            (let m = minute_of now;
                 pruned = (\<lambda>x. if snd x = m then c x else None);
                 current = (case pruned (k, m) of Some n \<Rightarrow> n | None \<Rightarrow> 0)
             in if int current \<ge> limit
                then (Inl (HTTPException 429 ''rate limit exceeded''), pruned)
                else (Inr k, pruned((k, m) \<mapsto> current + 1))))"

text \<open>The requests of a server's life, and the answers of the dependency.\<close>

fun auth_run :: "string set \<Rightarrow> int \<Rightarrow> (real \<times> string option) list \<Rightarrow> counters \<Rightarrow> (exn + string) list \<times> counters" where
  "auth_run keys limit [] c = ([], c)"
| "auth_run keys limit ((t, k) # rs) c = (case require_api_key keys limit t k c of
     (r, c1) \<Rightarrow> (case auth_run keys limit rs c1 of (out, c2) \<Rightarrow> (r # out, c2)))"

section \<open>Endpoints\<close>

record job_in =
  ji_source :: string
  ji_urls :: "string list option"
  ji_bucket :: "string option"
  ji_limit :: "int option"

record job_out =
  jo_id :: string
  jo_status :: string
  jo_source :: string
  jo_result_count :: int
  jo_created_at :: datetime
  jo_error :: "string option"

definition job_out_of :: "job_row \<Rightarrow> job_out" where
  "job_out_of j = \<lparr>jo_id = j_id j, jo_status = status_str (j_status j), jo_source = j_source j,
     jo_result_count = j_result_count j, jo_created_at = j_created_at j, jo_error = j_error j\<rparr>"

definition job_params :: "job_in \<Rightarrow> pydict" where
  "job_params b = [(''urls'', case ji_urls b of None \<Rightarrow> JNull | Some us \<Rightarrow> JList (map JStr us)),
     (''bucket'', opt_str (ji_bucket b)), (''limit'', case ji_limit b of None \<Rightarrow> JNull | Some l \<Rightarrow> JInt l)]"

definition submit_job :: "'q mq_ops \<Rightarrow> string \<Rightarrow> job_in \<Rightarrow> ('q \<times> pworld, job_out) py" where
  "submit_job qops job_queue body =
     py_bind (on_snd draw_uuid) (\<lambda>job_id.
     py_bind (on_snd (store_job job_id (ji_source body) (job_params body))) (\<lambda>job.
     py_bind (on_fst (op_publish qops job_queue (message_dict [(''job_id'', JStr job_id),
         (''url'', JStr (ji_source body)), (''bucket'', opt_str (ji_bucket body))]))) (\<lambda>_.
     py_ret (job_out_of job))))"

definition get_job_by_id :: "string \<Rightarrow> db \<Rightarrow> exn + job_out" where
  "get_job_by_id i d = (case get_job i d of
      None \<Rightarrow> Inl (HTTPException 404 (''job '' @ py_repr i @ '' not found''))
    | Some j \<Rightarrow> Inr (job_out_of j))"

definition list_jobs_endpoint :: "nat \<Rightarrow> db \<Rightarrow> job_out list" where
  "list_jobs_endpoint limit d = map job_out_of (list_jobs limit d)"

record article_out =
  ao_id :: string
  ao_url :: string
  ao_domain :: string
  ao_bucket :: string
  ao_title :: string
  ao_content :: string
  ao_author :: "string option"
  ao_publish_date :: "datetime option"
  ao_fetched_at :: datetime
  ao_raw_key :: "string option"
  ao_meta :: pydict

definition article_out_of :: "article_row \<Rightarrow> article_out" where
  "article_out_of r = \<lparr>ao_id = a_id r, ao_url = a_url r, ao_domain = a_domain r, ao_bucket = a_bucket r, ao_title = a_title r,
     ao_content = a_content r, ao_author = a_author r, ao_publish_date = a_publish_date r, ao_fetched_at = a_fetched_at r,
     ao_raw_key = a_raw_key r, ao_meta = a_meta r\<rparr>"

definition list_articles ::
  "string option \<Rightarrow> string option \<Rightarrow> datetime option \<Rightarrow> nat \<Rightarrow> nat \<Rightarrow> db \<Rightarrow> article_out list" where
  "list_articles domain bucket since limit offset d = map article_out_of (query_articles domain bucket since limit offset d)"

definition get_article_by_id :: "string \<Rightarrow> db \<Rightarrow> exn + article_out" where
  "get_article_by_id i d = (case get_article i d of
      None \<Rightarrow> Inl (HTTPException 404 (''article '' @ py_repr i @ '' not found''))
    | Some r \<Rightarrow> Inr (article_out_of r))"

definition semantic_search :: "exn + unit" where
  "semantic_search = Inl (HTTPException 501 ''semantic search is a Phase-2 stub (pgvector)'')"

definition ready :: "exn + unit \<Rightarrow> exn + pydict" where
  "ready probe = (case probe of
      Inl e \<Rightarrow> Inl (HTTPException 503 (''database not ready: '' @ exn_str e))
    | Inr _ \<Rightarrow> Inr [(''status'', JStr ''ready'')])"

text \<open>An authenticated request: the handler runs only when the dependency returns.\<close>

definition authenticated ::
  "string set \<Rightarrow> int \<Rightarrow> real \<Rightarrow> string option \<Rightarrow> ('s, 'a) py \<Rightarrow> (counters \<times> 's, 'a) py" where
  "authenticated keys limit now key handler =
     py_bind (on_fst (require_api_key keys limit now key)) (\<lambda>_. on_snd handler)"

section \<open>The rate limit\<close>

text \<open>Requests and accepted requests of a key in a minute.\<close>

definition asked :: "string \<Rightarrow> int \<Rightarrow> (real \<times> string option) list \<Rightarrow> nat" where
  "asked k m rs = length (filter (\<lambda>(t, key). key = Some k \<and> minute_of t = m) rs)"

definition accepted :: "string \<Rightarrow> int \<Rightarrow> (real \<times> string option) list \<Rightarrow> (exn + string) list \<Rightarrow> nat" where
  "accepted k m rs out = length (filter (\<lambda>((t, key), r). key = Some k \<and> minute_of t = m \<and> r = Inr k) (zip rs out))"

text \<open>What is left of a key's allowance in a minute.\<close>

definition used :: "counters \<Rightarrow> string \<Rightarrow> int \<Rightarrow> nat" where
  "used c k m = (case c (k, m) of Some n \<Rightarrow> n | None \<Rightarrow> 0)"

definition counters_ok :: "string set \<Rightarrow> int \<Rightarrow> counters \<Rightarrow> int \<Rightarrow> bool" where
  "counters_ok keys limit c m = (\<exists>m0 \<le> m. \<forall>x. c x \<noteq> None \<longrightarrow> fst x \<in> keys \<and> snd x = m0 \<and> int (used c (fst x) m0) \<le> max 0 limit)"

lemma minute_mono: "t \<le> u \<Longrightarrow> minute_of t \<le> minute_of u"
  by (simp add: minute_of_def floor_mono divide_right_mono)

lemma require_ok:
  assumes "counters_ok keys limit c m" and "m \<le> minute_of t" and "require_api_key keys limit t key c = (r, c')"
  shows "counters_ok keys limit c' (minute_of t) \<and> (r = Inr k \<longrightarrow> key = Some k \<and> k \<in> keys) \<and>
    (\<forall>k' m'. minute_of t \<le> m' \<longrightarrow>
       used c' k' m' = used c k' m' + (if r = Inr k' \<and> m' = minute_of t then 1 else 0)) \<and>
    (\<forall>k'. key = Some k' \<longrightarrow> k' \<in> keys \<longrightarrow> (r = Inr k' \<longleftrightarrow> int (used c k' (minute_of t)) < limit))"
proof -
  obtain m0 where m0: "m0 \<le> m" "\<forall>x. c x \<noteq> None \<longrightarrow> fst x \<in> keys \<and> snd x = m0 \<and> int (used c (fst x) m0) \<le> max 0 limit"
    using assms(1) by (auto simp: counters_ok_def)
  show ?thesis
  proof (cases "\<exists>k'. key = Some k' \<and> k' \<in> keys")
    case False
    then have c: "c' = c" "\<exists>e. r = Inl e" using assms(3) by (auto simp: require_api_key_def split: option.splits if_splits)
    have "counters_ok keys limit c (minute_of t)"
      unfolding counters_ok_def by (rule exI [of _ m0], rule conjI [OF order_trans [OF m0(1) assms(2)] m0(2)])
    then show ?thesis using False c by auto
  next
    case True
    then obtain k' where k': "key = Some k'" "k' \<in> keys" by blast
    then have ne: "keys \<noteq> {}" by blast
    let ?m = "minute_of t"
    let ?p = "\<lambda>x. if snd x = ?m then c x else None"
    have cur: "(case ?p (k', ?m) of Some n \<Rightarrow> n | None \<Rightarrow> 0) = used c k' ?m" by (simp add: used_def)
    have run: "(r, c') = (if int (used c k' ?m) \<ge> limit then (Inl (HTTPException 429 ''rate limit exceeded''), ?p)
        else (Inr k', ?p((k', ?m) \<mapsto> used c k' ?m + 1)))"
      using assms(3) k' ne unfolding cur [symmetric] by (simp add: require_api_key_def Let_def)
    have low: "c x \<noteq> None \<Longrightarrow> snd x = ?m \<Longrightarrow> int (used c (fst x) ?m) \<le> max 0 limit" for x
      using m0(2) by metis
    have key: "c x \<noteq> None \<Longrightarrow> fst x \<in> keys" for x using m0(2) by blast
    have later: "c (k2, m2) = None" if "?m < m2" for k2 m2 using m0 assms(2) that by fastforce
    show ?thesis
    proof (cases "int (used c k' ?m) \<ge> limit")
      case True
      then have rc: "r = Inl (HTTPException 429 ''rate limit exceeded'')" "c' = ?p" using run by simp_all
      have u: "used c' a ?m = used c a ?m" for a by (simp add: rc used_def)
      have ok: "counters_ok keys limit c' ?m"
        unfolding counters_ok_def
      proof (intro exI [of _ ?m] conjI allI impI order_refl)
        fix x assume x: "c' x \<noteq> None"
        then have cx: "c x \<noteq> None" "snd x = ?m" by (auto simp: rc split: if_splits)
        then show "snd x = ?m" "fst x \<in> keys" using key by blast+
        show "int (used c' (fst x) ?m) \<le> max 0 limit" using low [OF cx] u by simp
      qed
      have "used c' a m2 = used c a m2" if "?m \<le> m2" for a m2
        using u [of a] later [of m2 a] that by (cases "m2 = ?m") (auto simp: rc used_def)
      then show ?thesis using ok True k' rc(1) by auto
    next
      case False
      then have rc: "r = Inr k'" "c' = ?p((k', ?m) \<mapsto> used c k' ?m + 1)" using run by simp_all
      have u: "used c' a ?m = (if a = k' then used c a ?m + 1 else used c a ?m)" for a by (simp add: rc used_def)
      have ok: "counters_ok keys limit c' ?m"
        unfolding counters_ok_def
      proof (intro exI [of _ ?m] conjI allI impI order_refl)
        fix x assume x: "c' x \<noteq> None"
        then show "snd x = ?m" by (auto simp: rc split: if_splits)
        show "fst x \<in> keys" using x k' key by (auto simp: rc split: if_splits)
        show "int (used c' (fst x) ?m) \<le> max 0 limit"
        proof (cases "fst x = k'")
          case True
          then show ?thesis using False u by simp
        next
          case ne: False
          then have "c x \<noteq> None" "snd x = ?m" using x by (auto simp: rc split: if_splits)
          then show ?thesis using low u ne by simp
        qed
      qed
      have "used c' a m2 = used c a m2 + (if r = Inr a \<and> m2 = ?m then 1 else 0)" if "?m \<le> m2" for a m2
        using u [of a] later [of m2 a] that by (cases "m2 = ?m") (auto simp: rc used_def)
      then show ?thesis using ok False k' rc(1) by auto
    qed
  qed
qed

lemma auth_run_counts:
  assumes "sorted (map fst rs)" and "\<forall>t \<in> fst ` set rs. m \<le> minute_of t" and "counters_ok keys limit c m"
    and "auth_run keys limit rs c = (out, c')"
  shows "(\<exists>m'. counters_ok keys limit c' m') \<and> (\<forall>k \<in> keys. \<forall>n. m \<le> n \<longrightarrow> int (used c k n) \<le> max 0 limit \<longrightarrow>
      int (used c k n + accepted k n rs out) = min (max 0 limit) (int (used c k n + asked k n rs))) \<and>
    (\<forall>k n. k \<notin> keys \<longrightarrow> accepted k n rs out = 0)"
  using assms
proof (induction rs arbitrary: c m out)
  case Nil
  then show ?case by (auto simp: accepted_def asked_def)
next
  case (Cons req rs)
  obtain t key where req: "req = (t, key)" by (cases req)
  obtain r c1 where r: "require_api_key keys limit t key c = (r, c1)" by (cases "require_api_key keys limit t key c")
  obtain out' where out: "auth_run keys limit rs c1 = (out', c')" "out = r # out'"
    using Cons.prems(4) r req by (auto split: prod.splits)
  let ?m = "minute_of t"
  have mt: "m \<le> ?m" using Cons.prems(2) req by simp
  note step = require_ok [OF Cons.prems(3) mt r]
  have rk_in: "k \<in> keys" if "r = Inr k" for k using require_ok [OF Cons.prems(3) mt r, of k] that by blast
  have later: "\<forall>u \<in> fst ` set rs. ?m \<le> minute_of u" using Cons.prems(1) req minute_mono by fastforce
  have srt: "sorted (map fst rs)" using Cons.prems(1) by (simp add: req)
  have c1: "counters_ok keys limit c1 ?m" using require_ok [OF Cons.prems(3) mt r] by blast
  note ih = Cons.IH [OF srt later c1 out(1)]
  have acc: "accepted k n (req # rs) out = (if key = Some k \<and> ?m = n \<and> r = Inr k then 1 else 0) + accepted k n rs out'" for k n
    by (simp add: accepted_def out(2) req)
  have ask: "asked k n (req # rs) = (if key = Some k \<and> ?m = n then 1 else 0) + asked k n rs" for k n
    by (simp add: asked_def req)
  have none: "asked k n rs = 0 \<and> accepted k n rs out' = 0" if "n < ?m" for k n
  proof -
    have "\<not> (minute_of (fst x) = n)" if "x \<in> set rs" for x using later that \<open>n < ?m\<close> by fastforce
    then have "asked k n rs = 0" by (fastforce simp: asked_def filter_empty_conv)
    moreover have "accepted k n rs out' = 0"
      using \<open>\<And>x. x \<in> set rs \<Longrightarrow> \<not> (minute_of (fst x) = n)\<close>
      by (fastforce simp: accepted_def filter_empty_conv dest!: set_zip_leftD)
    ultimately show ?thesis by simp
  qed
  have main: "int (used c k n + accepted k n (req # rs) out) = min (max 0 limit) (int (used c k n + asked k n (req # rs)))"
    if k: "k \<in> keys" "m \<le> n" "int (used c k n) \<le> max 0 limit" for k n
  proof (cases "n < ?m")
    case True
    then show ?thesis using none [OF True, of k] acc [of k n] ask [of k n] k by simp
  next
    case False
    then have n: "?m \<le> n" by simp
    have u: "used c1 k n = used c k n + (if r = Inr k \<and> n = ?m then 1 else 0)" using step n by blast
    have rk: "r = Inr k \<Longrightarrow> key = Some k" using require_ok [OF Cons.prems(3) mt r, of k] by simp
    have iff: "key = Some k \<Longrightarrow> r = Inr k \<longleftrightarrow> int (used c k ?m) < limit" using step k(1) by blast
    have ihk: "int (used c1 k n + accepted k n rs out') = min (max 0 limit) (int (used c1 k n + asked k n rs))"
      if "int (used c1 k n) \<le> max 0 limit"
      using ih k(1) n that by blast
    show ?thesis
    proof (cases "key = Some k \<and> n = ?m")
      case False
      then have same: "used c1 k n = used c k n" using u rk by auto
      have "accepted k n (req # rs) out = accepted k n rs out'" "asked k n (req # rs) = asked k n rs"
        using False acc [of k n] ask [of k n] by auto
      then show ?thesis using ihk k(3) unfolding same by simp
    next
      case True
      show ?thesis
      proof (cases "r = Inr k")
        case acc1: True
        then have "int (used c1 k n) \<le> max 0 limit" using u True iff by auto
        then show ?thesis using ihk True acc1 acc [of k n] ask [of k n] u by auto
      next
        case rej: False
        then have "used c1 k n = used c k n" "\<not> int (used c k n) < limit" using u iff True by auto
        moreover have "int (used c1 k n + accepted k n rs out') = min (max 0 limit) (int (used c1 k n + asked k n rs))"
          using ihk k(3) calculation(1) by simp
        ultimately show ?thesis using True rej acc [of k n] ask [of k n] k(3) by auto
      qed
    qed
  qed
  have foreign: "accepted k n (req # rs) out = 0" if "k \<notin> keys" for k n
    using acc [of k n] ih rk_in that by auto
  show ?case using main ih foreign by blast
qed

text \<open>
  C8.  The rate limit, over a server's whole life: when the clock does not run backwards, a valid
  key gets exactly the configured number of requests through in every minute, or all it made when
  they were fewer, whatever other keys do in between; an unknown key, and any key when none is
  configured, gets nothing through.
\<close>

theorem api_rate_limit:
  assumes "sorted (map fst rs)"
  shows "accepted k n rs (fst (auth_run keys limit rs (\<lambda>_. None))) =
    (if k \<in> keys then min (nat limit) (asked k n rs) else 0)"
proof (cases rs)
  case Nil
  then show ?thesis by (simp add: accepted_def asked_def)
next
  case (Cons r rs')
  obtain out c' where run: "auth_run keys limit rs (\<lambda>_. None) = (out, c')" by (cases "auth_run keys limit rs (\<lambda>_. None)")
  let ?m = "min n (minute_of (fst r))"
  have "fst r \<le> t" if "t \<in> fst ` set rs" for t using assms that Cons by auto
  then have later: "\<forall>t \<in> fst ` set rs. ?m \<le> minute_of t"
    using minute_mono by (meson min.coboundedI2)
  have "counters_ok keys limit (\<lambda>_. None) ?m" unfolding counters_ok_def by (intro exI [of _ ?m]) simp
  from auth_run_counts [OF assms later this run]
  have "k \<in> keys \<Longrightarrow> int (accepted k n rs out) = min (max 0 limit) (int (asked k n rs))"
    "k \<notin> keys \<Longrightarrow> accepted k n rs out = 0"
    by (simp_all add: used_def)
  then show ?thesis unfolding run fst_conv by (cases "k \<in> keys") (auto simp: min_def max_def split: if_splits)
qed

theorem api_rate_limit_witness:
  "accepted ''a'' 1 [(60, Some ''a''), (61, Some ''b''), (62, Some ''a''), (63, Some ''a'')]
     (fst (auth_run {''a'', ''b''} 2 [(60, Some ''a''), (61, Some ''b''), (62, Some ''a''), (63, Some ''a'')] (\<lambda>_. None))) = 2"
  using api_rate_limit [of "[(60, Some ''a''), (61, Some ''b''), (62, Some ''a''), (63, Some ''a'')]" "''a''" 1 "{''a'', ''b''}" 2]
  by (simp add: asked_def minute_of_def)

section \<open>Submitting a job\<close>

context message_queue
begin

lemma submit_job_effect:
  assumes "inv q" and "valid jq" and "get_job (pw_uuids w 0) (pw_db w) = None"
  shows "\<exists>q' w' j k. submit_job ops jq body (q, w) = (Inr (job_out_of j), (q', w')) \<and> inv q' \<and>
    j_id j = pw_uuids w 0 \<and> j_status j = Queued \<and> j_source j = ji_source body \<and> j_params j = job_params body \<and>
    db_jobs (pw_db w') = db_jobs (pw_db w) @ [j] \<and>
    abs q' = a_publish k jq (job_dict \<lparr>jm_job_id = pw_uuids w 0, jm_url = ji_source body, jm_bucket = ji_bucket body\<rparr>) (abs q)"
proof -
  let ?i = "pw_uuids w 0"
  let ?w0 = "w\<lparr>pw_uuids := (\<lambda>n. pw_uuids w (Suc n))\<rparr>"
  let ?msg = "job_dict \<lparr>jm_job_id = ?i, jm_url = ji_source body, jm_bucket = ji_bucket body\<rparr>"
  obtain w' j where j: "store_job ?i (ji_source body) (job_params body) ?w0 = (Inr j, w')" "j_id j = ?i" "j_status j = Queued"
    "j_source j = ji_source body" "j_params j = job_params body" "db_jobs (pw_db w') = db_jobs (pw_db w) @ [j]"
    using store_job_fresh [of ?i ?w0 "ji_source body" "job_params body"] assms(3) by auto
  from publish_refines [OF assms(1,2) job_dict_ok]
  obtain k q' where q': "op_publish ops jq ?msg q = (Inr k, q')" "inv q'" "abs q' = a_publish k jq ?msg (abs q)" by blast
  have m: "message_dict [(''job_id'', JStr ?i), (''url'', JStr (ji_source body)), (''bucket'', opt_str (ji_bucket body))] = ?msg"
    by (simp add: job_dict_def)
  have "submit_job ops jq body (q, w) = (Inr (job_out_of j), (q', w'))"
    using j(1) q'(1) m by (simp add: submit_job_def py_monad_defs on_snd_def on_fst_def draw_uuid_def)
  then show ?thesis using q' j by blast
qed

end

text \<open>
  \<open>POST /jobs\<close> over any queue: with a valid key under its limit the answer is the new job, its row
  is stored as queued, and exactly one message, from which the scraper worker reads the job's id, URL
  and bucket, is appended to the job queue; \<open>GET /jobs/id\<close> then answers with the same job.  Any other
  request is refused and changes neither the database nor the queue.
\<close>

theorem submit_job_endpoint:
  assumes "message_queue qops valid qinv qabs rest" and "qinv q" and "valid jq"
    and "get_job (pw_uuids w 0) (pw_db w) = None"
    and "admitted = (\<exists>k. key = Some k \<and> k \<in> keys \<and> int (used c k (minute_of now)) < limit)"
    and "authenticated keys limit now key (submit_job qops jq body) (c, (q, w)) = (r, (c', (q', w')))"
  shows "if admitted
    then \<exists>j k. r = Inr (job_out_of j) \<and> j_status j = Queued \<and> db_jobs (pw_db w') = db_jobs (pw_db w) @ [j] \<and>
      get_job_by_id (j_id j) (pw_db w') = r \<and>
      (\<exists>p. qabs q' = a_publish k jq p (qabs q) \<and>
        read_job p = Inr \<lparr>jm_job_id = j_id j, jm_url = ji_source body, jm_bucket = ji_bucket body\<rparr>)
    else (\<exists>code why. r = Inl (HTTPException code why) \<and> code \<in> {401, 429}) \<and> q' = q \<and> w' = w"
proof (cases admitted)
  case True
  then obtain k where k: "key = Some k" "k \<in> keys" "int (used c k (minute_of now)) < limit" using assms(5) by blast
  then have "keys \<noteq> {}" by blast
  then obtain c1 where auth: "require_api_key keys limit now key c = (Inr k, c1)"
    using k by (simp add: require_api_key_def Let_def used_def)
  obtain q1 w1 j m where s: "submit_job qops jq body (q, w) = (Inr (job_out_of j), (q1, w1))" "j_id j = pw_uuids w 0"
    "j_status j = Queued" "db_jobs (pw_db w1) = db_jobs (pw_db w) @ [j]"
    "qabs q1 = a_publish m jq (job_dict \<lparr>jm_job_id = pw_uuids w 0, jm_url = ji_source body, jm_bucket = ji_bucket body\<rparr>) (qabs q)"
    using message_queue.submit_job_effect [OF assms(1-4), of body] by blast
  have eqs: "r = Inr (job_out_of j)" "q' = q1" "w' = w1"
    using assms(6) auth s(1) by (simp_all add: authenticated_def py_monad_defs on_fst_def on_snd_def)
  have "get_job (j_id j) (pw_db w1) = Some j"
    using assms(4) s(2,4) by (simp add: get_job_def find_by_append find_by_single)
  then have "get_job_by_id (j_id j) (pw_db w') = r" using eqs by (simp add: get_job_by_id_def)
  moreover have "qabs q' = a_publish m jq (job_dict \<lparr>jm_job_id = j_id j, jm_url = ji_source body, jm_bucket = ji_bucket body\<rparr>) (qabs q)"
    using s(2,5) eqs(2) by simp
  ultimately show ?thesis
    unfolding if_P [OF True] using s(3,4) eqs(1,3) read_job_dict by blast
next
  case False
  have "\<exists>e. fst (require_api_key keys limit now key c) = Inl e \<and> (\<exists>code why. e = HTTPException code why \<and> code \<in> {401, 429})"
    using False assms(5) by (auto simp: require_api_key_def Let_def used_def split: option.splits)
  then obtain code why c1 where "require_api_key keys limit now key c = (Inl (HTTPException code why), c1)" "code \<in> {401, 429}"
    by (metis prod.collapse)
  then show ?thesis
    using False assms(6) by (auto simp: authenticated_def py_monad_defs on_fst_def on_snd_def)
qed

theorem submit_job_endpoint_witness:
  "\<exists>j w'. (\<exists>c' q'. authenticated {''key''} 5 60 (Some ''key'')
      (submit_job memq_ops ''jobs'' \<lparr>ji_source = ''https://ft.com/a'', ji_urls = None, ji_bucket = None, ji_limit = None\<rparr>)
      (\<lambda>_. None, (idle_queue, tick_world)) = (Inr (job_out_of j), (c', (q', w')))) \<and>
    db_jobs (pw_db w') = [j] \<and> j_status j = Queued"
proof -
  let ?b = "\<lparr>ji_source = ''https://ft.com/a'', ji_urls = None, ji_bucket = None, ji_limit = None\<rparr>"
  obtain r c' q' w' where r: "authenticated {''key''} 5 60 (Some ''key'') (submit_job memq_ops ''jobs'' ?b)
      (\<lambda>_. None, (idle_queue, tick_world)) = (r, (c', (q', w')))"
    by (metis prod.collapse)
  have fresh: "get_job (pw_uuids tick_world 0) (pw_db tick_world) = None" and none: "db_jobs (pw_db tick_world) = []"
    by (simp_all add: get_job_def find_by_def tick_world_def db_empty_def)
  have "True = (\<exists>k. Some ''key'' = Some k \<and> k \<in> {''key''} \<and> int (used (\<lambda>_. None) k (minute_of 60)) < 5)"
    by (simp add: used_def)
  from submit_job_endpoint [OF memq.message_queue_axioms idle_queue_inv TrueI fresh this r]
  obtain j where "r = Inr (job_out_of j)" "j_status j = Queued" "db_jobs (pw_db w') = db_jobs (pw_db tick_world) @ [j]"
    unfolding if_True by blast
  then show ?thesis using r none by auto
qed

end
