(* ===== verification/Pyfloat.thy ===== *)
theory Pyfloat
  imports Scheduler
begin

text \<open>
  What the model-provider adapters use of Python's numbers: \<open>float()\<close>, \<open>round()\<close>, \<open>repr()\<close> of a JSON
  value, and the arithmetic of floats with their infinities and NaN.

  Floats are exact reals here, so rounding, and overflow in arithmetic, are not modelled; the
  conversion of an \<open>int\<close> fails where Python's fails.  The decimal conversions of the C library are
  the fields of \<open>pylib\<close>: the value of a numeral, the shortest numeral of a value, and the message
  of a \<open>JSONDecodeError\<close> for a text.
\<close>

record pylib =
  pl_float :: "string \<Rightarrow> pyfloat"
  pl_repr :: "real \<Rightarrow> string"
  pl_json_error :: "string \<Rightarrow> string"

section \<open>Conversions\<close>

text \<open>The numerals \<open>float\<close> accepts: digits with single underscores between them.\<close>

definition digit_part :: "string \<Rightarrow> bool" where
  "digit_part s = list_all (\<lambda>p. p \<noteq> [] \<and> list_all is_digit p) (split_on (CHR ''_'') s)"

definition unsigned :: "string \<Rightarrow> string" where
  "unsigned s = (if starts_with ''-'' s \<or> starts_with ''+'' s then tl s else s)"

definition mantissa_ok :: "string \<Rightarrow> bool" where
  "mantissa_ok s = (case split_on (CHR ''.'') s of
      [a] \<Rightarrow> digit_part a
    | [a, b] \<Rightarrow> (a = [] \<or> digit_part a) \<and> (b = [] \<or> digit_part b) \<and> \<not> (a = [] \<and> b = [])
    | _ \<Rightarrow> False)"

definition decimal_ok :: "string \<Rightarrow> bool" where
  "decimal_ok s = (case split_on (CHR ''e'') s of
      [m] \<Rightarrow> mantissa_ok m
    | [m, x] \<Rightarrow> mantissa_ok m \<and> digit_part (unsigned x)
    | _ \<Rightarrow> False)"

definition float_text :: "pylib \<Rightarrow> string \<Rightarrow> exn + pyfloat" where
  "float_text lib s =
     (let t = lower (strip s); u = unsigned t in
      if u \<in> {''inf'', ''infinity''} then Inr (if starts_with ''-'' t then NegInf else PosInf)
      else if u = ''nan'' then Inr NaN
      else if decimal_ok u then Inr (pl_float lib (filter (\<lambda>c. c \<noteq> CHR ''_'') t))
      else Inl (ValueError (''could not convert string to float: '' @ py_repr s)))"

definition float_type_error :: "string \<Rightarrow> exn" where
  "float_type_error kind = TypeError (''float() argument must be a string or a real number, not '' @ py_repr kind)"

definition type_name :: "json \<Rightarrow> string" where
  "type_name v = (case v of JNull \<Rightarrow> ''NoneType'' | JBool b \<Rightarrow> ''bool'' | JInt i \<Rightarrow> ''int'' | JFloat f \<Rightarrow> ''float''
     | JStr s \<Rightarrow> ''str'' | JList xs \<Rightarrow> ''list'' | JObj d \<Rightarrow> ''dict'')"

definition no_attribute :: "json \<Rightarrow> string \<Rightarrow> exn" where
  "no_attribute v name = AttributeError (py_repr (type_name v) @ '' object has no attribute '' @ py_repr name)"

text \<open>An integer from \<open>2^1024 - 2^970\<close> on rounds to no finite double.\<close>

definition float_limit :: int where
  "float_limit = 2 ^ 1024 - 2 ^ 970"

fun py_float :: "pylib \<Rightarrow> json \<Rightarrow> exn + pyfloat" where
  "py_float lib (JInt i) = (if \<bar>i\<bar> \<ge> float_limit then Inl (OverflowError ''int too large to convert to float'')
     else Inr (Fin (of_int i)))"
| "py_float lib (JBool b) = Inr (Fin (if b then 1 else 0))"
| "py_float lib (JFloat f) = Inr f"
| "py_float lib (JStr s) = float_text lib s"
| "py_float lib JNull = Inl (float_type_error ''NoneType'')"
| "py_float lib (JList xs) = Inl (float_type_error ''list'')"
| "py_float lib (JObj kvs) = Inl (float_type_error ''dict'')"

text \<open>\<open>round(x)\<close>: to the nearest integer, a tie to the even one.\<close>

definition round_even :: "real \<Rightarrow> int" where
  "round_even r = (let f = \<lfloor>r\<rfloor>; d = r - of_int f in
     if d < 1 / 2 then f else if d > 1 / 2 then f + 1 else if even f then f else f + 1)"

definition py_round :: "pyfloat \<Rightarrow> exn + int" where
  "py_round x = (case x of
      Fin r \<Rightarrow> Inr (round_even r)
    | NaN \<Rightarrow> Inl (ValueError ''cannot convert float NaN to integer'')
    | _ \<Rightarrow> Inl (OverflowError ''cannot convert float infinity to integer''))"

text \<open>\<open>repr(v)\<close> and \<open>str(v)\<close> of a JSON value.\<close>

fun float_repr :: "pylib \<Rightarrow> pyfloat \<Rightarrow> string" where
  "float_repr lib (Fin r) = pl_repr lib r"
| "float_repr lib PosInf = ''inf''"
| "float_repr lib NegInf = ''-inf''"
| "float_repr lib NaN = ''nan''"

fun json_repr :: "pylib \<Rightarrow> json \<Rightarrow> string" where
  "json_repr lib JNull = ''None''"
| "json_repr lib (JBool b) = (if b then ''True'' else ''False'')"
| "json_repr lib (JInt i) = int_str i"
| "json_repr lib (JFloat f) = float_repr lib f"
| "json_repr lib (JStr s) = py_repr s"
| "json_repr lib (JList xs) = ''['' @ join '', '' (map (json_repr lib) xs) @ '']''"
| "json_repr lib (JObj kvs) = ''{'' @ join '', '' (map (\<lambda>(k, v). py_repr k @ '': '' @ json_repr lib v) kvs) @ ''}''"

definition py_str :: "pylib \<Rightarrow> json \<Rightarrow> string" where
  "py_str lib v = (case v of JStr s \<Rightarrow> s | _ \<Rightarrow> json_repr lib v)"

section \<open>Arithmetic\<close>

fun neg_float :: "pyfloat \<Rightarrow> pyfloat" where
  "neg_float (Fin r) = Fin (- r)"
| "neg_float PosInf = NegInf"
| "neg_float NegInf = PosInf"
| "neg_float NaN = NaN"

fun add_float :: "pyfloat \<Rightarrow> pyfloat \<Rightarrow> pyfloat" where
  "add_float (Fin a) (Fin b) = Fin (a + b)"
| "add_float NaN y = NaN"
| "add_float x NaN = NaN"
| "add_float PosInf NegInf = NaN"
| "add_float NegInf PosInf = NaN"
| "add_float PosInf y = PosInf"
| "add_float NegInf y = NegInf"
| "add_float x y = y"

text \<open>The square of a float.\<close>

fun square_float :: "pyfloat \<Rightarrow> pyfloat" where
  "square_float (Fin a) = Fin (a * a)"
| "square_float NaN = NaN"
| "square_float x = PosInf"

text \<open>Division by a positive divisor.\<close>

fun div_float :: "pyfloat \<Rightarrow> pyfloat \<Rightarrow> pyfloat" where
  "div_float (Fin a) (Fin b) = Fin (a / b)"
| "div_float (Fin a) PosInf = Fin 0"
| "div_float PosInf (Fin b) = PosInf"
| "div_float NegInf (Fin b) = NegInf"
| "div_float x y = NaN"

fun sqrt_float :: "pyfloat \<Rightarrow> pyfloat" where
  "sqrt_float (Fin a) = Fin (sqrt a)"
| "sqrt_float x = x"

definition sum_float :: "pyfloat list \<Rightarrow> pyfloat" where
  "sum_float xs = foldl add_float (Fin 0) xs"

section \<open>A comprehension whose element can raise\<close>

fun sum_traverse :: "('a \<Rightarrow> exn + 'b) \<Rightarrow> 'a list \<Rightarrow> exn + 'b list" where
  "sum_traverse f [] = Inr []"
| "sum_traverse f (x # xs) = sum_bind (f x) (\<lambda>y. sum_bind (sum_traverse f xs) (\<lambda>ys. Inr (y # ys)))"

section \<open>Lemmas\<close>

lemma sum_bind_Inr: "sum_bind m k = Inr r \<longleftrightarrow> (\<exists>a. m = Inr a \<and> k a = Inr r)"
  by (cases m) (auto simp: sum_bind_def)

lemma sum_bind_Inl: "sum_bind m k = Inl e \<longleftrightarrow> m = Inl e \<or> (\<exists>a. m = Inr a \<and> k a = Inl e)"
  by (cases m) (auto simp: sum_bind_def)

lemma sum_traverse_Inr: "sum_traverse f xs = Inr ys \<Longrightarrow> list_all2 (\<lambda>x y. f x = Inr y) xs ys"
  by (induction xs arbitrary: ys) (auto simp: sum_bind_Inr)

lemma sum_traverse_Inl: "sum_traverse f xs = Inl e \<Longrightarrow> \<exists>x \<in> set xs. f x = Inl e"
  by (induction xs) (auto simp: sum_bind_Inl)

lemma round_even_bounds: "\<bar>of_int (round_even r) - r\<bar> \<le> 1 / 2"
  unfolding round_even_def Let_def by (auto simp: abs_le_iff)

lemma add_float_NaN [simp]: "add_float x NaN = NaN"
  by (cases x) auto

lemma sum_float_Fin: "sum_float (map Fin xs) = Fin (sum_list xs)"
proof -
  have "foldl add_float (Fin a) (map Fin xs) = Fin (a + sum_list xs)" for a
    by (induction xs arbitrary: a) auto
  then show ?thesis by (simp add: sum_float_def)
qed

text \<open>A sum of squares is finite exactly when every summand is, and then not negative.\<close>

lemma sum_squares_fold:
  "foldl add_float a (map square_float xs) = Fin r \<Longrightarrow> \<exists>b ys. a = Fin b \<and> xs = map Fin ys \<and> r = b + sum_list (map (\<lambda>y. y * y) ys)"
proof (induction xs arbitrary: a)
  case (Cons x xs)
  from Cons.IH [of "add_float a (square_float x)"] Cons.prems
  obtain b ys where ih: "add_float a (square_float x) = Fin b" "xs = map Fin ys" "r = b + sum_list (map (\<lambda>y. y * y) ys)" by auto
  obtain y c where "x = Fin y" "a = Fin c" "b = c + y * y" using ih(1) by (cases x; cases a) auto
  then show ?case using ih(2,3) by (intro exI [of _ c] exI [of _ "y # ys"]) simp
qed simp

lemma sum_squares_Fin:
  assumes "sum_float (map square_float xs) = Fin r"
  shows "\<exists>ys. xs = map Fin ys \<and> r = sum_list (map (\<lambda>y. y * y) ys) \<and> 0 \<le> r"
proof -
  obtain ys where ys: "xs = map Fin ys" "r = sum_list (map (\<lambda>y. y * y) ys)"
    using sum_squares_fold [of "Fin 0" xs r] assms by (auto simp: sum_float_def)
  moreover have "0 \<le> sum_list (map (\<lambda>y::real. y * y) ys)" by (rule sum_list_nonneg) auto
  ultimately show ?thesis by blast
qed

text \<open>An instance of the library, for the witnesses.\<close>

definition demo_lib :: pylib where
  "demo_lib = \<lparr>pl_float = (\<lambda>s. NaN), pl_repr = (\<lambda>r. ''0.3''), pl_json_error = (\<lambda>s. [])\<rparr>"

end
