(* ===== verification/Http.thy ===== *)
theory Http
  imports Pyfloat
begin

text \<open>
  The HTTP side of the model-provider adapters: \<open>_post_with_retry\<close> of
  \<open>core/llm/openai_compatible.py\<close>, \<open>core/embeddings/openai_compatible.py\<close> and
  \<open>core/embeddings/gemini.py\<close>.

  The provider is not under src/.  Its answers are the field \<open>hw_answers\<close>, a stream of outcomes about
  which nothing is assumed; the log records every request and every sleep, in order.  The three
  adapters share the loop and differ in the request, in the exceptions and in what they read from
  an answer; those are the fields of \<open>retry_policy\<close>.
\<close>

datatype http_outcome = Timed_Out | Transport exn | Response nat string

datatype http_event = Posted string pydict json | Slept real

record hworld =
  hw_answers :: "nat \<Rightarrow> http_outcome"
  hw_clock :: "nat \<Rightarrow> datetime"
  hw_log :: "http_event list"

definition http_post :: "string \<Rightarrow> pydict \<Rightarrow> json \<Rightarrow> hworld \<Rightarrow> http_outcome \<times> hworld" where
  "http_post url headers payload w =
     (hw_answers w 0, w\<lparr>hw_answers := (\<lambda>n. hw_answers w (Suc n)), hw_log := hw_log w @ [Posted url headers payload]\<rparr>)"

definition http_sleep :: "real \<Rightarrow> hworld \<Rightarrow> hworld" where
  "http_sleep d w = w\<lparr>hw_log := hw_log w @ [Slept d]\<rparr>"

definition http_now :: "(hworld, datetime) py" where
  "http_now w = (Inr (hw_clock w 0), w\<lparr>hw_clock := (\<lambda>n. hw_clock w (Suc n))\<rparr>)"

record 'a retry_policy =
  rp_url :: string
  rp_headers :: pydict
  rp_payload :: json
  rp_status :: "nat \<Rightarrow> exn"
  rp_rate :: exn
  rp_timeout :: exn
  rp_read :: "string \<Rightarrow> exn + 'a"

text \<open>
  The loop \<open>for attempt in range(retries + 1)\<close>: \<open>n\<close> attempts are left, \<open>i\<close> is the number of the next
  one.  A pause follows an attempt only when another one does.
\<close>

definition pause_after :: "nat \<Rightarrow> nat \<Rightarrow> hworld \<Rightarrow> hworld" where
  "pause_after n i w = (if n > 0 then http_sleep (1 / 2 * real (i + 1)) w else w)"

fun post_loop :: "'a retry_policy \<Rightarrow> nat \<Rightarrow> nat \<Rightarrow> bool \<Rightarrow> (hworld, 'a) py" where
  "post_loop pol 0 i saw w = (Inl (if saw then rp_rate pol else rp_timeout pol), w)"
| "post_loop pol (Suc n) i saw w = (case http_post (rp_url pol) (rp_headers pol) (rp_payload pol) w of
      (Timed_Out, w1) \<Rightarrow> post_loop pol n (i + 1) saw (pause_after n i w1)
    | (Transport e, w1) \<Rightarrow> (Inl e, w1)
    | (Response status body, w1) \<Rightarrow>
        if status = 429 then post_loop pol n (i + 1) True (pause_after n i w1)
        else if status \<ge> 400 then (Inl (rp_status pol status), w1)
        else (rp_read pol body, w1))"

definition post_with_retry :: "'a retry_policy \<Rightarrow> int \<Rightarrow> (hworld, 'a) py" where
  "post_with_retry pol retries = post_loop pol (nat (retries + 1)) 0 False"

section \<open>What the loop does\<close>

text \<open>
  The reference: only a timeout and a 429 are tried again; the first other outcome decides; when
  there is none, a 429 among them makes the rate-limit error, otherwise it is the timeout error.
\<close>

fun rate_limited :: "http_outcome \<Rightarrow> bool" where
  "rate_limited (Response status body) = (status = 429)"
| "rate_limited x = False"

definition retryable :: "http_outcome \<Rightarrow> bool" where
  "retryable x = (x = Timed_Out \<or> rate_limited x)"

fun decide :: "'a retry_policy \<Rightarrow> http_outcome \<Rightarrow> exn + 'a" where
  "decide pol (Response status body) = (if status \<ge> 400 then Inl (rp_status pol status) else rp_read pol body)"
| "decide pol (Transport e) = Inl e"
| "decide pol Timed_Out = Inl (rp_timeout pol)"

definition verdict :: "'a retry_policy \<Rightarrow> bool \<Rightarrow> http_outcome list \<Rightarrow> exn + 'a" where
  "verdict pol saw os = (case dropWhile retryable os of
      x # xs \<Rightarrow> decide pol x
    | [] \<Rightarrow> Inl (if saw \<or> list_ex rate_limited os then rp_rate pol else rp_timeout pol))"

text \<open>How many attempts are made, and the trace of \<open>k\<close> attempts out of \<open>n\<close>.\<close>

definition attempts_made :: "http_outcome list \<Rightarrow> nat" where
  "attempts_made os = min (length os) (length (takeWhile retryable os) + 1)"

definition trace :: "http_event \<Rightarrow> nat \<Rightarrow> nat \<Rightarrow> http_event list" where
  "trace p i k = concat (map (\<lambda>j. (if j = 0 then [] else [Slept (1 / 2 * real (i + j))]) @ [p]) [0..<k])"

lemma trace_Suc: "trace p i (Suc (Suc k)) = p # Slept (1 / 2 * real (i + 1)) # trace p (i + 1) (Suc k)"
proof -
  have "[0..<Suc (Suc k)] = 0 # map Suc [0..<Suc k]" by (metis map_Suc_upt upt_conv_Cons zero_less_Suc)
  moreover have "[0..<Suc k] = 0 # map Suc [0..<k]" by (metis map_Suc_upt upt_conv_Cons zero_less_Suc)
  ultimately show ?thesis by (simp add: trace_def comp_def del: upt_Suc)
qed

lemma trace_one [simp]: "trace p i (Suc 0) = [p]"
  by (simp add: trace_def)

definition outcomes :: "nat \<Rightarrow> hworld \<Rightarrow> http_outcome list" where
  "outcomes n w = map (hw_answers w) [0..<n]"

lemma outcomes_Suc: "outcomes (Suc n) w = hw_answers w 0 # map (\<lambda>m. hw_answers w (Suc m)) [0..<n]"
  by (simp add: outcomes_def upt_rec [of 0] map_Suc_upt [symmetric] comp_def del: upt_Suc)

lemma post_loop_verdict:
  assumes "os = outcomes n w"
  shows "fst (post_loop pol n i saw w) = verdict pol saw os \<and>
    hw_log (snd (post_loop pol n i saw w)) =
      hw_log w @ trace (Posted (rp_url pol) (rp_headers pol) (rp_payload pol)) i (attempts_made os) \<and>
    hw_clock (snd (post_loop pol n i saw w)) = hw_clock w"
  using assms
proof (induction n arbitrary: i saw w os)
  case 0
  then show ?case by (simp add: outcomes_def verdict_def attempts_made_def trace_def)
next
  case (Suc n)
  let ?p = "Posted (rp_url pol) (rp_headers pol) (rp_payload pol)"
  let ?w1 = "snd (http_post (rp_url pol) (rp_headers pol) (rp_payload pol) w)"
  let ?w2 = "pause_after n i ?w1"
  define os' where "os' = outcomes n ?w2"
  have os: "os = hw_answers w 0 # os'"
    using Suc.prems outcomes_Suc [of n w] by (simp add: os'_def outcomes_def pause_after_def http_sleep_def http_post_def)
  have w2: "hw_log ?w2 = hw_log w @ [?p] @ (if n > 0 then [Slept (1 / 2 * real (i + 1))] else [])" "hw_clock ?w2 = hw_clock w"
    by (simp_all add: pause_after_def http_sleep_def http_post_def)
  note ih = Suc.IH [OF os'_def, where i = "i + 1"]
  have len: "length os' = n" by (simp add: os'_def outcomes_def)
  have run: "post_loop pol (Suc n) i saw w = (if retryable (hw_answers w 0)
      then post_loop pol n (i + 1) (saw \<or> rate_limited (hw_answers w 0)) ?w2
      else (decide pol (hw_answers w 0), ?w1))"
    by (cases "hw_answers w 0") (auto simp: retryable_def http_post_def)
  show ?case
  proof (cases "retryable (hw_answers w 0)")
    case True
    have "trace ?p i (attempts_made (hw_answers w 0 # os')) =
        ?p # (if n > 0 then [Slept (1 / 2 * real (i + 1))] else []) @ trace ?p (i + 1) (attempts_made os')"
    proof (cases n)
      case 0
      then show ?thesis using len by (simp add: attempts_made_def trace_def)
    next
      case (Suc m)
      then obtain k where k: "attempts_made os' = Suc k" using len by (cases "attempts_made os'") (auto simp: attempts_made_def)
      moreover have "attempts_made (hw_answers w 0 # os') = Suc (attempts_made os')" using True len by (simp add: attempts_made_def)
      ultimately show ?thesis using Suc trace_Suc by simp
    qed
    then show ?thesis unfolding run os using True ih w2 by (simp add: verdict_def split: list.splits)
  next
    case False
    then have "attempts_made (hw_answers w 0 # os') = 1" by (simp add: attempts_made_def)
    then show ?thesis unfolding run os using False by (simp add: http_post_def verdict_def)
  qed
qed

lemma post_with_retry_verdict:
  assumes "os = outcomes (nat (retries + 1)) w" and "post_with_retry pol retries w = (r, w')"
  shows "r = verdict pol False os"
    and "hw_log w' = hw_log w @ trace (Posted (rp_url pol) (rp_headers pol) (rp_payload pol)) 0 (attempts_made os)"
    and "hw_clock w' = hw_clock w"
  using post_loop_verdict [OF assms(1), of pol 0 False] assms(2) by (simp_all del: trace_one add: post_with_retry_def)

lemma attempts_bound: "attempts_made (outcomes (nat (retries + 1)) w) \<le> nat (retries + 1)"
  by (simp add: attempts_made_def outcomes_def)

lemma decide_Inr: "decide pol x = Inr a \<Longrightarrow> \<exists>status body. x = Response status body \<and> status < 400 \<and> rp_read pol body = Inr a"
  by (cases "(pol, x)" rule: decide.cases) (auto split: if_splits)

text \<open>A value is returned only when the provider answered with a status below 400.\<close>

lemma verdict_Inr: "verdict pol saw os = Inr a \<Longrightarrow>
  \<exists>status body. Response status body \<in> set os \<and> status < 400 \<and> rp_read pol body = Inr a"
proof -
  assume v: "verdict pol saw os = Inr a"
  then obtain x xs where x: "dropWhile retryable os = x # xs" "decide pol x = Inr a"
    by (auto simp: verdict_def split: list.splits)
  moreover have "x \<in> set os" using x(1) by (metis list.set_intros(1) set_dropWhileD)
  ultimately show ?thesis using decide_Inr [OF x(2)] by blast
qed

end
