(* ===== verification/Embeddings.thy ===== *)
theory Embeddings
  imports Http
begin

text \<open>
  The embedder: the port \<open>core/embeddings/base.py\<close>, the two adapters \<open>openai_compatible.py\<close> and
  \<open>gemini.py\<close>, the factory, and \<open>finalize_vector\<close>.

  The adapters differ in the request (\<open>ea_policy\<close>) and in the names under which the answer holds the
  vectors; batching, checking and normalising are the same code.  A vector that leaves an adapter
  may hold infinities or NaN, because \<open>float\<close> and \<open>json.loads\<close> accept them.
\<close>

section \<open>Vectors\<close>

definition finalize_vector :: "pyfloat list \<Rightarrow> int \<Rightarrow> exn + pyfloat list" where
  "finalize_vector values expected_dim =
     (if int (length values) \<noteq> expected_dim
      then Inl (EmbeddingParseError (''embedding dimension '' @ nat_str (length values) @ '' != expected '' @ int_str expected_dim))
      else (let norm = sqrt_float (sum_float (map square_float values))
            in if norm = Fin 0 then Inr values else Inr (map (\<lambda>x. div_float x norm) values)))"

text \<open>What the port promises of a vector: of unit length, or zero, when it is finite.\<close>

definition normalized :: "pyfloat list \<Rightarrow> bool" where
  "normalized v = (\<forall>xs. v = map Fin xs \<longrightarrow> sum_list (map (\<lambda>x. x * x) xs) = 1 \<or> set xs \<subseteq> {0})"

lemma sum_squares_zero: "sum_list (map (\<lambda>x::real. x * x) xs) = 0 \<Longrightarrow> set xs \<subseteq> {0}"
proof (induction xs)
  case (Cons x xs)
  have "0 \<le> sum_list (map (\<lambda>x::real. x * x) xs)" by (rule sum_list_nonneg) auto
  moreover have "0 \<le> x * x" by simp
  ultimately have "x * x = 0" "sum_list (map (\<lambda>x. x * x) xs) = 0" using Cons.prems by (simp_all add: add_nonneg_eq_0_iff)
  then show ?case using Cons.IH by simp
qed simp

lemma finalize_normalized:
  assumes "finalize_vector values n = Inr v"
  shows "int (length v) = n \<and> normalized v"
proof -
  let ?norm = "sqrt_float (sum_float (map square_float values))"
  have dim: "int (length values) = n" using assms by (auto simp: finalize_vector_def split: if_splits)
  have v: "v = (if ?norm = Fin 0 then values else map (\<lambda>x. div_float x ?norm) values)"
    using assms dim by (auto simp: finalize_vector_def Let_def split: if_splits)
  have "normalized v"
    unfolding normalized_def
  proof (intro allI impI)
    fix xs assume xs: "v = map Fin xs"
    show "sum_list (map (\<lambda>x. x * x) xs) = 1 \<or> set xs \<subseteq> {0}"
    proof (cases "\<exists>s. sum_float (map square_float values) = Fin s")
      case True
      then obtain s where Fin: "sum_float (map square_float values) = Fin s" by blast
      then obtain ys where ys: "values = map Fin ys" "s = sum_list (map (\<lambda>y. y * y) ys)" "0 \<le> s"
        using sum_squares_Fin by blast
      show ?thesis
      proof (cases "s = 0")
        case True
        then have "v = map Fin ys" using v Fin ys(1) by simp
        then have "xs = ys" using xs by (simp add: inj_map_eq_map inj_def)
        then show ?thesis using sum_squares_zero [of ys] True ys(2) by simp
      next
        case False
        then have "v = map Fin (map (\<lambda>y. y / sqrt s) ys)" using v Fin ys(1) by (simp add: comp_def)
        then have "xs = map (\<lambda>y. y / sqrt s) ys" using xs by (metis inj_map_eq_map inj_onI pyfloat.inject)
        then have "sum_list (map (\<lambda>x. x * x) xs) = sum_list (map (\<lambda>y. (y * y) * (1 / s)) ys)"
          using ys(3) by (simp add: comp_def)
        also have "\<dots> = sum_list (map (\<lambda>y. y * y) ys) * (1 / s)" by (simp only: sum_list_mult_const)
        also have "\<dots> = 1" using ys(2) False by simp
        finally show ?thesis ..
      qed
    next
      case other: False
      have "\<exists>x \<in> set values. \<forall>r. x \<noteq> Fin r"
      proof (rule ccontr)
        assume "\<not> (\<exists>x \<in> set values. \<forall>r. x \<noteq> Fin r)"
        then have "set values \<subseteq> range Fin" by auto
        then obtain ys where "values = map Fin ys" by (metis ex_map_conv image_iff subsetD)
        then have "sum_float (map square_float values) = Fin (sum_list (map (\<lambda>y. y * y) ys))"
          using sum_float_Fin [of "map (\<lambda>y. y * y) ys"] by (simp add: comp_def)
        then show False using other by blast
      qed
      then obtain x where x: "x \<in> set values" "\<forall>r. x \<noteq> Fin r" by blast
      have "\<forall>r. ?norm \<noteq> Fin r" using other by (cases "sum_float (map square_float values)") auto
      then have "div_float x ?norm = NaN" "v = map (\<lambda>x. div_float x ?norm) values"
        using x(2) v by (cases x; cases ?norm; simp)+
      then have "NaN \<in> set v" using x(1) by (metis image_eqI list.set_map)
      then show ?thesis using xs by auto
    qed
  qed
  then show ?thesis using v dim by simp
qed

section \<open>Settings and adapters\<close>

record embed_settings =
  es_provider :: string
  es_base_url :: string
  es_key :: string
  es_model :: string
  es_dim :: int
  es_batch :: int
  es_retries :: int

record embed_adapter =
  ea_policy :: "string list \<Rightarrow> json retry_policy"
  ea_list :: string
  ea_item :: string

definition read_body :: "pylib \<Rightarrow> string \<Rightarrow> exn + json" where
  "read_body lib body = (case loads (pl_float lib) body of
      Some j \<Rightarrow> Inr j | None \<Rightarrow> Inl (EmbeddingParseError ''non-JSON embeddings response''))"

definition embed_policy :: "pylib \<Rightarrow> string \<Rightarrow> pydict \<Rightarrow> json \<Rightarrow> json retry_policy" where
  "embed_policy lib url headers payload =
     \<lparr>rp_url = url, rp_headers = headers, rp_payload = payload,
      rp_status = (\<lambda>c. EmbeddingError (''embeddings HTTP '' @ nat_str c)),
      rp_rate = EmbeddingRateLimitError ''rate-limited after retries'',
      rp_timeout = EmbeddingError ''embeddings request timed out after retries'',
      rp_read = read_body lib\<rparr>"

definition openai_payload :: "embed_settings \<Rightarrow> string list \<Rightarrow> json" where
  "openai_payload st chunk = JObj [(''model'', JStr (es_model st)), (''input'', JList (map JStr chunk)),
     (''dimensions'', JInt (es_dim st))]"

definition openai_adapter :: "pylib \<Rightarrow> embed_settings \<Rightarrow> embed_adapter" where
  "openai_adapter lib st = \<lparr>
     ea_policy = (\<lambda>chunk. embed_policy lib (rstrip_by (\<lambda>c. c = CHR ''/'') (es_base_url st) @ ''/embeddings'')
       [(''Authorization'', JStr (''Bearer '' @ es_key st))] (openai_payload st chunk)),
     ea_list = ''data'', ea_item = ''embedding''\<rparr>"

definition gemini_payload :: "embed_settings \<Rightarrow> string list \<Rightarrow> json" where
  "gemini_payload st chunk = JObj [(''requests'', JList (map (\<lambda>t. JObj [(''model'', JStr (''models/'' @ es_model st)),
     (''content'', JObj [(''parts'', JList [JObj [(''text'', JStr t)]])]), (''outputDimensionality'', JInt (es_dim st))]) chunk))]"

definition gemini_adapter :: "pylib \<Rightarrow> embed_settings \<Rightarrow> embed_adapter" where
  "gemini_adapter lib st = \<lparr>
     ea_policy = (\<lambda>chunk. embed_policy lib
       (rstrip_by (\<lambda>c. c = CHR ''/'') (es_base_url st) @ ''/models/'' @ es_model st @ '':batchEmbedContents'')
       [(''x-goog-api-key'', JStr (es_key st))] (gemini_payload st chunk)),
     ea_list = ''embeddings'', ea_item = ''values''\<rparr>"

definition make_embedder :: "pylib \<Rightarrow> embed_settings \<Rightarrow> exn + embed_adapter" where
  "make_embedder lib st =
     (let provider = lower (strip (es_provider st)) in
      if provider = ''gemini'' then Inr (gemini_adapter lib st)
      else if provider = ''openai_compatible'' then Inr (openai_adapter lib st)
      else Inl (ValueError (''unknown EMBED_PROVIDER: '' @ py_repr (es_provider st))))"

section \<open>Embedding\<close>

definition read_vector :: "pylib \<Rightarrow> int \<Rightarrow> string \<Rightarrow> json \<Rightarrow> exn + pyfloat list" where
  "read_vector lib d key item =
     (case (case item of JObj o' \<Rightarrow> dict_get o' key | _ \<Rightarrow> None) of
        Some (JList (x # xs)) \<Rightarrow> sum_bind (sum_traverse (py_float lib) (x # xs)) (\<lambda>vs. finalize_vector vs d)
      | _ \<Rightarrow> Inl (EmbeddingParseError (''embedding item missing '' @ py_repr key)))"

definition count_error :: "nat \<Rightarrow> string \<Rightarrow> exn" where
  "count_error n got = EmbeddingParseError (''expected '' @ nat_str n @ '' embeddings, got '' @ got)"

definition read_vectors :: "pylib \<Rightarrow> int \<Rightarrow> embed_adapter \<Rightarrow> nat \<Rightarrow> json \<Rightarrow> exn + pyfloat list list" where
  "read_vectors lib d ad n data = (case data of
      JObj o' \<Rightarrow> (case dict_get o' (ea_list ad) of
          Some (JList rows) \<Rightarrow> if length rows \<noteq> n then Inl (count_error n (nat_str (length rows)))
            else sum_traverse (read_vector lib d (ea_item ad)) rows
        | _ \<Rightarrow> Inl (count_error n ''none''))
    | _ \<Rightarrow> Inl (no_attribute data ''get''))"

definition embed_chunk :: "pylib \<Rightarrow> embed_settings \<Rightarrow> embed_adapter \<Rightarrow> string list \<Rightarrow> (hworld, pyfloat list list) py" where
  "embed_chunk lib st ad chunk =
     py_bind (post_with_retry (ea_policy ad chunk) (es_retries st)) (\<lambda>data. py_lift (read_vectors lib (es_dim st) ad (length chunk) data))"

text \<open>\<open>for start in range(0, len(texts), n)\<close>.\<close>

function chunks :: "nat \<Rightarrow> 'a list \<Rightarrow> 'a list list" where
  "chunks n xs = (if n = 0 \<or> xs = [] then [] else take n xs # chunks n (drop n xs))"
  by pat_completeness auto
termination
  by (relation "measure (\<lambda>(n, xs). length xs)") auto

declare chunks.simps [simp del]

fun embed_chunks :: "(string list \<Rightarrow> (hworld, pyfloat list list) py) \<Rightarrow> string list list \<Rightarrow> pyfloat list list \<Rightarrow> (hworld, pyfloat list list) py" where
  "embed_chunks f [] acc = py_ret acc"
| "embed_chunks f (c # cs) acc = py_bind (f c) (\<lambda>vs. embed_chunks f cs (acc @ vs))"

definition embed :: "pylib \<Rightarrow> embed_settings \<Rightarrow> embed_adapter \<Rightarrow> string list \<Rightarrow> (hworld, pyfloat list list) py" where
  "embed lib st ad texts =
     (if texts = [] then py_ret []
      else if es_batch st = 0 then py_raise (ValueError ''range() arg 3 must not be zero'')
      else embed_chunks (embed_chunk lib st ad) (chunks (nat (es_batch st)) texts) [])"

text \<open>The two classes.\<close>

definition openai_embed_chunk :: "pylib \<Rightarrow> embed_settings \<Rightarrow> string list \<Rightarrow> (hworld, pyfloat list list) py" where
  "openai_embed_chunk lib st = embed_chunk lib st (openai_adapter lib st)"

definition openai_embed :: "pylib \<Rightarrow> embed_settings \<Rightarrow> string list \<Rightarrow> (hworld, pyfloat list list) py" where
  "openai_embed lib st = embed lib st (openai_adapter lib st)"

definition gemini_embed_chunk :: "pylib \<Rightarrow> embed_settings \<Rightarrow> string list \<Rightarrow> (hworld, pyfloat list list) py" where
  "gemini_embed_chunk lib st = embed_chunk lib st (gemini_adapter lib st)"

definition gemini_embed :: "pylib \<Rightarrow> embed_settings \<Rightarrow> string list \<Rightarrow> (hworld, pyfloat list list) py" where
  "gemini_embed lib st = embed lib st (gemini_adapter lib st)"

section \<open>The contract\<close>

locale embedder =
  fixes emb :: "string list \<Rightarrow> ('s, pyfloat list list) py" and width :: int
  assumes one_per_text: "emb texts s = (Inr vs, s') \<Longrightarrow> length vs = length texts"
    and each_vector: "emb texts s = (Inr vs, s') \<Longrightarrow> v \<in> set vs \<Longrightarrow> int (length v) = width \<and> normalized v"

lemma concat_chunks: "n \<noteq> 0 \<Longrightarrow> concat (chunks n xs) = xs"
  by (induction n xs rule: chunks.induct) (subst chunks.simps, simp)

lemma chunks_bounded: "c \<in> set (chunks n xs) \<Longrightarrow> c \<noteq> [] \<and> length c \<le> n"
  by (induction n xs rule: chunks.induct) (subst (asm) (2) chunks.simps, auto split: if_splits)

lemma read_vectors_shape:
  assumes "read_vectors lib d ad n data = Inr vs"
  shows "length vs = n \<and> (\<forall>v \<in> set vs. int (length v) = d \<and> normalized v)"
proof -
  obtain rows where rows: "length rows = n" "sum_traverse (read_vector lib d (ea_item ad)) rows = Inr vs"
    using assms by (auto simp: read_vectors_def split: json.splits option.splits if_splits)
  have one: "int (length v) = d \<and> normalized v" if "read_vector lib d key item = Inr v" for key item v
    using that finalize_normalized by (auto simp: read_vector_def sum_bind_Inr split: option.splits json.splits list.splits)
  show ?thesis using sum_traverse_Inr [OF rows(2)] rows(1) one
    by (auto simp: list_all2_conv_all_nth in_set_conv_nth) blast+
qed

lemma embed_chunk_shape:
  assumes "embed_chunk lib st ad chunk w = (Inr vs, w')"
  shows "length vs = length chunk \<and> (\<forall>v \<in> set vs. int (length v) = es_dim st \<and> normalized v)"
  using assms read_vectors_shape
  by (auto simp: embed_chunk_def py_monad_defs py_lift_def split: prod.splits sum.splits)

lemma embed_chunks_shape:
  assumes "embed_chunks f cs acc w = (Inr vs, w')"
    and "\<And>c w vs w'. f c w = (Inr vs, w') \<Longrightarrow> length vs = length c \<and> (\<forall>v \<in> set vs. Q v)" and "\<forall>v \<in> set acc. Q v"
  shows "length vs = length acc + length (concat cs) \<and> (\<forall>v \<in> set vs. Q v)"
  using assms(1,3)
proof (induction cs arbitrary: acc w)
  case (Cons c cs)
  obtain us w1 where us: "f c w = (Inr us, w1)" "embed_chunks f cs (acc @ us) w1 = (Inr vs, w')"
    using Cons.prems(1) by (auto simp: py_monad_defs split: prod.splits sum.splits)
  note c = assms(2) [OF us(1)]
  have "\<forall>v \<in> set (acc @ us). Q v" using c Cons.prems(2) by auto
  from Cons.IH [OF us(2) this] show ?case using c by simp
qed (auto simp: py_monad_defs)

lemma embed_shape:
  assumes "embed lib st ad texts w = (Inr vs, w')" and "0 < es_batch st"
  shows "length vs = length texts \<and> (\<forall>v \<in> set vs. int (length v) = es_dim st \<and> normalized v)"
proof (cases "texts = []")
  case False
  then have "embed_chunks (embed_chunk lib st ad) (chunks (nat (es_batch st)) texts) [] w = (Inr vs, w')"
    using assms by (simp add: embed_def)
  from embed_chunks_shape [OF this, where Q = "\<lambda>v. int (length v) = es_dim st \<and> normalized v", OF embed_chunk_shape]
  show ?thesis using assms(2) concat_chunks [of "nat (es_batch st)" texts] by simp
qed (use assms in \<open>simp add: embed_def py_monad_defs\<close>)

text \<open>A vector per text, in the order of the texts, when no request needs a retry.\<close>

lemma embed_in_order:
  assumes "0 < es_batch st" and "0 \<le> es_retries st" and "texts \<noteq> []" and "cs = chunks (nat (es_batch st)) texts"
    and "\<And>i. i < length cs \<Longrightarrow> \<exists>body. hw_answers w i = Response 200 body \<and>
      sum_bind (rp_read (ea_policy ad (cs ! i)) body) (read_vectors lib (es_dim st) ad (length (cs ! i))) = Inr (answer i)"
  shows "\<exists>w'. embed lib st ad texts w = (Inr (concat (map answer [0..<length cs])), w')"
proof -
  have "\<exists>w'. embed_chunks (embed_chunk lib st ad) ds acc u = (Inr (acc @ concat (map f [0..<length ds])), w')"
    if "\<And>i. i < length ds \<Longrightarrow> \<exists>body. hw_answers u i = Response 200 body \<and>
      sum_bind (rp_read (ea_policy ad (ds ! i)) body) (read_vectors lib (es_dim st) ad (length (ds ! i))) = Inr (f i)" for ds acc u f
    using that
  proof (induction ds arbitrary: acc u f)
    case (Cons d ds)
    obtain body where b: "hw_answers u 0 = Response 200 body"
      "sum_bind (rp_read (ea_policy ad d) body) (read_vectors lib (es_dim st) ad (length d)) = Inr (f 0)"
      using Cons.prems [of 0] by auto
    obtain n where n: "nat (es_retries st + 1) = Suc n" using assms(2) by (metis add_pos_nonneg add.commute gr0_implies_Suc zero_less_nat_eq zero_less_one)
    let ?p = "ea_policy ad d"
    let ?u = "snd (http_post (rp_url ?p) (rp_headers ?p) (rp_payload ?p) u)"
    have "embed_chunk lib st ad d u = (Inr (f 0), ?u)"
      using b by (simp add: embed_chunk_def post_with_retry_def n http_post_def py_monad_defs py_lift_def sum_bind_def split: sum.splits)
    moreover have "\<exists>w'. embed_chunks (embed_chunk lib st ad) ds (acc @ f 0) ?u =
        (Inr ((acc @ f 0) @ concat (map (\<lambda>i. f (Suc i)) [0..<length ds])), w')"
      by (rule Cons.IH) (use Cons.prems in \<open>force simp: http_post_def\<close>)
    moreover have "[0..<length (d # ds)] = 0 # map Suc [0..<length ds]"
      by (metis length_Cons map_Suc_upt upt_conv_Cons zero_less_Suc)
    ultimately show ?case by (simp add: py_monad_defs comp_def del: upt_Suc)
  qed (simp add: py_monad_defs)
  from this [of cs w answer "[]"] show ?thesis using assms by (simp add: embed_def)
qed

text \<open>The configurations the port's promise needs, and the two adapters under one of them.\<close>

locale embed_config =
  fixes st :: embed_settings
  assumes batch: "0 < es_batch st"
begin

lemma embed_embedder: "embedder (embed lib st ad) (es_dim st)"
  by (rule embedder.intro) (use embed_shape [OF _ batch] in \<open>blast+\<close>)

end

sublocale embed_config \<subseteq> openai: embedder "openai_embed lib st" "es_dim st" for lib
  unfolding openai_embed_def by (rule embed_embedder)

sublocale embed_config \<subseteq> gemini: embedder "gemini_embed lib st" "es_dim st" for lib
  unfolding gemini_embed_def by (rule embed_embedder)

definition default_embed_settings :: "string \<Rightarrow> embed_settings" where
  "default_embed_settings key = \<lparr>es_provider = ''gemini'', es_base_url = ''https://generativelanguage.googleapis.com/v1beta'',
     es_key = key, es_model = ''gemini-embedding-001'', es_dim = 1536, es_batch = 16, es_retries = 2\<rparr>"

interpretation default_embed: embed_config "default_embed_settings key" for key
  by (rule embed_config.intro) (simp add: default_embed_settings_def)

section \<open>Properties\<close>


definition tiny_embed :: embed_settings where
  "tiny_embed = (default_embed_settings ''k'')\<lparr>es_dim := 2\<rparr>"

definition tiny_world :: hworld where
  "tiny_world = \<lparr>hw_answers = (\<lambda>n. Response 200 (dumps (pl_repr demo_lib)
       (JObj [(''embeddings'', JList [JObj [(''values'', JList [JInt 3, JInt 4])]])]))), hw_clock = int, hw_log = []\<rparr>"


end
