(* ===== verification/Json_Fields.thy ===== *)
theory Json_Fields
  imports Pyfloat
begin

text \<open>
  Reading JSON values the way the adapters, the scrapers and the digest do: \<open>json.loads\<close>, \<open>d.get(k)\<close>,
  subscripts, \<open>isinstance\<close> tests and iteration.  The code reads most fields into typed slots without a
  check; where a field has a type that the slot does not have, reading it is a \<open>TypeError\<close> of the model.
\<close>

text \<open>\<open>json.loads\<close> of a text.\<close>

definition json_line :: "pylib \<Rightarrow> string \<Rightarrow> exn + json" where
  "json_line lib l = (case loads (pl_float lib) l of Some v \<Rightarrow> Inr v | None \<Rightarrow> Inl (JSONDecodeError (pl_json_error lib l)))"

text \<open>\<open>d.get(k)\<close>\<close>

definition get_or_null :: "pydict \<Rightarrow> string \<Rightarrow> json" where
  "get_or_null d k = (case dict_get d k of Some v \<Rightarrow> v | None \<Rightarrow> JNull)"

text \<open>Subscripts of a JSON value.\<close>

definition get_key :: "string \<Rightarrow> json \<Rightarrow> exn + json" where
  "get_key k v = (case v of
      JObj d \<Rightarrow> (case dict_get d k of Some w \<Rightarrow> Inr w | None \<Rightarrow> Inl (KeyError (py_repr k)))
    | _ \<Rightarrow> Inl (TypeError ''not subscriptable with a string''))"

definition get_first :: "json \<Rightarrow> exn + json" where
  "get_first v = (case v of
      JList (x # xs) \<Rightarrow> Inr x
    | JList [] \<Rightarrow> Inl (IndexError ''list index out of range'')
    | JStr (c # cs) \<Rightarrow> Inr (JStr [c])
    | JStr [] \<Rightarrow> Inl (IndexError ''string index out of range'')
    | JObj d \<Rightarrow> Inl (KeyError ''0'')
    | _ \<Rightarrow> Inl (TypeError ''not subscriptable''))"

text \<open>\<open>isinstance(value, int)\<close>: a \<open>bool\<close> is an \<open>int\<close>.\<close>

definition int_value :: "json \<Rightarrow> int option" where
  "int_value v = (case v of JInt i \<Rightarrow> Some i | JBool b \<Rightarrow> Some (if b then 1 else 0) | _ \<Rightarrow> None)"

text \<open>What a \<open>for\<close> loop over a JSON value visits.\<close>

definition iterate :: "json \<Rightarrow> exn + json list" where
  "iterate v = (case v of
      JList xs \<Rightarrow> Inr xs
    | JStr s \<Rightarrow> Inr (map (\<lambda>c. JStr [c]) s)
    | JObj d \<Rightarrow> Inr (map (\<lambda>(k, w). JStr k) d)
    | _ \<Rightarrow> Inl (TypeError (py_repr (type_name v) @ '' object is not iterable'')))"

text \<open>\<open>row.get(k) or default\<close> of a text field; another type is an error of the model.\<close>

definition text_or :: "pydict \<Rightarrow> string \<Rightarrow> string \<Rightarrow> exn + string" where
  "text_or row k t = (let v = get_or_null row k in
     if \<not> truthy v then Inr t else (case v of JStr s \<Rightarrow> Inr s | _ \<Rightarrow> Inl (TypeError (k @ '' is not text''))))"

definition text_or_none :: "pydict \<Rightarrow> string \<Rightarrow> exn + string option" where
  "text_or_none row k = (case get_or_null row k of
      JNull \<Rightarrow> Inr None | JStr s \<Rightarrow> Inr (Some s) | _ \<Rightarrow> Inl (TypeError (k @ '' is not text'')))"

text \<open>\<open>row.get(k, t)\<close> of a text field.\<close>

definition text_default :: "pydict \<Rightarrow> string \<Rightarrow> string \<Rightarrow> exn + string" where
  "text_default row k t = (case dict_get row k of
      None \<Rightarrow> Inr t | Some (JStr s) \<Rightarrow> Inr s | Some _ \<Rightarrow> Inl (TypeError (k @ '' is not text'')))"

end
