(* ===== verification/Llm.thy ===== *)
theory Llm
  imports Http Json_Fields Settings
begin

text \<open>
  The summarizer: the port \<open>core/llm/base.py\<close> and its OpenAI-compatible adapter
  \<open>core/llm/openai_compatible.py\<close>, prompt, request with retries, and the parser of the answer.
\<close>

section \<open>Results and settings\<close>

record summary_result =
  sm_bullets :: "string list"
  sm_relevance :: int
  sm_scores :: "(string \<times> int) list"
  sm_reason :: string
  sm_model :: string

record llm_settings =
  ls_base_url :: string
  ls_key :: string
  ls_model :: string
  ls_focus :: string
  ls_max_chars :: int
  ls_retries :: int

section \<open>Parsing\<close>

definition score_keys :: "string list" where
  "score_keys = [''relevance'', ''credibility'', ''intensity'', ''personal'', ''time'']"

definition non_numeric :: "pylib \<Rightarrow> json \<Rightarrow> exn" where
  "non_numeric lib v = LLMParseError (''non-numeric score: '' @ json_repr lib v)"

definition clamp_1_10 :: "pylib \<Rightarrow> json \<Rightarrow> exn + int" where
  "clamp_1_10 lib v = (case v of
      JBool b \<Rightarrow> Inl (non_numeric lib v)
    | _ \<Rightarrow> (case sum_bind (py_float lib v) py_round of
          Inr n \<Rightarrow> Inr (max 1 (min 10 n))
        | Inl (TypeError m) \<Rightarrow> Inl (non_numeric lib v)
        | Inl (ValueError m) \<Rightarrow> Inl (non_numeric lib v)
        | Inl e \<Rightarrow> Inl e))"

text \<open>\<open>re.search(r"{.*}", text, re.DOTALL)\<close>: from the first opening brace to the last closing one.\<close>

definition brace_block :: "string \<Rightarrow> string option" where
  "brace_block t = (case dropWhile (\<lambda>c. c \<noteq> CHR ''{'') t of
      [] \<Rightarrow> None
    | c # cs \<Rightarrow> if CHR ''}'' \<in> set cs then Some (c # rev (dropWhile (\<lambda>c. c \<noteq> CHR ''}'') (rev cs))) else None)"

text \<open>\<open>_loads\<close>: \<open>json.loads\<close> takes text only, so any other content of the envelope is a \<open>TypeError\<close>.\<close>

definition llm_loads :: "pylib \<Rightarrow> json \<Rightarrow> exn + json" where
  "llm_loads lib content = (case content of
      JStr t \<Rightarrow> (case loads (pl_float lib) t of
          Some j \<Rightarrow> Inr j
        | None \<Rightarrow> (case brace_block t of
            None \<Rightarrow> Inl (LLMParseError ''no JSON object in model response'')
          | Some b \<Rightarrow> (case loads (pl_float lib) b of
              Some j \<Rightarrow> Inr j
            | None \<Rightarrow> Inl (LLMParseError (''unparseable JSON: '' @ pl_json_error lib b)))))
    | _ \<Rightarrow> Inl (TypeError (''the JSON object must be str, bytes or bytearray, not '' @ type_name content)))"

definition usable_bullets :: "json list \<Rightarrow> string list" where
  "usable_bullets raw = take 5 (List.map_filter (\<lambda>b. case b of
      JStr s \<Rightarrow> if strip s \<noteq> [] then Some (strip s) else None | _ \<Rightarrow> None) raw)"

definition llm_parse :: "pylib \<Rightarrow> llm_settings \<Rightarrow> json \<Rightarrow> exn + summary_result" where
  "llm_parse lib st content =
     sum_bind (llm_loads lib content) (\<lambda>v. case v of
       JObj obj \<Rightarrow>
         (case get_or_null obj ''bullets'' of
            JList raw \<Rightarrow>
              (let bullets = usable_bullets raw in
               if length bullets < 3
               then Inl (LLMParseError (''only '' @ nat_str (length bullets) @ '' usable bullets (need >=3)''))
               else (case get_or_null obj ''scores'' of
                   JObj raw_scores \<Rightarrow>
                     sum_bind (sum_traverse (\<lambda>k. sum_bind (clamp_1_10 lib (get_or_null raw_scores k)) (\<lambda>n. Inr (k, n))) score_keys) (\<lambda>scores.
                     sum_bind (clamp_1_10 lib (get_or_null obj ''relevance'')) (\<lambda>relevance.
                     Inr \<lparr>sm_bullets = bullets, sm_relevance = relevance, sm_scores = scores,
                       sm_reason = (let r = get_or_null obj ''reason'' in strip (if truthy r then py_str lib r else [])),
                       sm_model = ls_model st\<rparr>))
                 | _ \<Rightarrow> Inl (LLMParseError ''missing 'scores' object'')))
          | _ \<Rightarrow> Inl (LLMParseError ''missing 'bullets' array''))
     | _ \<Rightarrow> Inl (no_attribute v ''get''))"

section \<open>Prompt\<close>

text \<open>\<open>s[:n]\<close>.\<close>

definition py_prefix :: "int \<Rightarrow> string \<Rightarrow> string" where
  "py_prefix n s = (if n \<ge> 0 then take (nat n) s else take (length s - nat (- n)) s)"

definition system_prompt :: "string \<Rightarrow> string \<Rightarrow> string \<Rightarrow> string \<Rightarrow> string \<Rightarrow> string" where
  \<open>system_prompt focus port topics today pub = 
     ''You are an equity analyst preparing a daily briefing for an investor focused on '' @ focus @
     ''. The investor's portfolio: '' @ port @ ''. Stated interests (incl. niche topics): '' @ topics @ ''. Today is '' @
     today @ ''; this article was published '' @ pub @ ''.'' @ [newline] @ [newline] @
     ''Write EXACTLY 5 bullets. Rules for the bullets:'' @ [newline] @
     ''- Each bullet is a DISTINCT, self-contained takeaway '' @ [em_dash] @
     '' no overlap between bullets, no filler, no generic phrasing, and do NOT just restate the headline.'' @ [newline] @
     ''- Be concrete and specific: name the company/ticker/sector and cite the key number, date, or '' @
     ''catalyst. Lead with the substance, not 'The article discusses...'.'' @ [newline] @ ''- <= 25 words each.'' @
     [newline] @ ''Cover these five angles, in this order, one per bullet:'' @ [newline] @
     ''  1. The single core claim or thesis.'' @ [newline] @
     ''  2. The most important hard number, metric, or financial figure.'' @ [newline] @
     ''  3. The specific catalyst, event, or change driving it.'' @ [newline] @
     ''  4. The bull-vs-bear or key-risk angle.'' @ [newline] @ ''  5. The forward implication '' @ [em_dash] @
     '' what to watch next, or why it matters now.'' @ [newline] @ [newline] @
     ''Then score the article 1-10 on each: relevance (how directly it concerns '' @ focus @ '' '' @ [em_dash] @
     '' this is the PRIMARY axis; the investor's portfolio names and major secular industry shifts also '' @
     ''count; an article unrelated to those areas scores low), credibility (respected publication/author), '' @
     ''intensity (fundraising, M&A, launches, breakthroughs rank high), personal (matches the stated '' @
     ''interests), time (how recent and time-sensitive '' @ [em_dash] @
     '' latest, breaking developments rank high). Give an overall relevance 1-10 that PRIORITIZES recent '' @ focus @
     '' developments for THIS investor, then a one-line reason. Return ONLY a JSON object: {"bullets":[5 '' @
     ''strings],"scores":{"relevance":n,"credibility":n,"intensity":n,"personal":n,"time":n},"relevance":n,'' @
     ''"reason":"..."}.''\<close>

text \<open>\<open>", ".join(xs) or "(none given)"\<close>.\<close>

definition listed :: "string list \<Rightarrow> string" where
  "listed xs = str_or (Some (join '', '' xs)) ''(none given)''"

definition build_messages ::
  "(datetime \<Rightarrow> string) \<Rightarrow> datetime \<Rightarrow> string \<Rightarrow> string \<Rightarrow> datetime option \<Rightarrow> string list \<Rightarrow> string list \<Rightarrow> int \<Rightarrow> string \<Rightarrow> json" where
  "build_messages date_iso now title content published portfolio interests max_chars focus =
     JList [
       JObj [(''role'', JStr ''system''),
         (''content'', JStr (system_prompt focus (listed portfolio) (listed interests) (date_iso now)
            (case published of Some p \<Rightarrow> date_iso p | None \<Rightarrow> ''unknown'')))],
       JObj [(''role'', JStr ''user''),
         (''content'', JStr (''Title: '' @ title @ [newline, newline] @ py_prefix max_chars content))]]"

section \<open>Request\<close>

text \<open>\<open>data["choices"][0]["message"]["content"]\<close>; every failure is the parse error.\<close>

definition read_envelope :: "pylib \<Rightarrow> string \<Rightarrow> exn + json" where
  "read_envelope lib body =
     (case loads (pl_float lib) body of
        None \<Rightarrow> Inl (LLMParseError ''malformed completion envelope'')
      | Some data \<Rightarrow> (case sum_bind (get_key ''choices'' data) (\<lambda>c. sum_bind (get_first c) (\<lambda>f.
            sum_bind (get_key ''message'' f) (get_key ''content''))) of
          Inr v \<Rightarrow> Inr v
        | Inl e \<Rightarrow> Inl (LLMParseError ''malformed completion envelope'')))"

definition llm_policy :: "pylib \<Rightarrow> llm_settings \<Rightarrow> json \<Rightarrow> json retry_policy" where
  "llm_policy lib st messages =
     \<lparr>rp_url = rstrip_by (\<lambda>c. c = CHR ''/'') (ls_base_url st) @ ''/chat/completions'',
      rp_headers = [(''Authorization'', JStr (''Bearer '' @ ls_key st))],
      rp_payload = JObj [(''model'', JStr (ls_model st)), (''messages'', messages),
        (''response_format'', JObj [(''type'', JStr ''json_object'')]), (''temperature'', JFloat (Fin (3 / 10)))],
      rp_status = (\<lambda>c. LLMError (''LLM HTTP '' @ nat_str c)),
      rp_rate = LLMRateLimitError ''rate-limited after retries'',
      rp_timeout = LLMError ''request timed out after retries'',
      rp_read = read_envelope lib\<rparr>"

definition llm_post :: "pylib \<Rightarrow> llm_settings \<Rightarrow> json \<Rightarrow> (hworld, json) py" where
  "llm_post lib st messages = post_with_retry (llm_policy lib st messages) (ls_retries st)"

definition summarize ::
  "pylib \<Rightarrow> (datetime \<Rightarrow> string) \<Rightarrow> llm_settings \<Rightarrow> string \<Rightarrow> string \<Rightarrow> datetime option \<Rightarrow> string list \<Rightarrow> string list \<Rightarrow> (hworld, summary_result) py" where
  "summarize lib date_iso st title content published portfolio interests =
     py_bind http_now (\<lambda>now.
     py_bind (llm_post lib st (build_messages date_iso now title content published portfolio interests
        (ls_max_chars st) (ls_focus st))) (\<lambda>text.
     py_lift (llm_parse lib st text)))"

section \<open>What a summary is\<close>

text \<open>The contract of the port for a result.\<close>

definition summary_ok :: "string \<Rightarrow> summary_result \<Rightarrow> bool" where
  "summary_ok model r = (3 \<le> length (sm_bullets r) \<and> length (sm_bullets r) \<le> 5 \<and>
     (\<forall>b \<in> set (sm_bullets r). b \<noteq> [] \<and> strip b = b) \<and> 1 \<le> sm_relevance r \<and> sm_relevance r \<le> 10 \<and>
     map fst (sm_scores r) = score_keys \<and> (\<forall>(k, n) \<in> set (sm_scores r). 1 \<le> n \<and> n \<le> 10) \<and>
     strip (sm_reason r) = sm_reason r \<and> sm_model r = model)"

lemma clamp_range: "clamp_1_10 lib v = Inr n \<Longrightarrow> 1 \<le> n \<and> n \<le> 10"
  by (auto simp: clamp_1_10_def split: json.splits sum.splits exn.splits)

lemma usable_bullets_clean:
  assumes "b \<in> set (usable_bullets raw)"
  shows "b \<noteq> [] \<and> strip b = b"
proof -
  have "b \<in> set (List.map_filter (\<lambda>b. case b of JStr s \<Rightarrow> if strip s \<noteq> [] then Some (strip s) else None | _ \<Rightarrow> None) raw)"
    using assms by (auto simp: usable_bullets_def dest: in_set_takeD)
  then show ?thesis by (auto simp: map_filter_def strip_strip split: json.splits if_splits)
qed

lemma scores_shape:
  assumes "sum_traverse (\<lambda>k. sum_bind (clamp_1_10 lib (f k)) (\<lambda>n. Inr (k, n))) ks = Inr scores"
  shows "map fst scores = ks \<and> (\<forall>(k, n) \<in> set scores. 1 \<le> n \<and> n \<le> 10)"
  using assms by (induction ks arbitrary: scores) (auto simp: sum_bind_Inr clamp_range)

lemma llm_parse_ok:
  assumes "llm_parse lib st content = Inr r"
  shows "summary_ok (ls_model st) r"
proof -
  obtain v where v: "llm_loads lib content = Inr v" using assms by (auto simp: llm_parse_def sum_bind_Inr)
  obtain obj where obj: "v = JObj obj" using assms v by (cases v) (simp_all add: llm_parse_def sum_bind_def)
  obtain raw where raw: "get_or_null obj ''bullets'' = JList raw"
    using assms v obj by (cases "get_or_null obj ''bullets''") (simp_all add: llm_parse_def sum_bind_def)
  have three: "\<not> length (usable_bullets raw) < 3"
    using assms v obj raw by (auto simp: llm_parse_def sum_bind_def)
  obtain raw_scores where rs: "get_or_null obj ''scores'' = JObj raw_scores"
    using assms v obj raw three by (cases "get_or_null obj ''scores''") (simp_all add: llm_parse_def sum_bind_def)
  define reason where "reason = get_or_null obj ''reason''"
  obtain scores relevance where p:
    "sum_traverse (\<lambda>k. sum_bind (clamp_1_10 lib (get_or_null raw_scores k)) (\<lambda>n. Inr (k, n))) score_keys = Inr scores"
    "clamp_1_10 lib (get_or_null obj ''relevance'') = Inr relevance"
    "r = \<lparr>sm_bullets = usable_bullets raw, sm_relevance = relevance, sm_scores = scores,
        sm_reason = strip (if truthy reason then py_str lib reason else []), sm_model = ls_model st\<rparr>"
    using assms three unfolding llm_parse_def v
    by (simp add: sum_bind_Inr sum_bind_def [of "Inr v"] obj raw rs Let_def reason_def [symmetric] del: truthy.simps) blast
  have "length (usable_bullets raw) \<le> 5" by (simp add: usable_bullets_def)
  then show ?thesis
    using three usable_bullets_clean clamp_range [OF p(2)] scores_shape [OF p(1)]
    by (simp add: summary_ok_def p(3) strip_strip)
qed

lemma summarize_run:
  assumes "summarize lib date_iso st title content published portfolio interests w = (r, w')"
    and "pol = llm_policy lib st (build_messages date_iso (hw_clock w 0) title content published portfolio interests
      (ls_max_chars st) (ls_focus st))"
    and "os = outcomes (nat (ls_retries st + 1)) w"
  shows "r = sum_bind (verdict pol False os) (llm_parse lib st)"
    and "hw_log w' = hw_log w @ trace (Posted (rp_url pol) (rp_headers pol) (rp_payload pol)) 0 (attempts_made os)"
proof -
  let ?w0 = "w\<lparr>hw_clock := (\<lambda>n. hw_clock w (Suc n))\<rparr>"
  obtain x w1 where run: "post_with_retry pol (ls_retries st) ?w0 = (x, w1)" by (cases "post_with_retry pol (ls_retries st) ?w0")
  have os: "os = outcomes (nat (ls_retries st + 1)) ?w0" by (simp add: assms(3) outcomes_def)
  note v = post_with_retry_verdict [OF os run]
  have "(r, w') = (sum_bind x (llm_parse lib st), w1)"
    using assms(1) run by (auto simp: summarize_def llm_post_def py_monad_defs http_now_def assms(2) py_lift_def sum_bind_def split: sum.splits)
  then show "r = sum_bind (verdict pol False os) (llm_parse lib st)"
    "hw_log w' = hw_log w @ trace (Posted (rp_url pol) (rp_headers pol) (rp_payload pol)) 0 (attempts_made os)"
    using v by simp_all
qed

text \<open>
  C37.  Whatever the provider answers, a summary that the adapter returns keeps the promises of the
  port: three to five bullets, not blank and stripped, the five scores under exactly their five
  names and the relevance all between 1 and 10, a stripped reason and the model of the settings.
\<close>

theorem llm_summary_valid:
  assumes "summarize lib date_iso st title content published portfolio interests w = (Inr r, w')"
  shows "3 \<le> length (sm_bullets r) \<and> length (sm_bullets r) \<le> 5 \<and>
    (\<forall>b \<in> set (sm_bullets r). b \<noteq> [] \<and> strip b = b) \<and>
    map fst (sm_scores r) = [''relevance'', ''credibility'', ''intensity'', ''personal'', ''time''] \<and>
    (\<forall>n \<in> insert (sm_relevance r) (snd ` set (sm_scores r)). 1 \<le> n \<and> n \<le> 10) \<and>
    strip (sm_reason r) = sm_reason r \<and> sm_model r = ls_model st"
proof -
  have "\<exists>v. llm_parse lib st v = Inr r"
    using summarize_run(1) [OF assms refl refl] by (metis sum_bind_Inr)
  then have "summary_ok (ls_model st) r" using llm_parse_ok by blast
  then show ?thesis by (auto simp: summary_ok_def score_keys_def)
qed

text \<open>
  The request with its retries, for any stream of outcomes: between one and \<open>retries + 1\<close> requests
  are sent, all of them the same; only a timeout or a 429 is retried, after a pause that grows by half a
  second each time, with none after the last; the first other outcome decides, and when there is none
  a 429 makes the rate-limit error, which stops the batch, and timeouts alone the error that skips
  the article.
\<close>

theorem llm_requests:
  assumes "summarize lib date_iso st title content published portfolio interests w = (r, w')" and "0 \<le> ls_retries st"
    and "os = map (hw_answers w) [0..<nat (ls_retries st) + 1]"
    and "k = length (takeWhile retryable os)"
  shows "(\<exists>p. hw_log w' = hw_log w @ concat (map (\<lambda>j. (if j = 0 then [] else [Slept (real j / 2)]) @ [p])
        [0..<min (nat (ls_retries st) + 1) (k + 1)])) \<and>
    r = (if k < length os
       then (case os ! k of
           Transport e \<Rightarrow> Inl e
         | Response status body \<Rightarrow> if status \<ge> 400 then Inl (LLMError (''LLM HTTP '' @ nat_str status))
             else sum_bind (read_envelope lib body) (llm_parse lib st))
       else Inl (if list_ex rate_limited os then LLMRateLimitError ''rate-limited after retries''
         else LLMError ''request timed out after retries''))"
proof -
  let ?pol = "llm_policy lib st (build_messages date_iso (hw_clock w 0) title content published portfolio interests
      (ls_max_chars st) (ls_focus st))"
  have os: "os = outcomes (nat (ls_retries st + 1)) w" by (simp add: assms(2,3) outcomes_def nat_add_distrib)
  have "attempts_made os = min (nat (ls_retries st) + 1) (k + 1)" by (simp add: attempts_made_def assms(3,4))
  then have log: "\<exists>p. hw_log w' = hw_log w @ concat (map (\<lambda>j. (if j = 0 then [] else [Slept (real j / 2)]) @ [p])
        [0..<min (nat (ls_retries st) + 1) (k + 1)])"
    using summarize_run(2) [OF assms(1) refl os] unfolding trace_def by (simp only: add_0 mult_1 times_divide_eq_left) blast
  have r: "r = sum_bind (verdict ?pol False os) (llm_parse lib st)" by (rule summarize_run(1) [OF assms(1) refl os])
  have pol: "rp_status ?pol = (\<lambda>c. LLMError (''LLM HTTP '' @ nat_str c))" "rp_rate ?pol = LLMRateLimitError ''rate-limited after retries''"
    "rp_timeout ?pol = LLMError ''request timed out after retries''" "rp_read ?pol = read_envelope lib"
    by (simp_all add: llm_policy_def)
  have "r = (if k < length os
       then (case os ! k of
           Transport e \<Rightarrow> Inl e
         | Response status body \<Rightarrow> if status \<ge> 400 then Inl (LLMError (''LLM HTTP '' @ nat_str status))
             else sum_bind (read_envelope lib body) (llm_parse lib st))
       else Inl (if list_ex rate_limited os then LLMRateLimitError ''rate-limited after retries''
         else LLMError ''request timed out after retries''))"
  proof (cases "dropWhile retryable os")
    case Nil
    then have "\<not> k < length os" by (metis assms(4) append_Nil2 takeWhile_dropWhile_id nat_neq_iff)
    then show ?thesis unfolding r verdict_def Nil by (simp add: sum_bind_def pol)
  next
    case (Cons x xs)
    then have k: "k < length os" "os ! k = x" "\<not> retryable x"
      by (metis assms(4) append_eq_conv_conj length_append length_Cons less_add_Suc1 add.commute takeWhile_dropWhile_id list.size(4) add_Suc_right,
        metis assms(4) Cons nth_append_length takeWhile_dropWhile_id, metis Cons hd_dropWhile list.sel(1) list.discI)
    then show ?thesis
      unfolding r verdict_def Cons list.case if_P [OF k(1)] k(2)
      by (cases x) (simp_all add: pol sum_bind_def retryable_def)
  qed
  with log show ?thesis by blast
qed

text \<open>
  An answer whose content is not text, such as the \<open>null\<close> that providers send beside a tool call or
  a refusal, is not an LLM error: \<open>json.loads\<close> raises a \<open>TypeError\<close>, which the summarize worker does not catch.
\<close>

theorem llm_null_content:
  assumes "0 \<le> ls_retries st" and "hw_answers w 0 = Response 200 body" and "read_envelope lib body = Inr JNull"
  shows "fst (summarize lib date_iso st title content published portfolio interests w) =
      Inl (TypeError ''the JSON object must be str, bytes or bytearray, not NoneType'')"
proof -
  let ?os = "outcomes (nat (ls_retries st + 1)) w"
  obtain r w' where run: "summarize lib date_iso st title content published portfolio interests w = (r, w')"
    by (metis prod.collapse)
  have "?os = Response 200 body # map (\<lambda>m. hw_answers w (Suc m)) [0..<nat (ls_retries st)]"
    using assms(1,2) outcomes_Suc [of "nat (ls_retries st)" w] by (simp add: nat_add_distrib)
  then have "dropWhile retryable ?os = Response 200 body # map (\<lambda>m. hw_answers w (Suc m)) [0..<nat (ls_retries st)]"
    by (simp add: retryable_def)
  then show ?thesis
    using summarize_run(1) [OF run refl refl] assms(3)
    by (simp add: run verdict_def llm_policy_def sum_bind_def llm_parse_def llm_loads_def type_name_def)
qed

section \<open>Witnesses\<close>

definition demo_settings :: llm_settings where
  "demo_settings = \<lparr>ls_base_url = ''https://api/v4/'', ls_key = ''k'', ls_model = ''glm'', ls_focus = ''finance'',
     ls_max_chars = 12000, ls_retries = 2\<rparr>"

definition demo_answer :: json where
  "demo_answer = JObj [(''bullets'', JList [JStr ''a '', JStr ''b'', JNull, JStr '' '', JStr ''c'']), (''reason'', JStr ''why''),
     (''relevance'', JInt 12), (''scores'', JObj [(''credibility'', JInt 5), (''intensity'', JInt 0), (''personal'', JInt 7),
       (''relevance'', JInt 9), (''time'', JInt 10)])]"

definition envelope :: "json \<Rightarrow> string" where
  "envelope v = dumps (pl_repr demo_lib) (JObj [(''choices'', JList [JObj [(''message'', JObj [(''content'', v)])]])])"

definition demo_world :: "json \<Rightarrow> hworld" where
  "demo_world v = \<lparr>hw_answers = (\<lambda>n. Response 200 (envelope v)), hw_clock = int, hw_log = []\<rparr>"

lemma demo_loads: "loads fp (dumps fr demo_answer) = Some demo_answer"
  by (subst loads_dumps) (simp_all add: demo_answer_def)

lemma envelope_read: "json_ok v \<Longrightarrow> sort_json v = v \<Longrightarrow> read_envelope demo_lib (envelope v) = Inr v"
  unfolding read_envelope_def envelope_def by (subst loads_dumps) (simp_all add: get_key_def get_first_def sum_bind_def dict_get_def)

lemma demo_parse: "llm_parse demo_lib demo_settings (JStr (dumps fr demo_answer)) =
  Inr \<lparr>sm_bullets = [''a'', ''b'', ''c''], sm_relevance = 10, sm_scores = [(''relevance'', 9), (''credibility'', 5), (''intensity'', 1),
    (''personal'', 7), (''time'', 10)], sm_reason = ''why'', sm_model = ''glm''\<rparr>"
proof -
  have r: "round_even (real_of_int i) = i" for i by (simp add: round_even_def)
  have c: "\<bar>i\<bar> \<le> 100 \<Longrightarrow> clamp_1_10 demo_lib (JInt i) = Inr (max 1 (min 10 i))" for i
    using r [of i] by (simp add: clamp_1_10_def sum_bind_def py_round_def float_limit_def)
  have "usable_bullets [JStr ''a '', JStr ''b'', JNull, JStr '' '', JStr ''c''] = [''a'', ''b'', ''c'']"
    by (simp add: usable_bullets_def map_filter_simps py_string_defs)
  moreover have "llm_loads demo_lib (JStr (dumps fr demo_answer)) = Inr demo_answer" by (simp add: llm_loads_def demo_loads)
  ultimately show ?thesis
    by (simp add: llm_parse_def sum_bind_def demo_answer_def get_or_null_def dict_get_def
        score_keys_def c py_str_def py_string_defs demo_settings_def)
qed

lemma demo_first: "outcomes (nat (ls_retries demo_settings + 1)) (demo_world v) = replicate 3 (Response 200 (envelope v))"
  by (simp add: outcomes_def demo_world_def demo_settings_def upt_rec numeral_eq_Suc)

theorem llm_summary_valid_witness:
  "\<exists>r w'. summarize demo_lib (\<lambda>d. []) demo_settings ''t'' ''c'' None [] [] (demo_world (JStr (dumps (pl_repr demo_lib) demo_answer))) = (Inr r, w') \<and>
    sm_bullets r = [''a'', ''b'', ''c''] \<and> length (sm_bullets r) \<le> 5"
proof -
  let ?v = "JStr (dumps (pl_repr demo_lib) demo_answer)"
  obtain x w' where run: "summarize demo_lib (\<lambda>d. []) demo_settings ''t'' ''c'' None [] [] (demo_world ?v) = (x, w')"
    by (metis prod.collapse)
  have "read_envelope demo_lib (envelope ?v) = Inr ?v" by (rule envelope_read) simp_all
  then have "\<exists>r. x = Inr r \<and> sm_bullets r = [''a'', ''b'', ''c'']"
    using summarize_run(1) [OF run refl refl]
    by (simp add: demo_first verdict_def retryable_def llm_policy_def sum_bind_def demo_parse numeral_eq_Suc)
  then obtain r where "x = Inr r" "sm_bullets r = [''a'', ''b'', ''c'']" by blast
  then show ?thesis using run llm_summary_valid [of demo_lib "\<lambda>d. []" demo_settings "''t''" "''c''" None "[]" "[]" _ r w'] by blast
qed

theorem llm_requests_witness:
  "\<exists>w' p. summarize demo_lib (\<lambda>d. []) demo_settings ''t'' ''c'' None [] []
      \<lparr>hw_answers = (\<lambda>n. if n = 1 then Response 429 [] else Timed_Out), hw_clock = int, hw_log = []\<rparr> =
    (Inl (LLMRateLimitError ''rate-limited after retries''), w') \<and> hw_log w' = [p, Slept (1 / 2), p, Slept 1, p]"
proof -
  let ?w = "\<lparr>hw_answers = (\<lambda>n. if n = 1 then Response 429 [] else Timed_Out), hw_clock = int, hw_log = []\<rparr>"
  obtain x w' where run: "summarize demo_lib (\<lambda>d. []) demo_settings ''t'' ''c'' None [] [] ?w = (x, w')"
    by (metis prod.collapse)
  have os: "[Timed_Out, Response 429 [], Timed_Out] = map (hw_answers ?w) [0..<nat (ls_retries demo_settings) + 1]"
    by (simp add: demo_settings_def upt_rec numeral_eq_Suc)
  have "0 \<le> ls_retries demo_settings" by (simp add: demo_settings_def)
  from llm_requests [OF run this os refl]
  have "x = Inl (LLMRateLimitError ''rate-limited after retries'') \<and> (\<exists>p. hw_log w' = [p, Slept (1 / 2), p, Slept 1, p])"
    by (simp add: retryable_def demo_settings_def upt_rec numeral_eq_Suc)
  then show ?thesis using run by blast
qed

theorem llm_null_content_witness:
  "fst (summarize demo_lib (\<lambda>d. []) demo_settings ''t'' ''c'' None [] [] (demo_world JNull)) =
    Inl (TypeError ''the JSON object must be str, bytes or bytearray, not NoneType'')"
proof (rule llm_null_content)
  show "0 \<le> ls_retries demo_settings" by (simp add: demo_settings_def)
  show "hw_answers (demo_world JNull) 0 = Response 200 (envelope JNull)" by (simp add: demo_world_def)
  show "read_envelope demo_lib (envelope JNull) = Inr JNull" by (rule envelope_read) simp_all
qed

end
