(* ===== verification/Summarize_Worker.thy ===== *)
theory Summarize_Worker
  imports Llm Api
begin

text \<open>
  The summarize worker, \<open>worker/summarize_worker.py\<close>: batches of articles without a summary are given
  to a summarizer, and each result is committed on its own.

  The summarizer is any function of the port's type; what its results keep is the locale
  \<open>summarizer\<close>, interpreted on the OpenAI-compatible adapter of theory \<open>Llm\<close>.
\<close>

section \<open>State and settings\<close>

record batch_world =
  bw_db :: db
  bw_clock :: "nat \<Rightarrow> datetime"
  bw_slept :: "real list"

record sum_settings =
  sz_batch :: nat
  sz_delay :: real
  sz_portfolio :: "string list"
  sz_interests :: "string list"

type_synonym 's summarize_fn =
  "string \<Rightarrow> string \<Rightarrow> datetime option \<Rightarrow> string list \<Rightarrow> string list \<Rightarrow> ('s, summary_result) py"

section \<open>One batch\<close>

text \<open>\<open>ORDER BY fetched_at DESC, id DESC\<close>.\<close>

definition newest_first :: "article_row list \<Rightarrow> article_row list" where
  "newest_first rows = sort_key (\<lambda>r. - a_fetched_at r) (rev (sort_key a_id rows))"

definition pending_rows :: "nat \<Rightarrow> nat option \<Rightarrow> db \<Rightarrow> article_row list" where
  "pending_rows batch refresh_limit d = (case refresh_limit of
      Some n \<Rightarrow> take n (newest_first (db_articles d))
    | None \<Rightarrow> take batch (filter (\<lambda>r. a_summary r = None) (newest_first (db_articles d))))"

definition summary_json :: "(datetime \<Rightarrow> string) \<Rightarrow> summary_result \<Rightarrow> datetime \<Rightarrow> pydict" where
  "summary_json isof r now = [(''bullets'', JList (map JStr (sm_bullets r))),
     (''scores'', JObj (map (\<lambda>(k, n). (k, JInt n)) (sm_scores r))), (''reason'', JStr (sm_reason r)),
     (''model'', JStr (sm_model r)), (''generated_at'', JStr (isof now))]"

definition with_summary :: "(datetime \<Rightarrow> string) \<Rightarrow> summary_result \<Rightarrow> datetime \<Rightarrow> article_row \<Rightarrow> article_row" where
  "with_summary isof r now row = row\<lparr>a_relevance := Some (sm_relevance r), a_summary := Some (summary_json isof r now)\<rparr>"

definition persist_summary :: "(datetime \<Rightarrow> string) \<Rightarrow> string \<Rightarrow> summary_result \<Rightarrow> batch_world \<Rightarrow> batch_world" where
  "persist_summary isof i r z = z\<lparr>
     bw_db := (bw_db z)\<lparr>db_articles := map (\<lambda>row. if a_id row = i then with_summary isof r (bw_clock z 0) row else row)
       (db_articles (bw_db z))\<rparr>,
     bw_clock := (\<lambda>n. bw_clock z (Suc n))\<rparr>"

definition inter_request_pause :: "real \<Rightarrow> batch_world \<Rightarrow> batch_world" where
  "inter_request_pause d z = (if d = 0 then z else z\<lparr>bw_slept := bw_slept z @ [d]\<rparr>)"

fun summarize_batch ::
  "'s summarize_fn \<Rightarrow> sum_settings \<Rightarrow> (datetime \<Rightarrow> string) \<Rightarrow> article_row list \<Rightarrow> nat \<Rightarrow> ('s \<times> batch_world, nat) py" where
  "summarize_batch sm ws isof [] count s = (Inr count, s)"
| "summarize_batch sm ws isof (row # rows) count (s, z) =
     (case sm (a_title row) (a_content row) (a_publish_date row) (sz_portfolio ws) (sz_interests ws) s of
        (Inl e, s1) \<Rightarrow> (case e of
            LLMRateLimitError m \<Rightarrow> (Inr count, (s1, z))
          | _ \<Rightarrow> if is_llm_error e then summarize_batch sm ws isof rows count (s1, z) else (Inl e, (s1, z)))
      | (Inr r, s1) \<Rightarrow> summarize_batch sm ws isof rows (count + 1)
            (s1, inter_request_pause (sz_delay ws) (persist_summary isof (a_id row) r z)))"

definition summarize_pending ::
  "'s summarize_fn \<Rightarrow> sum_settings \<Rightarrow> (datetime \<Rightarrow> string) \<Rightarrow> nat option \<Rightarrow> ('s \<times> batch_world, nat) py" where
  "summarize_pending sm ws isof refresh_limit s =
     summarize_batch sm ws isof (pending_rows (sz_batch ws) refresh_limit (bw_db (snd s))) 0 s"

text \<open>\<open>while await summarize_pending(...) > 0: pass\<close>.\<close>

definition run_summarize_worker ::
  "nat \<Rightarrow> 's summarize_fn \<Rightarrow> sum_settings \<Rightarrow> (datetime \<Rightarrow> string) \<Rightarrow> 's \<times> batch_world \<Rightarrow> ((exn + unit) \<times> ('s \<times> batch_world)) option" where
  "run_summarize_worker n sm ws isof =
     drain n (py_bind (summarize_pending sm ws isof None) (\<lambda>c. py_ret (c > 0)))"

section \<open>Effects of a batch\<close>

definition unsummarized :: "article_row list \<Rightarrow> nat" where
  "unsummarized rows = length (filter (\<lambda>r. a_summary r = None) rows)"

lemma set_newest_first [simp]: "set (newest_first rows) = set rows"
  by (simp add: newest_first_def)

lemma distinct_newest_first: "distinct (map a_id rows) \<Longrightarrow> distinct (map a_id (newest_first rows))"
proof -
  assume d: "distinct (map a_id rows)"
  then have "distinct rows" "inj_on a_id (set rows)" by (simp_all add: distinct_map)
  then show ?thesis by (simp add: distinct_map newest_first_def)
qed

lemma newest_first_sorted:
  "sorted_wrt (\<lambda>r s. a_fetched_at s \<le> a_fetched_at r) (newest_first rows)"
  using sorted_sort_key [of "\<lambda>r. - a_fetched_at r" "rev (sort_key a_id rows)"] by (simp add: newest_first_def sorted_map)

lemma distinct_take_filter: "distinct (map f xs) \<Longrightarrow> distinct (map f (take n (filter P xs)))"
  by (metis distinct_map_filter distinct_take take_map)

lemma pending_shape:
  assumes "distinct (map a_id (db_articles d))"
  shows "distinct (map a_id (pending_rows n None d))"
    and "set (pending_rows n None d) \<subseteq> {r \<in> set (db_articles d). a_summary r = None}"
    and "length (pending_rows n None d) \<le> n"
proof -
  show "distinct (map a_id (pending_rows n None d))"
    using distinct_newest_first [OF assms] by (simp add: pending_rows_def distinct_take_filter)
  show "set (pending_rows n None d) \<subseteq> {r \<in> set (db_articles d). a_summary r = None}"
    by (auto simp: pending_rows_def dest!: in_set_takeD)
  show "length (pending_rows n None d) \<le> n" by (simp add: pending_rows_def)
qed

text \<open>What a batch may do to a row: nothing, or store a result into a row of the batch.\<close>

definition row_step :: "(summary_result \<Rightarrow> bool) \<Rightarrow> (datetime \<Rightarrow> string) \<Rightarrow> string set \<Rightarrow> article_row \<Rightarrow> article_row \<Rightarrow> bool" where
  "row_step ok isof ids old new = (new = old \<or>
     a_id old \<in> ids \<and> a_summary old = None \<and> (\<exists>r t. ok r \<and> new = with_summary isof r t old))"

lemma with_summary_simps [simp]:
  "a_id (with_summary isof r t row) = a_id row" "a_summary (with_summary isof r t row) = Some (summary_json isof r t)"
  by (simp_all add: with_summary_def)

lemma row_step_id: "row_step ok isof ids old new \<Longrightarrow> a_id new = a_id old"
  by (auto simp: row_step_def)

lemma row_step_refl: "list_all2 (row_step ok isof ids) rows rows"
  by (simp add: list_all2_same row_step_def)

lemma row_steps_ids: "list_all2 (row_step ok isof ids) xs ys \<Longrightarrow> map a_id ys = map a_id xs"
  by (induction rule: list_all2_induct) (simp_all add: row_step_id)

lemma persist_row_step:
  assumes "ok r" and "\<forall>row \<in> set rows. a_id row = i \<longrightarrow> a_summary row = None"
  shows "list_all2 (row_step ok isof {i}) rows (map (\<lambda>row. if a_id row = i then with_summary isof r t row else row) rows)"
proof -
  have "row_step ok isof {i} x (if a_id x = i then with_summary isof r t x else x)" if "x \<in> set rows" for x
    using assms that by (cases "a_id x = i") (auto simp: row_step_def)
  then show ?thesis by (simp add: list_all2_map2 list_all2_same)
qed

lemma row_step_trans:
  assumes "list_all2 (row_step ok isof A) xs ys" and "list_all2 (row_step ok isof B) ys zs" and "A \<inter> B = {}"
  shows "list_all2 (row_step ok isof (A \<union> B)) xs zs"
proof -
  have "row_step ok isof (A \<union> B) x z" if "row_step ok isof A x y" "row_step ok isof B y z" for x y z
    using that assms(3) by (auto simp: row_step_def)
  then show ?thesis using assms(1,2) by (rule list_all2_trans)
qed

text \<open>Updating one row out of a class of rows leaves one fewer of them.\<close>

lemma count_update:
  assumes "distinct (map a_id rows)" and "row \<in> set rows" and "P row" and "\<not> P (f row)"
  shows "length (filter P (map (\<lambda>x. if a_id x = a_id row then f x else x) rows)) + 1 = length (filter P rows)"
  using assms(1,2)
proof (induction rows)
  case (Cons y ys)
  show ?case
  proof (cases "y = row")
    case True
    have "map (\<lambda>x. if a_id x = a_id row then f x else x) ys = ys"
      using Cons.prems(1) True by (intro map_idI) (auto simp: image_iff)
    then show ?thesis using True assms(3,4) by simp
  next
    case False
    then have "row \<in> set ys" "a_id y \<noteq> a_id row" using Cons.prems(1,2) by (auto simp: image_iff)
    then show ?thesis using Cons by auto
  qed
qed simp

lemma unsummarized_persist:
  assumes "distinct (map a_id rows)" and "row \<in> set rows" and "a_summary row = None"
  shows "unsummarized (map (\<lambda>x. if a_id x = a_id row then with_summary isof r t x else x) rows) + 1 = unsummarized rows"
  unfolding unsummarized_def using assms by (rule count_update) simp

locale summarizer =
  fixes sm :: "'s summarize_fn" and ok :: "summary_result \<Rightarrow> bool"
  assumes result_ok: "sm title content published portfolio interests s = (Inr r, s') \<Longrightarrow> ok r"
begin

lemma batch_effect:
  assumes "summarize_batch sm ws isof ps count (s, z) = (r, (s', z'))"
    and "distinct (map a_id (db_articles (bw_db z)))" and "distinct (map a_id ps)"
    and "\<forall>p \<in> set ps. \<exists>row \<in> set (db_articles (bw_db z)). a_id row = a_id p \<and> a_summary row = None"
  shows "list_all2 (row_step ok isof (a_id ` set ps)) (db_articles (bw_db z)) (db_articles (bw_db z')) \<and>
    (\<exists>k \<le> length ps. unsummarized (db_articles (bw_db z')) + k = unsummarized (db_articles (bw_db z)) \<and>
      (case r of Inr c \<Rightarrow> c = count + k | Inl e \<Rightarrow> \<not> is_llm_error e)) \<and>
    bw_db z' = (bw_db z)\<lparr>db_articles := db_articles (bw_db z')\<rparr>"
  using assms
proof (induction ps arbitrary: s z count)
  case Nil
  then show ?case by (auto simp: row_step_refl)
next
  case (Cons p ps)
  obtain x s1 where x: "sm (a_title p) (a_content p) (a_publish_date p) (sz_portfolio ws) (sz_interests ws) s = (x, s1)"
    by (metis prod.collapse)
  have mono: "list_all2 (row_step ok isof (a_id ` set (p # ps))) xs ys"
    if "list_all2 (row_step ok isof (a_id ` set ps)) xs ys" for xs ys
    using that by (rule list_all2_mono) (auto simp: row_step_def)
  show ?case
  proof (cases x)
    case (Inl e)
    show ?thesis
    proof (cases "is_llm_error e \<and> (\<forall>m. e \<noteq> LLMRateLimitError m)")
      case True
      then have "summarize_batch sm ws isof ps count (s1, z) = (r, (s', z'))"
        using Cons.prems(1) x Inl by (auto split: exn.splits)
      from Cons.IH [OF this Cons.prems(2)] Cons.prems(3,4)
      have "list_all2 (row_step ok isof (a_id ` set ps)) (db_articles (bw_db z)) (db_articles (bw_db z')) \<and>
        (\<exists>k \<le> length ps. unsummarized (db_articles (bw_db z')) + k = unsummarized (db_articles (bw_db z)) \<and>
          (case r of Inr c \<Rightarrow> c = count + k | Inl e \<Rightarrow> \<not> is_llm_error e)) \<and>
        bw_db z' = (bw_db z)\<lparr>db_articles := db_articles (bw_db z')\<rparr>" by simp
      then show ?thesis using mono by (auto intro: le_SucI)
    next
      case False
      then have "z' = z" "r = Inr count \<or> (\<exists>e. r = Inl e \<and> \<not> is_llm_error e)"
        using Cons.prems(1) x Inl by (auto split: exn.splits)
      then show ?thesis by (auto simp: row_step_refl)
    qed
  next
    case (Inr res)
    let ?t = "bw_clock z 0" and ?rows = "db_articles (bw_db z)"
    let ?z1 = "inter_request_pause (sz_delay ws) (persist_summary isof (a_id p) res z)"
    let ?rows1 = "map (\<lambda>x. if a_id x = a_id p then with_summary isof res ?t x else x) ?rows"
    have ok: "ok res" using result_ok x Inr by blast
    have z1: "bw_db ?z1 = (bw_db z)\<lparr>db_articles := ?rows1\<rparr>"
      by (simp add: inter_request_pause_def persist_summary_def)
    obtain row where row: "row \<in> set ?rows" "a_id row = a_id p" "a_summary row = None" using Cons.prems(4) by auto
    have fresh: "\<forall>x \<in> set ?rows. a_id x = a_id p \<longrightarrow> a_summary x = None"
      using row Cons.prems(2) by (metis distinct_map inj_onD)
    have step1: "list_all2 (row_step ok isof {a_id p}) ?rows ?rows1"
      using ok fresh by (rule persist_row_step)
    have run: "summarize_batch sm ws isof ps (count + 1) (s1, ?z1) = (r, (s', z'))"
      using Cons.prems(1) x Inr by simp
    have ids: "map a_id ?rows1 = map a_id ?rows" by (rule row_steps_ids [OF step1])
    have d1: "distinct (map a_id (db_articles (bw_db ?z1)))" using ids Cons.prems(2) by (simp add: z1 del: map_map)
    have d2: "distinct (map a_id ps)" using Cons.prems(3) by simp
    have rest: "\<forall>q \<in> set ps. \<exists>row \<in> set (db_articles (bw_db ?z1)). a_id row = a_id q \<and> a_summary row = None"
    proof
      fix q assume q: "q \<in> set ps"
      then obtain x where "x \<in> set ?rows" "a_id x = a_id q" "a_summary x = None" using Cons.prems(4) by auto
      moreover have "a_id q \<noteq> a_id p" using Cons.prems(3) imageI [OF q, of a_id] by auto
      ultimately show "\<exists>row \<in> set (db_articles (bw_db ?z1)). a_id row = a_id q \<and> a_summary row = None"
        by (auto simp: z1 intro!: bexI [of _ x])
    qed
    have un: "unsummarized ?rows1 + 1 = unsummarized ?rows"
      using unsummarized_persist [OF Cons.prems(2) row(1,3), of isof res ?t] row(2) by simp
    from Cons.IH [OF run d1 d2 rest]
    obtain k where ih: "list_all2 (row_step ok isof (a_id ` set ps)) ?rows1 (db_articles (bw_db z'))"
      "k \<le> length ps" "unsummarized (db_articles (bw_db z')) + k = unsummarized ?rows1"
      "case r of Inr c \<Rightarrow> c = count + 1 + k | Inl e \<Rightarrow> \<not> is_llm_error e"
      "bw_db z' = (bw_db ?z1)\<lparr>db_articles := db_articles (bw_db z')\<rparr>"
      unfolding z1 by auto
    have "{a_id p} \<inter> a_id ` set ps = {}" using Cons.prems(3) by auto
    from row_step_trans [OF step1 ih(1) this]
    have "list_all2 (row_step ok isof (a_id ` set (p # ps))) ?rows (db_articles (bw_db z'))" by simp
    moreover have "bw_db z' = (bw_db z)\<lparr>db_articles := db_articles (bw_db z')\<rparr>" using ih(5) unfolding z1 by simp
    moreover have "case r of Inr c \<Rightarrow> c = count + Suc k | Inl e \<Rightarrow> \<not> is_llm_error e" using ih(4) by (simp split: sum.splits)
    ultimately show ?thesis using ih(2,3) un by (intro conjI exI [of _ "Suc k"]) simp_all
  qed
qed

lemma pending_effect:
  assumes "summarize_pending sm ws isof None (s, z) = (r, (s', z'))" and "db_ok (bw_db z)"
    and "ps = pending_rows (sz_batch ws) None (bw_db z)"
  shows "list_all2 (row_step ok isof (a_id ` set ps)) (db_articles (bw_db z)) (db_articles (bw_db z'))"
    and "\<exists>k \<le> length ps. unsummarized (db_articles (bw_db z')) + k = unsummarized (db_articles (bw_db z)) \<and>
      (case r of Inr c \<Rightarrow> c = k | Inl e \<Rightarrow> \<not> is_llm_error e)"
    and "bw_db z' = (bw_db z)\<lparr>db_articles := db_articles (bw_db z')\<rparr>" and "db_ok (bw_db z')"
proof -
  have d: "distinct (map a_id (db_articles (bw_db z)))" using assms(2) by (simp add: db_ok_def)
  note ps = pending_shape [OF d, of "sz_batch ws", folded assms(3)]
  have run: "summarize_batch sm ws isof ps 0 (s, z) = (r, (s', z'))"
    using assms(1,3) by (simp add: summarize_pending_def)
  have "\<forall>p \<in> set ps. \<exists>row \<in> set (db_articles (bw_db z)). a_id row = a_id p \<and> a_summary row = None" using ps(2) by blast
  note eff = batch_effect [OF run d ps(1) this]
  show 1: "list_all2 (row_step ok isof (a_id ` set ps)) (db_articles (bw_db z)) (db_articles (bw_db z'))"
    and 2: "bw_db z' = (bw_db z)\<lparr>db_articles := db_articles (bw_db z')\<rparr>"
    and "\<exists>k \<le> length ps. unsummarized (db_articles (bw_db z')) + k = unsummarized (db_articles (bw_db z)) \<and>
      (case r of Inr c \<Rightarrow> c = k | Inl e \<Rightarrow> \<not> is_llm_error e)"
    using eff unfolding add_0 by blast+
  have "db_jobs (bw_db z') = db_jobs (bw_db z)" by (subst 2) simp
  then show "db_ok (bw_db z')" using assms(2) row_steps_ids [OF 1] by (simp add: db_ok_def)
qed

text \<open>Every round but the last stores at least one summary.\<close>

lemma worker_returns:
  assumes "db_ok (bw_db z)" and "unsummarized (db_articles (bw_db z)) < n"
  shows "run_summarize_worker n sm ws isof (s, z) \<noteq> None"
  using assms
proof (induction n arbitrary: s z)
  case (Suc n)
  obtain r s1 z1 where p: "summarize_pending sm ws isof None (s, z) = (r, (s1, z1))" by (metis prod.collapse)
  note eff = pending_effect [OF p Suc.prems(1) refl]
  show ?case
  proof (cases r)
    case (Inr c)
    then have "unsummarized (db_articles (bw_db z1)) + c = unsummarized (db_articles (bw_db z))" using eff(2) by auto
    then have "c > 0 \<Longrightarrow> run_summarize_worker n sm ws isof (s1, z1) \<noteq> None"
      using Suc.IH [OF eff(4)] Suc.prems(2) by simp
    then show ?thesis using p Inr by (cases "c > 0") (simp_all add: run_summarize_worker_def py_monad_defs)
  qed (use p in \<open>simp add: run_summarize_worker_def py_monad_defs\<close>)
qed simp

end

interpretation openai: summarizer "summarize lib date_iso st" "summary_ok (ls_model st)" for lib date_iso st
proof (rule summarizer.intro)
  fix title content published portfolio interests s r s'
  assume "summarize lib date_iso st title content published portfolio interests s = (Inr r, s')"
  from summarize_run(1) [OF this refl refl] show "summary_ok (ls_model st) r"
    using llm_parse_ok by (metis sum_bind_Inr)
qed

text \<open>A summarizer that never fails summarizes the whole batch.\<close>

lemma batch_complete:
  assumes "\<And>title content published portfolio interests s. \<exists>r s'. sm title content published portfolio interests s = (Inr r, s')"
  shows "\<exists>s'. summarize_batch sm ws isof ps count s = (Inr (count + length ps), s')"
proof (induction ps arbitrary: s count)
  case (Cons p ps)
  obtain s0 z where s: "s = (s0, z)" by (cases s)
  obtain r s1 where "sm (a_title p) (a_content p) (a_publish_date p) (sz_portfolio ws) (sz_interests ws) s0 = (Inr r, s1)"
    using assms by blast
  then show ?case
    using Cons.IH [of "count + 1" "(s1, inter_request_pause (sz_delay ws) (persist_summary isof (a_id p) r z))"] by (simp add: s)
qed simp

lemma pending_none:
  assumes "pending_rows n None d = []" and "0 < n"
  shows "unsummarized (db_articles d) = 0"
proof -
  have "filter (\<lambda>r. a_summary r = None) (newest_first (db_articles d)) = []" using assms by (simp add: pending_rows_def)
  then have "\<forall>r \<in> set (newest_first (db_articles d)). a_summary r \<noteq> None" by (simp only: filter_empty_conv)
  then show ?thesis by (simp add: unsummarized_def filter_empty_conv)
qed

lemma worker_drains:
  assumes "db_ok (bw_db z)" and "0 < sz_batch ws" and "unsummarized (db_articles (bw_db z)) < n"
    and total: "\<And>title content published portfolio interests s. \<exists>r s'. sm title content published portfolio interests s = (Inr r, s')"
  shows "\<exists>s' z'. run_summarize_worker n sm ws isof (s, z) = Some (Inr (), (s', z')) \<and> unsummarized (db_articles (bw_db z')) = 0"
  using assms(1,3)
proof (induction n arbitrary: s z)
  case (Suc n)
  have any: "summarizer sm (\<lambda>_. True)" by (rule summarizer.intro) simp
  let ?ps = "pending_rows (sz_batch ws) None (bw_db z)"
  obtain s1 z1 where p: "summarize_pending sm ws isof None (s, z) = (Inr (length ?ps), (s1, z1))"
    using batch_complete [where sm = sm and ws = ws and isof = isof and ps = ?ps and count = 0 and s = "(s, z)", OF total] by (auto simp: summarize_pending_def)
  note eff = summarizer.pending_effect [OF any p Suc.prems(1) refl]
  have un: "unsummarized (db_articles (bw_db z1)) + length ?ps = unsummarized (db_articles (bw_db z))" using eff(2) by auto
  show ?case
  proof (cases "?ps = []")
    case True
    then have "unsummarized (db_articles (bw_db z1)) = 0" using pending_none [OF True assms(2)] un by simp
    then show ?thesis using p True by (simp add: run_summarize_worker_def py_monad_defs)
  next
    case False
    then have "unsummarized (db_articles (bw_db z1)) < n" using un Suc.prems(2) by (cases ?ps) simp_all
    from Suc.IH [OF eff(4) this, of s1] show ?thesis
      using p False by (auto simp: run_summarize_worker_def py_monad_defs)
  qed
qed simp

section \<open>Properties\<close>

text \<open>
  C9.  One batch of the summarize worker with the OpenAI-compatible adapter, whatever the provider
  answers: only articles without a summary among the newest \<open>SUMMARY_BATCH_SIZE\<close> of them are touched,
  an existing summary never; what is stored is a relevance between 1 and 10 and a summary of three
  to five bullets, no other column and no other table changes; the returned number is the number of
  articles that got their summary, and an exception that leaves the batch is not an LLM error.
\<close>

theorem summarize_batch_contract:
  assumes "db_ok (bw_db z)" and "summarize_pending (summarize lib date_iso st) ws isof None (s, z) = (r, (s', z'))"
    and "rows = db_articles (bw_db z)"
  shows "list_all2 (\<lambda>old new. new = old \<or>
      old \<in> set (take (sz_batch ws) (filter (\<lambda>r. a_summary r = None) (newest_first rows))) \<and> a_summary old = None \<and>
      (\<exists>res t. 1 \<le> sm_relevance res \<and> sm_relevance res \<le> 10 \<and> 3 \<le> length (sm_bullets res) \<and> length (sm_bullets res) \<le> 5 \<and>
         new = old\<lparr>a_relevance := Some (sm_relevance res), a_summary := Some (summary_json isof res t)\<rparr>))
      rows (db_articles (bw_db z')) \<and>
    (\<exists>k \<le> sz_batch ws. unsummarized (db_articles (bw_db z')) + k = unsummarized rows \<and>
      (case r of Inr c \<Rightarrow> c = k | Inl e \<Rightarrow> \<not> is_llm_error e)) \<and>
    bw_db z' = (bw_db z)\<lparr>db_articles := db_articles (bw_db z')\<rparr>"
proof -
  let ?ps = "pending_rows (sz_batch ws) None (bw_db z)"
  note eff = openai.pending_effect [OF assms(2,1) refl]
  have d: "distinct (map a_id rows)" using assms(1,3) by (simp add: db_ok_def)
  note ps = pending_shape [OF d [unfolded assms(3)], of "sz_batch ws"]
  have in_batch: "old \<in> set ?ps" if "old \<in> set rows" "a_id old \<in> a_id ` set ?ps" for old
  proof -
    have ids: "a_id old \<in> a_id ` set ?ps" and old: "old \<in> set rows" by fact+
    then obtain p where "p \<in> set ?ps" "a_id old = a_id p" by blast
    moreover have "p \<in> set rows" using ps(2) calculation(1) assms(3) by blast
    ultimately show ?thesis using d old by (metis distinct_map inj_onD)
  qed
  have row: "new = old \<or> old \<in> set (take (sz_batch ws) (filter (\<lambda>r. a_summary r = None) (newest_first rows))) \<and> a_summary old = None \<and>
      (\<exists>res t. 1 \<le> sm_relevance res \<and> sm_relevance res \<le> 10 \<and> 3 \<le> length (sm_bullets res) \<and> length (sm_bullets res) \<le> 5 \<and>
         new = old\<lparr>a_relevance := Some (sm_relevance res), a_summary := Some (summary_json isof res t)\<rparr>)"
    if "old \<in> set rows" "row_step (summary_ok (ls_model st)) isof (a_id ` set ?ps) old new" for old new
    using that in_batch [OF that(1)]
    unfolding row_step_def with_summary_def summary_ok_def pending_rows_def assms(3) option.case by blast
  obtain k where k: "k \<le> length ?ps" "unsummarized (db_articles (bw_db z')) + k = unsummarized rows"
      "case r of Inr c \<Rightarrow> c = k | Inl e \<Rightarrow> \<not> is_llm_error e"
    using eff(2) unfolding assms(3) by blast
  show ?thesis
  proof (intro conjI)
    show "list_all2 (\<lambda>old new. new = old \<or>
        old \<in> set (take (sz_batch ws) (filter (\<lambda>r. a_summary r = None) (newest_first rows))) \<and> a_summary old = None \<and>
        (\<exists>res t. 1 \<le> sm_relevance res \<and> sm_relevance res \<le> 10 \<and> 3 \<le> length (sm_bullets res) \<and> length (sm_bullets res) \<le> 5 \<and>
           new = old\<lparr>a_relevance := Some (sm_relevance res), a_summary := Some (summary_json isof res t)\<rparr>))
        rows (db_articles (bw_db z'))"
      by (rule list.rel_mono_strong [OF eff(1) [folded assms(3)]]) (rule row)
    show "\<exists>k \<le> sz_batch ws. unsummarized (db_articles (bw_db z')) + k = unsummarized rows \<and>
        (case r of Inr c \<Rightarrow> c = k | Inl e \<Rightarrow> \<not> is_llm_error e)"
      using k ps(3) by (intro exI [of _ k]) simp
    show "bw_db z' = (bw_db z)\<lparr>db_articles := db_articles (bw_db z')\<rparr>" by (rule eff(3))
  qed
qed

text \<open>
  The worker returns, whatever the summarizer does: a round that stores nothing is the last, and
  every other one leaves fewer articles without a summary, so one round more than there are such
  articles is enough.
\<close>

theorem summarize_worker_terminates:
  assumes "db_ok (bw_db z)"
  shows "run_summarize_worker (unsummarized (db_articles (bw_db z)) + 1) sm ws isof (s, z) \<noteq> None"
proof -
  have "summarizer sm (\<lambda>_. True)" by (rule summarizer.intro) simp
  from summarizer.worker_returns [OF this assms] show ?thesis by simp
qed

text \<open>
  C38.  Liveness: while the summarizer answers every article and a batch is not empty, the worker ends
  with no article left without a summary.
\<close>

theorem summarize_worker_drains:
  assumes "db_ok (bw_db z)" and "0 < sz_batch ws"
    and "\<And>title content published portfolio interests s. \<exists>r s'. sm title content published portfolio interests s = (Inr r, s')"
  shows "\<exists>s' z'. run_summarize_worker (unsummarized (db_articles (bw_db z)) + 1) sm ws isof (s, z) = Some (Inr (), (s', z')) \<and>
    unsummarized (db_articles (bw_db z')) = 0"
  by (rule worker_drains [OF assms(1,2) _ assms(3)]) simp

text \<open>
  Starvation: when every article of a batch fails with an error other than the rate limit, the worker
  ends at once and leaves the database as it was, however many older articles wait behind them;
  the next run meets the same batch.
\<close>

theorem summarize_starved:
  assumes "ps = pending_rows (sz_batch ws) None (bw_db z)"
    and "\<And>p s. p \<in> set ps \<Longrightarrow> \<exists>m s'. sm (a_title p) (a_content p) (a_publish_date p) (sz_portfolio ws) (sz_interests ws) s =
      (Inl (LLMParseError m), s')"
  shows "\<exists>s'. run_summarize_worker 1 sm ws isof (s, z) = Some (Inr (), (s', z))"
proof -
  have "\<exists>s'. summarize_batch sm ws isof qs c (s, z) = (Inr c, (s', z))" if "set qs \<subseteq> set ps" for qs c s
    using that
  proof (induction qs arbitrary: s)
    case (Cons q qs)
    then obtain m s1 where "sm (a_title q) (a_content q) (a_publish_date q) (sz_portfolio ws) (sz_interests ws) s =
      (Inl (LLMParseError m), s1)" using assms(2) [of q s] by auto
    then show ?case using Cons.IH [of s1] Cons.prems by simp
  qed simp
  then obtain s' where "summarize_batch sm ws isof ps 0 (s, z) = (Inr 0, (s', z))" by blast
  then show ?thesis by (simp add: run_summarize_worker_def summarize_pending_def assms(1) py_monad_defs)
qed

section \<open>Witnesses\<close>

definition fresh_article :: "string \<Rightarrow> datetime \<Rightarrow> article_row" where
  "fresh_article i t = \<lparr>a_id = i, a_url = i, a_domain = ''ft.com'', a_bucket = ''public'', a_title = ''t'', a_content = ''c'',
     a_author = None, a_publish_date = None, a_fetched_at = t, a_raw_key = None, a_meta = [], a_embedding = None,
     a_relevance = None, a_summary = None\<rparr>"

definition sum_demo :: batch_world where
  "sum_demo = \<lparr>bw_db = db_empty\<lparr>db_articles := [fresh_article ''a'' 1, fresh_article ''b'' 2]\<rparr>, bw_clock = int, bw_slept = []\<rparr>"

definition sum_demo_settings :: sum_settings where
  "sum_demo_settings = \<lparr>sz_batch = 1, sz_delay = 1, sz_portfolio = [], sz_interests = []\<rparr>"

lemma sum_demo_ok: "db_ok (bw_db sum_demo)"
  by (simp add: sum_demo_def db_ok_def db_empty_def fresh_article_def)

lemma sum_demo_count: "unsummarized (db_articles (bw_db sum_demo)) = 2"
  by (simp add: sum_demo_def db_empty_def fresh_article_def unsummarized_def)

theorem summarize_batch_contract_witness:
  "\<exists>r s' z'. summarize_pending (summarize demo_lib (\<lambda>d. []) demo_settings) sum_demo_settings (\<lambda>d. []) None
      (demo_world (JStr (dumps (pl_repr demo_lib) demo_answer)), sum_demo) = (r, (s', z')) \<and>
    (\<exists>k \<le> 1. unsummarized (db_articles (bw_db z')) + k = 2 \<and> (case r of Inr c \<Rightarrow> c = k | Inl e \<Rightarrow> \<not> is_llm_error e))"
proof -
  obtain r s' z' where run: "summarize_pending (summarize demo_lib (\<lambda>d. []) demo_settings) sum_demo_settings (\<lambda>d. []) None
      (demo_world (JStr (dumps (pl_repr demo_lib) demo_answer)), sum_demo) = (r, (s', z'))"
    by (metis prod.collapse)
  have one: "sz_batch sum_demo_settings = 1" by (simp add: sum_demo_settings_def)
  have k: "\<exists>k \<le> 1. unsummarized (db_articles (bw_db z')) + k = 2 \<and> (case r of Inr c \<Rightarrow> c = k | Inl e \<Rightarrow> \<not> is_llm_error e)"
    using conjunct1 [OF conjunct2 [OF summarize_batch_contract [OF sum_demo_ok run refl]]] unfolding sum_demo_count one .
  show ?thesis by (rule exI [of _ r], rule exI [of _ s'], rule exI [of _ z'], rule conjI [OF run k])
qed

theorem summarize_worker_terminates_witness:
  "run_summarize_worker 3 (\<lambda>t c p pf is s. (Inl (LLMError ''down''), s)) sum_demo_settings (\<lambda>d. []) ((), sum_demo) \<noteq> None"
  using summarize_worker_terminates [OF sum_demo_ok, of "\<lambda>t c p pf is s. (Inl (LLMError ''down''), s)" sum_demo_settings "\<lambda>d. []" "()"]
  by (simp add: sum_demo_count numeral_eq_Suc)

definition demo_result :: summary_result where
  "demo_result = \<lparr>sm_bullets = [''a'', ''b'', ''c''], sm_relevance = 7, sm_scores = [], sm_reason = [], sm_model = ''glm''\<rparr>"

theorem summarize_worker_drains_witness:
  "\<exists>z'. run_summarize_worker 3 (\<lambda>t c p pf is s. (Inr demo_result, s)) sum_demo_settings (\<lambda>d. []) ((), sum_demo) =
      Some (Inr (), ((), z')) \<and> unsummarized (db_articles (bw_db z')) = 0"
proof -
  have "0 < sz_batch sum_demo_settings" by (simp add: sum_demo_settings_def)
  from summarize_worker_drains [OF sum_demo_ok this, of "\<lambda>t c p pf is s. (Inr demo_result, s)" "\<lambda>d. []" "()"]
  show ?thesis by (simp add: sum_demo_count numeral_eq_Suc)
qed

theorem summarize_starved_witness:
  "run_summarize_worker 1 (\<lambda>t c p pf is s. (Inl (LLMParseError ''bad''), s)) sum_demo_settings (\<lambda>d. []) ((), sum_demo) =
      Some (Inr (), ((), sum_demo)) \<and> unsummarized (db_articles (bw_db sum_demo)) = 2"
  using summarize_starved [OF refl, of sum_demo_settings sum_demo "\<lambda>t c p pf is s. (Inl (LLMParseError ''bad''), s)" "\<lambda>d. []" "()"]
    sum_demo_count by simp

end
