(* ===== verification/Embedding_Jobs.thy ===== *)
theory Embedding_Jobs
  imports Embeddings Summarize_Worker
begin

text \<open>
  The embedding jobs, \<open>pipeline/embeddings_jobs.py\<close>: embed the articles without a vector, embed the
  profiles that changed, seed the owner, and score the recent articles for every user.

  The embedder is any function of the port's type.  A session that raises before its commit leaves
  the database as it was.  The vector columns are \<open>Vector(1536)\<close>: the server rejects a vector of
  another dimension or with a component that is not finite.  The cosine distance is the server's
  operator, the argument \<open>cos_dist\<close>; the NaN it gives for a zero vector is not modelled.
\<close>

type_synonym 's embed_fn = "string list \<Rightarrow> ('s, pyfloat list list) py"

definition vector_dim :: nat where "vector_dim = 1536"

fun finite_value :: "pyfloat \<Rightarrow> exn + real" where
  "finite_value (Fin r) = Inr r"
| "finite_value x = Inl (OtherError ''DataError'')"

definition column_vector :: "pyfloat list \<Rightarrow> exn + real list" where
  "column_vector v = (if length v \<noteq> vector_dim then Inl (OtherError ''DataError'') else sum_traverse finite_value v)"

text \<open>\<open>zip(rows, vectors, strict=True)\<close>, each vector brought into its column.\<close>

fun strict_zip :: "'r list \<Rightarrow> pyfloat list list \<Rightarrow> exn + ('r \<times> real list) list" where
  "strict_zip [] [] = Inr []"
| "strict_zip (r # rs) (v # vs) = sum_bind (column_vector v) (\<lambda>x. sum_bind (strict_zip rs vs) (\<lambda>rest. Inr ((r, x) # rest)))"
| "strict_zip [] (v # vs) = Inl (ValueError ''zip() argument 2 is longer than argument 1'')"
| "strict_zip (r # rs) [] = Inl (ValueError ''zip() argument 2 is shorter than argument 1'')"

section \<open>Articles\<close>

definition article_text :: "article_row \<Rightarrow> string" where
  "article_text r = a_title r @ [newline, newline] @ take 2000 (a_content r)"

definition unembedded_rows :: "nat \<Rightarrow> db \<Rightarrow> article_row list" where
  "unembedded_rows batch d = take batch (filter (\<lambda>r. a_embedding r = None) (newest_first (db_articles d)))"

definition set_embedding :: "string \<times> real list \<Rightarrow> article_row list \<Rightarrow> article_row list" where
  "set_embedding x rows = map (\<lambda>r. if a_id r = fst x then r\<lparr>a_embedding := Some (snd x)\<rparr> else r) rows"

definition embed_articles :: "'s embed_fn \<Rightarrow> nat \<Rightarrow> ('s \<times> batch_world, nat) py" where
  "embed_articles emb batch s =
     (let rows = unembedded_rows batch (bw_db (snd s)) in
      if rows = [] then (Inr 0, s)
      else py_bind (on_fst (emb (map article_text rows))) (\<lambda>vectors.
           py_bind (py_lift (strict_zip (map a_id rows) vectors)) (\<lambda>pairs.
           on_snd (\<lambda>z. (Inr (length pairs), z\<lparr>bw_db := (bw_db z)\<lparr>db_articles := fold set_embedding pairs (db_articles (bw_db z))\<rparr>\<rparr>)))) s)"

text \<open>The loop over \<open>range(max_batches)\<close>: \<open>n\<close> rounds are left.\<close>

fun embed_articles_batched :: "'s embed_fn \<Rightarrow> nat \<Rightarrow> nat \<Rightarrow> real \<Rightarrow> nat \<Rightarrow> ('s \<times> batch_world, nat) py" where
  "embed_articles_batched emb batch 0 pause acc s = (Inr acc, s)"
| "embed_articles_batched emb batch (Suc n) pause acc s =
     (case embed_articles emb batch s of
        (Inl e, s1) \<Rightarrow> (case e of EmbeddingRateLimitError m \<Rightarrow> (Inr acc, s1) | _ \<Rightarrow> (Inl e, s1))
      | (Inr k, s1) \<Rightarrow>
          if k = 0 then (Inr acc, s1)
          else embed_articles_batched emb batch n pause (acc + k)
            (if n > 0 then (fst s1, (snd s1)\<lparr>bw_slept := bw_slept (snd s1) @ [pause]\<rparr>) else s1))"

section \<open>Profiles\<close>

definition profile_text :: "string list \<Rightarrow> string list \<Rightarrow> string option \<Rightarrow> string" where
  "profile_text portfolio sectors focus =
     ''Investor profile. Portfolio holdings: '' @ str_or (Some (join '', '' portfolio)) ''(none)'' @
     ''. Sectors of interest: '' @ str_or (Some (join '', '' sectors)) ''(none)'' @
     ''. Focus: '' @ str_or focus ''general investing'' @ ''.''"

definition profile_hash :: "(string \<Rightarrow> string) \<Rightarrow> string list \<Rightarrow> string list \<Rightarrow> string option \<Rightarrow> string" where
  "profile_hash sha portfolio sectors focus =
     sha (join ''|'' portfolio @ ''||'' @ join ''|'' sectors @ ''||'' @ str_or focus [])"

definition row_hash :: "(string \<Rightarrow> string) \<Rightarrow> user_profile \<Rightarrow> string" where
  "row_hash sha u = profile_hash sha (u_portfolio u) (u_sectors u) (u_focus u)"

definition stored_hash :: "db \<Rightarrow> string \<Rightarrow> string option" where
  "stored_hash d i = map_option v_source_hash (find_by v_user i (db_vectors d))"

definition changed_profiles :: "(string \<Rightarrow> string) \<Rightarrow> db \<Rightarrow> user_profile list" where
  "changed_profiles sha d = filter (\<lambda>u. Some (row_hash sha u) \<noteq> stored_hash d (u_id u)) (db_users d)"

definition upsert_vector :: "user_vector \<Rightarrow> user_vector list \<Rightarrow> user_vector list" where
  "upsert_vector v vs = upsert_by v_user
     (\<lambda>new old. old\<lparr>v_embedding := v_embedding new, v_source_hash := v_source_hash new, v_updated_at := v_updated_at new\<rparr>) v vs"

definition profile_vector :: "(string \<Rightarrow> string) \<Rightarrow> datetime \<Rightarrow> user_profile \<times> real list \<Rightarrow> user_vector" where
  "profile_vector sha now x = \<lparr>v_user = u_id (fst x), v_embedding = snd x, v_source_hash = row_hash sha (fst x), v_updated_at = now\<rparr>"

definition embed_profiles :: "(string \<Rightarrow> string) \<Rightarrow> 's embed_fn \<Rightarrow> ('s \<times> batch_world, nat) py" where
  "embed_profiles sha emb s =
     (let changed = changed_profiles sha (bw_db (snd s)) in
      if changed = [] then (Inr 0, s)
      else py_bind (on_fst (emb (map (\<lambda>u. profile_text (u_portfolio u) (u_sectors u) (u_focus u)) changed))) (\<lambda>vectors.
           py_bind (py_lift (strict_zip changed vectors)) (\<lambda>pairs.
           on_snd (\<lambda>z. (Inr (length changed), z\<lparr>bw_clock := (\<lambda>n. bw_clock z (Suc n)), bw_db := (bw_db z)\<lparr>db_vectors :=
               fold (\<lambda>x. upsert_vector (profile_vector sha (bw_clock z 0) x)) pairs (db_vectors (bw_db z))\<rparr>\<rparr>)))) s)"

definition seed_owner :: "string list \<Rightarrow> string list \<Rightarrow> string \<Rightarrow> batch_world \<Rightarrow> batch_world" where
  "seed_owner portfolio interests focus z = z\<lparr>bw_clock := (\<lambda>n. bw_clock z (Suc n)),
     bw_db := (bw_db z)\<lparr>db_users := upsert_by u_id
       (\<lambda>new old. old\<lparr>u_portfolio := u_portfolio new, u_sectors := u_sectors new, u_focus := u_focus new, u_updated_at := u_updated_at new\<rparr>)
       \<lparr>u_id = ''owner'', u_portfolio = portfolio, u_sectors = interests, u_focus = Some focus, u_email = None,
         u_updated_at = bw_clock z 0\<rparr> (db_users (bw_db z))\<rparr>\<rparr>"

section \<open>Scores\<close>

text \<open>\<open>ORDER BY distance, id LIMIT top_k\<close> over the recent articles that have a vector.\<close>

definition candidates :: "datetime \<Rightarrow> article_row list \<Rightarrow> article_row list" where
  "candidates cutoff rows = filter (\<lambda>r. a_embedding r \<noteq> None \<and> a_fetched_at r \<ge> cutoff) rows"

definition article_distance :: "(real list \<Rightarrow> real list \<Rightarrow> real) \<Rightarrow> real list \<Rightarrow> article_row \<Rightarrow> real" where
  "article_distance cos_dist uvec r = (case a_embedding r of Some v \<Rightarrow> cos_dist v uvec | None \<Rightarrow> 0)"

definition ranked :: "(real list \<Rightarrow> real list \<Rightarrow> real) \<Rightarrow> datetime \<Rightarrow> nat \<Rightarrow> real list \<Rightarrow> article_row list \<Rightarrow> article_row list" where
  "ranked cos_dist cutoff top_k uvec rows =
     take top_k (sort_key (article_distance cos_dist uvec) (sort_key a_id (candidates cutoff rows)))"

definition upsert_relevance :: "user_relevance \<Rightarrow> user_relevance list \<Rightarrow> user_relevance list" where
  "upsert_relevance x xs =
     (if \<exists>y \<in> set xs. r_user y = r_user x \<and> r_article y = r_article x
      then map (\<lambda>y. if r_user y = r_user x \<and> r_article y = r_article x then y\<lparr>r_score := r_score x, r_computed_at := r_computed_at x\<rparr> else y) xs
      else xs @ [x])"

definition score_user ::
  "(real list \<Rightarrow> real list \<Rightarrow> real) \<Rightarrow> datetime \<Rightarrow> datetime \<Rightarrow> nat \<Rightarrow> user_vector \<Rightarrow> nat \<times> db \<Rightarrow> nat \<times> db" where
  "score_user cos_dist cutoff now top_k v s = (case s of (written, d) \<Rightarrow>
     (let best = ranked cos_dist cutoff top_k (v_embedding v) (db_articles d) in
      (written + length best,
       d\<lparr>db_relevance := fold (\<lambda>r. upsert_relevance \<lparr>r_user = v_user v, r_article = a_id r,
           r_score = 1 - article_distance cos_dist (v_embedding v) r, r_computed_at = now\<rparr>) best
         (filter (\<lambda>y. r_user y \<noteq> v_user v) (db_relevance d))\<rparr>)))"

definition score_users :: "(real list \<Rightarrow> real list \<Rightarrow> real) \<Rightarrow> int \<Rightarrow> nat \<Rightarrow> batch_world \<Rightarrow> nat \<times> batch_world" where
  "score_users cos_dist window_days top_k z =
     (let cutoff = bw_clock z 0 - window_days * day_us; now = bw_clock z 1;
          (written, d) = fold (score_user cos_dist cutoff now top_k) (db_vectors (bw_db z)) (0, bw_db z)
      in (written, z\<lparr>bw_clock := (\<lambda>n. bw_clock z (n + 2)), bw_db := d\<rparr>))"

section \<open>What a batch does\<close>

definition unembedded :: "article_row list \<Rightarrow> nat" where
  "unembedded rows = length (filter (\<lambda>r. a_embedding r = None) rows)"

definition embed_step :: "article_row \<Rightarrow> article_row \<Rightarrow> bool" where
  "embed_step old new = (new = old \<or>
     a_embedding old = None \<and> (\<exists>v. length v = vector_dim \<and> new = old\<lparr>a_embedding := Some v\<rparr>))"

lemma embed_steps_refl: "list_all2 embed_step rows rows"
  by (simp add: list_all2_same embed_step_def)

lemma embed_steps_trans: "list_all2 embed_step xs ys \<Longrightarrow> list_all2 embed_step ys zs \<Longrightarrow> list_all2 embed_step xs zs"
  by (rule list_all2_trans [of embed_step embed_step embed_step]) (auto simp: embed_step_def)

lemma embed_steps_ids: "list_all2 embed_step xs ys \<Longrightarrow> map a_id ys = map a_id xs"
  by (induction rule: list_all2_induct) (auto simp: embed_step_def)

lemma sum_traverse_length: "sum_traverse f xs = Inr ys \<Longrightarrow> length ys = length xs"
  using sum_traverse_Inr by (metis list_all2_lengthD)

lemma column_vector_dim: "column_vector v = Inr x \<Longrightarrow> length x = vector_dim"
  by (auto simp: column_vector_def split: if_splits dest: sum_traverse_length)

lemma strict_zip_shape:
  "strict_zip rs vs = Inr pairs \<Longrightarrow> map fst pairs = rs \<and> (\<forall>(r, x) \<in> set pairs. length x = vector_dim)"
  by (induction rs vs arbitrary: pairs rule: strict_zip.induct) (auto simp: sum_bind_Inr dest: column_vector_dim)

lemma set_embedding_step:
  assumes "\<forall>r \<in> set rows. a_id r = i \<longrightarrow> a_embedding r = None" and "length v = vector_dim"
  shows "list_all2 embed_step rows (set_embedding (i, v) rows)"
proof -
  have "embed_step x (if a_id x = i then x\<lparr>a_embedding := Some v\<rparr> else x)" if "x \<in> set rows" for x
    using assms that by (auto simp: embed_step_def)
  then show ?thesis unfolding set_embedding_def list_all2_map2 list_all2_same fst_conv snd_conv by blast
qed

lemma set_embeddings:
  assumes "distinct (map a_id rows)" and "distinct (map fst pairs)" and "\<forall>(i, v) \<in> set pairs. length v = vector_dim"
    and "\<forall>i \<in> fst ` set pairs. \<exists>r \<in> set rows. a_id r = i \<and> a_embedding r = None"
  shows "list_all2 embed_step rows (fold set_embedding pairs rows) \<and>
    unembedded (fold set_embedding pairs rows) + length pairs = unembedded rows"
  using assms
proof (induction pairs arbitrary: rows)
  case (Cons p pairs)
  obtain i v where p: "p = (i, v)" by (cases p)
  let ?rows1 = "set_embedding p rows"
  obtain row where row: "row \<in> set rows" "a_id row = i" "a_embedding row = None" using Cons.prems(4) p by auto
  have "\<forall>r \<in> set rows. a_id r = i \<longrightarrow> a_embedding r = None"
    using row Cons.prems(1) by (metis distinct_map inj_onD)
  then have step: "list_all2 embed_step rows ?rows1" unfolding p by (rule set_embedding_step) (use Cons.prems(3) p in simp)
  have d: "distinct (map a_id ?rows1)" using embed_steps_ids [OF step] Cons.prems(1) by simp
  have "length (filter (\<lambda>r. a_embedding r = None) (map (\<lambda>x. if a_id x = a_id row then x\<lparr>a_embedding := Some v\<rparr> else x) rows)) + 1 =
      length (filter (\<lambda>r. a_embedding r = None) rows)"
    by (rule count_update [OF Cons.prems(1) row(1)]) (simp_all add: row(3))
  then have count: "unembedded ?rows1 + 1 = unembedded rows"
    unfolding unembedded_def set_embedding_def p fst_conv snd_conv row(2) .
  have rest: "\<forall>j \<in> fst ` set pairs. \<exists>r \<in> set ?rows1. a_id r = j \<and> a_embedding r = None"
  proof
    fix j assume j: "j \<in> fst ` set pairs"
    then obtain r where "r \<in> set rows" "a_id r = j" "a_embedding r = None" using Cons.prems(4) by auto
    moreover have "j \<noteq> i" using j Cons.prems(2) p by auto
    ultimately show "\<exists>r \<in> set ?rows1. a_id r = j \<and> a_embedding r = None"
      by (auto simp: set_embedding_def p intro!: bexI [of _ r])
  qed
  have "distinct (map fst pairs)" "\<forall>(i, v) \<in> set pairs. length v = vector_dim" using Cons.prems(2,3) by auto
  from Cons.IH [OF d this rest] show ?case using embed_steps_trans [OF step] count by simp
qed (simp add: embed_steps_refl)

lemma embed_articles_effect:
  assumes "embed_articles emb batch (s, z) = (r, (s', z'))" and "db_ok (bw_db z)"
  shows "list_all2 embed_step (db_articles (bw_db z)) (db_articles (bw_db z')) \<and>
    (\<exists>k \<le> batch. unembedded (db_articles (bw_db z')) + k = unembedded (db_articles (bw_db z)) \<and> (\<forall>c. r = Inr c \<longrightarrow> c = k) \<and> (\<forall>e. r = Inl e \<longrightarrow> k = 0)) \<and>
    bw_db z' = (bw_db z)\<lparr>db_articles := db_articles (bw_db z')\<rparr>"
proof -
  let ?rows = "unembedded_rows batch (bw_db z)"
  have same: "?thesis" if "z' = z" "r = Inr 0 \<or> (\<exists>e. r = Inl e)"
    using that by (auto simp: embed_steps_refl)
  show ?thesis
  proof (cases "?rows = []")
    case True
    then show ?thesis using assms(1) by (intro same) (simp_all add: embed_articles_def)
  next
    case False
    obtain v s1 where v: "emb (map article_text ?rows) s = (v, s1)" by (metis prod.collapse)
    show ?thesis
    proof (cases "\<exists>vectors pairs. v = Inr vectors \<and> strict_zip (map a_id ?rows) vectors = Inr pairs")
      case no: False
      then show ?thesis using assms(1) False v
        by (intro same; cases v) (auto simp: embed_articles_def Let_def py_monad_defs on_fst_def py_lift_def split: sum.splits)
    next
      case True
      then obtain vectors pairs where p: "v = Inr vectors" "strict_zip (map a_id ?rows) vectors = Inr pairs" by blast
      note shape = strict_zip_shape [OF p(2)]
      have z': "r = Inr (length pairs)" "z' = z\<lparr>bw_db := (bw_db z)\<lparr>db_articles := fold set_embedding pairs (db_articles (bw_db z))\<rparr>\<rparr>"
        using assms(1) False v p by (auto simp: embed_articles_def Let_def py_monad_defs on_fst_def on_snd_def py_lift_def)
      have d: "distinct (map a_id (db_articles (bw_db z)))" using assms(2) by (simp add: db_ok_def)
      have "distinct (map a_id ?rows)"
        using distinct_newest_first [OF d] by (simp add: unembedded_rows_def distinct_take_filter)
      then have dp: "distinct (map fst pairs)" using shape by simp
      have "fst ` set pairs = a_id ` set ?rows" using shape by (metis list.set_map)
      then have ex: "\<forall>i \<in> fst ` set pairs. \<exists>r \<in> set (db_articles (bw_db z)). a_id r = i \<and> a_embedding r = None"
        by (auto simp: unembedded_rows_def dest!: in_set_takeD)
      have "length pairs = length ?rows" using shape by (metis length_map)
      then have "length pairs \<le> batch" by (simp add: unembedded_rows_def)
      then show ?thesis using set_embeddings [OF d dp _ ex] shape z' by auto
    qed
  qed
qed

lemma embed_step_db_ok:
  "list_all2 embed_step (db_articles d) (db_articles d') \<Longrightarrow> d' = d\<lparr>db_articles := db_articles d'\<rparr> \<Longrightarrow> db_ok d \<Longrightarrow> db_ok d'"
  using embed_steps_ids [of "db_articles d" "db_articles d'"] unfolding db_ok_def by (metis db.ext_inject db.surjective db.update_convs(1))

lemma embed_batched_effect:
  assumes "embed_articles_batched emb batch n pause acc (s, z) = (r, (s', z'))" and "db_ok (bw_db z)"
  shows "list_all2 embed_step (db_articles (bw_db z)) (db_articles (bw_db z')) \<and>
    (\<exists>k \<le> n * batch. unembedded (db_articles (bw_db z')) + k = unembedded (db_articles (bw_db z)) \<and>
      (\<forall>c. r = Inr c \<longrightarrow> c = acc + k)) \<and>
    bw_db z' = (bw_db z)\<lparr>db_articles := db_articles (bw_db z')\<rparr> \<and> (\<forall>m. r \<noteq> Inl (EmbeddingRateLimitError m))"
  using assms
proof (induction n arbitrary: acc s z)
  case 0
  then show ?case by (auto simp: embed_steps_refl)
next
  case (Suc n)
  obtain x s1 z1 where one: "embed_articles emb batch (s, z) = (x, (s1, z1))" by (metis prod.collapse)
  from embed_articles_effect [OF one Suc.prems(2)] obtain k where
    k: "list_all2 embed_step (db_articles (bw_db z)) (db_articles (bw_db z1))" "k \<le> batch"
      "unembedded (db_articles (bw_db z1)) + k = unembedded (db_articles (bw_db z))" "\<forall>c. x = Inr c \<longrightarrow> c = k" "\<forall>e. x = Inl e \<longrightarrow> k = 0"
      "bw_db z1 = (bw_db z)\<lparr>db_articles := db_articles (bw_db z1)\<rparr>" by blast
  show ?case
  proof (cases "\<exists>c. x = Inr (Suc c)")
    case False
    then have end': "z' = z1" "(r = Inr acc \<and> (x = Inr 0 \<or> (\<exists>m. x = Inl (EmbeddingRateLimitError m)))) \<or>
        (\<exists>e. r = Inl e \<and> (\<forall>m. e \<noteq> EmbeddingRateLimitError m))"
      using Suc.prems(1) one by (cases x; auto split: exn.splits if_splits simp: gr0_conv_Suc)+
    then have "k = 0" using k(4,5) False by (cases x; cases k) auto
    then show ?thesis using k(1,3,6) end' by auto
  next
    case True
    then have x: "x = Inr k" "k > 0" using k(4) by auto
    let ?z2 = "if n > 0 then z1\<lparr>bw_slept := bw_slept z1 @ [pause]\<rparr> else z1"
    have run: "embed_articles_batched emb batch n pause (acc + k) (s1, ?z2) = (r, (s', z'))"
      using Suc.prems(1) one x by (cases n) (simp_all split: if_splits)
    have db2: "bw_db ?z2 = bw_db z1" by simp
    have "db_ok (bw_db ?z2)" unfolding db2 by (rule embed_step_db_ok [OF k(1,6) Suc.prems(2)])
    from Suc.IH [OF run this] obtain j where
      j: "list_all2 embed_step (db_articles (bw_db z1)) (db_articles (bw_db z'))" "j \<le> n * batch"
        "unembedded (db_articles (bw_db z')) + j = unembedded (db_articles (bw_db z1))" "\<forall>c. r = Inr c \<longrightarrow> c = acc + k + j"
        "bw_db z' = (bw_db z1)\<lparr>db_articles := db_articles (bw_db z')\<rparr>" "\<forall>m. r \<noteq> Inl (EmbeddingRateLimitError m)"
      unfolding db2 by blast
    have "bw_db z' = (bw_db z)\<lparr>db_articles := db_articles (bw_db z')\<rparr>"
      by (rule trans [OF j(5)], subst k(6)) simp
    moreover have "k + j \<le> Suc n * batch" using k(2) j(2) by simp
    ultimately show ?thesis
      using embed_steps_trans [OF k(1) j(1)] k(3) j(3,4,6) by (intro conjI exI [of _ "k + j"]) auto
  qed
qed

section \<open>Profiles\<close>

lemma find_upsert_vector:
  "find_by v_user i (upsert_vector v vs) = (if v_user v = i then Some v else find_by v_user i vs)"
  by (auto simp: upsert_vector_def find_upsert_by dest: find_by_Some split: option.splits)

lemma find_upsert_vectors:
  assumes "distinct (map (\<lambda>x. u_id (fst x)) pairs)"
  shows "find_by v_user i (fold (\<lambda>x. upsert_vector (profile_vector sha now x)) pairs vs) =
    (case find (\<lambda>x. u_id (fst x) = i) pairs of Some x \<Rightarrow> Some (profile_vector sha now x) | None \<Rightarrow> find_by v_user i vs)"
  using assms
proof (induction pairs arbitrary: vs)
  case (Cons p pairs)
  have "find (\<lambda>x. u_id (fst x) = i) pairs = None" if "u_id (fst p) = i"
  proof -
    have "i \<notin> (\<lambda>x. u_id (fst x)) ` set pairs" using Cons.prems that by simp
    then show ?thesis unfolding find_None_iff by blast
  qed
  then show ?case using Cons by (auto simp: find_upsert_vector profile_vector_def split: option.splits)
qed simp

lemma distinct_upsert_vectors:
  "distinct (map v_user vs) \<Longrightarrow> distinct (map v_user (fold (\<lambda>x. upsert_vector (profile_vector sha now x)) pairs vs))"
  by (induction pairs arbitrary: vs) (simp_all add: upsert_vector_def distinct_upsert_by)

section \<open>Scores\<close>

definition relevance_of :: "(real list \<Rightarrow> real list \<Rightarrow> real) \<Rightarrow> datetime \<Rightarrow> user_vector \<Rightarrow> article_row \<Rightarrow> user_relevance" where
  "relevance_of cos_dist now v r = \<lparr>r_user = v_user v, r_article = a_id r,
     r_score = 1 - article_distance cos_dist (v_embedding v) r, r_computed_at = now\<rparr>"

lemma upsert_relevances:
  assumes "distinct (map a_id best)" and "\<forall>y \<in> set xs. r_user y = v_user v \<longrightarrow> r_article y \<notin> a_id ` set best"
  shows "fold (\<lambda>r. upsert_relevance (relevance_of cos_dist now v r)) best xs = xs @ map (relevance_of cos_dist now v) best"
  using assms
proof (induction best arbitrary: xs)
  case (Cons b best)
  have "upsert_relevance (relevance_of cos_dist now v b) xs = xs @ [relevance_of cos_dist now v b]"
    using Cons.prems(2) by (auto simp: upsert_relevance_def relevance_of_def)
  moreover have "\<forall>y \<in> set (xs @ [relevance_of cos_dist now v b]). r_user y = v_user v \<longrightarrow> r_article y \<notin> a_id ` set best"
    using Cons.prems by (auto simp: relevance_of_def)
  ultimately show ?case using Cons.IH Cons.prems(1) by simp
qed simp

lemma distinct_ranked: "distinct (map a_id rows) \<Longrightarrow> distinct (map a_id (ranked cos_dist cutoff k u rows))"
proof -
  assume d: "distinct (map a_id rows)"
  then have "distinct (candidates cutoff rows)" "inj_on a_id (set (candidates cutoff rows))"
    by (auto simp: candidates_def distinct_map inj_on_def)
  then have "distinct (map a_id (sort_key (article_distance cos_dist u) (sort_key a_id (candidates cutoff rows))))"
    by (simp add: distinct_map)
  then show ?thesis unfolding ranked_def by (metis distinct_take take_map)
qed

lemma score_user_effect:
  assumes "distinct (map a_id (db_articles d))"
  shows "score_user cos_dist cutoff now k v (n, d) =
    (n + length (ranked cos_dist cutoff k (v_embedding v) (db_articles d)),
     d\<lparr>db_relevance := filter (\<lambda>y. r_user y \<noteq> v_user v) (db_relevance d) @
       map (relevance_of cos_dist now v) (ranked cos_dist cutoff k (v_embedding v) (db_articles d))\<rparr>)"
proof -
  have "fold (\<lambda>r. upsert_relevance (relevance_of cos_dist now v r)) (ranked cos_dist cutoff k (v_embedding v) (db_articles d))
      (filter (\<lambda>y. r_user y \<noteq> v_user v) (db_relevance d)) = filter (\<lambda>y. r_user y \<noteq> v_user v) (db_relevance d) @
       map (relevance_of cos_dist now v) (ranked cos_dist cutoff k (v_embedding v) (db_articles d))"
    by (rule upsert_relevances [OF distinct_ranked [OF assms]]) simp
  then show ?thesis by (simp add: score_user_def Let_def relevance_of_def)
qed

text \<open>After the fold, a user with a vector has exactly the rows of that vector.\<close>

lemma score_users_fold:
  assumes "distinct (map a_id rows)" and "distinct (map v_user vs)" and "db_articles d = rows"
    and "fold (score_user cos_dist cutoff now k) vs (n, d) = (n', d')"
  shows "n' = n + sum_list (map (\<lambda>v. length (ranked cos_dist cutoff k (v_embedding v) rows)) vs) \<and>
    (\<forall>v \<in> set vs. filter (\<lambda>y. r_user y = v_user v) (db_relevance d') =
       map (relevance_of cos_dist now v) (ranked cos_dist cutoff k (v_embedding v) rows)) \<and>
    (\<forall>u. u \<notin> v_user ` set vs \<longrightarrow> filter (\<lambda>y. r_user y = u) (db_relevance d') = filter (\<lambda>y. r_user y = u) (db_relevance d)) \<and>
    d' = d\<lparr>db_relevance := db_relevance d'\<rparr>"
  using assms
proof (induction vs arbitrary: n d)
  case (Cons v vs)
  let ?best = "ranked cos_dist cutoff k (v_embedding v) rows"
  let ?d1 = "d\<lparr>db_relevance := filter (\<lambda>y. r_user y \<noteq> v_user v) (db_relevance d) @ map (relevance_of cos_dist now v) ?best\<rparr>"
  have one: "score_user cos_dist cutoff now k v (n, d) = (n + length ?best, ?d1)"
    using score_user_effect [of d cos_dist cutoff now k v n] Cons.prems(1,3) by simp
  have run: "fold (score_user cos_dist cutoff now k) vs (n + length ?best, ?d1) = (n', d')"
    using Cons.prems(4) one by simp
  have d: "distinct (map v_user vs)" "db_articles ?d1 = rows" using Cons.prems(2,3) by simp_all
  note ih = Cons.IH [OF Cons.prems(1) d run]
  have mine: "filter (\<lambda>y. r_user y = v_user v) (map (relevance_of cos_dist now v) ?best) = map (relevance_of cos_dist now v) ?best"
    by (simp add: filter_map comp_def relevance_of_def)
  have "v_user v \<notin> v_user ` set vs" using Cons.prems(2) by simp
  then have 1: "filter (\<lambda>y. r_user y = v_user v) (db_relevance d') = map (relevance_of cos_dist now v) ?best"
    using ih mine by (auto simp: filter_empty_conv)
  have 2: "filter (\<lambda>y. r_user y = u) (db_relevance ?d1) = filter (\<lambda>y. r_user y = u) (db_relevance d)" if "u \<noteq> v_user v" for u
  proof -
    have "filter (\<lambda>y. r_user y = u) (map (relevance_of cos_dist now v) ?best) = []"
      using that by (auto simp: filter_empty_conv relevance_of_def)
    moreover have "filter (\<lambda>y. r_user y = u) (filter (\<lambda>y. r_user y \<noteq> v_user v) (db_relevance d)) = filter (\<lambda>y. r_user y = u) (db_relevance d)"
      using that by (auto simp: filter_filter intro!: filter_cong)
    ultimately show ?thesis by simp
  qed
  have 3: "d' = d\<lparr>db_relevance := db_relevance d'\<rparr>" using ih by (metis db.surjective db.update_convs(6))
  show ?case using ih 1 2 3 by auto
qed simp

section \<open>Properties\<close>

text \<open>
  C35.  A run of the batched embedding job, for any embedder: it only fills empty embeddings, with vectors
  of the column's dimension, and never overwrites one or touches another column; it embeds at most
  \<open>max_batches * batch_size\<close> articles; the number it returns is the number it filled, also when a rate
  limit ends it early, and a rate limit is never raised to the caller.
\<close>

theorem embed_batched_contract:
  assumes "db_ok (bw_db z)" and "embed_articles_batched emb batch max_batches pause 0 (s, z) = (r, (s', z'))"
  shows "list_all2 (\<lambda>old new. new = old \<or>
      a_embedding old = None \<and> (\<exists>v. length v = vector_dim \<and> new = old\<lparr>a_embedding := Some v\<rparr>))
      (db_articles (bw_db z)) (db_articles (bw_db z')) \<and>
    (\<exists>k \<le> max_batches * batch. unembedded (db_articles (bw_db z')) + k = unembedded (db_articles (bw_db z)) \<and>
      (case r of Inr c \<Rightarrow> c = k | Inl e \<Rightarrow> \<forall>m. e \<noteq> EmbeddingRateLimitError m)) \<and>
    bw_db z' = (bw_db z)\<lparr>db_articles := db_articles (bw_db z')\<rparr>"
proof -
  note eff = embed_batched_effect [OF assms(2,1)]
  obtain k where k: "k \<le> max_batches * batch" "unembedded (db_articles (bw_db z')) + k = unembedded (db_articles (bw_db z))"
    "\<forall>c. r = Inr c \<longrightarrow> c = 0 + k" "\<forall>m. r \<noteq> Inl (EmbeddingRateLimitError m)" using eff by blast
  have step: "list_all2 embed_step (db_articles (bw_db z)) (db_articles (bw_db z'))" using eff by blast
  show ?thesis
  proof (intro conjI)
    show "list_all2 (\<lambda>old new. new = old \<or>
      a_embedding old = None \<and> (\<exists>v. length v = vector_dim \<and> new = old\<lparr>a_embedding := Some v\<rparr>))
      (db_articles (bw_db z)) (db_articles (bw_db z'))"
      using step unfolding embed_step_def .
    show "\<exists>k \<le> max_batches * batch. unembedded (db_articles (bw_db z')) + k = unembedded (db_articles (bw_db z)) \<and>
      (case r of Inr c \<Rightarrow> c = k | Inl e \<Rightarrow> \<forall>m. e \<noteq> EmbeddingRateLimitError m)"
      using k by (intro exI [of _ k]) (auto split: sum.splits)
  qed (use eff in blast)
qed

text \<open>A run of the profile job that returns.\<close>

lemma embed_profiles_run:
  assumes "distinct (map u_id (db_users (bw_db z)))" and "embed_profiles sha emb (s, z) = (Inr n, (s', z'))"
  shows "n = length (changed_profiles sha (bw_db z)) \<and> changed_profiles sha (bw_db z') = [] \<and>
    (\<forall>u \<in> set (changed_profiles sha (bw_db z)). \<exists>v. find_by v_user (u_id u) (db_vectors (bw_db z')) = Some v \<and>
      length (v_embedding v) = vector_dim) \<and>
    db_users (bw_db z') = db_users (bw_db z) \<and> db_articles (bw_db z') = db_articles (bw_db z) \<and> db_jobs (bw_db z') = db_jobs (bw_db z) \<and>
    (distinct (map v_user (db_vectors (bw_db z))) \<longrightarrow> distinct (map v_user (db_vectors (bw_db z'))))"
proof (cases "changed_profiles sha (bw_db z) = []")
  case True
  then show ?thesis using assms(2) by (simp add: embed_profiles_def)
next
  case False
  let ?changed = "changed_profiles sha (bw_db z)"
  obtain vectors pairs where p: "strict_zip ?changed vectors = Inr pairs" "n = length ?changed"
    "bw_db z' = (bw_db z)\<lparr>db_vectors := fold (\<lambda>x. upsert_vector (profile_vector sha (bw_clock z 0) x)) pairs (db_vectors (bw_db z))\<rparr>"
    using assms(2) False by (auto simp: embed_profiles_def Let_def py_monad_defs on_fst_def on_snd_def py_lift_def split: prod.splits sum.splits)
  note shape = strict_zip_shape [OF p(1)]
  have inj_users: "inj_on u_id (set (db_users (bw_db z)))" using assms(1) by (simp add: distinct_map)
  have "distinct (map u_id ?changed)" using assms(1) by (simp add: changed_profiles_def distinct_map_filter)
  moreover have "map (\<lambda>x. u_id (fst x)) pairs = map u_id ?changed"
    unfolding conjunct1 [OF shape, symmetric] by simp
  ultimately have "distinct (map (\<lambda>x. u_id (fst x)) pairs)" by simp
  note look = find_upsert_vectors [OF this, of _ sha "bw_clock z 0" "db_vectors (bw_db z)"]
  have found: "find_by v_user i (db_vectors (bw_db z')) = (case find (\<lambda>x. u_id (fst x) = i) pairs of
      Some x \<Rightarrow> Some (profile_vector sha (bw_clock z 0) x) | None \<Rightarrow> find_by v_user i (db_vectors (bw_db z)))" for i
    using look [of i] by (simp add: p(3))
  have pair: "\<exists>x. find (\<lambda>x. u_id (fst x) = u_id u) pairs = Some x \<and> fst x = u \<and> length (snd x) = vector_dim"
    if u: "u \<in> set ?changed" for u
  proof -
    have "u \<in> fst ` set pairs" using shape u by (metis list.set_map)
    then obtain x where x: "find (\<lambda>x. u_id (fst x) = u_id u) pairs = Some x" by (cases "find (\<lambda>x. u_id (fst x) = u_id u) pairs") (auto simp: find_None_iff)
    then have in_p: "x \<in> set pairs" "u_id (fst x) = u_id u" by (auto simp: find_Some_iff)
    then have "fst x \<in> set ?changed" using shape by (metis image_eqI list.set_map)
    then have "fst x = u" using in_p(2) u assms(1) unfolding changed_profiles_def by (metis distinct_map filter_is_subset inj_onD subsetD)
    moreover have "length (snd x) = vector_dim" using shape in_p(1) by (cases x) auto
    ultimately show ?thesis using x by blast
  qed
  have "Some (row_hash sha u) = stored_hash (bw_db z') (u_id u)" if "u \<in> set (db_users (bw_db z))" for u
  proof (cases "u \<in> set ?changed")
    case True
    then show ?thesis using pair [OF True] found [of "u_id u"] by (auto simp: stored_hash_def profile_vector_def)
  next
    case False
    then have same: "Some (row_hash sha u) = stored_hash (bw_db z) (u_id u)" using that by (simp add: changed_profiles_def)
    have "u_id (fst x) \<noteq> u_id u" if x: "x \<in> set pairs" for x
    proof
      assume "u_id (fst x) = u_id u"
      moreover have x': "fst x \<in> set ?changed" using shape x by (metis image_eqI list.set_map)
      moreover have "fst x \<in> set (db_users (bw_db z))" using x' by (simp add: changed_profiles_def)
      ultimately have "fst x = u" using \<open>u \<in> set (db_users (bw_db z))\<close> by (simp add: inj_on_eq_iff [OF inj_users])
      then show False using False x' by simp
    qed
    then have "find (\<lambda>x. u_id (fst x) = u_id u) pairs = None" unfolding find_None_iff by blast
    then show ?thesis using same found [of "u_id u"] by (simp add: stored_hash_def)
  qed
  then have none: "changed_profiles sha (bw_db z') = []" by (simp add: changed_profiles_def p(3) filter_empty_conv)
  have "\<forall>u \<in> set ?changed. \<exists>v. find_by v_user (u_id u) (db_vectors (bw_db z')) = Some v \<and> length (v_embedding v) = vector_dim"
    using pair found by (fastforce simp: profile_vector_def)
  moreover have "db_users (bw_db z') = db_users (bw_db z)" "db_articles (bw_db z') = db_articles (bw_db z)" "db_jobs (bw_db z') = db_jobs (bw_db z)"
    by (simp_all add: p(3))
  moreover have "distinct (map v_user (db_vectors (bw_db z))) \<longrightarrow> distinct (map v_user (db_vectors (bw_db z')))"
    by (simp add: p(3) distinct_upsert_vectors)
  ultimately show ?thesis using p(2) none by blast
qed

text \<open>The best articles of a user: distinct candidates, closest first, none left out that is closer.\<close>

lemma ranked_shape:
  assumes "distinct (map a_id rows)"
  shows "length (ranked cos_dist cutoff k u rows) = min k (length (candidates cutoff rows))"
    and "distinct (ranked cos_dist cutoff k u rows)" and "set (ranked cos_dist cutoff k u rows) \<subseteq> set (candidates cutoff rows)"
    and "sorted (map (article_distance cos_dist u) (ranked cos_dist cutoff k u rows))"
    and "a \<in> set (ranked cos_dist cutoff k u rows) \<Longrightarrow> b \<in> set (candidates cutoff rows) - set (ranked cos_dist cutoff k u rows) \<Longrightarrow>
      article_distance cos_dist u a \<le> article_distance cos_dist u b"
proof -
  let ?c = "candidates cutoff rows" and ?f = "article_distance cos_dist u"
  let ?s = "sort_key ?f (sort_key a_id ?c)"
  have r: "ranked cos_dist cutoff k u rows = take k ?s" by (simp add: ranked_def)
  have s: "sorted_wrt (\<lambda>a b. ?f a \<le> ?f b) ?s" using sorted_sort_key [of ?f "sort_key a_id ?c"] by (simp add: sorted_map)
  show "length (ranked cos_dist cutoff k u rows) = min k (length ?c)" by (simp add: r)
  show "distinct (ranked cos_dist cutoff k u rows)" using distinct_ranked [OF assms, of cos_dist cutoff k u] by (simp add: distinct_map)
  show "set (ranked cos_dist cutoff k u rows) \<subseteq> set ?c" unfolding r using set_take_subset [of k ?s] by simp
  show "sorted (map ?f (ranked cos_dist cutoff k u rows))"
    unfolding r using sorted_sort_key [of ?f "sort_key a_id ?c"] by (metis sorted_wrt_take take_map)
  assume a: "a \<in> set (ranked cos_dist cutoff k u rows)" and b: "b \<in> set ?c - set (ranked cos_dist cutoff k u rows)"
  have "b \<in> set ?s" using b by simp
  then have "b \<in> set (drop k ?s)" using b r by (metis DiffE Un_iff append_take_drop_id set_append)
  then show "?f a \<le> ?f b" using sorted_wrt_take_drop [OF s] a r by simp
qed

text \<open>A run of the scoring job.\<close>

lemma score_users_run:
  assumes "db_ok (bw_db z)" and "distinct (map v_user (db_vectors (bw_db z)))" and "score_users cos_dist window_days k z = (n, z')"
    and "cutoff = bw_clock z 0 - window_days * day_us"
  shows "n = sum_list (map (\<lambda>v. length (ranked cos_dist cutoff k (v_embedding v) (db_articles (bw_db z)))) (db_vectors (bw_db z))) \<and>
    (\<forall>v \<in> set (db_vectors (bw_db z)). filter (\<lambda>y. r_user y = v_user v) (db_relevance (bw_db z')) =
       map (relevance_of cos_dist (bw_clock z 1) v) (ranked cos_dist cutoff k (v_embedding v) (db_articles (bw_db z)))) \<and>
    (\<forall>u. u \<notin> v_user ` set (db_vectors (bw_db z)) \<longrightarrow>
      filter (\<lambda>y. r_user y = u) (db_relevance (bw_db z')) = filter (\<lambda>y. r_user y = u) (db_relevance (bw_db z))) \<and>
    bw_db z' = (bw_db z)\<lparr>db_relevance := db_relevance (bw_db z')\<rparr>"
proof -
  have d: "distinct (map a_id (db_articles (bw_db z)))" using assms(1) by (simp add: db_ok_def)
  have "fold (score_user cos_dist cutoff (bw_clock z 1) k) (db_vectors (bw_db z)) (0, bw_db z) = (n, bw_db z')"
    using assms(3) by (auto simp: score_users_def Let_def assms(4) split: prod.splits)
  from score_users_fold [OF d assms(2) refl this] show ?thesis by simp
qed

text \<open>
  Profiles are embedded once: after a run that returns, no profile counts as changed, so a second
  run embeds nothing, makes no request, and leaves the world as it is; the number returned is the
  number of profiles whose hash had changed, and each of them has a vector of the column's dimension.
\<close>

theorem embed_profiles_idempotent:
  assumes "distinct (map u_id (db_users (bw_db z)))" and "embed_profiles sha emb (s, z) = (Inr n, (s', z'))"
  shows "n = length (changed_profiles sha (bw_db z)) \<and> changed_profiles sha (bw_db z') = [] \<and>
    embed_profiles sha emb' (t, z') = (Inr 0, (t, z')) \<and>
    (\<forall>u \<in> set (changed_profiles sha (bw_db z)). \<exists>v. find_by v_user (u_id u) (db_vectors (bw_db z')) = Some v \<and>
      length (v_embedding v) = vector_dim)"
proof -
  note run = embed_profiles_run [OF assms]
  then have "embed_profiles sha emb' (t, z') = (Inr 0, (t, z'))" by (simp add: embed_profiles_def)
  then show ?thesis using run by blast
qed

text \<open>
  C34.  Scoring: afterwards a user with a vector has exactly one row for each of the \<open>top_k\<close> closest recent
  articles that have an embedding, best first, its score one minus the distance; no candidate left
  out is closer than one that is stored; users without a vector keep their rows, and the
  number returned is the number of rows written.
\<close>

theorem score_users_top_k:
  assumes "db_ok (bw_db z)" and "distinct (map v_user (db_vectors (bw_db z)))" and "score_users cos_dist window_days k z = (n, z')"
    and "c = candidates (bw_clock z 0 - window_days * day_us) (db_articles (bw_db z))"
  shows "n = length (db_vectors (bw_db z)) * min k (length c) \<and>
    (\<forall>v \<in> set (db_vectors (bw_db z)). \<exists>best. filter (\<lambda>y. r_user y = v_user v) (db_relevance (bw_db z')) = map (relevance_of cos_dist (bw_clock z 1) v) best \<and>
      length best = min k (length c) \<and> distinct best \<and> set best \<subseteq> set c \<and>
      sorted (map (article_distance cos_dist (v_embedding v)) best) \<and>
      (\<forall>a \<in> set best. \<forall>b \<in> set c - set best. article_distance cos_dist (v_embedding v) a \<le> article_distance cos_dist (v_embedding v) b)) \<and>
    (\<forall>u. u \<notin> v_user ` set (db_vectors (bw_db z)) \<longrightarrow>
      filter (\<lambda>y. r_user y = u) (db_relevance (bw_db z')) = filter (\<lambda>y. r_user y = u) (db_relevance (bw_db z))) \<and>
    db_articles (bw_db z') = db_articles (bw_db z)"
proof -
  let ?rows = "db_articles (bw_db z)" and ?cutoff = "bw_clock z 0 - window_days * day_us"
  have d: "distinct (map a_id ?rows)" using assms(1) by (simp add: db_ok_def)
  note eff = score_users_run [OF assms(1-3) refl]
  note best = ranked_shape [OF d, where cos_dist = cos_dist and cutoff = ?cutoff and k = k, folded assms(4)]
  have "n = length (db_vectors (bw_db z)) * min k (length c)" using eff by (simp add: best(1) sum_list_triv)
  moreover have "db_articles (bw_db z') = ?rows" using eff by (metis db.select_convs(1) db.surjective db.update_convs(6))
  moreover have "\<exists>best. filter (\<lambda>y. r_user y = v_user v) (db_relevance (bw_db z')) = map (relevance_of cos_dist (bw_clock z 1) v) best \<and>
      length best = min k (length c) \<and> distinct best \<and> set best \<subseteq> set c \<and>
      sorted (map (article_distance cos_dist (v_embedding v)) best) \<and>
      (\<forall>a \<in> set best. \<forall>b \<in> set c - set best. article_distance cos_dist (v_embedding v) a \<le> article_distance cos_dist (v_embedding v) b)"
    if "v \<in> set (db_vectors (bw_db z))" for v
    using eff that by (intro exI [of _ "ranked cos_dist ?cutoff k (v_embedding v) ?rows"] conjI best(1-4)) (blast intro: best(5))+
  ultimately show ?thesis using eff by blast
qed

text \<open>
  The separator of the hash may occur in an item, so two profiles with different texts can have the
  same hash, and then the change from one to the other is not seen.
\<close>

lemma profile_hash_ambiguous:
  "profile_hash sha [''a|b''] s f = profile_hash sha [''a'', ''b''] s f" "profile_text [''a|b''] s f \<noteq> profile_text [''a'', ''b''] s f"
  by (simp_all add: profile_hash_def profile_text_def str_or_def)

section \<open>Witnesses\<close>

definition flat_vector :: "pyfloat list" where "flat_vector = replicate vector_dim (Fin 0)"

definition flat_embedder :: "unit embed_fn" where
  "flat_embedder texts s = (Inr (map (\<lambda>t. flat_vector) texts), s)"

theorem embed_batched_contract_witness:
  "\<exists>r z'. embed_articles_batched flat_embedder 1 3 0 0 ((), sum_demo) = (r, ((), z')) \<and>
    (\<exists>k \<le> 3. unembedded (db_articles (bw_db z')) + k = 2)"
proof -
  obtain r z' where run: "embed_articles_batched flat_embedder 1 3 0 0 ((), sum_demo) = (r, ((), z'))"
    by (metis (full_types) old.unit.exhaust prod.collapse)
  obtain k where "k \<le> 3 * 1" "unembedded (db_articles (bw_db z')) + k = unembedded (db_articles (bw_db sum_demo))"
    using embed_batched_contract [OF sum_demo_ok run] by blast
  moreover have "unembedded (db_articles (bw_db sum_demo)) = 2"
    by (simp add: unembedded_def sum_demo_def db_empty_def fresh_article_def)
  ultimately have "\<exists>k \<le> 3. unembedded (db_articles (bw_db z')) + k = 2" by (intro exI [of _ k]) simp
  then show ?thesis using run by blast
qed

definition profile_world :: batch_world where
  "profile_world = sum_demo\<lparr>bw_db := db_empty\<lparr>db_users := [\<lparr>u_id = ''u'', u_portfolio = [''NVDA''], u_sectors = [], u_focus = None,
     u_email = None, u_updated_at = 0\<rparr>]\<rparr>\<rparr>"

lemma flat_column: "column_vector flat_vector = Inr (replicate vector_dim 0)"
proof -
  have "sum_traverse finite_value (replicate n (Fin 0)) = Inr (replicate n 0)" for n
    by (induction n) (simp_all add: sum_bind_def)
  then show ?thesis by (simp add: column_vector_def flat_vector_def)
qed

theorem embed_profiles_idempotent_witness:
  "\<exists>z'. embed_profiles (\<lambda>s. s) flat_embedder ((), profile_world) = (Inr 1, ((), z')) \<and> changed_profiles (\<lambda>s. s) (bw_db z') = []"
proof -
  have run: "\<exists>z'. embed_profiles (\<lambda>s. s) flat_embedder ((), profile_world) = (Inr 1, ((), z'))"
    by (simp add: embed_profiles_def changed_profiles_def profile_world_def db_empty_def stored_hash_def find_by_def Let_def
        py_monad_defs on_fst_def on_snd_def py_lift_def flat_embedder_def flat_column sum_bind_def)
  then obtain z' where z': "embed_profiles (\<lambda>s. s) flat_embedder ((), profile_world) = (Inr 1, ((), z'))" by blast
  have d: "distinct (map u_id (db_users (bw_db profile_world)))" by (simp add: profile_world_def)
  have "changed_profiles (\<lambda>s. s) (bw_db z') = []"
    by (rule conjunct1 [OF conjunct2 [OF embed_profiles_idempotent [OF d z', where emb' = flat_embedder and t = "()"]]])
  with z' show ?thesis by (intro exI [of _ z'] conjI)
qed

definition score_world :: batch_world where
  "score_world = sum_demo\<lparr>bw_db := db_empty\<lparr>db_articles := [(fresh_article ''a'' 1)\<lparr>a_embedding := Some [1]\<rparr>, (fresh_article ''b'' 2)\<lparr>a_embedding := Some [3]\<rparr>],
     db_vectors := [\<lparr>v_user = ''u'', v_embedding = [2], v_source_hash = [], v_updated_at = 0\<rparr>]\<rparr>\<rparr>"

theorem score_users_top_k_witness:
  "\<exists>z'. score_users (\<lambda>v u. \<bar>hd v - hd u\<bar>) 30 1 score_world = (1, z')"
proof -
  have ok: "db_ok (bw_db score_world)" "distinct (map v_user (db_vectors (bw_db score_world)))"
    by (simp_all add: score_world_def db_ok_def db_empty_def fresh_article_def)
  obtain n z' where run: "score_users (\<lambda>v u. \<bar>hd v - hd u\<bar>) 30 1 score_world = (n, z')" by (metis prod.collapse)
  let ?c = "candidates (bw_clock score_world 0 - 30 * day_us) (db_articles (bw_db score_world))"
  have "length (db_vectors (bw_db score_world)) = 1" "length ?c = 2"
    by (simp_all add: score_world_def candidates_def sum_demo_def fresh_article_def day_us_def)
  then have "n = 1" using conjunct1 [OF score_users_top_k [OF ok run refl]] by simp
  then show ?thesis using run by blast
qed

end
