(* ===== verification/Digest.thy ===== *)
theory Digest
  imports Url Embedding_Jobs
begin

text \<open>
  Digests: the models (\<open>digest/models.py\<close>), the keyword matcher (\<open>matcher.py\<close>), the relevance-ranked and
  the per-user builder (\<open>relevance.py\<close>, \<open>user_digest.py\<close>), and the queries that feed them
  (\<open>postgres_source.py\<close>, \<open>user_source.py\<close>).

  A builder raises where \<open>urlsplit\<close> does, or where a stored summary has another shape than the
  summarizer gives it.  The library functions a digest needs are fields of \<open>digest_lib\<close>: \<open>date().isoformat()\<close> and the
  validation of an \<open>EmailStr\<close>, which gives the normalised address or raises.
\<close>

section \<open>Models\<close>

record digest_item =
  di_title :: string
  di_url :: string
  di_source :: string
  di_published :: "datetime option"
  di_summary :: string
  di_matched_on :: "string list"
  di_bullets :: "string list"
  di_relevance :: "int option"
  di_reason :: "string option"

record digest_section =
  ds_key :: string
  ds_heading :: string
  ds_items :: "digest_item list"

record digest =
  dg_subscriber_id :: string
  dg_subscriber_name :: string
  dg_subscriber_email :: string
  dg_cadence :: string
  dg_period :: string
  dg_generated_at :: datetime
  dg_sections :: "digest_section list"

record preferences =
  pf_companies :: "string list"
  pf_themes :: "string list"
  pf_topics :: "string list"
  pf_data_types :: "string list"
  pf_cadence :: string
  pf_max_items :: nat

record subscriber =
  sb_id :: string
  sb_name :: string
  sb_email :: string
  sb_preferences :: preferences
  sb_active :: bool
  sb_timezone :: "string option"
  sb_created_at :: "datetime option"

record digest_lib =
  dl_date_iso :: "datetime \<Rightarrow> string"
  dl_email :: "string \<Rightarrow> exn + string"

text \<open>The constructor: pydantic validates the address.\<close>

definition mk_digest :: "digest_lib \<Rightarrow> string \<Rightarrow> string \<Rightarrow> string \<Rightarrow> string \<Rightarrow> datetime \<Rightarrow> digest_section list \<Rightarrow> exn + digest" where
  "mk_digest dl sid name email cadence now sections = sum_bind (dl_email dl email) (\<lambda>address.
     Inr \<lparr>dg_subscriber_id = sid, dg_subscriber_name = name, dg_subscriber_email = address, dg_cadence = cadence,
       dg_period = dl_date_iso dl now, dg_generated_at = now, dg_sections = sections\<rparr>)"

definition cadence_label :: "digest \<Rightarrow> string" where
  "cadence_label d = (if dg_cadence d = ''daily'' then ''Daily'' else ''Weekly'')"

definition total_items :: "digest \<Rightarrow> nat" where
  "total_items d = sum_list (map (\<lambda>s. length (ds_items s)) (dg_sections d))"

definition is_empty_digest :: "digest \<Rightarrow> bool" where
  "is_empty_digest d = (total_items d = 0)"

section \<open>The lead text\<close>

text \<open>\<open>s.rfind(p, 0, n)\<close>.\<close>

definition rfind_until :: "string \<Rightarrow> nat \<Rightarrow> string \<Rightarrow> nat option" where
  "rfind_until p n s = find (\<lambda>i. starts_with p (drop i (take n s))) (rev [0..<length (take n s) + 1])"

definition summarize_text :: "nat \<Rightarrow> string \<Rightarrow> string" where
  "summarize_text max_chars content =
     (let t = join '' '' (split_ws content) in
      if length t \<le> max_chars then t
      else (let window = take (max_chars + 60) t in
        case rfind_until ''. '' (max_chars + 1) window of
          Some stop \<Rightarrow> if stop \<ge> 60 then take (stop + 1) window else rstrip_by is_space (take max_chars t) @ [ellipsis_char]
        | None \<Rightarrow> rstrip_by is_space (take max_chars t) @ [ellipsis_char]))"

section \<open>Keyword matching\<close>

definition haystack :: "article \<Rightarrow> string" where
  "haystack a = lower (ar_title a @ [newline] @ ar_content a)"

definition word_char :: "char \<Rightarrow> bool" where
  "word_char c = (let n = (of_char c :: nat) in 97 \<le> n \<and> n \<le> 122 \<or> is_digit c \<or> c = CHR ''_'')"

definition boundary :: "string \<Rightarrow> bool" where
  "boundary s = (case s of [] \<Rightarrow> True | c # cs \<Rightarrow> \<not> word_char c)"

text \<open>The regular expression: the term, not preceded and not followed by a word character.\<close>

fun occurs_word :: "bool \<Rightarrow> string \<Rightarrow> string \<Rightarrow> bool" where
  "occurs_word free t [] = (free \<and> t = [])"
| "occurs_word free t (c # cs) =
     (free \<and> starts_with t (c # cs) \<and> boundary (drop (length t) (c # cs)) \<or> occurs_word (\<not> word_char c) t cs)"

definition term_matches :: "string \<Rightarrow> string \<Rightarrow> bool" where
  "term_matches hay term = (let t = lower (strip term) in t \<noteq> [] \<and> occurs_word True t hay)"

definition matched_terms :: "string \<Rightarrow> string list \<Rightarrow> string list" where
  "matched_terms hay terms = filter (term_matches hay) terms"

definition to_item :: "article \<Rightarrow> string list \<Rightarrow> exn + digest_item" where
  "to_item a matched = sum_bind (url_domain (ar_url a)) (\<lambda>src.
     Inr \<lparr>di_title = str_or (Some (ar_title a)) ''(untitled)'', di_url = ar_url a, di_source = src, di_published = ar_publish_date a,
       di_summary = summarize_text 300 (ar_content a), di_matched_on = matched, di_bullets = [], di_relevance = None, di_reason = None\<rparr>)"

text \<open>\<open>sorted(articles, key=_sort_key, reverse=True)\<close>: dated before undated, newest first, stable.\<close>

definition dated_first :: "article list \<Rightarrow> article list" where
  "dated_first as = sort_key (\<lambda>a. if ar_publish_date a = None then 1 else 0 :: nat)
     (sort_key (\<lambda>a. case ar_publish_date a of Some t \<Rightarrow> - t | None \<Rightarrow> 0) as)"

definition section_defs :: "preferences \<Rightarrow> (string \<times> string \<times> string list) list" where
  "section_defs p = [(''portfolio'', ''Your portfolio companies'', pf_companies p),
     (''themes'', ''Investment themes'', pf_themes p), (''topics'', ''More in your topics'', pf_topics p)]"

text \<open>The first section an article matches, with the terms it matches there.\<close>

definition placed :: "preferences \<Rightarrow> article \<Rightarrow> (string \<times> string list) option" where
  "placed p a = map_option (\<lambda>(key, heading, terms). (key, matched_terms (haystack a) terms))
     (find (\<lambda>(key, heading, terms). matched_terms (haystack a) terms \<noteq> []) (section_defs p))"

definition placed_item :: "preferences \<Rightarrow> article \<Rightarrow> exn + (string \<times> digest_item)" where
  "placed_item p a = sum_bind (to_item a (snd (the (placed p a)))) (\<lambda>i. Inr (fst (the (placed p a)), i))"

definition bucket_items :: "string \<Rightarrow> (string \<times> digest_item) list \<Rightarrow> digest_item list" where
  "bucket_items key items = map snd (filter (\<lambda>(k, i). k = key) items)"

definition build_digest :: "digest_lib \<Rightarrow> subscriber \<Rightarrow> article list \<Rightarrow> datetime \<Rightarrow> exn + digest" where
  "build_digest dl sub articles now =
     (let p = sb_preferences sub in
      sum_bind (sum_traverse (placed_item p) (filter (\<lambda>a. placed p a \<noteq> None) (dated_first articles))) (\<lambda>items.
      mk_digest dl (sb_id sub) (sb_name sub) (sb_email sub) (pf_cadence p) now
        (map (\<lambda>(key, heading, terms). \<lparr>ds_key = key, ds_heading = heading, ds_items = take (pf_max_items p) (bucket_items key items)\<rparr>)
          (filter (\<lambda>(key, heading, terms). bucket_items key items \<noteq> []) (section_defs p)))))"

section \<open>Ranked digests\<close>

definition meta_relevance :: "article \<Rightarrow> int option" where
  "meta_relevance a = Option.bind (dict_get (ar_metadata a) ''relevance'') int_value"

definition stripped_strings :: "json list \<Rightarrow> string list" where
  "stripped_strings vs = List.map_filter (\<lambda>b. case b of
      JStr s \<Rightarrow> if strip s \<noteq> [] then Some (strip s) else None | _ \<Rightarrow> None) vs"

definition meta_summary :: "article \<Rightarrow> pydict" where
  "meta_summary a = (case dict_get (ar_metadata a) ''summary'' of Some (JObj d) \<Rightarrow> d | _ \<Rightarrow> [])"

definition summary_bullets :: "pydict \<Rightarrow> exn + string list" where
  "summary_bullets d = (let raw = get_or_null d ''bullets'' in
     sum_bind (iterate (if truthy raw then raw else JList [])) (\<lambda>vs. Inr (stripped_strings vs)))"

definition summary_reason :: "pydict \<Rightarrow> string option" where
  "summary_reason d = (case get_or_null d ''reason'' of JStr s \<Rightarrow> if strip s \<noteq> [] then Some (strip s) else None | _ \<Rightarrow> None)"

definition ranked_item :: "(article \<Rightarrow> int option) \<Rightarrow> article \<Rightarrow> exn + digest_item" where
  "ranked_item rel a = sum_bind (summary_bullets (meta_summary a)) (\<lambda>bullets.
     sum_bind (url_domain (ar_url a)) (\<lambda>src.
     Inr \<lparr>di_title = str_or (Some (ar_title a)) ''(untitled)'', di_url = ar_url a, di_source = src, di_published = ar_publish_date a,
       di_summary = summarize_text 300 (ar_content a), di_matched_on = [], di_bullets = bullets, di_relevance = rel a,
       di_reason = summary_reason (meta_summary a)\<rparr>))"

definition top_section :: "digest_item list \<Rightarrow> digest_section list" where
  "top_section items = (if items \<noteq> [] then [\<lparr>ds_key = ''top'', ds_heading = ''Top updates'', ds_items = items\<rparr>] else [])"

definition relevance_or_zero :: "article \<Rightarrow> int" where
  "relevance_or_zero a = (case meta_relevance a of Some r \<Rightarrow> r | None \<Rightarrow> 0)"

definition by_relevance :: "article list \<Rightarrow> article list" where
  "by_relevance as = sort_key (\<lambda>a. - relevance_or_zero a)
     (sort_key (\<lambda>a. case ar_publish_date a of Some t \<Rightarrow> - t | None \<Rightarrow> 0) as)"

definition build_relevance_digest :: "digest_lib \<Rightarrow> subscriber \<Rightarrow> article list \<Rightarrow> int \<Rightarrow> nat \<Rightarrow> datetime \<Rightarrow> exn + digest" where
  "build_relevance_digest dl sub articles min_relevance limit now =
     sum_bind (sum_traverse (ranked_item (\<lambda>a. if relevance_or_zero a = 0 then None else Some (relevance_or_zero a)))
         (take limit (by_relevance (filter (\<lambda>a. relevance_or_zero a \<ge> min_relevance) articles)))) (\<lambda>items.
     mk_digest dl (sb_id sub) (sb_name sub) (sb_email sub) (pf_cadence (sb_preferences sub)) now (top_section items))"

section \<open>Queries\<close>

definition hour_us :: int where "hour_us = 3600000000"

definition article_of_row :: "article_row \<Rightarrow> article" where
  "article_of_row r = \<lparr>ar_url = a_url r, ar_title = a_title r, ar_content = a_content r, ar_author = a_author r,
     ar_publish_date = a_publish_date r, ar_raw_html = None,
     ar_metadata = [(''source_domain'', JStr (a_domain r)), (''bucket'', JStr (a_bucket r)),
       (''relevance'', case a_relevance r of Some n \<Rightarrow> JInt n | None \<Rightarrow> JNull),
       (''summary'', case a_summary r of Some s \<Rightarrow> JObj s | None \<Rightarrow> JNull)]\<rparr>"

text \<open>\<open>ORDER BY relevance DESC, fetched_at DESC\<close>: NULL comes first in a descending order.\<close>

definition load_ranked_articles :: "int \<Rightarrow> nat \<Rightarrow> datetime \<Rightarrow> db \<Rightarrow> article list" where
  "load_ranked_articles window_hours limit now d =
     map article_of_row (take limit
       (sort_key (\<lambda>r. if a_relevance r = None then 0 else 1 :: nat)
         (sort_key (\<lambda>r. case a_relevance r of Some n \<Rightarrow> - n | None \<Rightarrow> 0)
           (sort_key (\<lambda>r. - a_fetched_at r)
             (filter (\<lambda>r. a_summary r \<noteq> None \<and> a_fetched_at r \<ge> now - window_hours * hour_us) (db_articles d))))))"

record active_user =
  au_id :: string
  au_email :: string
  au_name :: string

definition load_active_users :: "db \<Rightarrow> active_user list" where
  "load_active_users d = map (\<lambda>u. \<lparr>au_id = u_id u, au_email = the (u_email u), au_name = before_first (CHR ''@'') (the (u_email u))\<rparr>)
     (sort_key u_id (filter (\<lambda>u. u_email u \<noteq> None) (db_users d)))"

text \<open>The join of the user's scores with the articles, best first.\<close>

definition load_user_ranked_articles :: "string \<Rightarrow> int \<Rightarrow> real \<Rightarrow> nat \<Rightarrow> datetime \<Rightarrow> db \<Rightarrow> article list" where
  "load_user_ranked_articles user window_hours score_floor limit now d =
     map (article_of_row \<circ> snd) (take limit
       (sort_key (\<lambda>(y, r). - r_score y) (sort_key (\<lambda>(y, r). - a_fetched_at r)
         (filter (\<lambda>(y, r). a_summary r \<noteq> None \<and> a_fetched_at r \<ge> now - window_hours * hour_us \<and> r_score y \<ge> score_floor)
           [(y, r). r \<leftarrow> db_articles d, y \<leftarrow> db_relevance d, r_user y = user \<and> r_article y = a_id r]))))"

definition build_user_digest :: "digest_lib \<Rightarrow> active_user \<Rightarrow> article list \<Rightarrow> datetime \<Rightarrow> exn + digest" where
  "build_user_digest dl u articles now =
     sum_bind (sum_traverse (ranked_item meta_relevance) articles) (\<lambda>items.
     mk_digest dl (au_id u) (au_name u) (au_email u) ''daily'' now (top_section items))"

section \<open>What the keyword digest promises\<close>

text \<open>
  An article mentions a term when the term, stripped and in lower case, occurs in its title and
  content as a whole word or phrase.  An article belongs to the first section one of whose terms
  it mentions.
\<close>

definition mentions :: "article \<Rightarrow> string \<Rightarrow> bool" where
  "mentions a term = (let t = lower (strip term) in t \<noteq> [] \<and>
     (\<exists>u v. haystack a = u @ t @ v \<and> (u = [] \<or> \<not> word_char (last u)) \<and> (v = [] \<or> \<not> word_char (hd v))))"

definition section_terms :: "preferences \<Rightarrow> string \<Rightarrow> string list" where
  "section_terms p key = (if key = ''portfolio'' then pf_companies p else if key = ''themes'' then pf_themes p else pf_topics p)"

definition wanted :: "preferences \<Rightarrow> article \<Rightarrow> string \<Rightarrow> bool" where
  "wanted p a key = (\<exists>t \<in> set (section_terms p key). mentions a t)"

definition belongs :: "preferences \<Rightarrow> string \<Rightarrow> article \<Rightarrow> bool" where
  "belongs p key a = (wanted p a key \<and> (key = ''topics'' \<longrightarrow> \<not> wanted p a ''themes'') \<and> (key \<noteq> ''portfolio'' \<longrightarrow> \<not> wanted p a ''portfolio''))"

lemma boundary_iff: "boundary v \<longleftrightarrow> v = [] \<or> \<not> word_char (hd v)"
  by (cases v) (simp_all add: boundary_def)

lemma occurs_word_iff:
  "t \<noteq> [] \<Longrightarrow> occurs_word free t s \<longleftrightarrow>
    (\<exists>u v. s = u @ t @ v \<and> (if u = [] then free else \<not> word_char (last u)) \<and> boundary v)"
proof (induction free t s rule: occurs_word.induct)
  case (2 free t c cs)
  have here: "(free \<and> starts_with t (c # cs) \<and> boundary (drop (length t) (c # cs))) \<longleftrightarrow> (\<exists>v. c # cs = t @ v \<and> free \<and> boundary v)"
    by (auto simp: starts_with_iff)
  have later: "occurs_word (\<not> word_char c) t cs \<longleftrightarrow>
      (\<exists>u v. c # cs = (c # u) @ t @ v \<and> \<not> word_char (last (c # u)) \<and> boundary v)"
    using 2 by (auto split: if_splits)
  show ?case (is "_ \<longleftrightarrow> ?R")
  proof
    assume "occurs_word free t (c # cs)"
    then consider v where "c # cs = t @ v" "free" "boundary v" | u v where "c # cs = (c # u) @ t @ v" "\<not> word_char (last (c # u))" "boundary v"
      using here later by auto
    then show ?R
    proof cases
      case 1
      then show ?thesis by (intro exI [of _ "[]"] exI [of _ v]) simp
    next
      case (2 u v)
      then show ?thesis by (intro exI [of _ "c # u"] exI [of _ v]) simp
    qed
  next
    assume ?R
    then obtain u v where uv: "c # cs = u @ t @ v" "if u = [] then free else \<not> word_char (last u)" "boundary v" by blast
    show "occurs_word free t (c # cs)"
    proof (cases u)
      case Nil
      then have "\<exists>v. c # cs = t @ v \<and> free \<and> boundary v" using uv by auto
      then have "free \<and> starts_with t (c # cs) \<and> boundary (drop (length t) (c # cs))" by (rule here [THEN iffD2])
      then show ?thesis unfolding occurs_word.simps by (rule disjI1)
    next
      case (Cons d us)
      then have "c # cs = (c # us) @ t @ v \<and> \<not> word_char (last (c # us)) \<and> boundary v" using uv by simp
      then have "occurs_word (\<not> word_char c) t cs" using later by blast
      then show ?thesis by simp
    qed
  qed
qed simp

lemma term_matches_iff: "term_matches (haystack a) term = mentions a term"
proof -
  have "(if u = [] then True else \<not> word_char (last u)) = (u = [] \<or> \<not> word_char (last u))" for u by simp
  then show ?thesis unfolding term_matches_def mentions_def Let_def using occurs_word_iff [of "lower (strip term)" True "haystack a"]
    by (simp only: boundary_iff) blast
qed

lemma matched_mentions: "matched_terms (haystack a) terms = filter (mentions a) terms"
proof -
  have "term_matches (haystack a) = mentions a" by (rule ext) (rule term_matches_iff)
  then show ?thesis by (simp add: matched_terms_def)
qed

lemma placed_belongs:
  "placed p a = Some (key, m) \<longleftrightarrow> key \<in> {''portfolio'', ''themes'', ''topics''} \<and> belongs p key a \<and> m = filter (mentions a) (section_terms p key)"
  by (auto simp: placed_def section_defs_def matched_mentions belongs_def wanted_def section_terms_def filter_empty_conv)

lemma bucket_filter:
  assumes "list_all2 (\<lambda>a ki. Q a ki \<and> fst ki = f a) as items"
  shows "list_all2 (\<lambda>a i. Q a (key, i)) (filter (\<lambda>a. f a = key) as) (bucket_items key items)"
  using assms by (induction rule: list_all2_induct) (auto simp: bucket_items_def)

text \<open>The keys of the sections, and the articles of one of them: those placed there, newest first.\<close>

abbreviation section_keys :: "string list" where
  "section_keys \<equiv> [''portfolio'', ''themes'', ''topics'']"

lemma placed_key:
  assumes "key \<in> set section_keys"
  shows "(placed p a \<noteq> None \<and> fst (the (placed p a)) = key) = belongs p key a"
    and "belongs p key a \<Longrightarrow> snd (the (placed p a)) = filter (mentions a) (section_terms p key)"
proof -
  show "belongs p key a \<Longrightarrow> snd (the (placed p a)) = filter (mentions a) (section_terms p key)"
    using assms placed_belongs [of p a key "filter (mentions a) (section_terms p key)"] by simp
  show "(placed p a \<noteq> None \<and> fst (the (placed p a)) = key) = belongs p key a"
  proof
    assume "placed p a \<noteq> None \<and> fst (the (placed p a)) = key"
    then obtain m where "placed p a = Some (key, m)" by (cases "placed p a") auto
    then show "belongs p key a" by (simp add: placed_belongs)
  next
    assume "belongs p key a"
    then have "placed p a = Some (key, filter (mentions a) (section_terms p key))" using assms by (simp add: placed_belongs)
    then show "placed p a \<noteq> None \<and> fst (the (placed p a)) = key" by simp
  qed
qed

lemma bucket_belongs:
  assumes "sum_traverse (placed_item p) (filter (\<lambda>a. placed p a \<noteq> None) as) = Inr items" and "key \<in> set section_keys"
  shows "list_all2 (\<lambda>a i. di_url i = ar_url a \<and> di_published i = ar_publish_date a \<and> di_matched_on i = filter (mentions a) (section_terms p key))
    (filter (belongs p key) as) (bucket_items key items)"
proof -
  let ?as = "filter (\<lambda>a. placed p a \<noteq> None) as" and ?f = "\<lambda>a. fst (the (placed p a))"
  have one: "placed_item p a = Inr ki \<Longrightarrow>
      (di_url (snd ki) = ar_url a \<and> di_published (snd ki) = ar_publish_date a \<and> di_matched_on (snd ki) = snd (the (placed p a))) \<and> fst ki = ?f a" for a ki
    by (auto simp: placed_item_def to_item_def sum_bind_Inr)
  have all: "list_all2 (\<lambda>a ki. (di_url (snd ki) = ar_url a \<and> di_published (snd ki) = ar_publish_date a \<and> di_matched_on (snd ki) = snd (the (placed p a))) \<and>
      fst ki = ?f a) ?as items"
    by (rule list_all2_mono [OF sum_traverse_Inr [OF assms(1)]]) (rule one)
  have "filter (\<lambda>a. ?f a = key) ?as = filter (belongs p key) as"
    using placed_key(1) [OF assms(2)] by (simp add: conj_commute)
  with bucket_filter [OF all, of key] have "list_all2 (\<lambda>a i. di_url i = ar_url a \<and> di_published i = ar_publish_date a \<and>
      di_matched_on i = snd (the (placed p a))) (filter (belongs p key) as) (bucket_items key items)" by simp
  then show ?thesis by (rule list.rel_mono_strong) (auto simp: placed_key(2) [OF assms(2)])
qed


definition demo_subscriber :: subscriber where
  "demo_subscriber = \<lparr>sb_id = ''s'', sb_name = ''Ann'', sb_email = ''a@b.c'', sb_preferences =
     \<lparr>pf_companies = ['' OpenAI''], pf_themes = [''ai''], pf_topics = [], pf_data_types = [''news''], pf_cadence = ''daily'', pf_max_items = 5\<rparr>,
     sb_active = True, sb_timezone = None, sb_created_at = None\<rparr>"

definition demo_digest_lib :: digest_lib where
  "demo_digest_lib = \<lparr>dl_date_iso = (\<lambda>t. ''2026-06-22''), dl_email = Inr\<rparr>"

definition demo_article :: article where
  "demo_article = mk_article ''https://ft.com/a'' ''The AI mountain'' ''OpenAI_x and openai.''"


end
