(* ===== verification/Render.thy ===== *)
theory Render
  imports Digest
begin

text \<open>
  Rendering a digest: \<open>digest/render.py\<close>, the subject, the plain text and the HTML with its escaping.
\<close>

record rendered_email =
  re_subject :: string
  re_html :: string
  re_text :: string

definition brand :: string where "brand = ''Hezzian''"

text \<open>\<open>html.escape(s)\<close>.\<close>

definition escape_char :: "char \<Rightarrow> string" where
  "escape_char c = (if c = CHR ''&'' then ''&amp;'' else if c = CHR ''<'' then ''&lt;'' else if c = CHR ''>'' then ''&gt;''
     else if c = CHR 0x22 then ''&quot;'' else if c = CHR 0x27 then ''&#x27;'' else [c])"

definition escape :: "string \<Rightarrow> string" where
  "escape s = concat (map escape_char s)"

text \<open>\<open>s.upper()\<close> of a heading; the three letters whose capital lies outside the repertoire are kept.\<close>

definition upper_char :: "char \<Rightarrow> char" where
  "upper_char c = (let n = (of_char c :: nat) in
     if 97 \<le> n \<and> n \<le> 122 \<or> 224 \<le> n \<and> n \<le> 254 \<and> n \<noteq> 247 then char_of (n - 32)
     else if n = 154 \<or> n = 156 \<or> n = 158 then char_of (n - 16)
     else if n = 255 then char_of (159 :: nat)
     else c)"

definition subject :: "digest \<Rightarrow> string" where
  "subject d = (let n = total_items d in brand @ '' '' @ cadence_label d @ '' '' @ [em_dash] @ '' '' @ dg_period d @ '' ('' @ nat_str n @
     '' update'' @ (if n \<noteq> 1 then ''s'' else []) @ '')'')"

section \<open>Plain text\<close>

definition text_item :: "digest_item \<Rightarrow> string list" where
  "text_item i =
     (if di_bullets i \<noteq> []
      then [''- '' @ (case di_relevance i of Some r \<Rightarrow> ''['' @ int_str r @ ''/10] '' | None \<Rightarrow> []) @ di_title i,
            ''  '' @ di_source i @ '' '' @ [em_dash] @ '' '' @ di_url i]
         @ map (\<lambda>b. ''  '' @ [bullet_char] @ '' '' @ b) (di_bullets i)
         @ (case di_reason i of Some r \<Rightarrow> if r \<noteq> [] then [''  why: '' @ r] else [] | None \<Rightarrow> [])
         @ [[]]
      else [''- '' @ di_title i @ (if di_matched_on i \<noteq> [] then ''  ['' @ join '', '' (di_matched_on i) @ '']'' else []),
            ''  '' @ di_source i @ '' '' @ [em_dash] @ '' '' @ di_url i,
            ''  '' @ di_summary i, []])"

definition render_text :: "digest \<Rightarrow> string" where
  "render_text d = join [newline]
     ([brand @ '' '' @ [em_dash] @ '' '' @ dg_period d, [], ''Hi '' @ dg_subscriber_name d @ '','', []]
      @ (if is_empty_digest d then [''No updates to show right now.'', []] else [])
      @ concat (map (\<lambda>s. [map upper_char (ds_heading s)] @ concat (map text_item (ds_items s)) @ [[]]) (dg_sections d))
      @ [[em_dash], ''You're receiving this because you signed up for '' @ brand @ '' updates.''])"

section \<open>HTML\<close>

definition badge_html :: "int option \<Rightarrow> string" where
  \<open>badge_html rel = (case rel of None \<Rightarrow> []
     | Some r \<Rightarrow> ''<span style="display:inline-block;background:'' @
         (if r \<ge> 8 then ''#16a34a'' else if r \<ge> 5 then ''#d97706'' else ''#6b7280'') @
         '';color:#fff;border-radius:10px;padding:1px 8px;font-size:12px;font-weight:600;margin-right:8px;">'' @ int_str r @ ''/10</span>'')\<close>

definition item_link :: "digest_item \<Rightarrow> string" where
  \<open>item_link i = ''<a href="'' @ escape (di_url i) @ ''" style="font-size:16px;font-weight:600;color:#111;text-decoration:none;">'' @
     escape (di_title i) @ ''</a>'' @
     ''<div style="font-size:12px;color:#888;margin:2px 0;">'' @ escape (di_source i) @ ''</div>''\<close>

definition item_open :: string where
  \<open>item_open = ''<div style="margin:0 0 18px;padding:0 0 14px;border-bottom:1px solid #eee;">''\<close>

definition summary_html :: "digest_item \<Rightarrow> string" where
  \<open>summary_html i = item_open @ badge_html (di_relevance i) @ item_link i @
     ''<ul style="font-size:14px;color:#333;line-height:1.5;margin:6px 0;padding-left:20px;">'' @
     concat (map (\<lambda>b. ''<li style="margin:2px 0;">'' @ escape b @ ''</li>'') (di_bullets i)) @ ''</ul>'' @
     (case di_reason i of
        Some r \<Rightarrow> if r \<noteq> [] then ''<div style="font-size:12px;color:#9ca3af;margin-top:6px;">why: '' @ escape r @ ''</div>'' else []
      | None \<Rightarrow> []) @ ''</div>''\<close>

definition chip_html :: "string \<Rightarrow> string" where
  \<open>chip_html m = ''<span style="background:#eef2ff;color:#3730a3;border-radius:10px;padding:1px 8px;font-size:12px;margin-right:4px;">'' @
     escape m @ ''</span>''\<close>

definition keyword_html :: "digest_item \<Rightarrow> string" where
  \<open>keyword_html i = item_open @ item_link i @
     (if di_matched_on i \<noteq> [] then ''<div style="margin:4px 0 6px;">'' @ join '' '' (map chip_html (di_matched_on i)) @ ''</div>'' else []) @
     ''<div style="font-size:14px;color:#333;line-height:1.5;">'' @ escape (di_summary i) @ ''</div>'' @ ''</div>''\<close>

definition html_item :: "digest_item \<Rightarrow> string" where
  "html_item i = (if di_bullets i \<noteq> [] then summary_html i else keyword_html i)"

definition html_section :: "digest_section \<Rightarrow> string" where
  \<open>html_section s = ''<h2 style="font-size:15px;text-transform:uppercase;letter-spacing:.04em;color:#6b7280;margin:26px 0 12px;">'' @
     escape (ds_heading s) @ ''</h2>'' @ concat (map html_item (ds_items s))\<close>

definition render_html :: "digest \<Rightarrow> string" where
  \<open>render_html d =
     ''<div style="max-width:640px;margin:0 auto;font-family:-apple-system,Segoe UI,Roboto,'' @
     ''Helvetica,Arial,sans-serif;color:#111;padding:24px;">'' @
     ''<div style="font-size:22px;font-weight:700;">'' @ brand @ ''</div>'' @
     ''<div style="font-size:13px;color:#9ca3af;margin-bottom:18px;">'' @ escape (dg_period d) @ '' digest</div>'' @
     ''<p style="font-size:16px;">Hi '' @ escape (dg_subscriber_name d) @ '',</p>'' @
     (if is_empty_digest d then ''<p style="font-size:15px;color:#374151;">No updates to show right now.</p>''
      else concat (map html_section (dg_sections d))) @
     ''<div style="margin-top:28px;font-size:12px;color:#9ca3af;border-top:1px solid #eee;padding-top:12px;">'' @
     ''You're receiving this because you signed up for '' @ brand @ '' updates.</div>'' @
     ''</div>''\<close>

definition render_email :: "digest \<Rightarrow> rendered_email" where
  "render_email d = \<lparr>re_subject = subject d, re_html = render_html d, re_text = render_text d\<rparr>"

section \<open>Markup\<close>

text \<open>The characters that make markup, and a digest in which every text is a fixed word.\<close>

definition markup :: "string \<Rightarrow> string" where
  "markup s = filter (\<lambda>c. c \<in> {CHR ''<'', CHR ''>'', CHR 0x22, CHR 0x27}) s"

definition blank_item :: "digest_item \<Rightarrow> digest_item" where
  "blank_item i = i\<lparr>di_title := ''x'', di_url := ''x'', di_source := ''x'', di_summary := ''x'', di_matched_on := map (\<lambda>m. ''x'') (di_matched_on i),
     di_bullets := map (\<lambda>b. ''x'') (di_bullets i), di_relevance := map_option (\<lambda>r. 1) (di_relevance i),
     di_reason := map_option (\<lambda>r. if r = [] then [] else ''x'') (di_reason i)\<rparr>"

definition blank_digest :: "digest \<Rightarrow> digest" where
  "blank_digest d = d\<lparr>dg_subscriber_name := ''x'', dg_period := ''x'',
     dg_sections := map (\<lambda>s. s\<lparr>ds_heading := ''x'', ds_items := map blank_item (ds_items s)\<rparr>) (dg_sections d)\<rparr>"

lemma markup_append [simp]: "markup (s @ t) = markup s @ markup t"
  by (simp add: markup_def)

lemma markup_concat: "markup (concat ss) = concat (map markup ss)"
  by (induction ss) (simp_all add: markup_def)

lemma markup_escape [simp]: "markup (escape s) = []"
  by (induction s) (auto simp: markup_def escape_def escape_char_def)

lemma markup_digits [simp]: "markup (int_str r) = []"
proof -
  have "c \<notin> {CHR ''<'', CHR ''>'', CHR 0x22, CHR 0x27}" if "c \<in> set (int_str r)" for c
    using that nat_str_digits [of c] by (auto simp: int_str_def is_digit_def split: if_splits)
  then show ?thesis by (auto simp: markup_def filter_empty_conv)
qed

lemma markup_join: "markup (join '' '' ss) = concat (map markup ss)" if "sep = '' ''" for sep
proof (induction ss)
  case (Cons a ss)
  have "markup '' '' = []" by (simp add: markup_def)
  with Cons show ?case by (cases ss) (simp_all del: append.simps)
qed (simp add: markup_def)

lemma markup_const: "markup (if P then s else t) = (if P then markup s else markup t)"
  by simp

text \<open>Each piece has the same markup for every text.\<close>

lemma badge_markup: "markup (badge_html (map_option (\<lambda>r. 1) rel)) = markup (badge_html rel)"
proof (cases rel)
  case (Some r)
  have colour: "markup (if r \<ge> 8 then ''#16a34a'' else if r \<ge> 5 then ''#d97706'' else ''#6b7280'') = []" for r :: int
    by (simp add: markup_def)
  show ?thesis unfolding Some badge_html_def option.map option.case by (simp only: markup_append colour markup_digits)
qed (simp add: badge_html_def)

lemma link_markup: "markup (item_link (blank_item i)) = markup (item_link i)"
  unfolding item_link_def by (simp only: markup_append markup_escape)

lemma chips_markup: "concat (map (\<lambda>m. markup (chip_html m)) (map (\<lambda>m. ''x'') ms)) = concat (map (\<lambda>m. markup (chip_html m)) ms)"
proof -
  have "markup (chip_html ''x'') = markup (chip_html m)" for m
    unfolding chip_html_def by (simp only: markup_append markup_escape)
  then have "map (\<lambda>m. markup (chip_html m)) (map (\<lambda>m. ''x'') ms) = map (\<lambda>m. markup (chip_html m)) ms"
    unfolding map_map comp_def by (rule map_cong [OF refl])
  then show ?thesis by (rule arg_cong)
qed

lemma bullets_markup: "markup (concat (map (\<lambda>b. l @ escape b @ r) (map (\<lambda>b. ''x'') bs))) = markup (concat (map (\<lambda>b. l @ escape b @ r) bs))"
  by (induction bs) (simp_all add: markup_concat)

lemma item_markup: "markup (html_item (blank_item i)) = markup (html_item i)"
proof -
  have b: "di_bullets (blank_item i) = map (\<lambda>b. ''x'') (di_bullets i)" "di_relevance (blank_item i) = map_option (\<lambda>r. 1) (di_relevance i)"
    "di_matched_on (blank_item i) = map (\<lambda>m. ''x'') (di_matched_on i)"
    "di_reason (blank_item i) = map_option (\<lambda>r. if r = [] then [] else ''x'') (di_reason i)"
    by (simp_all add: blank_item_def)
  have reason: "markup (case map_option (\<lambda>r. if r = [] then [] else ''x'') o' of Some r \<Rightarrow> if r \<noteq> [] then l @ escape r @ e else [] | None \<Rightarrow> []) =
      markup (case o' of Some r \<Rightarrow> if r \<noteq> [] then l @ escape r @ e else [] | None \<Rightarrow> [])" for o' l e
    by (cases o') auto
  have "markup (summary_html (blank_item i)) = markup (summary_html i)"
    unfolding summary_html_def b by (simp only: markup_append badge_markup link_markup bullets_markup reason)
  moreover have "markup (keyword_html (blank_item i)) = markup (keyword_html i)"
    unfolding keyword_html_def b markup_append link_markup markup_escape markup_const markup_join [OF refl] map_map comp_def
    using chips_markup [of "di_matched_on i"] by (simp only: map_map comp_def map_is_Nil_conv)
  ultimately show ?thesis by (simp add: html_item_def b)
qed

text \<open>
  C7.  The HTML of a digest has the markup of its layout and nothing else: whatever the titles, URLs,
  summaries, bullets, reasons, terms, headings and names contain, the angle brackets and quotes of the
  page are those of the same digest with every text replaced by a plain word.  No scraped text
  can add a tag or an attribute.
\<close>

theorem render_no_injection: "markup (render_html d) = markup (render_html (blank_digest d))"
proof -
  have total: "total_items (blank_digest d) = total_items d"
    by (simp add: total_items_def blank_digest_def comp_def)
  have sec: "markup (html_section (s\<lparr>ds_heading := ''x'', ds_items := map blank_item (ds_items s)\<rparr>)) = markup (html_section s)" for s
  proof -
    have "concat (map markup (map html_item (map blank_item (ds_items s)))) = concat (map markup (map html_item (ds_items s)))"
      by (simp add: comp_def item_markup)
    moreover have "ds_items (s\<lparr>ds_heading := ''x'', ds_items := map blank_item (ds_items s)\<rparr>) = map blank_item (ds_items s)" by simp
    ultimately show ?thesis
      unfolding html_section_def markup_append markup_escape markup_concat by (simp only:)
  qed
  have "concat (map markup (map html_section (dg_sections (blank_digest d)))) = concat (map markup (map html_section (dg_sections d)))"
    by (simp add: comp_def blank_digest_def sec)
  then show ?thesis
    unfolding render_html_def is_empty_digest_def total markup_append markup_escape markup_const markup_concat by (simp only:)
qed

end
