(* ===== verification/Delivery.thy ===== *)
theory Delivery
  imports Render Sinks
begin

text \<open>
  Delivering digests: reading the articles back from the file of the JSONL sink, \<open>make_digest\<close>, and the
  per-user batch \<open>deliver_all\<close> (\<open>digest/service.py\<close>), with the batches of \<open>user_source.load_all_sync\<close>.

  The file is its text, with a newline after every line, as the sink writes it.  A sender is any
  function of the port's type.  The bundled sample articles are an argument.
\<close>

section \<open>Articles from a file\<close>

definition line_break :: "char \<Rightarrow> bool" where
  "line_break c = (c \<in> {CHR 0x0A, CHR 0x0B, CHR 0x0C, CHR 0x0D, CHR 0x1C, CHR 0x1D, CHR 0x1E})"

text \<open>\<open>s.splitlines()\<close>, on text whose line ends were translated on reading.\<close>

fun splitlines :: "string \<Rightarrow> string list" where
  "splitlines [] = []"
| "splitlines (c # cs) =
     (if line_break c then [] # splitlines cs
      else case splitlines cs of [] \<Rightarrow> [[c]] | l # ls \<Rightarrow> (c # l) # ls)"

definition file_text :: "string list option \<Rightarrow> string" where
  "file_text f = (case f of None \<Rightarrow> [] | Some ls \<Rightarrow> concat (map (\<lambda>l. l @ [newline]) ls))"

definition article_from_jsonl :: "(string \<Rightarrow> exn + datetime) \<Rightarrow> json \<Rightarrow> exn + article" where
  "article_from_jsonl fromiso v = (case v of
      JObj row \<Rightarrow>
        sum_bind (case dict_get row ''url'' of Some (JStr u) \<Rightarrow> Inr u | Some w \<Rightarrow> Inl (TypeError ''url is not text'')
                  | None \<Rightarrow> Inl (KeyError (py_repr ''url''))) (\<lambda>url.
        sum_bind (text_or row ''title'' []) (\<lambda>title.
        sum_bind (text_or row ''content'' []) (\<lambda>content.
        sum_bind (text_or_none row ''author'') (\<lambda>author.
        sum_bind (text_or row ''publish_date'' []) (\<lambda>pub.
        sum_bind (if pub = [] then Inr None else map_sum (\<lambda>e. e) Some (fromiso pub)) (\<lambda>published.
        sum_bind (let m = get_or_null row ''metadata'' in if \<not> truthy m then Inr [] else
            (case m of JObj d \<Rightarrow> Inr d | _ \<Rightarrow> Inl (TypeError ''metadata is not a dict''))) (\<lambda>metadata.
        Inr \<lparr>ar_url = url, ar_title = title, ar_content = content, ar_author = author, ar_publish_date = published,
          ar_raw_html = None, ar_metadata = metadata\<rparr>)))))))
    | _ \<Rightarrow> Inl (no_attribute v ''get''))"

definition read_articles :: "pylib \<Rightarrow> (string \<Rightarrow> exn + datetime) \<Rightarrow> string \<Rightarrow> exn + article list" where
  "read_articles lib fromiso t =
     sum_bind (sum_traverse (json_line lib) (filter (\<lambda>l. strip l \<noteq> []) (splitlines t)))
       (sum_traverse (article_from_jsonl fromiso))"

section \<open>Building and sending\<close>

record digest_settings =
  dt_floor :: int
  dt_top_n :: nat
  dt_window_hours :: int
  dt_user_top_n :: nat
  dt_user_window_hours :: int
  dt_user_score_floor :: real

definition make_digest ::
  "pylib \<Rightarrow> digest_lib \<Rightarrow> (string \<Rightarrow> exn + datetime) \<Rightarrow> digest_settings \<Rightarrow> article list \<Rightarrow> (string \<Rightarrow> exn + string) \<Rightarrow> db \<Rightarrow>
     subscriber \<Rightarrow> string \<Rightarrow> datetime \<Rightarrow> datetime \<Rightarrow> exn + (digest \<times> rendered_email)" where
  "make_digest lib dl fromiso st samples read_file d sub source now1 now2 =
     sum_bind
       (if source = ''sample'' then Inr samples
        else if starts_with ''jsonl:'' source then sum_bind (read_file (drop 6 source)) (read_articles lib fromiso)
        else if source = ''postgres'' then Inr (load_ranked_articles (dt_window_hours st) (dt_top_n st) now1 d)
        else Inl (ValueError (''unknown article source '' @ py_repr source @ '' (use 'sample', 'jsonl:<path>', or 'postgres')'')))
       (\<lambda>articles. sum_bind
          (if source = ''postgres'' then build_relevance_digest dl sub articles (dt_floor st) (dt_top_n st) now2
           else build_digest dl sub articles now2)
          (\<lambda>dg. Inr (dg, render_email dg)))"

type_synonym 's sender = "string \<Rightarrow> rendered_email \<Rightarrow> ('s, unit) py"

text \<open>The clock of the batch: one reading per user for the query window, then one per digest built.\<close>

definition load_all :: "digest_settings \<Rightarrow> (nat \<Rightarrow> datetime) \<Rightarrow> db \<Rightarrow> (active_user \<times> article list) list" where
  "load_all st clock d = map (\<lambda>(i, u). (u, load_user_ranked_articles (au_id u) (dt_user_window_hours st) (dt_user_score_floor st)
     (dt_user_top_n st) (clock i) d)) (zip [0..<length (load_active_users d)] (load_active_users d))"

record delivery_summary =
  dy_sent :: nat
  dy_skipped :: nat
  dy_failed :: nat

definition deliver_user :: "digest_lib \<Rightarrow> 's sender \<Rightarrow> datetime \<Rightarrow> active_user \<Rightarrow> article list \<Rightarrow> ('s, unit) py" where
  "deliver_user dl send now u articles =
     py_bind (py_lift (build_user_digest dl u articles now)) (\<lambda>dg. send (au_email u) (render_email dg))"

fun deliver_batches ::
  "digest_lib \<Rightarrow> 's sender \<Rightarrow> (nat \<Rightarrow> datetime) \<Rightarrow> nat \<Rightarrow> (active_user \<times> article list) list \<Rightarrow> delivery_summary \<Rightarrow> 's \<Rightarrow> delivery_summary \<times> 's" where
  "deliver_batches dl send clock i [] acc s = (acc, s)"
| "deliver_batches dl send clock i ((u, articles) # rest) acc s =
     (if articles = [] then deliver_batches dl send clock i rest (acc\<lparr>dy_skipped := dy_skipped acc + 1\<rparr>) s
      else (case deliver_user dl send (clock i) u articles s of
          (Inl e, s') \<Rightarrow> deliver_batches dl send clock (i + 1) rest (acc\<lparr>dy_failed := dy_failed acc + 1\<rparr>) s'
        | (Inr _, s') \<Rightarrow> deliver_batches dl send clock (i + 1) rest (acc\<lparr>dy_sent := dy_sent acc + 1\<rparr>) s'))"

definition deliver_all ::
  "digest_lib \<Rightarrow> digest_settings \<Rightarrow> (nat \<Rightarrow> datetime) \<Rightarrow> db \<Rightarrow> 's sender \<Rightarrow> string \<Rightarrow> ('s, delivery_summary) py" where
  "deliver_all dl st clock d send source s =
     (if source \<noteq> ''postgres'' then (Inl (ValueError (''deliver_all only supports source='' @ py_repr ''postgres'' @ '', got '' @ py_repr source)), s)
      else (case deliver_batches dl send clock (length (load_active_users d)) (load_all st clock d)
            \<lparr>dy_sent = 0, dy_skipped = 0, dy_failed = 0\<rparr> s of (r, s') \<Rightarrow> (Inr r, s')))"

text \<open>One digest, end to end; \<open>loaded\<close> is the outcome of \<open>load_subscriber\<close>.\<close>

definition deliver ::
  "pylib \<Rightarrow> digest_lib \<Rightarrow> (string \<Rightarrow> exn + datetime) \<Rightarrow> digest_settings \<Rightarrow> article list \<Rightarrow> (string \<Rightarrow> exn + string) \<Rightarrow> db \<Rightarrow>
     exn + subscriber \<Rightarrow> string \<Rightarrow> 's sender \<Rightarrow> string option \<Rightarrow> datetime \<Rightarrow> datetime \<Rightarrow> ('s, digest) py" where
  "deliver lib dl fromiso st samples read_file d loaded source send to now1 now2 =
     py_bind (py_lift loaded) (\<lambda>sub.
     py_bind (py_lift (make_digest lib dl fromiso st samples read_file d sub source now1 now2)) (\<lambda>(dg, mail).
     py_bind (send (str_or to (sb_email sub)) mail) (\<lambda>_. py_ret dg)))"

section \<open>Lines\<close>

lemma splitlines_line: "(\<And>c. c \<in> set l \<Longrightarrow> \<not> line_break c) \<Longrightarrow> splitlines (l @ newline # r) = l # splitlines r"
  by (induction l) (simp_all add: line_break_def)

lemma splitlines_file:
  "(\<And>l c. l \<in> set ls \<Longrightarrow> c \<in> set l \<Longrightarrow> \<not> line_break c) \<Longrightarrow> splitlines (concat (map (\<lambda>l. l @ [newline]) ls)) = ls"
proof (induction ls)
  case (Cons l ls)
  have "splitlines (l @ newline # concat (map (\<lambda>l. l @ [newline]) ls)) = l # splitlines (concat (map (\<lambda>l. l @ [newline]) ls))"
    by (rule splitlines_line) (rule Cons.prems [of l], simp_all)
  moreover have "splitlines (concat (map (\<lambda>l. l @ [newline]) ls)) = ls"
    by (rule Cons.IH) (rule Cons.prems, simp_all)
  ultimately show ?case by simp
qed simp

lemma of_char_less: "(of_char c :: nat) < 256"
  by (metis mod_less_divisor of_char_mod_256 zero_less_numeral)

text \<open>A printed value has no control character in it.\<close>

definition printable :: "string \<Rightarrow> bool" where
  "printable s = (\<forall>c \<in> set s. (of_char c :: nat) \<ge> 32)"

lemma printable_append [simp]: "printable (s @ t) = (printable s \<and> printable t)"
  by (auto simp: printable_def)

lemma printable_Cons [simp]: "printable (c # s) = ((of_char c :: nat) \<ge> 32 \<and> printable s)" "printable []"
  by (auto simp: printable_def)

lemma printable_esc: "printable (esc_char c)"
proof -
  have h: "(of_char (hex_char k) :: nat) \<ge> 32" if "k < 16" for k
    using that by (auto simp: hex_char_def of_char_of take_bit_eq_mod)
  have "(of_char c :: nat) div 16 < 16" by (rule less_mult_imp_div_less) (use of_char_less [of c] in simp)
  then show ?thesis using h by (auto simp: esc_char_def)
qed

lemma printable_str: "printable (dumps_str s)"
proof -
  have "printable (str_body s)" by (induction s) (simp_all add: str_body_def printable_esc)
  then show ?thesis by (simp add: dumps_str_def)
qed

lemma printable_int: "printable (int_str i)"
proof -
  have "printable (nat_str n)" for n using nat_str_digits [of _ n] by (fastforce simp: printable_def is_digit_def)
  then show ?thesis by (simp add: int_str_def)
qed

lemma printable_join: "printable sep \<Longrightarrow> (\<And>p. p \<in> set ps \<Longrightarrow> printable p) \<Longrightarrow> printable (join sep ps)"
  by (induction sep ps rule: join.induct) auto

lemma printable_dumps: "json_ok j \<Longrightarrow> printable (dumps_raw fr j)"
proof (induction j)
  case (JList xs)
  then show ?case by (auto simp: list_all_iff intro!: printable_join)
next
  case (JObj kvs)
  have "printable (dumps_str k @ '': '' @ dumps_raw fr v)" if "(k, v) \<in> set kvs" for k v
    using JObj that by (fastforce simp: list_all_iff printable_str)
  then show ?case by (auto intro!: printable_join)
qed (auto simp: printable_str printable_int)

lemma dumps_no_break: "json_ok j \<Longrightarrow> c \<in> set (dumps_raw fr j) \<Longrightarrow> \<not> line_break c"
  using printable_dumps [of j fr] by (auto simp: printable_def line_break_def)

section \<open>Reading back what the sink wrote\<close>

definition storable :: "article \<Rightarrow> bool" where
  "storable a = json_ok (JObj (ar_metadata a))"

definition without_html :: "article \<Rightarrow> article" where
  "without_html a = a\<lparr>ar_raw_html := None\<rparr>"

lemma jsonl_record_ok: "storable a \<Longrightarrow> json_ok (JObj (jsonl_record sha isof a))"
  by (simp add: storable_def jsonl_record_def opt_str_def split: option.splits)

lemma record_article:
  assumes "\<And>t. fromiso (isof t) = Inr t" and "\<And>t. isof t \<noteq> []"
  shows "article_from_jsonl fromiso (JObj (jsonl_record sha isof a)) = Inr (without_html a)"
  using assms by (cases a; cases "ar_author a"; cases "ar_publish_date a")
    (simp_all add: article_from_jsonl_def jsonl_record_def dict_get_def sum_bind_def text_or_def text_or_none_def get_or_null_def
      opt_str_def without_html_def Let_def)

lemma record_line:
  assumes "storable a"
  shows "json_line lib (dumps_raw fr (JObj (jsonl_record sha isof a))) = Inr (JObj (jsonl_record sha isof a))"
proof -
  let ?j = "JObj (jsonl_record sha isof a)" let ?s = "dumps_raw fr ?j"
  have ok: "json_ok ?j" by (rule jsonl_record_ok [OF assms])
  have "skip_ws ?s = ?s"
    using skip_ws_value [of ?s "[]"] value_start_dumps [OF ok] by (simp only: value_start_append append_Nil2)
  moreover have "parse_value (pl_float lib) (Suc (length ?s)) (?s @ []) = Some (?j, [])"
    using ok by (intro parse_value_dumps) (auto simp: number_end_def)
  ultimately have "loads (pl_float lib) ?s = Some ?j" unfolding loads_def by simp
  then show ?thesis by (simp only: json_line_def option.case)
qed

lemma brace_not_space: "\<not> is_space (CHR ''{'')"
  by (simp add: is_space_def)

lemma strip_not_blank: "\<not> is_space c \<Longrightarrow> strip (c # s) \<noteq> []"
  by (simp add: strip_by_def lstrip_by_def rstrip_by_def dropWhile_eq_Nil_conv)

lemma line_not_blank: "strip (dumps_raw fr (JObj kvs)) \<noteq> []"
  unfolding dumps_raw.simps by (rule strip_not_blank [OF brace_not_space])

lemma traverse_append:
  "sum_traverse f xs = Inr as \<Longrightarrow> sum_traverse f ys = Inr bs \<Longrightarrow> sum_traverse f (xs @ ys) = Inr (as @ bs)"
proof (induction xs arbitrary: as)
  case (Cons x xs)
  then obtain y zs where "f x = Inr y" "sum_traverse f xs = Inr zs" "as = y # zs" by (auto simp: sum_bind_Inr)
  then show ?case using Cons.IH [of zs] Cons.prems(2) by (simp add: sum_bind_def)
qed simp

text \<open>A file of the sink: every line is the record of a storable article.\<close>

definition sink_lines :: "(string \<Rightarrow> string) \<Rightarrow> (datetime \<Rightarrow> string) \<Rightarrow> (real \<Rightarrow> string) \<Rightarrow> article list \<Rightarrow> string list" where
  "sink_lines sha isof fr as = map (\<lambda>a. dumps_raw fr (JObj (jsonl_record sha isof a))) as"

lemma read_sink_lines:
  assumes "\<forall>a \<in> set as. storable a" and "\<And>t. fromiso (isof t) = Inr t" and "\<And>t. isof t \<noteq> []"
  shows "read_articles lib fromiso (concat (map (\<lambda>l. l @ [newline]) (sink_lines sha isof fr as))) = Inr (map without_html as)"
proof -
  let ?ls = "sink_lines sha isof fr as"
  have "splitlines (concat (map (\<lambda>l. l @ [newline]) ?ls)) = ?ls"
    by (rule splitlines_file) (use assms(1) dumps_no_break [OF jsonl_record_ok] in \<open>auto simp: sink_lines_def simp del: dumps_raw.simps\<close>)
  moreover have "filter (\<lambda>l. strip l \<noteq> []) ?ls = ?ls"
    using line_not_blank by (auto simp: sink_lines_def filter_id_conv simp del: dumps_raw.simps)
  moreover have "sum_traverse (json_line lib) ?ls = Inr (map (\<lambda>a. JObj (jsonl_record sha isof a)) as)"
    unfolding sink_lines_def using assms(1) by (induction as) (simp_all add: record_line sum_bind_def del: dumps_raw.simps)
  moreover have "sum_traverse (article_from_jsonl fromiso) (map (\<lambda>a. JObj (jsonl_record sha isof a)) as) = Inr (map without_html as)"
    using record_article [OF assms(2,3)] by (induction as) (simp_all add: sum_bind_def)
  ultimately show ?thesis by (simp add: read_articles_def sum_bind_def)
qed


section \<open>Batches\<close>

text \<open>The mails of a batch, in order: none for an empty list or a digest that cannot be built.\<close>

fun planned_mails :: "digest_lib \<Rightarrow> (nat \<Rightarrow> datetime) \<Rightarrow> nat \<Rightarrow> (active_user \<times> article list) list \<Rightarrow> (string \<times> rendered_email) list" where
  "planned_mails dl clock i [] = []"
| "planned_mails dl clock i ((u, articles) # rest) =
     (if articles = [] then planned_mails dl clock i rest
      else (case build_user_digest dl u articles (clock i) of
          Inl e \<Rightarrow> planned_mails dl clock (i + 1) rest
        | Inr dg \<Rightarrow> (au_email u, render_email dg) # planned_mails dl clock (i + 1) rest))"

lemma deliver_batches_effect:
  assumes "deliver_batches dl send clock i batches acc s = (y, s')"
  shows "s' = fold (\<lambda>(to, mail) s. snd (send to mail s)) (planned_mails dl clock i batches) s \<and>
    dy_sent y + dy_skipped y + dy_failed y = dy_sent acc + dy_skipped acc + dy_failed acc + length batches \<and>
    dy_skipped y = dy_skipped acc + length (filter (\<lambda>(u, as). as = []) batches) \<and>
    dy_sent y \<le> dy_sent acc + length (planned_mails dl clock i batches)"
  using assms
proof (induction batches arbitrary: i acc s)
  case (Cons b rest)
  obtain u articles where b: "b = (u, articles)" by (cases b)
  show ?case
  proof (cases "articles = []")
    case True
    with Cons.prems have "deliver_batches dl send clock i rest (acc\<lparr>dy_skipped := dy_skipped acc + 1\<rparr>) s = (y, s')"
      by (simp add: b)
    from Cons.IH [OF this] show ?thesis by (simp add: b True)
  next
    case False
    obtain r s1 where one: "deliver_user dl send (clock i) u articles s = (r, s1)" by (metis prod.collapse)
    let ?acc = "case r of Inl e \<Rightarrow> acc\<lparr>dy_failed := dy_failed acc + 1\<rparr> | Inr _ \<Rightarrow> acc\<lparr>dy_sent := dy_sent acc + 1\<rparr>"
    have run: "deliver_batches dl send clock (i + 1) rest ?acc s1 = (y, s')"
      using Cons.prems one False by (cases r) (simp_all add: b)
    note ih = Cons.IH [OF run]
    have "dy_sent ?acc + dy_skipped ?acc + dy_failed ?acc = dy_sent acc + dy_skipped acc + dy_failed acc + 1"
      "dy_skipped ?acc = dy_skipped acc" by (cases r; simp)+
    moreover have "fold (\<lambda>(to, mail) s. snd (send to mail s)) (planned_mails dl clock i (b # rest)) s =
        fold (\<lambda>(to, mail) s. snd (send to mail s)) (planned_mails dl clock (i + 1) rest) s1 \<and>
        dy_sent ?acc + length (planned_mails dl clock (i + 1) rest) \<le> dy_sent acc + length (planned_mails dl clock i (b # rest))"
    proof (cases "build_user_digest dl u articles (clock i)")
      case (Inl e)
      then show ?thesis using one False by (auto simp: b deliver_user_def py_monad_defs py_lift_def)
    next
      case (Inr dg)
      then have "send (au_email u) (render_email dg) s = (r, s1)" using one by (simp add: deliver_user_def py_monad_defs py_lift_def)
      then show ?thesis using Inr False by (cases r) (simp_all add: b)
    qed
    ultimately show ?thesis using ih False by (simp add: b)
  qed
qed simp

lemma user_ranked_articles:
  assumes "a \<in> set (load_user_ranked_articles user window_hours score_floor limit now d)"
  shows "\<exists>row \<in> set (db_articles d). \<exists>y \<in> set (db_relevance d). a = article_of_row row \<and> r_user y = user \<and> r_article y = a_id row \<and>
    score_floor \<le> r_score y \<and> a_summary row \<noteq> None \<and> now - window_hours * hour_us \<le> a_fetched_at row"
  using assms by (auto simp: load_user_ranked_articles_def dest!: in_set_takeD) blast

text \<open>
  C31.  The per-user batch, for any sender: every user with an address is accounted for once as sent,
  skipped or failed; the users without articles are the skipped ones and get no mail; every other
  mail that can be built is handed to the sender, in order, whatever became of the ones before
  it; and an article goes only to a user for whom it was scored at or above the floor, with its
  summary, inside the window, at most the configured number of them.
\<close>

theorem deliver_all_isolated:
  assumes "deliver_all dl st clock d send ''postgres'' s = (r, s')" and "batches = load_all st clock d"
  shows "\<exists>y. r = Inr y \<and> dy_sent y + dy_skipped y + dy_failed y = length (load_active_users d) \<and>
    dy_skipped y = length (filter (\<lambda>(u, as). as = []) batches) \<and>
    s' = fold (\<lambda>(to, mail) s. snd (send to mail s)) (planned_mails dl clock (length (load_active_users d)) batches) s \<and>
    dy_sent y \<le> length (planned_mails dl clock (length (load_active_users d)) batches) \<and>
    (\<forall>(u, as) \<in> set batches. length as \<le> dt_user_top_n st \<and>
      (\<forall>a \<in> set as. \<exists>row \<in> set (db_articles d). \<exists>y \<in> set (db_relevance d). a = article_of_row row \<and> r_user y = au_id u \<and>
        r_article y = a_id row \<and> dt_user_score_floor st \<le> r_score y \<and> a_summary row \<noteq> None))"
proof -
  obtain y where run: "deliver_batches dl send clock (length (load_active_users d)) batches
      \<lparr>dy_sent = 0, dy_skipped = 0, dy_failed = 0\<rparr> s = (y, s')" and r: "r = Inr y"
    using assms by (auto simp: deliver_all_def split: prod.splits)
  have len: "length batches = length (load_active_users d)" by (simp add: assms(2) load_all_def)
  have "length as \<le> dt_user_top_n st \<and>
      (\<forall>a \<in> set as. \<exists>row \<in> set (db_articles d). \<exists>y \<in> set (db_relevance d). a = article_of_row row \<and> r_user y = au_id u \<and>
        r_article y = a_id row \<and> dt_user_score_floor st \<le> r_score y \<and> a_summary row \<noteq> None)" if "(u, as) \<in> set batches" for u as
  proof -
    have mem: "(u, as) \<in> set batches" by fact
    obtain i where as: "as = load_user_ranked_articles (au_id u) (dt_user_window_hours st) (dt_user_score_floor st) (dt_user_top_n st) (clock i) d"
      using mem by (auto simp: assms(2) load_all_def)
    have "length as \<le> dt_user_top_n st" by (simp add: as load_user_ranked_articles_def)
    then show ?thesis using user_ranked_articles unfolding as by blast
  qed
  then show ?thesis using deliver_batches_effect [OF run] r len by (intro exI [of _ y]) auto
qed

section \<open>Witnesses\<close>

definition page :: article where
  "page = \<lparr>ar_url = ''https://ft.com/a'', ar_title = ''Say \"hi\"'', ar_content = ''one'' @ [newline] @ ''two'', ar_author = None,
     ar_publish_date = Some 5, ar_raw_html = Some ''<p>'', ar_metadata = [(''bucket'', JStr ''public'')]\<rparr>"

text \<open>A pair of date functions that are inverse to each other.\<close>

definition unary_iso :: "datetime \<Rightarrow> string" where
  "unary_iso t = (if t \<ge> 0 then CHR ''+'' # replicate (nat t) (CHR ''1'') else CHR ''-'' # replicate (nat (- t)) (CHR ''1''))"

definition unary_parse :: "string \<Rightarrow> exn + datetime" where
  "unary_parse s = Inr (if starts_with ''+'' s then int (length s) - 1 else 1 - int (length s))"


theorem deliver_all_isolated_witness:
  "\<exists>y s'. deliver_all demo_digest_lib \<lparr>dt_floor = 5, dt_top_n = 10, dt_window_hours = 48, dt_user_top_n = 10, dt_user_window_hours = 48, dt_user_score_floor = 0\<rparr>
      int (db_empty\<lparr>db_users := [\<lparr>u_id = ''u'', u_portfolio = [], u_sectors = [], u_focus = None, u_email = Some ''a@b.c'', u_updated_at = 0\<rparr>]\<rparr>)
      (\<lambda>to mail s. (Inl (OtherError ''smtp''), s + 1)) ''postgres'' (0 :: nat) = (Inr y, s') \<and>
    dy_sent y + dy_skipped y + dy_failed y = 1"
proof -
  let ?st = "\<lparr>dt_floor = 5, dt_top_n = 10, dt_window_hours = 48, dt_user_top_n = 10, dt_user_window_hours = 48, dt_user_score_floor = 0\<rparr>"
  let ?d = "db_empty\<lparr>db_users := [\<lparr>u_id = ''u'', u_portfolio = [], u_sectors = [], u_focus = None, u_email = Some ''a@b.c'', u_updated_at = 0\<rparr>]\<rparr>"
  obtain r s' where run: "deliver_all demo_digest_lib ?st int ?d (\<lambda>to mail s. (Inl (OtherError ''smtp''), s + 1)) ''postgres'' (0 :: nat) = (r, s')"
    by (metis prod.collapse)
  have "length (load_active_users ?d) = 1" by (simp add: load_active_users_def)
  then obtain y where "r = Inr y" "dy_sent y + dy_skipped y + dy_failed y = 1"
    using deliver_all_isolated [OF run refl] by auto
  then show ?thesis using run by blast
qed

end
