(* ===== verification/Driver.thy ===== *)
theory Driver
  imports Fingerprint Parsers Json_Fields
begin

text \<open>
  The transport: the HTTP driver (\<open>core/drivers/curl_cffi_driver.py\<close>) and the bridge over it
  (\<open>core/stealth_bridge.py\<close>).

  curl_cffi is the argument \<open>env\<close>: a request of a session gives a response and the cookie jar after it, or
  raises and leaves the jar; \<open>cookies.set\<close> is a function of the jar.  A world holds the network and the
  number of sessions created and not yet closed, the resource a session is.
\<close>

section \<open>The driver\<close>

record cookie =
  ck_name :: string
  ck_value :: string
  ck_domain :: string
  ck_path :: string
  ck_expires :: "int option"
  ck_secure :: bool

record session =
  cs_impersonate :: string
  cs_proxy :: "string option"
  cs_headers :: "(string \<times> string) list"
  cs_cookies :: "cookie list"

record response =
  rs_status :: int
  rs_headers :: "(string \<times> string) list"
  rs_text :: string

record 'n curl_env =
  ce_get :: "session \<Rightarrow> string \<Rightarrow> real \<Rightarrow> ('n, response \<times> cookie list) py"
  ce_clock :: "'n \<Rightarrow> real"
  ce_set_cookie :: "string \<Rightarrow> string \<Rightarrow> string \<Rightarrow> string \<Rightarrow> cookie list \<Rightarrow> cookie list"
  ce_dom :: dom

record 'n net_world =
  nw_net :: 'n
  nw_open :: nat

record driver =
  dv_proxy :: "string option"
  dv_profile :: browser_profile
  dv_timeout_ms :: int
  dv_impersonate :: string
  dv_session :: "session option"
  dv_last :: "response option"

definition driver_new :: "string option \<Rightarrow> browser_profile \<Rightarrow> int \<Rightarrow> driver" where
  "driver_new proxy profile timeout_ms = \<lparr>dv_proxy = proxy, dv_profile = profile, dv_timeout_ms = timeout_ms,
     dv_impersonate = curl_impersonate_target profile, dv_session = None, dv_last = None\<rparr>"

definition drv_launch :: "driver \<times> 'n net_world \<Rightarrow> driver \<times> 'n net_world" where
  "drv_launch s = (case s of (d, w) \<Rightarrow>
     (d\<lparr>dv_session := Some \<lparr>cs_impersonate = dv_impersonate d, cs_proxy = dv_proxy d,
          cs_headers = [(''User-Agent'', bp_user_agent (dv_profile d)), (''Accept-Language'', bp_accept_language (dv_profile d))],
          cs_cookies = []\<rparr>\<rparr>,
      w\<lparr>nw_open := nw_open w + 1\<rparr>))"

text \<open>What a response raises, in the order of the tests.\<close>

definition challenge_body :: "response \<Rightarrow> bool" where
  "challenge_body r = contains ''cloudflare'' (lower (take 4096 (rs_text r)))"

definition response_error :: "string \<Rightarrow> response \<Rightarrow> exn option" where
  "response_error url r =
     (if rs_status r = 403 \<and> ''cf-mitigated'' \<in> set (map (lower \<circ> fst) (rs_headers r))
      then Some (ChallengeError (''Cloudflare challenge detected (cf-mitigated header) for '' @ url))
      else if rs_status r = 403 \<and> challenge_body r
      then Some (ChallengeError (''Cloudflare challenge detected (body match) for '' @ url))
      else if rs_status r = 429 then Some (RateLimitError (''HTTP 429 '' @ [em_dash] @ '' rate limited by '' @ url))
      else if rs_status r \<ge> 400 then Some (DriverError (''HTTP '' @ int_str (rs_status r) @ '' for '' @ url))
      else None)"

text \<open>\<open>int(x)\<close> of a float: towards zero.\<close>

definition py_trunc :: "real \<Rightarrow> int" where
  "py_trunc x = (if x \<ge> 0 then \<lfloor>x\<rfloor> else \<lceil>x\<rceil>)"

definition drv_navigate :: "'n curl_env \<Rightarrow> string \<Rightarrow> (driver \<times> 'n net_world, scrape_result) py" where
  "drv_navigate env url s = (case s of (d, w) \<Rightarrow> (case dv_session d of
      None \<Rightarrow> (Inl (AttributeError (py_repr ''NoneType'' @ '' object has no attribute '' @ py_repr ''get'')), s)
    | Some ss \<Rightarrow> (case ce_get env ss url (of_int (dv_timeout_ms d) / 1000) (nw_net w) of
        (Inl e, n) \<Rightarrow> (Inl e, (d, w\<lparr>nw_net := n\<rparr>))
      | (Inr (resp, jar), n) \<Rightarrow>
          (let elapsed_ms = py_trunc ((ce_clock env n - ce_clock env (nw_net w)) * 1000);
               s' = (d\<lparr>dv_session := Some (ss\<lparr>cs_cookies := jar\<rparr>), dv_last := Some resp\<rparr>, w\<lparr>nw_net := n\<rparr>)
           in case response_error url resp of
                Some e \<Rightarrow> (Inl e, s')
              | None \<Rightarrow> (Inr ((mk_result ''success'' ''curl_cffi'')\<lparr>sr_proxy_used := dv_proxy d,
                  sr_fetch_duration_ms := elapsed_ms\<rparr>), s')))))"

definition drv_get_html :: "(driver \<times> 'n net_world, string) py" where
  "drv_get_html s = (case dv_last (fst s) of
      None \<Rightarrow> (Inl (DriverError ''get_html() called before navigate()''), s) | Some r \<Rightarrow> (Inr (rs_text r), s))"

definition drv_get_text :: "'n curl_env \<Rightarrow> string \<Rightarrow> (driver \<times> 'n net_world, string option) py" where
  "drv_get_text env sel s = (case dv_last (fst s) of
      None \<Rightarrow> (Inl (DriverError ''get_text() called before navigate()''), s)
    | Some r \<Rightarrow> (Inr (case ce_dom env (rs_text r) sel of
          None \<Rightarrow> None
        | Some t \<Rightarrow> (let u = strip (case t of None \<Rightarrow> [] | Some t \<Rightarrow> t) in if u = [] then None else Some u)), s))"

definition drv_solve_challenge :: "(driver \<times> 'n net_world, bool) py" where
  "drv_solve_challenge s = (Inr False, s)"

definition cookie_dict :: "cookie \<Rightarrow> pydict" where
  "cookie_dict c = [(''name'', JStr (ck_name c)), (''value'', JStr (ck_value c)), (''domain'', JStr (ck_domain c)),
     (''path'', JStr (ck_path c)), (''expires'', case ck_expires c of None \<Rightarrow> JNull | Some t \<Rightarrow> JInt t),
     (''secure'', JBool (ck_secure c))]"

definition drv_export_cookies :: "(driver \<times> 'n net_world, pydict list) py" where
  "drv_export_cookies s = (Inr (case dv_session (fst s) of
      None \<Rightarrow> [] | Some ss \<Rightarrow> map cookie_dict (cs_cookies ss)), s)"

definition cookie_args :: "pydict \<Rightarrow> exn + (string \<times> string \<times> string \<times> string)" where
  "cookie_args c = sum_bind (get_str c ''name'') (\<lambda>name. sum_bind (get_str c ''value'') (\<lambda>val.
     sum_bind (text_default c ''domain'' []) (\<lambda>domain. sum_bind (text_default c ''path'' ''/'') (\<lambda>path.
     Inr (name, val, domain, path)))))"

fun set_cookies :: "'n curl_env \<Rightarrow> pydict list \<Rightarrow> (cookie list, unit) py" where
  "set_cookies env [] jar = (Inr (), jar)"
| "set_cookies env (c # cs) jar = (case cookie_args c of
      Inl e \<Rightarrow> (Inl e, jar)
    | Inr (name, val, domain, path) \<Rightarrow> set_cookies env cs (ce_set_cookie env name val domain path jar))"

definition drv_import_cookies :: "'n curl_env \<Rightarrow> pydict list \<Rightarrow> (driver \<times> 'n net_world, unit) py" where
  "drv_import_cookies env cookies s = (case s of (d, w) \<Rightarrow> (case dv_session d of
      None \<Rightarrow> (Inl (DriverError ''import_cookies() called before launch()''), s)
    | Some ss \<Rightarrow> (case set_cookies env cookies (cs_cookies ss) of
        (r, jar) \<Rightarrow> (r, (d\<lparr>dv_session := Some (ss\<lparr>cs_cookies := jar\<rparr>)\<rparr>, w)))))"

definition drv_inject_storage_state :: "'n curl_env \<Rightarrow> storage_state \<Rightarrow> (driver \<times> 'n net_world, unit) py" where
  "drv_inject_storage_state env st = drv_import_cookies env (ss_cookies st)"

definition drv_export_storage_state :: "datetime \<Rightarrow> (driver \<times> 'n net_world, storage_state) py" where
  "drv_export_storage_state now = py_bind drv_export_cookies (\<lambda>cookies.
     py_bind (py_lift (case cookies of [] \<Rightarrow> Inr [] | c # cs \<Rightarrow> text_default c ''domain'' [])) (\<lambda>domain.
     py_ret \<lparr>ss_domain = domain, ss_cookies = cookies, ss_local_storage = [], ss_session_storage = [],
       ss_created_at = now, ss_expires_at = None, ss_is_valid = True\<rparr>))"

definition drv_screenshot :: "(driver \<times> 'n net_world, pybytes) py" where
  "drv_screenshot = py_raise (DriverError ''curl_cffi cannot capture screenshots (no rendering)'')"

definition drv_close :: "driver \<times> 'n net_world \<Rightarrow> driver \<times> 'n net_world" where
  "drv_close s = (case s of (d, w) \<Rightarrow>
     if dv_session d \<noteq> None then (d\<lparr>dv_session := None\<rparr>, w\<lparr>nw_open := nw_open w - 1\<rparr>) else s)"

section \<open>The bridge\<close>

record bridge =
  br_driver :: string
  br_proxy :: "string option"
  br_profile :: browser_profile
  br_headless :: bool
  br_timeout_ms :: int
  br_backend :: driver
  br_closed :: bool

definition init_backend :: "string \<Rightarrow> string option \<Rightarrow> browser_profile \<Rightarrow> int \<Rightarrow> exn + driver" where
  "init_backend name proxy profile timeout_ms =
     (if name = ''curl_cffi'' then Inr (driver_new proxy profile timeout_ms)
      else if name \<in> {''primp'', ''patchright'', ''nodriver''}
      then Inl (DriverError (''driver '' @ py_repr name @ '' not available until Phase 2+''))
      else Inl (DriverError (''unknown driver '' @ py_repr name)))"

definition bridge_new :: "fp_env \<Rightarrow> string \<Rightarrow> string option \<Rightarrow> browser_profile option \<Rightarrow> bool \<Rightarrow> int \<Rightarrow> exn + bridge" where
  "bridge_new fenv name proxy profile headless timeout_ms =
     sum_bind (case profile of Some p \<Rightarrow> Inr p | None \<Rightarrow> fst (generate_profile fenv ''chrome'' fm_init)) (\<lambda>p.
     sum_bind (init_backend name proxy p timeout_ms) (\<lambda>backend.
     Inr \<lparr>br_driver = name, br_proxy = proxy, br_profile = p, br_headless = headless, br_timeout_ms = timeout_ms,
       br_backend = backend, br_closed = False\<rparr>))"

text \<open>An operation of the backend, and the two ends of \<open>async with\<close>.\<close>

definition on_backend :: "(driver \<times> 'n net_world, 'a) py \<Rightarrow> (bridge \<times> 'n net_world, 'a) py" where
  "on_backend f s = (case s of (b, w) \<Rightarrow> (case f (br_backend b, w) of (r, (d, w')) \<Rightarrow> (r, (b\<lparr>br_backend := d\<rparr>, w'))))"

definition br_navigate :: "'n curl_env \<Rightarrow> string \<Rightarrow> (bridge \<times> 'n net_world, scrape_result) py" where
  "br_navigate env url = on_backend (drv_navigate env url)"

definition br_get_html :: "(bridge \<times> 'n net_world, string) py" where
  "br_get_html = on_backend drv_get_html"

definition br_get_text :: "'n curl_env \<Rightarrow> string \<Rightarrow> (bridge \<times> 'n net_world, string option) py" where
  "br_get_text env sel = on_backend (drv_get_text env sel)"

definition br_solve_challenge :: "(bridge \<times> 'n net_world, bool) py" where
  "br_solve_challenge = on_backend drv_solve_challenge"

definition br_export_cookies :: "(bridge \<times> 'n net_world, pydict list) py" where
  "br_export_cookies = on_backend drv_export_cookies"

definition br_import_cookies :: "'n curl_env \<Rightarrow> pydict list \<Rightarrow> (bridge \<times> 'n net_world, unit) py" where
  "br_import_cookies env cookies = on_backend (drv_import_cookies env cookies)"

definition br_inject_storage_state :: "'n curl_env \<Rightarrow> storage_state \<Rightarrow> (bridge \<times> 'n net_world, unit) py" where
  "br_inject_storage_state env st = on_backend (drv_inject_storage_state env st)"

definition br_export_storage_state :: "datetime \<Rightarrow> (bridge \<times> 'n net_world, storage_state) py" where
  "br_export_storage_state now = on_backend (drv_export_storage_state now)"

definition br_screenshot :: "(bridge \<times> 'n net_world, pybytes) py" where
  "br_screenshot = on_backend drv_screenshot"

definition br_enter :: "bridge \<times> 'n net_world \<Rightarrow> bridge \<times> 'n net_world" where
  "br_enter s = (case s of (b, w) \<Rightarrow> (case drv_launch (br_backend b, w) of (d, w') \<Rightarrow> (b\<lparr>br_backend := d\<rparr>, w')))"

definition br_close :: "bridge \<times> 'n net_world \<Rightarrow> bridge \<times> 'n net_world" where
  "br_close s = (case s of (b, w) \<Rightarrow>
     if br_closed b then s
     else (case drv_close (br_backend b, w) of (d, w') \<Rightarrow> (b\<lparr>br_backend := d, br_closed := True\<rparr>, w')))"

text \<open>\<open>async with bridge as b: body\<close>\<close>

definition in_bridge :: "(bridge \<times> 'n net_world, 'a) py \<Rightarrow> (bridge \<times> 'n net_world, 'a) py" where
  "in_bridge body s = (case body (br_enter s) of (r, s') \<Rightarrow> (r, br_close s'))"

section \<open>Sessions\<close>

text \<open>A body that leaves the sessions to the bridge: a driver operation neither opens nor closes one.\<close>

definition keeps_session :: "(bridge \<times> 'n net_world, 'a) py \<Rightarrow> bool" where
  "keeps_session f = (\<forall>b w r b' w'. f (b, w) = (r, (b', w')) \<longrightarrow>
     nw_open w' = nw_open w \<and> br_closed b' = br_closed b \<and> (dv_session (br_backend b') = None) = (dv_session (br_backend b) = None))"

lemma keeps_sessionI:
  assumes "\<And>d w r d' w'. f (d, w) = (r, (d', w')) \<Longrightarrow> nw_open w' = nw_open w \<and> (dv_session d' = None) = (dv_session d = None)"
  shows "keeps_session (on_backend f)"
  using assms by (auto simp: keeps_session_def on_backend_def split: prod.splits)

lemma keeps_bind:
  assumes "keeps_session f" and "\<And>a. keeps_session (g a)"
  shows "keeps_session (py_bind f g)"
  unfolding keeps_session_def
proof (intro allI impI)
  fix b w r b' w' assume run: "py_bind f g (b, w) = (r, (b', w'))"
  obtain x b1 w1 where f: "f (b, w) = (x, (b1, w1))" by (metis prod.collapse)
  note one = assms(1) [unfolded keeps_session_def, rule_format, OF f]
  show "nw_open w' = nw_open w \<and> br_closed b' = br_closed b \<and> (dv_session (br_backend b') = None) = (dv_session (br_backend b) = None)"
  proof (cases x)
    case (Inl e)
    then show ?thesis using run f one by (simp add: py_bind_def)
  next
    case (Inr a)
    then have "g a (b1, w1) = (r, (b', w'))" using run f by (simp add: py_bind_def)
    from assms(2) [unfolded keeps_session_def, rule_format, OF this] one show ?thesis by simp
  qed
qed

lemma keeps_lift [simp]: "keeps_session (py_lift x)" "keeps_session (py_ret y)" "keeps_session (py_raise e)"
  by (auto simp: keeps_session_def py_lift_def py_monad_defs)

lemma keeps_navigate [simp]: "keeps_session (br_navigate env url)"
  unfolding br_navigate_def by (rule keeps_sessionI) (auto simp: drv_navigate_def Let_def split: option.splits sum.splits prod.splits)

lemma keeps_get_html [simp]: "keeps_session br_get_html"
  unfolding br_get_html_def by (rule keeps_sessionI) (auto simp: drv_get_html_def split: option.splits)

lemma keeps_get_text [simp]: "keeps_session (br_get_text env sel)"
  unfolding br_get_text_def by (rule keeps_sessionI) (auto simp: drv_get_text_def split: option.splits)

text \<open>A bridge that was not closed before closes what it opens; one that was leaves the session open.\<close>

lemma in_bridge_open:
  assumes "in_bridge body (b, w) = (r, (b', w'))" and "keeps_session body"
  shows "nw_open w' = (if br_closed b then nw_open w + 1 else nw_open w) \<and> br_closed b' \<and>
    (dv_session (br_backend b') = None) = (\<not> br_closed b)"
proof -
  obtain b1 w1 where e: "br_enter (b, w) = (b1, w1)" by (metis prod.collapse)
  have b1: "nw_open w1 = nw_open w + 1" "br_closed b1 = br_closed b" "dv_session (br_backend b1) \<noteq> None"
    using e by (auto simp: br_enter_def drv_launch_def split: prod.splits)
  obtain b2 w2 where body: "body (b1, w1) = (r, (b2, w2))" and c: "br_close (b2, w2) = (b', w')"
    using assms(1) e by (auto simp: in_bridge_def split: prod.splits)
  note k = assms(2) [unfolded keeps_session_def, rule_format, OF body]
  show ?thesis
  proof (cases "br_closed b2")
    case True
    then show ?thesis using c k b1 by (auto simp: br_close_def)
  next
    case False
    then have c': "b' = b2\<lparr>br_backend := (br_backend b2)\<lparr>dv_session := None\<rparr>, br_closed := True\<rparr>" "w' = w2\<lparr>nw_open := nw_open w2 - 1\<rparr>"
      using c k b1 by (auto simp: br_close_def drv_close_def split: if_splits)
    then show ?thesis using False k b1 by simp
  qed
qed

end
