(* ===== verification/Scraper_Base.thy ===== *)
theory Scraper_Base
  imports Driver Engine
begin

text \<open>
  What the scrapers share: the use of a bridge, injected or made for one call
  (\<open>scrapers/base.py\<close>, \<open>scrapers/community/_base.py\<close>), extraction, the catch-all \<open>PublicScraper\<close>
  (\<open>scrapers/public/public.py\<close>) and the health check.

  The state of a scraper is its injected bridge, if it has one, and the world of the network.
\<close>

section \<open>Fetching\<close>

record scraper =
  sc_proxy :: "string option"
  sc_driver :: string
  sc_bucket :: string
  sc_domains :: "string list"

type_synonym 'n slot = "bridge option \<times> 'n net_world"

definition create_default_bridge :: "fp_env \<Rightarrow> scraper \<Rightarrow> exn + bridge" where
  "create_default_bridge fenv sc = bridge_new fenv (sc_driver sc) (sc_proxy sc) None True 30000"

definition using_bridge :: "fp_env \<Rightarrow> scraper \<Rightarrow> (bridge \<times> 'n net_world, 'a) py \<Rightarrow> ('n slot, 'a) py" where
  "using_bridge fenv sc body s = (case s of (injected, w) \<Rightarrow> (case injected of
      Some b \<Rightarrow> (case in_bridge body (b, w) of (r, (b', w')) \<Rightarrow> (r, (Some b', w')))
    | None \<Rightarrow> (case create_default_bridge fenv sc of
          Inl e \<Rightarrow> (Inl e, s)
        | Inr b \<Rightarrow> (case in_bridge body (b, w) of (r, (b', w')) \<Rightarrow> (r, (None, w'))))))"

definition fetch_html :: "'n curl_env \<Rightarrow> string \<Rightarrow> (bridge \<times> 'n net_world, string) py" where
  "fetch_html env url = py_bind (br_navigate env url) (\<lambda>_. br_get_html)"

definition fetch_raw :: "fp_env \<Rightarrow> 'n curl_env \<Rightarrow> scraper \<Rightarrow> string \<Rightarrow> ('n slot, string) py" where
  "fetch_raw fenv env sc url = using_bridge fenv sc (fetch_html env url)"

definition fetch_json :: "pylib \<Rightarrow> fp_env \<Rightarrow> 'n curl_env \<Rightarrow> scraper \<Rightarrow> string \<Rightarrow> ('n slot, json) py" where
  "fetch_json lib fenv env sc url = using_bridge fenv sc (py_bind (fetch_html env url) (\<lambda>html. py_lift (json_line lib html)))"

section \<open>Extraction\<close>

definition extract_article :: "dom \<Rightarrow> selectors \<Rightarrow> string \<Rightarrow> string \<Rightarrow> string \<Rightarrow> exn + article" where
  "extract_article dm sels bucket html url =
     (if \<not> response_is_valid dm html sels 500
      then Inl (ChallengeError (''Soft block detected at '' @ url @ '' '' @ [em_dash] @ '' response failed validation.''))
      else
        (let fields = extract_fields dm html sels in
         sum_bind (url_domain url) (\<lambda>domain.
         Inr \<lparr>ar_url = url, ar_title = str_or (field_get fields ''title'') [], ar_content = str_or (field_get fields ''content'') [],
           ar_author = field_get fields ''author'', ar_publish_date = None, ar_raw_html = Some html,
           ar_metadata = [(''source_domain'', JStr domain), (''bucket'', JStr bucket)]\<rparr>)))"

section \<open>The public scraper\<close>

definition public_selectors :: selectors where
  "public_selectors = [(''title'', Some ''h1.entry-title, h1.article-title, h1.post-title, h1''),
     (''content'', Some ''div.entry-content, article, div.post-content, div.content''),
     (''author'', Some ''span.author, a[rel=author], .byline''),
     (''publish_date'', Some ''time[datetime], span.date, .published'')]"

definition public_scraper :: "string option \<Rightarrow> scraper" where
  "public_scraper proxy = \<lparr>sc_proxy = proxy, sc_driver = ''curl_cffi'', sc_bucket = ''public'', sc_domains = []\<rparr>"

definition bridge_driver :: "(bridge \<times> 'n net_world, string) py" where
  "bridge_driver s = (Inr (br_driver (fst s)), s)"

definition public_scrape :: "fp_env \<Rightarrow> 'n curl_env \<Rightarrow> string option \<Rightarrow> string \<Rightarrow> ('n slot, scrape_result) py" where
  "public_scrape fenv env proxy url =
     using_bridge fenv (public_scraper proxy) (py_bind (fetch_html env url) (\<lambda>html.
       py_bind (py_lift (extract_article (ce_dom env) public_selectors ''public'' html url)) (\<lambda>a.
       py_bind bridge_driver (\<lambda>d.
       py_ret ((mk_result ''success'' d)\<lparr>sr_article := Some a, sr_proxy_used := proxy\<rparr>)))))"

definition scraper_health_check :: "fp_env \<Rightarrow> 'n curl_env \<Rightarrow> scraper \<Rightarrow> ('n slot, bool) py" where
  "scraper_health_check fenv env sc = (case sc_domains sc of
      [] \<Rightarrow> py_ret False
    | d # ds \<Rightarrow> py_catch (py_bind (using_bridge fenv sc (br_navigate env (''https://'' @ d @ ''/'')))
          (\<lambda>result. py_ret (sr_status result = ''success'')))
        (\<lambda>e. py_ret False))"

section \<open>Sessions\<close>

text \<open>A use of a bridge that was closed before does not close it again.\<close>

definition leaked :: "bridge option \<Rightarrow> nat" where
  "leaked injected = (case injected of Some b \<Rightarrow> if br_closed b then 1 else 0 | None \<Rightarrow> 0)"

lemma bridge_new_open: "bridge_new fenv name proxy profile headless timeout_ms = Inr b \<Longrightarrow> \<not> br_closed b"
  by (auto simp: bridge_new_def sum_bind_Inr)

lemma using_bridge_open:
  assumes "keeps_session body"
  shows "nw_open (snd (snd (using_bridge fenv sc body (injected, w)))) = nw_open w + leaked injected"
proof (cases injected)
  case (Some b)
  obtain r b' w' where run: "in_bridge body (b, w) = (r, (b', w'))" by (metis prod.collapse)
  show ?thesis using in_bridge_open [OF run assms] run by (simp add: using_bridge_def leaked_def Some)
next
  case None
  show ?thesis
  proof (cases "create_default_bridge fenv sc")
    case (Inr b)
    obtain r b' w' where run: "in_bridge body (b, w) = (r, (b', w'))" by (metis prod.collapse)
    show ?thesis using in_bridge_open [OF run assms] run Inr bridge_new_open [of fenv "sc_driver sc" "sc_proxy sc" None True 30000 b]
      by (simp add: using_bridge_def leaked_def None create_default_bridge_def)
  qed (simp add: using_bridge_def leaked_def None)
qed

lemma keeps_fetch_html [simp]: "keeps_session (fetch_html env url)"
  unfolding fetch_html_def by (intro keeps_bind) simp_all

lemma keeps_bridge_driver [simp]: "keeps_session bridge_driver"
  by (simp add: keeps_session_def bridge_driver_def)

text \<open>
  C24.  No call leaks a session, whatever it raises: scraping a page, fetching JSON or raw text and checking
  health leave as many sessions open as there were, with one exception: a call through an
  injected bridge that was used before opens a session that nothing closes.
\<close>

theorem scraper_sessions_closed:
  "nw_open (snd (snd (public_scrape fenv env proxy url (injected, w)))) = nw_open w + leaked injected \<and>
   nw_open (snd (snd (fetch_json lib fenv env sc url (injected, w)))) = nw_open w + leaked injected \<and>
   nw_open (snd (snd (fetch_raw fenv env sc url (injected, w)))) = nw_open w + leaked injected \<and>
   nw_open (snd (snd (scraper_health_check fenv env sc (injected, w)))) =
     nw_open w + (if sc_domains sc = [] then 0 else leaked injected)"
proof (intro conjI)
  show "nw_open (snd (snd (public_scrape fenv env proxy url (injected, w)))) = nw_open w + leaked injected"
    unfolding public_scrape_def by (intro using_bridge_open keeps_bind) simp_all
  show "nw_open (snd (snd (fetch_json lib fenv env sc url (injected, w)))) = nw_open w + leaked injected"
    unfolding fetch_json_def by (intro using_bridge_open keeps_bind) simp_all
  show "nw_open (snd (snd (fetch_raw fenv env sc url (injected, w)))) = nw_open w + leaked injected"
    unfolding fetch_raw_def by (intro using_bridge_open) simp
  show "nw_open (snd (snd (scraper_health_check fenv env sc (injected, w)))) =
      nw_open w + (if sc_domains sc = [] then 0 else leaked injected)"
  proof (cases "sc_domains sc")
    case (Cons d ds)
    obtain r s' where run: "using_bridge fenv sc (br_navigate env (''https://'' @ d @ ''/'')) (injected, w) = (r, s')"
      by (metis prod.collapse)
    have "nw_open (snd s') = nw_open w + leaked injected"
      using using_bridge_open [OF keeps_navigate, of fenv sc env "''https://'' @ d @ ''/''" injected w] unfolding run by simp
    then show ?thesis unfolding scraper_health_check_def Cons list.case using run
      by (cases r) (simp_all add: py_monad_defs)
  qed (simp add: scraper_health_check_def py_ret_def)
qed

section \<open>The outcome of a page\<close>

text \<open>The status a response deserves: the documented classes of responses, in terms of the page.\<close>

definition page_status :: "dom \<Rightarrow> response \<Rightarrow> string" where
  "page_status dm r =
     (if rs_status r = 403 \<and> (''cf-mitigated'' \<in> lower ` set (map fst (rs_headers r)) \<or> challenge_body r) then ''challenge''
      else if rs_status r = 429 then ''rate_limited''
      else if rs_status r \<ge> 400 then ''error''
      else if response_is_valid dm (rs_text r) public_selectors 500 then ''success'' else ''challenge'')"

definition session_of :: "bridge \<Rightarrow> session" where
  "session_of b = \<lparr>cs_impersonate = dv_impersonate (br_backend b), cs_proxy = dv_proxy (br_backend b),
     cs_headers = [(''User-Agent'', bp_user_agent (dv_profile (br_backend b))), (''Accept-Language'', bp_accept_language (dv_profile (br_backend b)))],
     cs_cookies = []\<rparr>"

lemma navigate_answer:
  assumes "ce_get env (session_of b) url (of_int (dv_timeout_ms (br_backend b)) / 1000) (nw_net w) = (Inr (resp, jar), n)"
  shows "\<exists>s' ms. br_navigate env url (br_enter (b, w)) = (case response_error url resp of Some e \<Rightarrow> Inl e
      | None \<Rightarrow> Inr ((mk_result ''success'' ''curl_cffi'')\<lparr>sr_proxy_used := dv_proxy (br_backend b), sr_fetch_duration_ms := ms\<rparr>), s') \<and>
    dv_last (br_backend (fst s')) = Some resp \<and> br_driver (fst s') = br_driver b"
  using assms
  by (auto simp: br_navigate_def on_backend_def br_enter_def drv_launch_def drv_navigate_def session_of_def Let_def
      split: option.splits intro!: exI)

text \<open>The bridge of the public scraper, and its answer to a page that was fetched.\<close>

lemma public_bridge:
  "create_default_bridge fenv (public_scraper proxy) = Inr b \<Longrightarrow> dv_timeout_ms (br_backend b) = 30000 \<and> br_driver b = ''curl_cffi''"
  by (auto simp: create_default_bridge_def bridge_new_def sum_bind_Inr init_backend_def public_scraper_def driver_new_def)

lemma public_scrape_answer:
  assumes "create_default_bridge fenv (public_scraper proxy) = Inr b"
    and "ce_get env (session_of b) url 30 (nw_net w) = (Inr (resp, jar), n)"
  shows "fst (public_scrape fenv env proxy url (None, w)) = (case response_error url resp of
      Some e \<Rightarrow> Inl e
    | None \<Rightarrow> map_sum (\<lambda>e. e) (\<lambda>a. (mk_result ''success'' ''curl_cffi'')\<lparr>sr_article := Some a, sr_proxy_used := proxy\<rparr>)
        (extract_article (ce_dom env) public_selectors ''public'' (rs_text resp) url))"
proof -
  have b: "dv_timeout_ms (br_backend b) = 30000" "br_driver b = ''curl_cffi''" using public_bridge [OF assms(1)] by simp_all
  let ?body = "py_bind (fetch_html env url) (\<lambda>html. py_bind (py_lift (extract_article (ce_dom env) public_selectors ''public'' html url)) (\<lambda>a.
       py_bind bridge_driver (\<lambda>d. py_ret ((mk_result ''success'' d)\<lparr>sr_article := Some a, sr_proxy_used := proxy\<rparr>))))"
  have run: "fst (public_scrape fenv env proxy url (None, w)) = fst (?body (br_enter (b, w)))"
    by (simp add: public_scrape_def using_bridge_def assms(1) in_bridge_def split: prod.splits)
  have "ce_get env (session_of b) url (of_int (dv_timeout_ms (br_backend b)) / 1000) (nw_net w) = (Inr (resp, jar), n)"
    using assms(2) by (simp add: b)
  from navigate_answer [OF this] obtain s' ms where nav:
    "br_navigate env url (br_enter (b, w)) = (case response_error url resp of Some e \<Rightarrow> Inl e
      | None \<Rightarrow> Inr ((mk_result ''success'' ''curl_cffi'')\<lparr>sr_proxy_used := dv_proxy (br_backend b), sr_fetch_duration_ms := ms\<rparr>), s')"
    "dv_last (br_backend (fst s')) = Some resp" "br_driver (fst s') = ''curl_cffi''" using b by auto
  obtain b' w' where s': "s' = (b', w')" by (cases s')
  have html: "br_get_html s' = (Inr (rs_text resp), s')"
    using nav(2) by (simp add: br_get_html_def on_backend_def drv_get_html_def s')
  show ?thesis
    using nav html by (cases "response_error url resp")
      (simp_all add: run fetch_html_def py_monad_defs py_lift_def bridge_driver_def split: sum.splits)
qed


section \<open>Witness\<close>

text \<open>A site that answers every request with a Cloudflare challenge.\<close>

definition challenge_env :: "unit curl_env" where
  "challenge_env = \<lparr>ce_get = (\<lambda>ss url t n. (Inr (\<lparr>rs_status = 403, rs_headers = [(''CF-Mitigated'', ''challenge'')], rs_text = []\<rparr>, []), n)),
     ce_clock = (\<lambda>n. 0), ce_set_cookie = (\<lambda>n v d p jar. jar), ce_dom = (\<lambda>html sel. None)\<rparr>"


end
