(* ===== verification/Batch_Scrape.thy ===== *)
theory Batch_Scrape
  imports Scraper_Base Sinks
begin

text \<open>
  \<open>BaseScraper.batch_scrape\<close> (\<open>scrapers/base.py\<close>): many URLs at once under a semaphore.

  The tasks of \<open>asyncio.gather\<close> interleave where they wait: for the semaphore, which serves them in
  order, for \<open>scrape\<close>, and for \<open>sink.write\<close>.  A step is what one task does between two waits; the
  sink is any pair of functions, and the locale below says what the caller relies on.
\<close>

section \<open>Sinks as a port\<close>

record 'k sink_ops =
  sk_seen :: "string \<Rightarrow> 'k \<Rightarrow> bool"
  sk_write :: "scrape_result \<Rightarrow> ('k, unit) py"

text \<open>What a sink promises: it holds the article of a successful result it has written, for good.\<close>

locale article_sink =
  fixes ops :: "'k sink_ops" and inv :: "'k \<Rightarrow> bool" and holds :: "article \<Rightarrow> 'k \<Rightarrow> bool"
  assumes write_holds: "inv s \<Longrightarrow> sk_write ops r s = (Inr (), s') \<Longrightarrow> sr_status r = ''success'' \<Longrightarrow> sr_article r = Some a \<Longrightarrow> holds a s'"
    and write_keeps: "inv s \<Longrightarrow> sk_write ops r s = (x, s') \<Longrightarrow> holds a s \<Longrightarrow> holds a s'"
    and write_inv: "inv s \<Longrightarrow> sk_write ops r s = (x, s') \<Longrightarrow> inv s'"

section \<open>The tasks\<close>

datatype task = Waiting | Running | Writing scrape_result | Done scrape_result

record ('e, 'k) batch_env =
  be_scrape :: "string \<Rightarrow> ('e, scrape_result) py"
  be_driver :: string
  be_sink :: "'k sink_ops option"
  be_max :: nat

record ('e, 'k) batch =
  ba_urls :: "string list"
  ba_tasks :: "task list"
  ba_world :: 'e
  ba_store :: 'k

definition batch_init :: "('e, 'k) batch_env \<Rightarrow> string list \<Rightarrow> 'e \<Rightarrow> 'k \<Rightarrow> ('e, 'k) batch" where
  "batch_init env urls e k =
     (let todo = (case be_sink env of None \<Rightarrow> urls | Some sk \<Rightarrow> filter (\<lambda>u. \<not> sk_seen sk u k) urls) in
      \<lparr>ba_urls = todo, ba_tasks = replicate (length todo) Waiting, ba_world = e, ba_store = k\<rparr>)"

definition active :: "task \<Rightarrow> bool" where
  "active t = (case t of Running \<Rightarrow> True | Writing r \<Rightarrow> True | _ \<Rightarrow> False)"

lemma active_simps [simp]: "\<not> active Waiting" "active Running" "active (Writing r)" "\<not> active (Done r)"
  by (simp_all add: active_def)

definition failed_result :: "('e, 'k) batch_env \<Rightarrow> exn \<Rightarrow> scrape_result" where
  "failed_result env e = (mk_result ''error'' (be_driver env))\<lparr>sr_error := Some (exn_str e)\<rparr>"

text \<open>A task between two waits: what \<open>scrape\<close> came back with, and what \<open>sink.write\<close> did.\<close>

definition after_scrape :: "('e, 'k) batch_env \<Rightarrow> exn + scrape_result \<Rightarrow> task" where
  "after_scrape env r = (case r of
      Inl e \<Rightarrow> Done (failed_result env e)
    | Inr result \<Rightarrow> if be_sink env \<noteq> None \<and> sr_status result = ''success'' then Writing result else Done result)"

definition after_write :: "('e, 'k) batch_env \<Rightarrow> scrape_result \<Rightarrow> exn + unit \<Rightarrow> task" where
  "after_write env result r = (case r of Inl e \<Rightarrow> Done (failed_result env e) | Inr _ \<Rightarrow> Done result)"

inductive batch_step :: "('e, 'k) batch_env \<Rightarrow> ('e, 'k) batch \<Rightarrow> ('e, 'k) batch \<Rightarrow> bool" for env where
  Acquire: "ba_tasks b = ts @ Waiting # us \<Longrightarrow> Waiting \<notin> set ts \<Longrightarrow> length (filter active (ba_tasks b)) < be_max env \<Longrightarrow>
     batch_step env b (b\<lparr>ba_tasks := ts @ Running # us\<rparr>)"
| Scraped: "i < length (ba_tasks b) \<Longrightarrow> ba_tasks b ! i = Running \<Longrightarrow> be_scrape env (ba_urls b ! i) (ba_world b) = (r, e) \<Longrightarrow>
     batch_step env b (b\<lparr>ba_tasks := (ba_tasks b)[i := after_scrape env r], ba_world := e\<rparr>)"
| Written: "i < length (ba_tasks b) \<Longrightarrow> ba_tasks b ! i = Writing result \<Longrightarrow> be_sink env = Some sk \<Longrightarrow>
     sk_write sk result (ba_store b) = (r, k) \<Longrightarrow>
     batch_step env b (b\<lparr>ba_tasks := (ba_tasks b)[i := after_write env result r], ba_store := k\<rparr>)"

inductive batch_run :: "('e, 'k) batch_env \<Rightarrow> ('e, 'k) batch \<Rightarrow> nat \<Rightarrow> ('e, 'k) batch \<Rightarrow> bool" for env b0 where
  Start: "batch_run env b0 0 b0"
| Step: "batch_run env b0 n b \<Longrightarrow> batch_step env b b' \<Longrightarrow> batch_run env b0 (n + 1) b'"

section \<open>Bounds and progress\<close>

fun task_rank :: "task \<Rightarrow> nat" where
  "task_rank Waiting = 3"
| "task_rank Running = 2"
| "task_rank (Writing r) = 1"
| "task_rank (Done r) = 0"

definition steps_left :: "('e, 'k) batch \<Rightarrow> nat" where
  "steps_left b = sum_list (map task_rank (ba_tasks b))"

lemma rank_after [simp]: "task_rank (after_scrape env r) < 2" "task_rank (after_write env res q) = 0"
  by (auto simp: after_scrape_def after_write_def split: sum.splits)

lemma update_rank:
  "i < length ts \<Longrightarrow> task_rank t < task_rank (ts ! i) \<Longrightarrow> sum_list (map task_rank (ts[i := t])) < sum_list (map task_rank ts)"
proof -
  assume i: "i < length ts" "task_rank t < task_rank (ts ! i)"
  have "task_rank (ts ! i) \<le> sum_list (map task_rank ts)" using elem_le_sum_list [of i "map task_rank ts"] i(1) by simp
  then show ?thesis using i by (simp add: map_update sum_list_update)
qed

lemma step_rank: "batch_step env b b' \<Longrightarrow> steps_left b' < steps_left b"
  by (induction rule: batch_step.induct) (auto simp: steps_left_def intro!: update_rank)

lemma active_after [simp]: "\<not> active (after_write env res q)"
  by (auto simp: after_write_def split: sum.splits)

lemma active_update:
  "i < length ts \<Longrightarrow> active (ts ! i) \<Longrightarrow> length (filter active (ts[i := t])) \<le> length (filter active ts)"
proof -
  assume i: "i < length ts" "active (ts ! i)"
  have "ts = take i ts @ ts ! i # drop (Suc i) ts" by (rule id_take_nth_drop [OF i(1)])
  then have "length (filter active ts) = length (filter active (take i ts)) + 1 + length (filter active (drop (Suc i) ts))"
    using i(2) by (metis (no_types, lifting) filter.simps(2) filter_append length_append length_Cons add.assoc plus_1_eq_Suc)
  then show ?thesis by (simp add: upd_conv_take_nth_drop [OF i(1)])
qed

lemma step_active:
  "batch_step env b b' \<Longrightarrow> length (filter active (ba_tasks b)) \<le> be_max env \<Longrightarrow> length (filter active (ba_tasks b')) \<le> be_max env"
proof (induction rule: batch_step.induct)
  case (Acquire b ts us)
  then show ?case by simp
next
  case (Scraped i b r e)
  then show ?case using active_update [of i "ba_tasks b" "after_scrape env r"] by simp
next
  case (Written i b result sk r k)
  then show ?case using active_update [of i "ba_tasks b" "after_write env result r"] by simp
qed

lemma step_shape: "batch_step env b b' \<Longrightarrow> ba_urls b' = ba_urls b \<and> length (ba_tasks b') = length (ba_tasks b)"
  by (induction rule: batch_step.induct) auto

lemma split_first: "x \<in> set xs \<Longrightarrow> \<exists>ys zs. xs = ys @ x # zs \<and> x \<notin> set ys"
  by (rule split_list_first)

text \<open>A batch that is not done can go on: a running task, or the first one waiting.\<close>

lemma step_exists:
  assumes "t \<in> set (ba_tasks b)" and "\<forall>r. t \<noteq> Done r" and "0 < be_max env"
    and "\<forall>r. Writing r \<in> set (ba_tasks b) \<longrightarrow> be_sink env \<noteq> None"
  shows "\<exists>b'. batch_step env b b'"
proof (cases "\<exists>s \<in> set (ba_tasks b). active s")
  case True
  then obtain i where i: "i < length (ba_tasks b)" "active (ba_tasks b ! i)" by (auto simp: in_set_conv_nth)
  show ?thesis
  proof (cases "ba_tasks b ! i")
    case Running
    obtain r e where "be_scrape env (ba_urls b ! i) (ba_world b) = (r, e)" by (metis prod.collapse)
    then show ?thesis using batch_step.Scraped [OF i(1) Running] by blast
  next
    case (Writing result)
    then have "Writing result \<in> set (ba_tasks b)" using i(1) by (metis nth_mem)
    then obtain sk where sk: "be_sink env = Some sk" using assms(4) by auto
    obtain r k where "sk_write sk result (ba_store b) = (r, k)" by (metis prod.collapse)
    then show ?thesis using batch_step.Written [OF i(1) Writing sk] by blast
  qed (use i(2) in simp_all)
next
  case False
  then have none: "filter active (ba_tasks b) = []" by (simp add: filter_empty_conv)
  have "t = Waiting" using False assms(1,2) by (cases t) auto
  then obtain ts us where "ba_tasks b = ts @ Waiting # us" "Waiting \<notin> set ts" using split_first assms(1) by metis
  then show ?thesis using batch_step.Acquire [of b ts us env] none assms(3) by auto
qed

section \<open>Nothing is lost\<close>

text \<open>Where a result comes from: an answer of \<open>scrape\<close> for its URL, or an exception.\<close>

definition result_of :: "('e, 'k) batch_env \<Rightarrow> string \<Rightarrow> scrape_result \<Rightarrow> bool" where
  "result_of env u r = ((\<exists>e e'. be_scrape env u e = (Inr r, e')) \<or> (\<exists>x. r = failed_result env x))"

definition task_ok :: "('e, 'k) batch_env \<Rightarrow> (article \<Rightarrow> 'k \<Rightarrow> bool) \<Rightarrow> string \<Rightarrow> 'k \<Rightarrow> task \<Rightarrow> bool" where
  "task_ok env holds u k t = (case t of
      Writing r \<Rightarrow> sr_status r = ''success'' \<and> result_of env u r
    | Done r \<Rightarrow> result_of env u r \<and> (case sr_article r of Some a \<Rightarrow> sr_status r = ''success'' \<longrightarrow> holds a k | None \<Rightarrow> True)
    | _ \<Rightarrow> True)"

context article_sink begin

definition batch_ok :: "('e, 'k) batch_env \<Rightarrow> ('e, 'k) batch \<Rightarrow> bool" where
  "batch_ok env b = (inv (ba_store b) \<and> list_all2 (\<lambda>u t. task_ok env holds u (ba_store b) t) (ba_urls b) (ba_tasks b))"

lemma task_ok_update:
  assumes "list_all2 (\<lambda>u t. task_ok env holds u k t) us ts" and "i < length ts" and "task_ok env holds (us ! i) k' t"
    and "\<And>a. holds a k \<Longrightarrow> holds a k'"
  shows "list_all2 (\<lambda>u t. task_ok env holds u k' t) us (ts[i := t])"
proof -
  have "task_ok env holds u k s \<Longrightarrow> task_ok env holds u k' s" for u s
    using assms(4) by (auto simp: task_ok_def split: task.splits option.splits)
  then show ?thesis using assms(1-3) by (auto simp: list_all2_conv_all_nth nth_list_update)
qed

lemma batch_ok_step:
  assumes "batch_step env b b'" and "batch_ok env b" and "be_sink env = Some ops"
  shows "batch_ok env b'"
  using assms(1,2)
proof cases
  case (Acquire ts us)
  have "list_all2 (\<lambda>u t. task_ok env holds u (ba_store b) t) (ba_urls b) ((ba_tasks b)[length ts := Running])"
    using assms(2) Acquire(2) by (intro task_ok_update) (auto simp: batch_ok_def task_ok_def)
  then show ?thesis using assms(2) Acquire by (simp add: batch_ok_def)
next
  case (Scraped i r e)
  have "task_ok env holds (ba_urls b ! i) (ba_store b) (after_scrape env r)"
    using Scraped(4) assms(3)
    by (auto simp: task_ok_def after_scrape_def result_of_def failed_result_def mk_result_def split: sum.splits option.splits)
  then show ?thesis using assms(2) Scraped(1,2) by (auto simp: batch_ok_def intro: task_ok_update)
next
  case (Written i result sk r k)
  have sk: "sk = ops" using Written assms(3) by simp
  have old: "task_ok env holds (ba_urls b ! i) (ba_store b) (Writing result)"
    using assms(2) Written(2,3) by (auto simp: batch_ok_def list_all2_conv_all_nth)
  note w = Written(5) [unfolded sk]
  have inv: "inv (ba_store b)" using assms(2) by (simp add: batch_ok_def)
  have "task_ok env holds (ba_urls b ! i) k (after_write env result r)"
  proof (cases r)
    case (Inl e)
    then show ?thesis by (auto simp: task_ok_def after_write_def result_of_def failed_result_def mk_result_def)
  next
    case (Inr x)
    then have "sk_write ops result (ba_store b) = (Inr (), k)" using w by simp
    then show ?thesis using old Inr write_holds [OF inv]
      by (auto simp: task_ok_def after_write_def split: option.splits)
  qed
  moreover have "holds a (ba_store b) \<Longrightarrow> holds a k" for a using write_keeps [OF inv w] by blast
  moreover have "inv k" using write_inv [OF inv w] .
  ultimately show ?thesis using assms(2) Written(1,2) by (auto simp: batch_ok_def intro: task_ok_update)
qed

lemma batch_ok_init: "inv k \<Longrightarrow> batch_ok env (batch_init env urls e k)"
  by (simp add: batch_ok_def batch_init_def Let_def list_all2_conv_all_nth task_ok_def)

lemma batch_run_ok:
  assumes "batch_run env (batch_init env urls e k) n b" and "be_sink env = Some ops" and "inv k"
  shows "batch_ok env b \<and> length (filter active (ba_tasks b)) \<le> be_max env \<and>
    ba_urls b = filter (\<lambda>u. \<not> sk_seen ops u k) urls \<and> n + steps_left b \<le> 3 * length (filter (\<lambda>u. \<not> sk_seen ops u k) urls)"
  using assms(1)
proof induction
  case Start
  have "filter active (replicate m Waiting) = []" for m by (induction m) simp_all
  moreover have "steps_left (batch_init env urls e k) = 3 * length (filter (\<lambda>u. \<not> sk_seen ops u k) urls)"
    by (simp add: steps_left_def batch_init_def assms(2) Let_def sum_list_replicate)
  ultimately show ?case using batch_ok_init [OF assms(3), of env urls e] by (simp add: batch_init_def assms(2) Let_def)
next
  case (Step n b b')
  have ok: "batch_ok env b'" using batch_ok_step [OF Step.hyps(2) _ assms(2)] Step.IH by blast
  show ?case using Step.IH ok step_active [OF Step.hyps(2)] step_shape [OF Step.hyps(2)] step_rank [OF Step.hyps(2)] by simp
qed

lemma run_final:
  assumes "batch_run env (batch_init env urls e k) n b" and "be_sink env = Some ops" and "inv k" and "0 < be_max env"
    and "\<nexists>b'. batch_step env b b'"
  shows "\<exists>rs. ba_tasks b = map Done rs \<and>
    list_all2 (\<lambda>u r. task_ok env holds u (ba_store b) (Done r)) (filter (\<lambda>u. \<not> sk_seen ops u k) urls) rs"
proof -
  note ok = batch_run_ok [OF assms(1-3)]
  have "\<exists>r. t = Done r" if "t \<in> set (ba_tasks b)" for t
    using step_exists [OF that _ assms(4)] assms(2,5) by blast
  then have "Done (case t of Done r \<Rightarrow> r | _ \<Rightarrow> failed_result env (OtherError [])) = t" if "t \<in> set (ba_tasks b)" for t
    using that by fastforce
  then have "map (\<lambda>t. Done (case t of Done r \<Rightarrow> r | _ \<Rightarrow> failed_result env (OtherError []))) (ba_tasks b) = ba_tasks b"
    by (intro map_idI) blast
  then have "ba_tasks b = map Done (map (\<lambda>t. case t of Done r \<Rightarrow> r | _ \<Rightarrow> failed_result env (OtherError [])) (ba_tasks b))"
    by (simp add: comp_def)
  then obtain rs where rs: "ba_tasks b = map Done rs" by blast
  have "list_all2 (\<lambda>u t. task_ok env holds u (ba_store b) t) (filter (\<lambda>u. \<not> sk_seen ops u k) urls) (map Done rs)"
    using ok rs unfolding batch_ok_def by metis
  then show ?thesis using rs unfolding list_all2_map2 by blast
qed

end

section \<open>The two sinks\<close>

definition jsonl_ops :: "(string \<Rightarrow> string) \<Rightarrow> (datetime \<Rightarrow> string) \<Rightarrow> (real \<Rightarrow> string) \<Rightarrow> jsonl sink_ops" where
  "jsonl_ops sha isof fr = \<lparr>sk_seen = jsonl_seen sha, sk_write = (\<lambda>r s. (Inr (), jsonl_write sha isof fr r s))\<rparr>"

definition data_lines :: "jsonl \<Rightarrow> string list" where
  "data_lines s = (case jd_data (jl_disk s) of None \<Rightarrow> [] | Some ls \<Rightarrow> ls)"

text \<open>The data file has a line with the article's content (hash), its own or an earlier one.\<close>

definition has_content :: "(string \<Rightarrow> string) \<Rightarrow> (datetime \<Rightarrow> string) \<Rightarrow> (real \<Rightarrow> string) \<Rightarrow> string \<Rightarrow> jsonl \<Rightarrow> bool" where
  "has_content sha isof fr h s = (\<exists>a. sha (ar_content a) = h \<and> dumps_raw fr (JObj (jsonl_record sha isof a)) \<in> set (data_lines s))"

definition content_inv :: "(string \<Rightarrow> string) \<Rightarrow> (datetime \<Rightarrow> string) \<Rightarrow> (real \<Rightarrow> string) \<Rightarrow> jsonl \<Rightarrow> bool" where
  "content_inv sha isof fr s = (\<forall>h \<in> jl_seen_content s. has_content sha isof fr h s)"

lemma write_lines:
  "data_lines (jsonl_write sha isof fr r s) = data_lines s @ (case sr_article r of
      Some a \<Rightarrow> if sr_status r = ''success'' \<and> sha (ar_content a) \<notin> jl_seen_content s then [dumps_raw fr (JObj (jsonl_record sha isof a))] else []
    | None \<Rightarrow> [])"
  by (auto simp: jsonl_write_def jsonl_write_steps_def data_lines_def append_line_def split: option.splits simp del: dumps_raw.simps)

lemma write_contents:
  "jl_seen_content (jsonl_write sha isof fr r s) = jl_seen_content s \<union> (case sr_article r of
      Some a \<Rightarrow> if sr_status r = ''success'' then {sha (ar_content a)} else {} | None \<Rightarrow> {})"
  by (auto simp: jsonl_write_def jsonl_write_steps_def split: option.splits simp del: dumps_raw.simps)

lemma has_content_write:
  "has_content sha isof fr h (jsonl_write sha isof fr r s) = (has_content sha isof fr h s \<or>
     (case sr_article r of Some a \<Rightarrow> sr_status r = ''success'' \<and> sha (ar_content a) \<notin> jl_seen_content s \<and>
         (\<exists>a'. sha (ar_content a') = h \<and> dumps_raw fr (JObj (jsonl_record sha isof a')) = dumps_raw fr (JObj (jsonl_record sha isof a)))
      | None \<Rightarrow> False))"
  unfolding has_content_def write_lines by (auto split: option.splits if_splits simp del: dumps_raw.simps)

interpretation jsonl_sink: article_sink "jsonl_ops sha isof fr" "content_inv sha isof fr"
    "\<lambda>a. has_content sha isof fr (sha (ar_content a))" for sha isof fr
proof unfold_locales
  fix r s s' a x
  have cont: "content_inv sha isof fr (jsonl_write sha isof fr r s)" if i: "content_inv sha isof fr s"
    using i unfolding content_inv_def write_contents by (auto simp: has_content_write split: option.splits if_splits)
  { assume "content_inv sha isof fr s" "sk_write (jsonl_ops sha isof fr) r s = (Inr (), s')" "sr_status r = ''success''" "sr_article r = Some a"
    with cont show "has_content sha isof fr (sha (ar_content a)) s'"
      by (auto simp: jsonl_ops_def content_inv_def write_contents) }
  { assume "content_inv sha isof fr s" "sk_write (jsonl_ops sha isof fr) r s = (x, s')" "has_content sha isof fr (sha (ar_content a)) s"
    then show "has_content sha isof fr (sha (ar_content a)) s'" by (auto simp: jsonl_ops_def has_content_write) }
  { assume "content_inv sha isof fr s" "sk_write (jsonl_ops sha isof fr) r s = (x, s')"
    then show "content_inv sha isof fr s'" using cont by (auto simp: jsonl_ops_def) }
qed

text \<open>The Postgres sink, with the clock it reads when it writes.\<close>

definition pg_ops :: "(string \<Rightarrow> string) \<Rightarrow> (pg_sink \<times> (nat \<Rightarrow> datetime)) sink_ops" where
  "pg_ops sha = \<lparr>sk_seen = (\<lambda>u (s, clock). pg_seen sha u s),
     sk_write = (\<lambda>r (s, clock). case pg_write sha (clock 0) r s of (x, s') \<Rightarrow> (x, (s', \<lambda>n. clock (n + 1))))\<rparr>"

interpretation pg_sink: article_sink "pg_ops sha" "\<lambda>_. True" "\<lambda>a ((seen, d), clock). get_article (url_id sha (ar_url a)) d \<noteq> None" for sha
proof unfold_locales
  fix r and s s' :: "pg_sink \<times> (nat \<Rightarrow> datetime)" and a x
  obtain seen d clock where s: "s = ((seen, d), clock)" by (metis prod.collapse)
  { assume "sk_write (pg_ops sha) r s = (Inr (), s')" "sr_status r = ''success''" "sr_article r = Some a"
    then obtain row where "sink_row sha (clock 0) r a = Inr row" "s' = ((insert (url_id sha (ar_url a)) seen, upsert_article row d), \<lambda>n. clock (n + 1))"
      by (auto simp: pg_ops_def s pg_write_def split: sum.splits)
    then show "(\<lambda>((seen, d), clock). get_article (url_id sha (ar_url a)) d \<noteq> None) s'"
      using sink_row_id [of sha "clock 0" r a row] get_upsert [of "url_id sha (ar_url a)" row d] by simp }
  { assume "sk_write (pg_ops sha) r s = (x, s')" "(\<lambda>((seen, d), clock). get_article (url_id sha (ar_url a)) d \<noteq> None) s"
    then show "(\<lambda>((seen, d), clock). get_article (url_id sha (ar_url a)) d \<noteq> None) s'"
      using get_upsert by (auto simp: pg_ops_def s pg_write_def split: option.splits sum.splits if_splits) }
qed simp

text \<open>
  C5.  A batch with the JSONL sink, however its tasks interleave: at most \<open>max_concurrency\<close> scrapes are under
  way, it makes at most three steps per URL, and when no task can go on every URL that the sink had
  not seen has its one result, in the order of the URLs: what \<open>scrape\<close> answered for it, or an error
  result for an exception; and the file has the content of every article that succeeded.
\<close>

theorem batch_scrape_contract:
  assumes "batch_run env (batch_init env urls e k) n b" and "be_sink env = Some (jsonl_ops sha isof fr)" and "0 < be_max env"
    and "jl_seen_content k = {}" and "todo = filter (\<lambda>u. \<not> jsonl_seen sha u k) urls"
  shows "length (filter active (ba_tasks b)) \<le> be_max env \<and> n \<le> 3 * length todo \<and>
    ((\<exists>b'. batch_step env b b') \<or> (\<exists>rs. ba_tasks b = map Done rs \<and> length rs = length todo \<and>
      (\<forall>(u, r) \<in> set (zip todo rs). ((\<exists>x x'. be_scrape env u x = (Inr r, x')) \<or> (\<exists>x. r = failed_result env x)) \<and>
        (\<forall>a. sr_article r = Some a \<and> sr_status r = ''success'' \<longrightarrow> has_content sha isof fr (sha (ar_content a)) (ba_store b)))))"
proof -
  have inv: "content_inv sha isof fr k" by (simp add: content_inv_def assms(4))
  have todo: "filter (\<lambda>u. \<not> sk_seen (jsonl_ops sha isof fr) u k) urls = todo" by (simp add: jsonl_ops_def assms(5))
  note ok = jsonl_sink.batch_run_ok [OF assms(1,2) inv, unfolded todo]
  show ?thesis
  proof (cases "\<exists>b'. batch_step env b b'")
    case True
    then show ?thesis using ok by auto
  next
    case False
    from jsonl_sink.run_final [OF assms(1,2) inv assms(3) False, unfolded todo] obtain rs where rs: "ba_tasks b = map Done rs"
      "list_all2 (\<lambda>u r. task_ok env (\<lambda>a. has_content sha isof fr (sha (ar_content a))) u (ba_store b) (Done r)) todo rs" by blast
    have "\<forall>(u, r) \<in> set (zip todo rs). ((\<exists>x x'. be_scrape env u x = (Inr r, x')) \<or> (\<exists>x. r = failed_result env x)) \<and>
        (\<forall>a. sr_article r = Some a \<and> sr_status r = ''success'' \<longrightarrow> has_content sha isof fr (sha (ar_content a)) (ba_store b))"
      using rs(2) by (auto simp: list_all2_iff task_ok_def result_of_def split: option.splits)
    then show ?thesis using ok rs list_all2_lengthD [OF rs(2)] by auto
  qed
qed

section \<open>Witness\<close>

definition demo_batch_env :: "(unit, jsonl) batch_env" where
  "demo_batch_env = \<lparr>be_scrape = (\<lambda>u e. (Inr (ok_result sample_article), e)), be_driver = ''curl_cffi'',
     be_sink = Some (jsonl_ops toy_sha (\<lambda>t. []) (\<lambda>r. [])), be_max = 5\<rparr>"

theorem batch_scrape_contract_witness:
  "\<exists>b. batch_run demo_batch_env (batch_init demo_batch_env [''https://ft.com/a''] () (jsonl_open \<lparr>jd_data = None, jd_manifest = None\<rparr>)) 3 b \<and>
     ba_tasks b = [Done (ok_result sample_article)] \<and>
     has_content toy_sha (\<lambda>t. []) (\<lambda>r. []) (toy_sha (ar_content sample_article)) (ba_store b)"
proof -
  let ?k = "jsonl_open \<lparr>jd_data = None, jd_manifest = None\<rparr>" and ?r = "ok_result sample_article" and ?u = "''https://ft.com/a''"
  let ?b0 = "\<lparr>ba_urls = [?u], ba_tasks = [Waiting], ba_world = (), ba_store = ?k\<rparr>"
  let ?b1 = "\<lparr>ba_urls = [?u], ba_tasks = [Running], ba_world = (), ba_store = ?k\<rparr>"
  let ?b2 = "\<lparr>ba_urls = [?u], ba_tasks = [Writing ?r], ba_world = (), ba_store = ?k\<rparr>"
  let ?b3 = "\<lparr>ba_urls = [?u], ba_tasks = [Done ?r], ba_world = (), ba_store = jsonl_write toy_sha (\<lambda>t. []) (\<lambda>r. []) ?r ?k\<rparr>"
  note env = demo_batch_env_def jsonl_ops_def
  have new: "\<not> jsonl_seen toy_sha ?u ?k" by (simp add: load_manifest_def jsonl_seen_def jsonl_open_def)
  then have b0: "batch_init demo_batch_env [?u] () ?k = ?b0" by (simp add: batch_init_def env)
  have ok: "sr_status ?r = ''success''" by (simp add: ok_result_def mk_result_def)
  have s1: "batch_step demo_batch_env ?b0 ?b1"
    using batch_step.Acquire [of ?b0 "[]" "[]" demo_batch_env] by (simp add: env)
  have s2: "batch_step demo_batch_env ?b1 ?b2"
    using batch_step.Scraped [of 0 ?b1 demo_batch_env "Inr ?r" "()"] ok by (simp add: env after_scrape_def)
  have s3: "batch_step demo_batch_env ?b2 ?b3"
    using batch_step.Written [of 0 ?b2 ?r demo_batch_env "jsonl_ops toy_sha (\<lambda>t. []) (\<lambda>r. [])" "Inr ()" "jsonl_write toy_sha (\<lambda>t. []) (\<lambda>r. []) ?r ?k"]
    by (simp add: env after_write_def)
  have run: "batch_run demo_batch_env ?b0 3 ?b3"
    using batch_run.Step [OF batch_run.Step [OF batch_run.Step [OF batch_run.Start s1] s2] s3] by (simp add: numeral_3_eq_3)
  have stop: "\<nexists>b'. batch_step demo_batch_env ?b3 b'"
  proof
    assume "\<exists>b'. batch_step demo_batch_env ?b3 b'"
    then obtain b' where "batch_step demo_batch_env ?b3 b'" by blast
    then show False by cases (auto simp: Cons_eq_append_conv)
  qed
  have "be_sink demo_batch_env = Some (jsonl_ops toy_sha (\<lambda>t. []) (\<lambda>r. []))" "0 < be_max demo_batch_env" "jl_seen_content ?k = {}"
    by (simp_all add: demo_batch_env_def jsonl_open_def)
  from conjunct2 [OF conjunct2 [OF batch_scrape_contract [OF run [folded b0] this refl]]] stop new
  have "has_content toy_sha (\<lambda>t. []) (\<lambda>r. []) (toy_sha (ar_content sample_article)) (ba_store ?b3)"
    by (auto simp: ok_result_def mk_result_def map_eq_Cons_conv Cons_eq_map_conv)
  then show ?thesis using run unfolding b0 by (intro exI [of _ ?b3]) simp
qed

end
