(* ===== verification/Feeds.thy ===== *)
theory Feeds
  imports Scraper_Base
begin

text \<open>
  RSS: the parser of Substack feeds (\<open>scrapers/community/substack_rss.py\<close>), the one of news feeds
  (\<open>scrapers/public/news_rss.py\<close>) and the scraper that fetches a news feed (\<open>news_scraper.py\<close>).

  lxml, selectolax and the parsers of dates are the argument \<open>lib\<close>.  A document that lxml accepts is the
  list of its items; an element is None when it is missing, \<open>Some None\<close> when it has no text.
\<close>

section \<open>Items\<close>

record rss_item =
  ri_link :: "string option option"
  ri_title :: "string option option"
  ri_pub_date :: "string option option"
  ri_encoded :: "string option option"
  ri_description :: "string option option"
  ri_creator :: "string option option"

record feed_lib =
  fl_xml :: "string \<Rightarrow> rss_item list option"
  fl_text_strip :: "string \<Rightarrow> string"
  fl_text :: "string \<Rightarrow> string"
  fl_rfc_date :: "string \<Rightarrow> exn + datetime"
  fl_iso_date :: "string \<Rightarrow> exn + datetime"

definition el_raw :: "string option option \<Rightarrow> string" where
  "el_raw el = (case el of Some (Some t) \<Rightarrow> t | _ \<Rightarrow> [])"

definition el_text :: "string option option \<Rightarrow> string" where
  "el_text el = strip (el_raw el)"

text \<open>\<open>_clean_html\<close> and \<open>_html_to_text\<close>: the text of the markup with runs of white space collapsed.\<close>

definition clean_html :: "feed_lib \<Rightarrow> string \<Rightarrow> string" where
  "clean_html lib html = join '' '' (split_ws (fl_text_strip lib html))"

definition html_to_text :: "feed_lib \<Rightarrow> string \<Rightarrow> string" where
  "html_to_text lib html = (if html = [] then [] else join '' '' (split_ws (fl_text lib html)))"

definition body_html :: "rss_item \<Rightarrow> string" where
  "body_html item = (if el_raw (ri_encoded item) \<noteq> [] then el_raw (ri_encoded item) else el_raw (ri_description item))"

text \<open>A date that cannot be parsed is dropped; only \<open>TypeError\<close> and \<open>ValueError\<close> are caught.\<close>

definition item_date :: "feed_lib \<Rightarrow> string \<Rightarrow> exn + datetime option" where
  "item_date lib raw = (if raw = [] then Inr None else (case fl_rfc_date lib raw of
      Inr t \<Rightarrow> Inr (Some t) | Inl (TypeError m) \<Rightarrow> Inr None | Inl (ValueError m) \<Rightarrow> Inr None | Inl e \<Rightarrow> Inl e))"

definition feed_article :: "feed_lib \<Rightarrow> string \<Rightarrow> string \<Rightarrow> string \<Rightarrow> rss_item \<Rightarrow> exn + article" where
  "feed_article lib bucket raw_html content item =
     (let url = el_text (ri_link item) in
      sum_bind (item_date lib (el_text (ri_pub_date item))) (\<lambda>published.
      sum_bind (url_domain url) (\<lambda>domain.
      Inr \<lparr>ar_url = url, ar_title = el_text (ri_title item), ar_content = content,
        ar_author = (let a = el_text (ri_creator item) in if a = [] then None else Some a), ar_publish_date = published,
        ar_raw_html = (if raw_html = [] then None else Some raw_html),
        ar_metadata = [(''source_domain'', JStr domain), (''bucket'', JStr bucket), (''via'', JStr ''rss'')]\<rparr>)))"

definition rss_result :: "article \<Rightarrow> scrape_result" where
  "rss_result a = (mk_result ''success'' ''curl_cffi'')\<lparr>sr_article := Some a\<rparr>"

section \<open>Parsers\<close>

fun substack_items :: "feed_lib \<Rightarrow> int \<Rightarrow> int \<Rightarrow> rss_item list \<Rightarrow> scrape_result list \<Rightarrow> exn + scrape_result list" where
  "substack_items lib limit min_chars [] rs = Inr rs"
| "substack_items lib limit min_chars (item # items) rs =
     (if int (length rs) \<ge> limit then Inr rs
      else if el_text (ri_link item) = [] then substack_items lib limit min_chars items rs
      else
        (let raw_html = el_raw (ri_encoded item); content = (if raw_html = [] then [] else clean_html lib raw_html) in
         if int (length content) < min_chars then substack_items lib limit min_chars items rs
         else sum_bind (feed_article lib ''community'' raw_html content item)
           (\<lambda>a. substack_items lib limit min_chars items (rs @ [rss_result a]))))"

definition parse_substack_feed :: "feed_lib \<Rightarrow> int \<Rightarrow> int \<Rightarrow> string \<Rightarrow> exn + scrape_result list" where
  "parse_substack_feed lib limit min_chars xml = (case fl_xml lib xml of
      None \<Rightarrow> Inr [] | Some items \<Rightarrow> substack_items lib limit min_chars items [])"

fun news_items :: "feed_lib \<Rightarrow> int \<Rightarrow> int \<Rightarrow> rss_item list \<Rightarrow> scrape_result list \<Rightarrow> exn + scrape_result list" where
  "news_items lib limit min_chars [] rs = Inr rs"
| "news_items lib limit min_chars (item # items) rs =
     (if int (length rs) \<ge> limit then Inr rs
      else if el_text (ri_link item) = [] then news_items lib limit min_chars items rs
      else
        (let raw_html = body_html item; content = html_to_text lib raw_html in
         if int (length content) < min_chars then news_items lib limit min_chars items rs
         else sum_bind (feed_article lib ''public'' raw_html content item)
           (\<lambda>a. news_items lib limit min_chars items (rs @ [rss_result a]))))"

definition parse_news_feed :: "feed_lib \<Rightarrow> int \<Rightarrow> int \<Rightarrow> string \<Rightarrow> exn + scrape_result list" where
  "parse_news_feed lib limit min_chars xml = (case fl_xml lib xml of
      None \<Rightarrow> Inr [] | Some items \<Rightarrow> news_items lib limit min_chars items [])"

definition news_scraper :: "string option \<Rightarrow> scraper" where
  "news_scraper proxy = public_scraper proxy"

definition scrape_feed :: "feed_lib \<Rightarrow> fp_env \<Rightarrow> 'n curl_env \<Rightarrow> scraper \<Rightarrow> string \<Rightarrow> int \<Rightarrow> int \<Rightarrow> ('n slot, scrape_result list) py" where
  "scrape_feed lib fenv env sc feed_url limit min_chars =
     py_bind (using_bridge fenv sc (fetch_html env feed_url)) (\<lambda>xml. py_lift (parse_news_feed lib limit min_chars xml))"

section \<open>What a feed gives\<close>

text \<open>The items of a feed that count, and what is read from each.\<close>

definition usable :: "(rss_item \<Rightarrow> string) \<Rightarrow> int \<Rightarrow> rss_item \<Rightarrow> bool" where
  "usable content min_chars item = (el_text (ri_link item) \<noteq> [] \<and> int (length (content item)) \<ge> min_chars)"

definition substack_content :: "feed_lib \<Rightarrow> rss_item \<Rightarrow> string" where
  "substack_content lib item = (if el_raw (ri_encoded item) = [] then [] else clean_html lib (el_raw (ri_encoded item)))"

definition news_content :: "feed_lib \<Rightarrow> rss_item \<Rightarrow> string" where
  "news_content lib item = html_to_text lib (body_html item)"

text \<open>The reference: the first \<open>limit\<close> usable items, each read; any that cannot be read raises.\<close>

definition feed_spec :: "feed_lib \<Rightarrow> string \<Rightarrow> (rss_item \<Rightarrow> string) \<Rightarrow> (rss_item \<Rightarrow> string) \<Rightarrow> int \<Rightarrow> int \<Rightarrow> rss_item list \<Rightarrow> exn + scrape_result list" where
  "feed_spec lib bucket raw content limit min_chars items =
     sum_bind (sum_traverse (\<lambda>i. feed_article lib bucket (raw i) (content i) i) (take (nat limit) (filter (usable content min_chars) items)))
       (\<lambda>as. Inr (map rss_result as))"

text \<open>The loop of both parsers.\<close>

fun items_loop :: "(rss_item \<Rightarrow> bool) \<Rightarrow> (rss_item \<Rightarrow> exn + article) \<Rightarrow> int \<Rightarrow> rss_item list \<Rightarrow> scrape_result list \<Rightarrow> exn + scrape_result list" where
  "items_loop ok read limit [] rs = Inr rs"
| "items_loop ok read limit (i # items) rs =
     (if int (length rs) \<ge> limit then Inr rs
      else if ok i then sum_bind (read i) (\<lambda>a. items_loop ok read limit items (rs @ [rss_result a])) else items_loop ok read limit items rs)"

lemma substack_items_loop:
  "substack_items lib limit min_chars items rs = items_loop (usable (substack_content lib) min_chars)
     (\<lambda>i. feed_article lib ''community'' (el_raw (ri_encoded i)) (substack_content lib i) i) limit items rs"
  by (induction items arbitrary: rs) (auto simp: usable_def substack_content_def Let_def)

lemma news_items_loop:
  "news_items lib limit min_chars items rs = items_loop (usable (news_content lib) min_chars)
     (\<lambda>i. feed_article lib ''public'' (body_html i) (news_content lib i) i) limit items rs"
  by (induction items arbitrary: rs) (auto simp: usable_def news_content_def Let_def)

lemma items_loop_spec:
  "items_loop ok read limit items rs =
     sum_bind (sum_traverse read (take (nat (limit - int (length rs))) (filter ok items))) (\<lambda>as. Inr (rs @ map rss_result as))"
proof (induction items arbitrary: rs)
  case (Cons i items)
  show ?case
  proof (cases "int (length rs) \<ge> limit \<or> \<not> ok i")
    case True
    then show ?thesis using Cons.IH [of rs] by (auto simp: sum_bind_def)
  next
    case False
    then have n: "nat (limit - int (length rs)) = Suc (nat (limit - int (length rs) - 1))" by linarith
    have "items_loop ok read limit items (rs @ [rss_result a]) =
        sum_bind (sum_traverse read (take (nat (limit - int (length rs) - 1)) (filter ok items))) (\<lambda>as. Inr (rs @ rss_result a # map rss_result as))" for a
      using Cons.IH [of "rs @ [rss_result a]"] by (simp add: algebra_simps)
    then show ?thesis using False
      by (cases "read i"; cases "sum_traverse read (take (nat (limit - int (length rs) - 1)) (filter ok items))")
        (simp_all add: n sum_bind_def)
  qed
qed (simp add: sum_bind_def)

text \<open>
  C28.  A feed parser is its reference: a document that is no XML gives nothing; otherwise the result is the
  first \<open>limit\<close> items with a link and a body of at least \<open>min_chars\<close> characters, in order, each with
  the cleaned body; an item among them whose link \<open>urlsplit\<close> refuses raises for the whole feed.
\<close>

theorem feed_parsers_spec:
  "parse_substack_feed lib limit min_chars xml = (case fl_xml lib xml of None \<Rightarrow> Inr []
     | Some items \<Rightarrow> feed_spec lib ''community'' (\<lambda>i. el_raw (ri_encoded i)) (substack_content lib) limit min_chars items) \<and>
   parse_news_feed lib limit min_chars xml = (case fl_xml lib xml of None \<Rightarrow> Inr []
     | Some items \<Rightarrow> feed_spec lib ''public'' body_html (news_content lib) limit min_chars items)"
  by (simp add: parse_substack_feed_def parse_news_feed_def feed_spec_def substack_items_loop news_items_loop items_loop_spec split: option.splits)

end
