(* ===== verification/Reddit.thy ===== *)
theory Reddit
  imports Scraper_Base
begin

text \<open>
  The Reddit scraper, \<open>scrapers/community/reddit.py\<close>: the mapping of a post, the paginated listing of a
  subreddit and the scrape of one post.

  \<open>fetch\<close> is \<open>self._fetch_json\<close> (\<open>Scraper_Base.fetch_json\<close>).  The pagination loop need not end, so it is a
  partial function: a loop that never returns has the value None.
\<close>

section \<open>A post\<close>

definition reddit_base :: string where "reddit_base = ''https://www.reddit.com''"

text \<open>\<open>datetime.fromtimestamp(x, tz=UTC)\<close>: rounded to the microsecond, years 1 to 9999.\<close>

definition from_timestamp :: "pyfloat \<Rightarrow> exn + datetime" where
  "from_timestamp x = (case x of
      Fin r \<Rightarrow> if -62135596800 \<le> r \<and> r < 253402300800 then Inr (round_even (r * 1000000))
        else Inl (ValueError ''year is out of range'')
    | NaN \<Rightarrow> Inl (ValueError ''cannot convert float NaN to integer'')
    | _ \<Rightarrow> Inl (OverflowError ''cannot convert float infinity to integer''))"

text \<open>The entry for the external link of a link post.\<close>

definition external_link :: "pydict \<Rightarrow> exn + pydict" where
  "external_link data = sum_bind (text_or data ''url'' []) (\<lambda>u.
     Inr (if u \<noteq> [] \<and> \<not> contains ''reddit.com'' u then [(''link_url'', JStr u)] else []))"

definition post_content :: "pydict \<Rightarrow> string \<Rightarrow> string" where
  "post_content data selftext = (if truthy (get_or_null data ''is_self'') \<and> selftext \<notin> {''[removed]'', ''[deleted]''} then selftext else [])"

definition post_metadata :: "pydict \<Rightarrow> pydict \<Rightarrow> pydict" where
  "post_metadata data link = [(''source_domain'', JStr ''reddit.com''), (''bucket'', JStr ''community''),
     (''subreddit'', get_or_null data ''subreddit''), (''score'', get_or_null data ''score''),
     (''num_comments'', get_or_null data ''num_comments''), (''reddit_id'', get_or_null data ''id'')] @ link"

definition parse_post :: "pylib \<Rightarrow> json \<Rightarrow> exn + article" where
  "parse_post lib v = (case v of
      JObj data \<Rightarrow>
        sum_bind (text_or data ''selftext'' []) (\<lambda>selftext.
        sum_bind (if post_content data selftext = [] then external_link data else Inr []) (\<lambda>link.
        sum_bind (text_or data ''permalink'' []) (\<lambda>permalink.
        sum_bind (if permalink \<noteq> [] then Inr (reddit_base @ permalink) else text_default data ''url'' []) (\<lambda>url.
        sum_bind (case get_or_null data ''created_utc'' of JNull \<Rightarrow> Inr None
            | t \<Rightarrow> sum_bind (py_float lib t) (\<lambda>x. sum_bind (from_timestamp x) (\<lambda>d. Inr (Some d)))) (\<lambda>published.
        sum_bind (text_or data ''title'' []) (\<lambda>title.
        sum_bind (text_or_none data ''author'') (\<lambda>author.
        Inr \<lparr>ar_url = url, ar_title = title, ar_content = post_content data selftext, ar_author = author,
          ar_publish_date = published, ar_raw_html = None, ar_metadata = post_metadata data link\<rparr>)))))))
    | _ \<Rightarrow> Inl (no_attribute v ''get''))"

definition curl_result :: "article \<Rightarrow> scrape_result" where
  "curl_result a = (mk_result ''success'' ''curl_cffi'')\<lparr>sr_article := Some a\<rparr>"

section \<open>The listing of a subreddit\<close>

definition listing_url :: "pylib \<Rightarrow> string \<Rightarrow> string \<Rightarrow> int \<Rightarrow> nat \<Rightarrow> nat \<Rightarrow> json \<Rightarrow> string" where
  "listing_url lib subreddit order limit got count after =
     reddit_base @ ''/r/'' @ subreddit @ ''/'' @ order @ ''.json?limit='' @ int_str (min 100 (limit - int got)) @
     ''&count='' @ nat_str count @ (if truthy after then ''&after='' @ py_str lib after else [])"

fun add_posts :: "pylib \<Rightarrow> int \<Rightarrow> json list \<Rightarrow> scrape_result list \<Rightarrow> exn + scrape_result list" where
  "add_posts lib limit [] rs = Inr rs"
| "add_posts lib limit (c # cs) rs = (case c of
      JObj d \<Rightarrow>
        if dict_get d ''kind'' \<noteq> Some (JStr ''t3'') then add_posts lib limit cs rs
        else if int (length rs) \<ge> limit then Inr rs
        else sum_bind (get_key ''data'' c) (\<lambda>data. sum_bind (parse_post lib data) (\<lambda>a. add_posts lib limit cs (rs @ [curl_result a])))
    | _ \<Rightarrow> Inl (no_attribute c ''get''))"

text \<open>One page: the results so far, and the cursor and count to go on with unless this is the end.\<close>

definition listing_page :: "pylib \<Rightarrow> int \<Rightarrow> nat \<Rightarrow> scrape_result list \<Rightarrow> json \<Rightarrow> exn + (scrape_result list \<times> (json \<times> nat) option)" where
  "listing_page lib limit count rs payload = sum_bind (get_key ''data'' payload) (\<lambda>listing. case listing of
      JObj d \<Rightarrow>
        (let found = (case dict_get d ''children'' of None \<Rightarrow> JList [] | Some v \<Rightarrow> v) in
         if \<not> truthy found then Inr (rs, None)
         else sum_bind (iterate found) (\<lambda>children. sum_bind (add_posts lib limit children rs) (\<lambda>rs'.
           let after = get_or_null d ''after'' in
           Inr (rs', if after = JNull then None else Some (after, count + length children)))))
    | _ \<Rightarrow> Inl (no_attribute listing ''get''))"

partial_function (option) listing_loop ::
  "pylib \<Rightarrow> (string \<Rightarrow> ('e, json) py) \<Rightarrow> string \<Rightarrow> string \<Rightarrow> int \<Rightarrow> json \<Rightarrow> nat \<Rightarrow> scrape_result list \<Rightarrow> 'e \<Rightarrow>
     ((exn + scrape_result list) \<times> 'e) option" where
  "listing_loop lib fetch subreddit order limit after count rs e =
     (if int (length rs) \<ge> limit then Some (Inr rs, e)
      else case fetch (listing_url lib subreddit order limit (length rs) count after) e of (answer, e') \<Rightarrow>
        (case sum_bind answer (listing_page lib limit count rs) of
           Inl x \<Rightarrow> Some (Inl x, e')
         | Inr (rs', next) \<Rightarrow> (case next of
             None \<Rightarrow> Some (Inr rs', e')
           | Some (after', count') \<Rightarrow> listing_loop lib fetch subreddit order limit after' count' rs' e')))"

definition scrape_subreddit ::
  "pylib \<Rightarrow> (string \<Rightarrow> ('e, json) py) \<Rightarrow> string \<Rightarrow> int \<Rightarrow> string \<Rightarrow> 'e \<Rightarrow> ((exn + scrape_result list) \<times> 'e) option" where
  "scrape_subreddit lib fetch subreddit limit order e =
     map_option (\<lambda>(r, e'). (sum_bind r (\<lambda>rs. Inr (take (nat limit) rs)), e')) (listing_loop lib fetch subreddit order limit JNull 0 [] e)"

section \<open>One post\<close>

definition post_json_url :: "string \<Rightarrow> string" where
  "post_json_url url = (let base = rstrip_by (\<lambda>c. c = CHR ''/'') url in if ends_with ''.json'' base then url else base @ ''.json'')"

definition reddit_scrape :: "pylib \<Rightarrow> (string \<Rightarrow> ('e, json) py) \<Rightarrow> string \<Rightarrow> ('e, scrape_result) py" where
  "reddit_scrape lib fetch url = py_bind (fetch (post_json_url url)) (\<lambda>payload. py_lift (
     sum_bind (get_first payload) (\<lambda>l. sum_bind (get_key ''data'' l) (\<lambda>d. sum_bind (get_key ''children'' d) (\<lambda>cs.
     sum_bind (get_first cs) (\<lambda>c. sum_bind (get_key ''data'' c) (\<lambda>data. sum_bind (parse_post lib data) (\<lambda>a. Inr (curl_result a)))))))))"

section \<open>What a listing is\<close>

text \<open>
  A page of the listing API: its children are things with a kind, those of kind \<open>t3\<close> are posts that can be
  read, and its cursor is null on the last page.
\<close>

definition is_t3 :: "json \<Rightarrow> bool" where
  "is_t3 c = (case c of JObj d \<Rightarrow> dict_get d ''kind'' = Some (JStr ''t3'') | _ \<Rightarrow> False)"

definition is_page :: "pylib \<Rightarrow> json \<Rightarrow> json list \<Rightarrow> article list \<Rightarrow> json \<Rightarrow> bool" where
  "is_page lib payload children posts after = (\<exists>d. get_key ''data'' payload = Inr (JObj d) \<and>
     dict_get d ''children'' = Some (JList children) \<and> get_or_null d ''after'' = after \<and> (\<forall>c \<in> set children. \<exists>o'. c = JObj o') \<and>
     sum_traverse (\<lambda>c. sum_bind (get_key ''data'' c) (parse_post lib)) (filter is_t3 children) = Inr posts)"

text \<open>
  A server that answers the requests for a listing, page after page: each request names the size of the
  page, the children seen so far and the cursor of the page before.
\<close>

type_synonym page = "json \<times> json list \<times> article list \<times> json"

fun serves :: "pylib \<Rightarrow> (string \<Rightarrow> ('e, json) py) \<Rightarrow> string \<Rightarrow> string \<Rightarrow> int \<Rightarrow> json \<Rightarrow> nat \<Rightarrow> nat \<Rightarrow> 'e \<Rightarrow> page list \<Rightarrow> bool" where
  "serves lib fetch subreddit order limit after got count e [] = True"
| "serves lib fetch subreddit order limit after got count e ((payload, children, posts, next) # pages) =
     (is_page lib payload children posts next \<and>
      (int got \<ge> limit \<or> (\<exists>e'. fetch (listing_url lib subreddit order limit got count after) e = (Inr payload, e') \<and>
         serves lib fetch subreddit order limit next (got + length posts) (count + length children) e' pages)))"

fun ends_listing :: "page list \<Rightarrow> bool" where
  "ends_listing [] = False"
| "ends_listing [(payload, children, posts, next)] = (children = [] \<or> next = JNull)"
| "ends_listing ((payload, children, posts, next) # pages) = (children \<noteq> [] \<and> next \<noteq> JNull \<and> ends_listing pages)"

definition page_articles :: "page list \<Rightarrow> article list" where
  "page_articles pages = concat (map (\<lambda>(payload, children, posts, next). posts) pages)"

lemma add_posts_page:
  assumes "\<forall>c \<in> set children. \<exists>o'. c = JObj o'"
    and "sum_traverse (\<lambda>c. sum_bind (get_key ''data'' c) (parse_post lib)) (filter is_t3 children) = Inr posts"
    and "int (length rs) \<le> limit"
  shows "add_posts lib limit children rs = Inr (take (nat limit) (rs @ map curl_result posts))"
  using assms
proof (induction children arbitrary: rs posts)
  case (Cons c cs)
  then obtain d where c: "c = JObj d" by auto
  show ?case
  proof (cases "is_t3 c")
    case False
    then show ?thesis using Cons by (simp add: c is_t3_def)
  next
    case True
    then obtain a as where a: "sum_bind (get_key ''data'' c) (parse_post lib) = Inr a"
      "sum_traverse (\<lambda>c. sum_bind (get_key ''data'' c) (parse_post lib)) (filter is_t3 cs) = Inr as" "posts = a # as"
      using Cons.prems(2) by (auto simp: sum_bind_Inr)
    have k: "dict_get d ''kind'' = Some (JStr ''t3'')" using True by (simp add: c is_t3_def)
    show ?thesis
    proof (cases "int (length rs) \<ge> limit")
      case True
      then have "length rs = nat limit" using Cons.prems(3) by simp
      then show ?thesis using True by (simp add: c k)
    next
      case False
      then have "add_posts lib limit cs (rs @ [curl_result a]) = Inr (take (nat limit) ((rs @ [curl_result a]) @ map curl_result as))"
        using Cons.prems(1) a(2) by (intro Cons.IH) auto
      moreover obtain dd where "get_key ''data'' c = Inr dd" "parse_post lib dd = Inr a" using a(1) by (auto simp: sum_bind_Inr)
      ultimately show ?thesis using False by (simp add: c k a(3) sum_bind_def)
    qed
  qed
qed simp

lemma listing_page_is_page:
  assumes "is_page lib payload children posts next" and "int (length rs) \<le> limit"
  shows "listing_page lib limit count rs payload = Inr (take (nat limit) (rs @ map curl_result posts),
    if children = [] \<or> next = JNull then None else Some (next, count + length children))"
proof -
  obtain d where d: "get_key ''data'' payload = Inr (JObj d)" "dict_get d ''children'' = Some (JList children)" "get_or_null d ''after'' = next"
    "\<forall>c \<in> set children. \<exists>o'. c = JObj o'"
    "sum_traverse (\<lambda>c. sum_bind (get_key ''data'' c) (parse_post lib)) (filter is_t3 children) = Inr posts"
    using assms(1) by (auto simp: is_page_def)
  note add = add_posts_page [OF d(4,5) assms(2)]
  show ?thesis
  proof (cases "children = []")
    case True
    then have "posts = []" using d(5) by simp
    then show ?thesis using assms(2) True by (simp add: listing_page_def d(1,2) sum_bind_def)
  next
    case False
    then show ?thesis using add by (simp add: listing_page_def d(1-3) sum_bind_def iterate_def Let_def)
  qed
qed

lemma listing_loop_serves:
  assumes "serves lib fetch subreddit order limit after (length rs) count e pages" and "ends_listing pages" and "int (length rs) \<le> limit"
  shows "\<exists>e'. listing_loop lib fetch subreddit order limit after count rs e =
    Some (Inr (take (nat limit) (rs @ map curl_result (page_articles pages))), e')"
  using assms
proof (induction pages arbitrary: after rs count e)
  case (Cons p pages)
  obtain payload children posts "next" where p: "p = (payload, children, posts, next)" by (metis prod.collapse)
  show ?case
  proof (cases "int (length rs) \<ge> limit")
    case True
    then have "length rs = nat limit" using Cons.prems(3) by simp
    then show ?thesis using True by (subst listing_loop.simps) simp
  next
    case False
    then obtain e' where f: "fetch (listing_url lib subreddit order limit (length rs) count after) e = (Inr payload, e')"
      and rest: "serves lib fetch subreddit order limit next (length rs + length posts) (count + length children) e' pages"
      and page: "is_page lib payload children posts next" using Cons.prems(1) by (auto simp: p)
    note step = listing_page_is_page [OF page Cons.prems(3), of count]
    let ?rs = "take (nat limit) (rs @ map curl_result posts)"
    have loop: "listing_loop lib fetch subreddit order limit after count rs e = (if children = [] \<or> next = JNull then Some (Inr ?rs, e')
        else listing_loop lib fetch subreddit order limit next (count + length children) ?rs e')"
      using False f step by (subst listing_loop.simps) (simp add: sum_bind_def)
    show ?thesis
    proof (cases "children = [] \<or> next = JNull")
      case True
      then have "pages = []" using Cons.prems(2) by (cases pages) (auto simp: p)
      then show ?thesis using loop True by (simp add: page_articles_def p)
    next
      case go: False
      then have ends: "ends_listing pages" using Cons.prems(2) by (cases pages) (auto simp: p)
      show ?thesis
      proof (cases "int (length rs + length posts) \<le> limit")
        case True
        then have rs: "?rs = rs @ map curl_result posts" by simp
        have "serves lib fetch subreddit order limit next (length ?rs) (count + length children) e' pages"
          using rest by (simp only: rs length_append length_map)
        from Cons.IH [OF this ends, unfolded rs] True obtain e'' where
          "listing_loop lib fetch subreddit order limit next (count + length children) (rs @ map curl_result posts) e' =
             Some (Inr (take (nat limit) ((rs @ map curl_result posts) @ map curl_result (page_articles pages))), e'')" by auto
        then show ?thesis using loop [unfolded rs] go by (simp add: page_articles_def p)
      next
        case over: False
        then have "int (length ?rs) \<ge> limit" "length ?rs = nat limit" using False by auto
        then have "listing_loop lib fetch subreddit order limit next (count + length children) ?rs e' = Some (Inr ?rs, e')"
          by (subst listing_loop.simps) simp
        then show ?thesis using loop go over False by (simp add: page_articles_def p)
      qed
    qed
  qed
qed simp

text \<open>
  C25.  The scrape of a subreddit returns, for a server that answers the listing's requests and whose cursor
  ends: the first \<open>limit\<close> posts of the pages, in order, none lost or repeated at a page boundary,
  whatever other things the pages hold.
\<close>

theorem subreddit_listing:
  assumes "serves lib fetch subreddit order limit JNull 0 0 e pages" and "ends_listing pages"
  shows "\<exists>e'. scrape_subreddit lib fetch subreddit limit order e =
    Some (Inr (map curl_result (take (nat limit) (page_articles pages))), e')"
proof (cases "limit \<ge> 0")
  case True
  have "serves lib fetch subreddit order limit JNull (length ([] :: scrape_result list)) 0 e pages" using assms(1) by simp
  from listing_loop_serves [OF this assms(2)] True show ?thesis
    by (auto simp: scrape_subreddit_def sum_bind_def take_map)
next
  case False
  then have "listing_loop lib fetch subreddit order limit JNull 0 [] e = Some (Inr [], e)" by (subst listing_loop.simps) simp
  then show ?thesis using False by (auto simp: scrape_subreddit_def sum_bind_def)
qed

text \<open>A page without posts and with a cursor: the loop asks for the next one, for ever.\<close>

lemma listing_loop_stuck:
  assumes "listing_loop lib fetch subreddit order limit after count rs e = Some r" and "\<forall>url e. \<exists>e'. fetch url e = (Inr payload, e')"
    and "is_page lib payload children [] next" and "children \<noteq> []" and "next \<noteq> JNull"
  shows "int (length rs) \<ge> limit"
  using assms
proof (induction rule: listing_loop.raw_induct [rotated, consumes 1, case_names step])
  case (step loop lib fetch subreddit order limit after count rs e r)
  show ?case
  proof (rule ccontr)
    assume n: "\<not> int (length rs) \<ge> limit"
    obtain e' where f: "fetch (listing_url lib subreddit order limit (length rs) count after) e = (Inr payload, e')" using step(3) by blast
    have "listing_page lib limit count rs payload = Inr (rs, Some (next, count + length children))"
      using listing_page_is_page [OF step(4), of rs limit count] n step(5,6) by simp
    then have "loop lib fetch subreddit order limit next (count + length children) rs e' = Some r"
      using step(2) f n by (simp add: sum_bind_def)
    from step(1) [OF this step(3-6)] n show False by simp
  qed
qed

text \<open>
  The pagination has no bound of its own: when every answer is a page of things that are not posts, with a
  cursor to go on, the scrape of a subreddit never returns.
\<close>

theorem subreddit_never_returns:
  assumes "\<forall>url e. \<exists>e'. fetch url e = (Inr payload, e')" and "is_page lib payload children [] next" and "children \<noteq> []" and "next \<noteq> JNull"
    and "0 < limit"
  shows "scrape_subreddit lib fetch subreddit limit order e = None"
proof (cases "listing_loop lib fetch subreddit order limit JNull 0 [] e")
  case (Some r)
  from listing_loop_stuck [OF this assms(1-4)] assms(5) show ?thesis by simp
qed (simp add: scrape_subreddit_def)

section \<open>Witnesses\<close>

definition demo_child :: "string \<Rightarrow> string \<Rightarrow> json" where
  "demo_child kind title = JObj [(''kind'', JStr kind), (''data'', JObj [(''is_self'', JBool True), (''selftext'', JStr ''text''),
     (''permalink'', JStr title), (''title'', JStr title)])]"

definition demo_payload :: "json list \<Rightarrow> json \<Rightarrow> json" where
  "demo_payload cs after = JObj [(''data'', JObj [(''children'', JList cs), (''after'', after)])]"

definition demo_article_of :: "string \<Rightarrow> article" where
  "demo_article_of title = \<lparr>ar_url = reddit_base @ title, ar_title = title, ar_content = ''text'', ar_author = None, ar_publish_date = None,
     ar_raw_html = None, ar_metadata = post_metadata [(''is_self'', JBool True), (''selftext'', JStr ''text''),
     (''permalink'', JStr title), (''title'', JStr title)] []\<rparr>"

lemma demo_child_parse: "title \<noteq> [] \<Longrightarrow> sum_bind (get_key ''data'' (demo_child kind title)) (parse_post lib) = Inr (demo_article_of title)"
  by (cases title) (simp_all add: demo_child_def get_key_def sum_bind_def parse_post_def text_or_def text_or_none_def get_or_null_def
      dict_get_def post_content_def demo_article_of_def)

text \<open>Two pages: a comment and a post, then a post; the state counts the requests.\<close>

definition demo_fetch :: "string \<Rightarrow> (nat, json) py" where
  "demo_fetch url n = (Inr (if n = 0 then demo_payload [demo_child ''t1'' ''/c'', demo_child ''t3'' ''/a''] (JStr ''t3_a'')
     else demo_payload [demo_child ''t3'' ''/b''] JNull), n + 1)"

theorem subreddit_listing_witness:
  "\<exists>e'. scrape_subreddit demo_lib demo_fetch ''python'' 5 ''new'' 0 =
     Some (Inr (map curl_result [demo_article_of ''/a'', demo_article_of ''/b'']), e')"
proof -
  let ?p = "[(demo_payload [demo_child ''t1'' ''/c'', demo_child ''t3'' ''/a''] (JStr ''t3_a''), [demo_child ''t1'' ''/c'', demo_child ''t3'' ''/a''],
      [demo_article_of ''/a''], JStr ''t3_a''), (demo_payload [demo_child ''t3'' ''/b''] JNull, [demo_child ''t3'' ''/b''], [demo_article_of ''/b''], JNull)]"
  have t3: "is_t3 (demo_child kind t) = (kind = ''t3'')" for kind t by (simp add: is_t3_def demo_child_def dict_get_def)
  have page: "is_page demo_lib (demo_payload cs after) cs as after"
    if "\<forall>c \<in> set cs. \<exists>o'. c = JObj o'" and "sum_traverse (\<lambda>c. sum_bind (get_key ''data'' c) (parse_post demo_lib)) (filter is_t3 cs) = Inr as"
    for cs as after
    using that by (simp add: is_page_def demo_payload_def get_key_def dict_get_def get_or_null_def)
  have obj: "\<exists>o'. demo_child kind t = JObj o'" for kind t by (simp add: demo_child_def)
  have "is_page demo_lib (demo_payload [demo_child ''t1'' ''/c'', demo_child ''t3'' ''/a''] (JStr ''t3_a''))
      [demo_child ''t1'' ''/c'', demo_child ''t3'' ''/a''] [demo_article_of ''/a''] (JStr ''t3_a'')"
    by (rule page) (simp_all add: obj t3 demo_child_parse, simp add: sum_bind_def)
  moreover have "is_page demo_lib (demo_payload [demo_child ''t3'' ''/b''] JNull) [demo_child ''t3'' ''/b''] [demo_article_of ''/b''] JNull"
    by (rule page) (simp_all add: obj t3 demo_child_parse, simp add: sum_bind_def)
  ultimately have "serves demo_lib demo_fetch ''python'' ''new'' 5 JNull 0 0 0 ?p" by (simp add: demo_fetch_def)
  from subreddit_listing [OF this] show ?thesis by (simp add: page_articles_def)
qed

theorem subreddit_never_returns_witness:
  "scrape_subreddit demo_lib (\<lambda>url e. (Inr (demo_payload [demo_child ''t1'' ''/c''] (JStr ''t1_c'')), e)) ''python'' 1 ''new'' () = None"
proof (rule subreddit_never_returns)
  show "is_page demo_lib (demo_payload [demo_child ''t1'' ''/c''] (JStr ''t1_c'')) [demo_child ''t1'' ''/c''] [] (JStr ''t1_c'')"
    by (simp add: is_page_def demo_payload_def get_key_def dict_get_def get_or_null_def is_t3_def demo_child_def)
qed simp_all

end
