(* ===== verification/Substack.thy ===== *)
theory Substack
  imports Feeds Reddit
begin

text \<open>
  The Substack scraper, \<open>scrapers/community/substack.py\<close>: the host of a publication, paywall detection, the
  mapping of a post, the offset-paginated archive, the RSS path and the scrape of one post.

  \<open>fetch\<close> is \<open>self._fetch_json\<close>; the archive loop is a partial function, as the listing of Reddit is.
\<close>

section \<open>Posts\<close>

definition min_content_length :: int where "min_content_length = 500"

record substack_settings =
  ub_page_size :: int
  ub_public_only :: bool
  ub_custom_domains :: string

definition custom_domains :: "substack_settings \<Rightarrow> string list" where
  "custom_domains st = filter (\<lambda>d. d \<noteq> []) (map strip (split_on (CHR '','') (ub_custom_domains st)))"

text \<open>\<open>urlsplit(u).netloc\<close> and \<open>urlsplit(u).path\<close>.\<close>

definition split_netloc :: "string \<Rightarrow> exn + string" where
  "split_netloc u = (let n = url_netloc u in
     if (CHR ''['' \<in> set n) \<noteq> (CHR '']'' \<in> set n) then Inl (ValueError ''Invalid IPv6 URL'') else Inr n)"

definition split_path :: "string \<Rightarrow> exn + string" where
  "split_path u = sum_bind (split_netloc u) (\<lambda>n.
     (let r = after_scheme (url_clean u); rest = (if starts_with ''//'' r then drop (2 + length n) r else r)
      in Inr (takeWhile (\<lambda>c. c \<notin> {CHR ''?'', CHR ''#''}) rest)))"

abbreviation slash :: "char \<Rightarrow> bool" where
  "slash c \<equiv> c = CHR ''/''"

definition normalize_base :: "string \<Rightarrow> exn + string" where
  "normalize_base pub0 = (let pub = rstrip_by slash pub0 in
     if starts_with ''http://'' pub \<or> starts_with ''https://'' pub then sum_bind (split_netloc pub) (\<lambda>n. Inr (''https://'' @ n))
     else if CHR ''.'' \<in> set pub then Inr (''https://'' @ pub)
     else Inr (''https://'' @ pub @ ''.substack.com''))"

definition is_paywalled :: "feed_lib \<Rightarrow> pydict \<Rightarrow> exn + bool" where
  "is_paywalled lib post =
     (if dict_get post ''audience'' = Some (JStr ''only_paid'') then Inr True
      else sum_bind (text_or post ''body_html'' []) (\<lambda>body.
        if body = [] then Inr True else Inr (int (length (clean_html lib body)) < min_content_length)))"

text \<open>\<open>bylines[0].get("name")\<close> of \<open>publishedBylines\<close>, if there is one.\<close>

definition byline_author :: "pydict \<Rightarrow> exn + string option" where
  "byline_author post = (let bylines = get_or_null post ''publishedBylines'' in
     if \<not> truthy bylines then Inr None
     else sum_bind (get_first bylines) (\<lambda>b. case b of JObj d \<Rightarrow> text_or_none d ''name'' | _ \<Rightarrow> Inl (no_attribute b ''get'')))"

definition replace_char :: "char \<Rightarrow> string \<Rightarrow> string \<Rightarrow> string" where
  "replace_char c t s = concat (map (\<lambda>d. if d = c then t else [d]) s)"

definition post_date :: "feed_lib \<Rightarrow> pydict \<Rightarrow> exn + datetime option" where
  "post_date lib post = (case get_or_null post ''post_date'' of
      JStr s \<Rightarrow> if s = [] then Inr None else (case fl_iso_date lib (replace_char (CHR ''Z'') ''+00:00'' s) of
          Inr t \<Rightarrow> Inr (Some t) | Inl (ValueError m) \<Rightarrow> Inr None | Inl (AttributeError m) \<Rightarrow> Inr None | Inl e \<Rightarrow> Inl e)
    | _ \<Rightarrow> Inr None)"

definition build_article :: "feed_lib \<Rightarrow> pydict \<Rightarrow> exn + article" where
  "build_article lib post =
     sum_bind (text_or_none post ''body_html'') (\<lambda>body.
     sum_bind (byline_author post) (\<lambda>author.
     sum_bind (post_date lib post) (\<lambda>published.
     sum_bind (text_default post ''canonical_url'' []) (\<lambda>url.
     sum_bind (url_domain url) (\<lambda>domain.
     sum_bind (text_or post ''title'' []) (\<lambda>title.
     Inr \<lparr>ar_url = url, ar_title = title, ar_content = (case body of Some (c # cs) \<Rightarrow> clean_html lib (c # cs) | _ \<Rightarrow> []),
       ar_author = author, ar_publish_date = published, ar_raw_html = body,
       ar_metadata = [(''source_domain'', JStr domain), (''bucket'', JStr ''community''), (''substack_id'', get_or_null post ''id''),
         (''audience'', get_or_null post ''audience''), (''subtitle'', get_or_null post ''subtitle''), (''post_type'', get_or_null post ''type'')]\<rparr>))))))"

section \<open>The archive of a publication\<close>

definition archive_url :: "string \<Rightarrow> string \<Rightarrow> nat \<Rightarrow> int \<Rightarrow> string" where
  "archive_url base order offset page_size = base @ ''/api/v1/archive?sort='' @ order @ ''&search=&offset='' @ nat_str offset @
     ''&limit='' @ int_str page_size"

definition post_url :: "string \<Rightarrow> string \<Rightarrow> string" where
  "post_url base slug = base @ ''/api/v1/posts/'' @ slug"

text \<open>One item of the archive: None when it is skipped, and the article of its post otherwise.\<close>

definition archive_item :: "pylib \<Rightarrow> feed_lib \<Rightarrow> (string \<Rightarrow> ('e, json) py) \<Rightarrow> string \<Rightarrow> bool \<Rightarrow> json \<Rightarrow> ('e, article option) py" where
  "archive_item plib lib fetch base public_only item = (case item of
      JObj d \<Rightarrow>
        if public_only \<and> dict_get d ''audience'' \<noteq> Some (JStr ''everyone'') then py_ret None
        else py_bind (fetch (post_url base (case dict_get d ''slug'' of None \<Rightarrow> [] | Some v \<Rightarrow> py_str plib v))) (\<lambda>post. case post of
            JObj p \<Rightarrow> py_bind (py_lift (is_paywalled lib p)) (\<lambda>paid. if paid then py_ret None
              else py_bind (py_lift (build_article lib p)) (\<lambda>a. py_ret (Some a)))
          | _ \<Rightarrow> py_ret None)
    | _ \<Rightarrow> py_raise (no_attribute item ''get''))"

fun archive_items ::
  "pylib \<Rightarrow> feed_lib \<Rightarrow> (string \<Rightarrow> ('e, json) py) \<Rightarrow> string \<Rightarrow> bool \<Rightarrow> int \<Rightarrow> json list \<Rightarrow> scrape_result list \<Rightarrow> ('e, scrape_result list) py" where
  "archive_items plib lib fetch base public_only limit [] rs = py_ret rs"
| "archive_items plib lib fetch base public_only limit (item # items) rs =
     (if int (length rs) \<ge> limit then py_ret rs
      else py_bind (archive_item plib lib fetch base public_only item) (\<lambda>found.
        archive_items plib lib fetch base public_only limit items (case found of None \<Rightarrow> rs | Some a \<Rightarrow> rs @ [curl_result a])))"

partial_function (option) archive_loop ::
  "pylib \<Rightarrow> feed_lib \<Rightarrow> (string \<Rightarrow> ('e, json) py) \<Rightarrow> substack_settings \<Rightarrow> string \<Rightarrow> int \<Rightarrow> string \<Rightarrow> nat \<Rightarrow> scrape_result list \<Rightarrow> 'e \<Rightarrow>
     ((exn + scrape_result list) \<times> 'e) option" where
  "archive_loop plib lib fetch st base limit order offset rs e =
     (if int (length rs) \<ge> limit then Some (Inr rs, e)
      else case fetch (archive_url base order offset (ub_page_size st)) e of (answer, e1) \<Rightarrow>
        (case answer of
           Inl x \<Rightarrow> Some (Inl x, e1)
         | Inr payload \<Rightarrow> (case payload of
             JList items \<Rightarrow>
               if items = [] then Some (Inr rs, e1)
               else case archive_items plib lib fetch base (ub_public_only st) limit items rs e1 of (found, e2) \<Rightarrow>
                 (case found of
                    Inl x \<Rightarrow> Some (Inl x, e2)
                  | Inr rs' \<Rightarrow> if int (length items) < ub_page_size st then Some (Inr rs', e2)
                      else archive_loop plib lib fetch st base limit order (offset + length items) rs' e2)
           | _ \<Rightarrow> Some (Inr rs, e1))))"

definition scrape_publication ::
  "pylib \<Rightarrow> feed_lib \<Rightarrow> (string \<Rightarrow> ('e, json) py) \<Rightarrow> substack_settings \<Rightarrow> string \<Rightarrow> int \<Rightarrow> string \<Rightarrow> 'e \<Rightarrow> ((exn + scrape_result list) \<times> 'e) option" where
  "scrape_publication plib lib fetch st pub limit order e = (case normalize_base pub of
      Inl x \<Rightarrow> Some (Inl x, e)
    | Inr base \<Rightarrow> map_option (\<lambda>(r, e'). (sum_bind r (\<lambda>rs. Inr (take (nat limit) rs)), e')) (archive_loop plib lib fetch st base limit order 0 [] e))"

section \<open>RSS and single posts\<close>

definition scrape_publication_via_rss ::
  "feed_lib \<Rightarrow> (string \<Rightarrow> ('e, string) py) \<Rightarrow> string \<Rightarrow> int \<Rightarrow> ('e, scrape_result list) py" where
  "scrape_publication_via_rss lib fetch_text pub limit =
     py_bind (py_lift (normalize_base pub)) (\<lambda>base.
     py_bind (fetch_text (base @ ''/feed'')) (\<lambda>xml. py_lift (parse_substack_feed lib limit min_content_length xml)))"

definition post_slug :: "string \<Rightarrow> string" where
  "post_slug path = (case split_on (CHR ''/'') (strip_by slash path) of
      a # b # rest \<Rightarrow> if a = ''p'' then b else last (a # b # rest)
    | [a] \<Rightarrow> a | [] \<Rightarrow> [])"

definition substack_error :: "string \<Rightarrow> scrape_result" where
  "substack_error m = (mk_result ''error'' ''curl_cffi'')\<lparr>sr_error := Some m\<rparr>"

definition substack_scrape :: "feed_lib \<Rightarrow> (string \<Rightarrow> ('e, json) py) \<Rightarrow> string \<Rightarrow> ('e, scrape_result) py" where
  "substack_scrape lib fetch url =
     py_bind (py_lift (normalize_base url)) (\<lambda>host.
     py_bind (py_lift (split_path url)) (\<lambda>path.
     py_bind (fetch (post_url host (post_slug path))) (\<lambda>post. case post of
         JObj p \<Rightarrow> py_bind (py_lift (is_paywalled lib p)) (\<lambda>paid. if paid then py_ret (substack_error ''paywalled'')
           else py_bind (py_lift (build_article lib p)) (\<lambda>a. py_ret (curl_result a)))
       | _ \<Rightarrow> py_ret (substack_error ''unexpected payload shape from Substack post endpoint''))))"

section \<open>What a publication gives\<close>

text \<open>A post that was not behind the paywall has at least 500 characters of text.\<close>

lemma build_article_long:
  assumes "is_paywalled lib p = Inr False" and "build_article lib p = Inr a"
  shows "int (length (ar_content a)) \<ge> 500 \<and> dict_get p ''audience'' \<noteq> Some (JStr ''only_paid'')"
proof -
  obtain body where body: "text_or p ''body_html'' [] = Inr body" "body \<noteq> []" "int (length (clean_html lib body)) \<ge> 500"
    "dict_get p ''audience'' \<noteq> Some (JStr ''only_paid'')"
    using assms(1) by (auto simp: is_paywalled_def sum_bind_Inr min_content_length_def split: if_splits)
  obtain c cs where c: "body = c # cs" using body(2) by (cases body) auto
  then have "get_or_null p ''body_html'' = JStr (c # cs)"
    using body(1) by (auto simp: text_or_def Let_def split: if_splits json.splits)
  then have "text_or_none p ''body_html'' = Inr (Some (c # cs))" by (simp add: text_or_none_def)
  then have "ar_content a = clean_html lib (c # cs)" using assms(2) by (auto simp: build_article_def sum_bind_Inr)
  then show ?thesis using body c by simp
qed

text \<open>
  A site that answers each URL in one way, \<open>site\<close>: its archive \<open>posts\<close> is served in slices, and each item
  has an outcome.
\<close>

definition pure_site :: "(string \<Rightarrow> exn + json) \<Rightarrow> string \<Rightarrow> ('e, json) py" where
  "pure_site site url e = (site url, e)"

definition item_outcome :: "pylib \<Rightarrow> feed_lib \<Rightarrow> (string \<Rightarrow> exn + json) \<Rightarrow> string \<Rightarrow> bool \<Rightarrow> json \<Rightarrow> exn + article option" where
  "item_outcome plib lib site base public_only item = fst (archive_item plib lib (pure_site site) base public_only item ())"

lemma archive_item_pure:
  "archive_item plib lib (pure_site site) base public_only item e = (item_outcome plib lib site base public_only item, e)"
  by (auto simp: item_outcome_def archive_item_def pure_site_def py_monad_defs py_lift_def split: json.splits sum.splits)

lemma item_outcome_public:
  assumes "item_outcome plib lib site base public_only item = Inr (Some a)"
  shows "int (length (ar_content a)) \<ge> 500 \<and> (public_only \<longrightarrow> (\<exists>d. item = JObj d \<and> dict_get d ''audience'' = Some (JStr ''everyone'')))"
proof -
  obtain d p where "item = JObj d" "public_only \<longrightarrow> dict_get d ''audience'' = Some (JStr ''everyone'')"
    "is_paywalled lib p = Inr False" "build_article lib p = Inr a"
    using assms by (auto simp: item_outcome_def archive_item_def pure_site_def py_monad_defs py_lift_def
        split: json.splits sum.splits if_splits)
  then show ?thesis using build_article_long by blast
qed

definition somes :: "'a option list \<Rightarrow> 'a list" where
  "somes xs = List.map_filter (\<lambda>x. x) xs"

lemma somes_simps [simp]: "somes [] = []" "somes (None # xs) = somes xs" "somes (Some a # xs) = a # somes xs" "somes (xs @ ys) = somes xs @ somes ys"
  by (simp_all add: somes_def map_filter_def)

lemma archive_items_pure:
  assumes "sum_traverse (item_outcome plib lib site base public_only) items = Inr os" and "int (length rs) \<le> limit"
  shows "archive_items plib lib (pure_site site) base public_only limit items rs e = (Inr (take (nat limit) (rs @ map curl_result (somes os))), e)"
  using assms
proof (induction items arbitrary: rs os)
  case (Cons i items)
  then obtain x ys where x: "item_outcome plib lib site base public_only i = Inr x"
    "sum_traverse (item_outcome plib lib site base public_only) items = Inr ys" "os = x # ys" by (auto simp: sum_bind_Inr)
  show ?case
  proof (cases "int (length rs) \<ge> limit")
    case True
    then have "length rs = nat limit" using Cons.prems(2) by simp
    then show ?thesis using True by (simp add: py_ret_def)
  next
    case False
    let ?rs = "case x of None \<Rightarrow> rs | Some a \<Rightarrow> rs @ [curl_result a]"
    have "int (length ?rs) \<le> limit" using False by (cases x) simp_all
    from Cons.IH [OF x(2) this]
    have "archive_items plib lib (pure_site site) base public_only limit items ?rs e = (Inr (take (nat limit) (?rs @ map curl_result (somes ys))), e)" .
    then show ?thesis using False x by (cases x) (simp_all add: py_bind_def archive_item_pure)
  qed
qed (simp add: py_ret_def)

lemma sum_traverse_append_Inr:
  "sum_traverse f (xs @ ys) = Inr zs \<Longrightarrow> \<exists>as bs. sum_traverse f xs = Inr as \<and> sum_traverse f ys = Inr bs \<and> zs = as @ bs"
proof (induction xs arbitrary: zs)
  case (Cons x xs)
  then obtain y ws where "f x = Inr y" "sum_traverse f (xs @ ys) = Inr ws" "zs = y # ws" by (auto simp: sum_bind_Inr)
  with Cons.IH [of ws] show ?case by (auto simp: sum_bind_Inr)
qed simp

lemma take_take_append: "take n (take n xs @ ys) = take n (xs @ ys)"
  by (cases "length xs \<le> n") simp_all

lemma archive_loop_pure:
  assumes "0 < ub_page_size st"
    and "\<And>offset. site (archive_url base order offset (ub_page_size st)) = Inr (JList (take (nat (ub_page_size st)) (drop offset posts)))"
    and "sum_traverse (item_outcome plib lib site base (ub_public_only st)) (drop offset posts) = Inr os" and "int (length rs) \<le> limit"
  shows "archive_loop plib lib (pure_site site) st base limit order offset rs e = Some (Inr (take (nat limit) (rs @ map curl_result (somes os))), e)"
  using assms(3,4)
proof (induction "length (drop offset posts)" arbitrary: offset rs os rule: less_induct)
  case less
  let ?page = "take (nat (ub_page_size st)) (drop offset posts)"
  have page: "pure_site site (archive_url base order offset (ub_page_size st)) e = (Inr (JList ?page), e)" by (simp add: pure_site_def assms(2))
  show ?case
  proof (cases "int (length rs) \<ge> limit")
    case True
    then have "length rs = nat limit" using less.prems(2) by simp
    then show ?thesis using True by (subst archive_loop.simps) simp
  next
    case False
    show ?thesis
    proof (cases "?page = []")
      case True
      then have "drop offset posts = []" using assms(1) by auto
      then have "os = []" using less.prems(1) by simp
      moreover have "archive_loop plib lib (pure_site site) st base limit order offset rs e = Some (Inr rs, e)"
        using False page True by (subst archive_loop.simps) simp
      ultimately show ?thesis using less.prems(2) by simp
    next
      case ne: False
      have "sum_traverse (item_outcome plib lib site base (ub_public_only st)) (?page @ drop (nat (ub_page_size st)) (drop offset posts)) = Inr os"
        using less.prems(1) by (simp only: append_take_drop_id)
      then obtain as bs where os: "sum_traverse (item_outcome plib lib site base (ub_public_only st)) ?page = Inr as"
        "sum_traverse (item_outcome plib lib site base (ub_public_only st)) (drop (nat (ub_page_size st)) (drop offset posts)) = Inr bs" "os = as @ bs"
        using sum_traverse_append_Inr by blast
      let ?rs = "take (nat limit) (rs @ map curl_result (somes as))"
      note items = archive_items_pure [OF os(1) less.prems(2), of e]
      have loop: "archive_loop plib lib (pure_site site) st base limit order offset rs e =
          (if int (length ?page) < ub_page_size st then Some (Inr ?rs, e)
           else archive_loop plib lib (pure_site site) st base limit order (offset + length ?page) ?rs e)"
        using False page ne items by (subst archive_loop.simps) simp
      show ?thesis
      proof (cases "int (length ?page) < ub_page_size st")
        case True
        then have "drop (nat (ub_page_size st)) (drop offset posts) = []" by auto
        then have "bs = []" using os(2) by simp
        then show ?thesis by (simp only: loop os(3) if_P [OF True] append_Nil2)
      next
        case full: False
        then have len: "length ?page = nat (ub_page_size st)" by auto
        then have d: "drop (offset + length ?page) posts = drop (nat (ub_page_size st)) (drop offset posts)" by (simp add: add.commute)
        have "length (drop (offset + length ?page) posts) < length (drop offset posts)" using ne by (auto simp: d)
        moreover have "sum_traverse (item_outcome plib lib site base (ub_public_only st)) (drop (offset + length ?page) posts) = Inr bs"
          using os(2) by (simp only: d)
        moreover have "int (length ?rs) \<le> limit" using False by auto
        ultimately have "archive_loop plib lib (pure_site site) st base limit order (offset + length ?page) ?rs e =
            Some (Inr (take (nat limit) (?rs @ map curl_result (somes bs))), e)" by (rule less.hyps)
        moreover have "take (nat limit) (?rs @ map curl_result (somes bs)) = take (nat limit) (rs @ map curl_result (somes os))"
          by (simp only: take_take_append os(3) somes_simps map_append append_assoc)
        ultimately show ?thesis by (simp only: loop if_not_P [OF full])
      qed
    qed
  qed
qed

text \<open>
  C26.  The scrape of a publication whose site serves its archive in slices: it returns, however long the
  archive is, with the first \<open>limit\<close> public posts in the order of the archive, none lost or repeated
  at a boundary of the slices; each has at least 500 characters of text, and with the default
  setting each was announced as public.
\<close>

theorem publication_archive:
  assumes "normalize_base pub = Inr base" and "0 < ub_page_size st"
    and "\<And>offset. site (archive_url base order offset (ub_page_size st)) = Inr (JList (take (nat (ub_page_size st)) (drop offset posts)))"
    and "sum_traverse (item_outcome plib lib site base (ub_public_only st)) posts = Inr os" and "0 \<le> limit"
  shows "scrape_publication plib lib (pure_site site) st pub limit order e = Some (Inr (map curl_result (take (nat limit) (somes os))), e) \<and>
    (\<forall>a \<in> set (somes os). int (length (ar_content a)) \<ge> 500) \<and>
    length (somes os) \<le> length (filter (\<lambda>i. \<not> ub_public_only st \<or> (\<exists>d. i = JObj d \<and> dict_get d ''audience'' = Some (JStr ''everyone''))) posts)"
proof (intro conjI)
  have "sum_traverse (item_outcome plib lib site base (ub_public_only st)) (drop 0 posts) = Inr os" using assms(4) by simp
  from archive_loop_pure [OF assms(2,3) this, where rs = "[]" and limit = limit and e = e] assms(5)
  show "scrape_publication plib lib (pure_site site) st pub limit order e = Some (Inr (map curl_result (take (nat limit) (somes os))), e)"
    by (simp add: scrape_publication_def assms(1) sum_bind_def take_map)
  have all: "list_all2 (\<lambda>i x. item_outcome plib lib site base (ub_public_only st) i = Inr x) posts os" by (rule sum_traverse_Inr [OF assms(4)])
  then show "\<forall>a \<in> set (somes os). int (length (ar_content a)) \<ge> 500"
    by (induction rule: list_all2_induct) (auto split: option.splits simp: somes_def map_filter_def dest: item_outcome_public)
  from all show "length (somes os) \<le> length (filter (\<lambda>i. \<not> ub_public_only st \<or> (\<exists>d. i = JObj d \<and> dict_get d ''audience'' = Some (JStr ''everyone''))) posts)"
  proof (induction rule: list_all2_induct)
    case (Cons i is' x xs)
    then show ?case using item_outcome_public [of plib lib site base "ub_public_only st" i] by (cases x) auto
  qed simp
qed

section \<open>Witness\<close>

definition demo_feed_lib :: feed_lib where
  "demo_feed_lib = \<lparr>fl_xml = (\<lambda>s. None), fl_text_strip = (\<lambda>s. s), fl_text = (\<lambda>s. s), fl_rfc_date = (\<lambda>s. Inl (ValueError [])),
     fl_iso_date = (\<lambda>s. Inl (ValueError []))\<rparr>"

definition demo_post :: pydict where
  "demo_post = [(''audience'', JStr ''everyone''), (''body_html'', JStr (replicate 500 (CHR ''x''))), (''canonical_url'', JStr ''https://a.b/p/one'')]"

definition demo_items :: "json list" where
  "demo_items = [JObj [(''audience'', JStr ''only_paid''), (''slug'', JStr ''two'')], JObj [(''audience'', JStr ''everyone''), (''slug'', JStr ''one'')]]"

definition demo_substack :: substack_settings where
  "demo_substack = \<lparr>ub_page_size = 12, ub_public_only = True, ub_custom_domains = []\<rparr>"

text \<open>An archive of a paid and a public post; any URL outside the archive is the public post.\<close>

definition demo_site :: "string \<Rightarrow> exn + json" where
  "demo_site url = (if url = archive_url ''https://a.b'' ''new'' 0 12 then Inr (JList demo_items)
     else if url = archive_url ''https://a.b'' ''new'' 1 12 then Inr (JList (tl demo_items))
     else if starts_with ''https://a.b/api/v1/archive'' url then Inr (JList []) else Inr (JObj demo_post))"

lemma archive_url_inj: "archive_url base order m k = archive_url base order n k \<longleftrightarrow> m = n"
proof
  assume "archive_url base order m k = archive_url base order n k"
  then have "nat_str m = nat_str n" by (simp add: archive_url_def)
  then show "m = n" by (metis nat_of_digits_nat_str)
qed simp

lemma demo_archive: "demo_site (archive_url ''https://a.b'' ''new'' n 12) = Inr (JList (take 12 (drop n demo_items)))"
proof -
  have "starts_with ''https://a.b/api/v1/archive'' (archive_url ''https://a.b'' ''new'' n 12)" by (simp add: archive_url_def)
  moreover consider "n = 0" | "n = 1" | "2 \<le> n" by linarith
  ultimately show ?thesis by cases (simp_all add: demo_site_def archive_url_inj demo_items_def)
qed

lemma demo_outcomes:
  "\<exists>a. sum_traverse (item_outcome demo_lib demo_feed_lib demo_site ''https://a.b'' True) demo_items = Inr [None, Some a] \<and> ar_url a = ''https://a.b/p/one''"
proof -
  have long: "length (clean_html demo_feed_lib (replicate 500 (CHR ''x''))) = 500" by code_simp
  have dom: "url_domain ''https://a.b/p/one'' = Inr ''a.b''" by code_simp
  have post: "demo_site (post_url ''https://a.b'' ''one'') = Inr (JObj demo_post)" by code_simp
  have body: "text_or demo_post ''body_html'' [] = Inr (replicate 500 (CHR ''x''))" by code_simp
  have "is_paywalled demo_feed_lib demo_post = Inr False"
    using long unfolding is_paywalled_def body by (simp add: demo_post_def dict_get_def sum_bind_def min_content_length_def)
  moreover have "\<exists>a. build_article demo_feed_lib demo_post = Inr a \<and> ar_url a = ''https://a.b/p/one''"
    using dom by (simp add: build_article_def demo_post_def text_or_none_def text_or_def text_default_def get_or_null_def dict_get_def
        byline_author_def post_date_def sum_bind_def)
  ultimately show ?thesis using post
    by (auto simp: demo_items_def item_outcome_def archive_item_def pure_site_def py_monad_defs py_lift_def dict_get_def sum_bind_def py_str_def)
qed

theorem publication_archive_witness:
  "\<exists>a. scrape_publication demo_lib demo_feed_lib (pure_site demo_site) demo_substack ''a.b'' 50 ''new'' () = Some (Inr [curl_result a], ()) \<and>
     ar_url a = ''https://a.b/p/one'' \<and> int (length (ar_content a)) \<ge> 500"
proof -
  obtain a where a: "sum_traverse (item_outcome demo_lib demo_feed_lib demo_site ''https://a.b'' True) demo_items = Inr [None, Some a]"
    "ar_url a = ''https://a.b/p/one''" using demo_outcomes by blast
  have base: "normalize_base ''a.b'' = Inr ''https://a.b''" by code_simp
  have st: "0 < ub_page_size demo_substack"
    "sum_traverse (item_outcome demo_lib demo_feed_lib demo_site ''https://a.b'' (ub_public_only demo_substack)) demo_items = Inr [None, Some a]"
    using a(1) by (simp_all add: demo_substack_def)
  have site: "demo_site (archive_url ''https://a.b'' ''new'' n (ub_page_size demo_substack)) =
      Inr (JList (take (nat (ub_page_size demo_substack)) (drop n demo_items)))" for n
    using demo_archive [of n] by (simp add: demo_substack_def)
  show ?thesis using publication_archive [OF base st(1) site st(2), of 50 "()"] a(2) by (intro exI [of _ a]) simp
qed

end
