(* ===== verification/Ingest_Jobs.thy ===== *)
theory Ingest_Jobs
  imports Substack Summarize_Worker Ingest_Worker
begin

text \<open>
  The ingestion jobs of the pipeline, \<open>pipeline/jobs.py\<close>: publications, subreddits and news feeds straight
  into Postgres.

  The scraper is injected: it is an argument that answers or raises, with a world of its own, or never
  returns (None).  \<open>Substack\<close>, \<open>Reddit\<close> and \<open>Feeds\<close> model the scrapers that the command line injects.
\<close>

section \<open>The jobs\<close>

type_synonym 'e answering = "'e \<Rightarrow> ((exn + scrape_result list) \<times> 'e) option"

text \<open>
  The inner loop: what is kept and not yet written by this sink is written.  The state is the ids the sink
  has written and the number of articles persisted; only the sink can raise.
\<close>

fun persist_results ::
  "(string \<Rightarrow> string) \<Rightarrow> (article \<Rightarrow> bool) \<Rightarrow> scrape_result list \<Rightarrow> progress \<Rightarrow> batch_world \<Rightarrow> (exn option \<times> progress) \<times> batch_world" where
  "persist_results sha keep [] p z = ((None, p), z)"
| "persist_results sha keep (r # rs) (seen, n) z = (case sr_article r of
      None \<Rightarrow> persist_results sha keep rs (seen, n) z
    | Some a \<Rightarrow>
        if sr_status r \<noteq> ''success'' \<or> \<not> keep a \<or> pg_seen sha (ar_url a) (seen, bw_db z)
        then persist_results sha keep rs (seen, n) z
        else (let z1 = z\<lparr>bw_clock := (\<lambda>k. bw_clock z (Suc k))\<rparr> in
          case pg_write sha (bw_clock z 0) r (seen, bw_db z) of
            (Inl e, (seen', d)) \<Rightarrow> ((Some e, (seen', n)), z1\<lparr>bw_db := d\<rparr>)
          | (Inr _, (seen', d)) \<Rightarrow> persist_results sha keep rs (seen', n + 1) (z1\<lparr>bw_db := d\<rparr>)))"

text \<open>The outer loop: \<open>catches\<close> says which exceptions of the scraper skip a source.\<close>

fun ingest_sources ::
  "(string \<Rightarrow> string) \<Rightarrow> (exn \<Rightarrow> bool) \<Rightarrow> (article \<Rightarrow> bool) \<Rightarrow> 'e answering list \<Rightarrow> progress \<Rightarrow> 'e \<times> batch_world \<Rightarrow>
     ((exn option \<times> progress) \<times> ('e \<times> batch_world)) option" where
  "ingest_sources sha catches keep [] p s = Some ((None, p), s)"
| "ingest_sources sha catches keep (scrape # rest) p (e, z) = (case scrape e of
      None \<Rightarrow> None
    | Some (Inl x, e') \<Rightarrow> if catches x then ingest_sources sha catches keep rest p (e', z) else Some ((Some x, p), (e', z))
    | Some (Inr results, e') \<Rightarrow> (case persist_results sha keep results p z of
        ((Some x, p'), z') \<Rightarrow> Some ((Some x, p'), (e', z'))
      | ((None, p'), z') \<Rightarrow> ingest_sources sha catches keep rest p' (e', z')))"

definition persisted_count :: "(exn option \<times> progress) \<times> 's \<Rightarrow> (exn + int) \<times> 's" where
  "persisted_count r = (case r of ((Some x, (seen, n)), s) \<Rightarrow> (Inl x, s) | ((None, (seen, n)), s) \<Rightarrow> (Inr n, s))"

definition ingest_publications ::
  "(string \<Rightarrow> string) \<Rightarrow> (string \<Rightarrow> int \<Rightarrow> 'e answering) \<Rightarrow> (string \<Rightarrow> int \<Rightarrow> 'e answering) \<Rightarrow> bool \<Rightarrow> int \<Rightarrow> string list \<Rightarrow>
     'e \<times> batch_world \<Rightarrow> ((exn + int) \<times> ('e \<times> batch_world)) option" where
  "ingest_publications sha scrape_rss scrape_api via_rss limit bases s =
     map_option persisted_count (ingest_sources sha is_scrapeforge_error (\<lambda>a. True)
       (map (\<lambda>base. if via_rss then scrape_rss base limit else scrape_api base limit) bases) ({}, 0) s)"

text \<open>Self-posts with text whose score, when it is a number, reaches the floor.\<close>

definition quality_post :: "int \<Rightarrow> article \<Rightarrow> bool" where
  "quality_post min_score a = (strip (ar_content a) \<noteq> [] \<and>
     (case int_value (get_or_null (ar_metadata a) ''score'') of Some score \<Rightarrow> score \<ge> min_score | None \<Rightarrow> True))"

definition ingest_subreddits ::
  "(string \<Rightarrow> string) \<Rightarrow> (string \<Rightarrow> int \<Rightarrow> string \<Rightarrow> 'e answering) \<Rightarrow> int \<Rightarrow> string \<Rightarrow> int \<Rightarrow> string list \<Rightarrow>
     'e \<times> batch_world \<Rightarrow> ((exn + int) \<times> ('e \<times> batch_world)) option" where
  "ingest_subreddits sha scrape limit order min_score subreddits s =
     map_option persisted_count (ingest_sources sha (\<lambda>x. True) (quality_post min_score)
       (map (\<lambda>sub. scrape sub limit order) subreddits) ({}, 0) s)"

definition ingest_news_feeds ::
  "(string \<Rightarrow> string) \<Rightarrow> (string \<Rightarrow> int \<Rightarrow> int \<Rightarrow> 'e answering) \<Rightarrow> int \<Rightarrow> int \<Rightarrow> string list \<Rightarrow>
     'e \<times> batch_world \<Rightarrow> ((exn + int) \<times> ('e \<times> batch_world)) option" where
  "ingest_news_feeds sha scrape limit min_chars feeds s =
     map_option persisted_count (ingest_sources sha (\<lambda>x. True) (\<lambda>a. True)
       (map (\<lambda>feed. scrape feed limit min_chars) feeds) ({}, 0) s)"

section \<open>What is kept\<close>

fun kept :: "(article \<Rightarrow> bool) \<Rightarrow> scrape_result list \<Rightarrow> article list" where
  "kept keep [] = []"
| "kept keep (r # rs) = (case sr_article r of
     Some a \<Rightarrow> if sr_status r = ''success'' \<and> keep a then a # kept keep rs else kept keep rs
   | None \<Rightarrow> kept keep rs)"

text \<open>What the sources answered, one after the other; None when one never returns.\<close>

fun answers_of :: "'e answering list \<Rightarrow> 'e \<Rightarrow> ((exn + scrape_result list) list \<times> 'e) option" where
  "answers_of [] e = Some ([], e)"
| "answers_of (scrape # rest) e = (case scrape e of
     None \<Rightarrow> None
   | Some (r, e') \<Rightarrow> map_option (\<lambda>(rs, e''). (r # rs, e'')) (answers_of rest e'))"

definition answered :: "(exn + scrape_result list) list \<Rightarrow> scrape_result list" where
  "answered rs = concat (map (case_sum (\<lambda>x. []) (\<lambda>r. r)) rs)"

lemma answered_simps [simp]: "answered [] = []" "answered (Inl x # rs) = answered rs" "answered (Inr r # rs) = r @ answered rs"
  by (simp_all add: answered_def)

lemma persist_append:
  "persist_results sha keep (rs @ rs') p z = (case persist_results sha keep rs p z of
     ((Some x, p'), z') \<Rightarrow> ((Some x, p'), z') | ((None, p'), z') \<Rightarrow> persist_results sha keep rs' p' z')"
proof (induction rs arbitrary: p z)
  case (Cons r rs)
  then show ?case by (cases p) (auto simp: Let_def split: option.splits sum.splits prod.splits)
qed simp

text \<open>
  When every exception of the scraper is caught, the loops are the inner loop over what the sources that
  answered gave.
\<close>

lemma ingest_all:
  assumes "answers_of scrapes e = Some (rs, e')" and "persist_results sha keep (answered rs) p z = ((x, p'), z')"
  shows "\<exists>e''. ingest_sources sha (\<lambda>x. True) keep scrapes p (e, z) = Some ((x, p'), (e'', z')) \<and> (x = None \<longrightarrow> e'' = e')"
  using assms
proof (induction scrapes arbitrary: e rs p z)
  case (Cons scrape scrapes)
  obtain r e1 rs1 where r: "scrape e = Some (r, e1)" "answers_of scrapes e1 = Some (rs1, e')" "rs = r # rs1"
    using Cons.prems(1) by (auto split: option.splits)
  show ?case
  proof (cases r)
    case (Inl y)
    with Cons.IH [OF r(2), of p z] Cons.prems(2) r show ?thesis by simp
  next
    case (Inr results)
    obtain x1 p1 z1 where p1: "persist_results sha keep results p z = ((x1, p1), z1)" by (metis prod.collapse)
    show ?thesis
    proof (cases x1)
      case None
      then show ?thesis using Cons.IH [OF r(2), of p1 z1] Cons.prems(2) r Inr p1 by (simp add: persist_append)
    next
      case (Some y)
      then show ?thesis using Cons.prems(2) r Inr p1 by (auto simp: persist_append)
    qed
  qed
qed simp


section \<open>What a run leaves\<close>

text \<open>What the text columns of the sink need of an article's metadata.\<close>

definition storable :: "article \<Rightarrow> bool" where
  "storable a = (\<exists>d b k. sink_domain a = Inr d \<and> sink_bucket a = Inr b \<and> sink_raw_key a = Inr k)"

lemma storable_row: "(\<exists>row. sink_row sha now r a = Inr row) = storable a"
  by (auto simp: sink_row_def storable_def split: sum.splits)

text \<open>The row of an article after a run: its text, and what the other jobs had computed for the row.\<close>

definition stored_as :: "db \<Rightarrow> db \<Rightarrow> string \<Rightarrow> article \<Rightarrow> bool" where
  "stored_as d d' i a = (\<exists>row. get_article i d' = Some row \<and> a_title row = ar_title a \<and> a_content row = ar_content a \<and>
     (\<forall>old. get_article i d = Some old \<longrightarrow> a_summary row = a_summary old \<and> a_relevance row = a_relevance old \<and> a_embedding row = a_embedding old))"

definition first_with :: "(string \<Rightarrow> string) \<Rightarrow> string \<Rightarrow> article list \<Rightarrow> article option" where
  "first_with sha i as = find (\<lambda>a. url_id sha (ar_url a) = i) as"

definition ids_of :: "(string \<Rightarrow> string) \<Rightarrow> article list \<Rightarrow> string set" where
  "ids_of sha as = (\<lambda>a. url_id sha (ar_url a)) ` set as"

lemma stored_upsert:
  assumes "sink_row sha now r a = Inr row"
  shows "stored_as d (upsert_article row d) (url_id sha (ar_url a)) a"
proof -
  note row = sink_row_id [OF assms]
  have "get_article (url_id sha (ar_url a)) (upsert_article row d) =
      Some (case get_article (url_id sha (ar_url a)) d of None \<Rightarrow> row | Some old \<Rightarrow> upsert_columns row old)"
    using get_upsert [of "url_id sha (ar_url a)" row d] row by simp
  then show ?thesis using row by (auto simp: stored_as_def upsert_columns_def split: option.splits)
qed

lemma stored_same: "get_article i d1 = get_article i d \<Longrightarrow> get_article i d2 = get_article i d' \<Longrightarrow> stored_as d1 d2 i a = stored_as d d' i a"
  by (simp add: stored_as_def)

definition persist_spec :: "(string \<Rightarrow> string) \<Rightarrow> article list \<Rightarrow> string set \<Rightarrow> int \<Rightarrow> batch_world \<Rightarrow> exn option \<Rightarrow> string set \<Rightarrow> int \<Rightarrow> batch_world \<Rightarrow> bool" where
  "persist_spec sha as seen n z x seen' n' z' =
     (db_ok (bw_db z') \<and> finite seen' \<and> db_jobs (bw_db z') = db_jobs (bw_db z) \<and> seen \<subseteq> seen' \<and> seen' \<subseteq> seen \<union> ids_of sha as \<and>
      n' - n = int (card seen') - int (card seen) \<and> (x = None \<longrightarrow> seen' = seen \<union> ids_of sha as) \<and>
      ((\<forall>a \<in> set as. storable a) \<longrightarrow> x = None) \<and>
      (\<forall>i. i \<notin> seen' - seen \<longrightarrow> get_article i (bw_db z') = get_article i (bw_db z)) \<and>
      (\<forall>i \<in> seen' - seen. \<exists>a. first_with sha i as = Some a \<and> stored_as (bw_db z) (bw_db z') i a))"

lemma persist_spec_Cons:
  assumes "persist_spec sha as (insert i seen) (n + 1) z2 x seen' n' z'" and "i \<notin> seen" and "finite seen"
    and "\<And>j. j \<noteq> i \<Longrightarrow> get_article j (bw_db z2) = get_article j (bw_db z)" and "stored_as (bw_db z) (bw_db z2) i a"
    and "url_id sha (ar_url a) = i" and "db_jobs (bw_db z2) = db_jobs (bw_db z)"
  shows "persist_spec sha (a # as) seen n z x seen' n' z'"
proof -
  note spec = assms(1) [unfolded persist_spec_def]
  have c: "card (insert i seen) = Suc (card seen)" using assms(2,3) by simp
  have ids: "ids_of sha (a # as) = insert i (ids_of sha as)" by (simp add: ids_of_def assms(6))
  have last: "get_article i (bw_db z') = get_article i (bw_db z2)" using spec by blast
  have other: "get_article j (bw_db z') = get_article j (bw_db z)" if "j \<notin> seen' - seen" for j
  proof -
    have "j \<noteq> i" "j \<notin> seen' - insert i seen" using that spec assms(2) by auto
    then show ?thesis using spec assms(4) by simp
  qed
  have new: "\<exists>b. first_with sha j (a # as) = Some b \<and> stored_as (bw_db z) (bw_db z') j b" if j: "j \<in> seen' - seen" for j
  proof (cases "j = i")
    case True
    then show ?thesis using assms(5,6) stored_same [OF refl last, of "bw_db z" a] by (simp add: first_with_def)
  next
    case False
    then have "j \<in> seen' - insert i seen" using j by simp
    then obtain b where "first_with sha j as = Some b" "stored_as (bw_db z2) (bw_db z') j b" using spec by blast
    then show ?thesis using False assms(6) stored_same [OF assms(4) [OF False] refl] by (auto simp: first_with_def)
  qed
  show ?thesis
    unfolding persist_spec_def ids using spec c other new assms(7) by auto
qed

lemma persist_effect:
  assumes "persist_results sha keep rs (seen, n) z = ((x, (seen', n')), z')" and "db_ok (bw_db z)" and "finite seen"
  shows "persist_spec sha (kept keep rs) seen n z x seen' n' z'"
  using assms
proof (induction rs arbitrary: seen n z)
  case Nil
  then show ?case by (auto simp: persist_spec_def ids_of_def)
next
  case (Cons r rs)
  consider (drop) "kept keep (r # rs) = kept keep rs" "persist_results sha keep (r # rs) (seen, n) z = persist_results sha keep rs (seen, n) z"
    | (keep) a where "sr_article r = Some a" "sr_status r = ''success''" "keep a" "kept keep (r # rs) = a # kept keep rs"
    by (cases "\<exists>a. sr_article r = Some a \<and> sr_status r = ''success'' \<and> keep a") (auto split: option.splits)
  then show ?case
  proof cases
    case drop
    then show ?thesis using Cons.IH [of seen n z] Cons.prems by simp
  next
    case keep
    let ?i = "url_id sha (ar_url a)"
    show ?thesis
    proof (cases "?i \<in> seen")
      case True
      then have "persist_results sha keep rs (seen, n) z = ((x, (seen', n')), z')" using Cons.prems(1) keep by (simp add: pg_seen_def)
      from Cons.IH [OF this Cons.prems(2,3)] True show ?thesis
        unfolding persist_spec_def keep(4) by (auto simp: ids_of_def first_with_def)
    next
      case new: False
      let ?z1 = "z\<lparr>bw_clock := (\<lambda>k. bw_clock z (Suc k))\<rparr>"
      show ?thesis
      proof (cases "sink_row sha (bw_clock z 0) r a")
        case (Inl e)
        then have "pg_write sha (bw_clock z 0) r (seen, bw_db z) = (Inl e, (seen, bw_db z))" using keep by (simp add: pg_write_def)
        then have eqs: "x = Some e" "seen' = seen" "n' = n" "z' = ?z1"
          using Cons.prems(1) keep new by (auto simp: pg_seen_def Let_def)
        have "\<not> storable a" using Inl storable_row [of sha "bw_clock z 0" r a] by auto
        then show ?thesis using Cons.prems(2,3) unfolding persist_spec_def keep(4) eqs by simp
      next
        case (Inr row)
        let ?d = "upsert_article row (bw_db z)"
        let ?z2 = "?z1\<lparr>bw_db := ?d\<rparr>"
        have "pg_write sha (bw_clock z 0) r (seen, bw_db z) = (Inr (), (insert ?i seen, ?d))"
          using pg_write_success [OF keep(2,1) Inr] by simp
        then have rest: "persist_results sha keep rs (insert ?i seen, n + 1) ?z2 = ((x, (seen', n')), z')"
          using Cons.prems(1) keep new by (simp add: pg_seen_def Let_def)
        have ok: "db_ok (bw_db ?z2)" using upsert_db_ok Cons.prems(2) by simp
        have ih: "persist_spec sha (kept keep rs) (insert ?i seen) (n + 1) ?z2 x seen' n' z'"
          using Cons.IH [OF rest ok] Cons.prems(3) by simp
        have id: "a_id row = ?i" using sink_row_id [OF Inr] by simp
        have same: "get_article j ?d = get_article j (bw_db z)" if "j \<noteq> ?i" for j using that get_upsert [of j row "bw_db z"] id by simp
        have st: "stored_as (bw_db z) (bw_db ?z2) ?i a" using stored_upsert [OF Inr] by simp
        show ?thesis
          unfolding keep(4) by (rule persist_spec_Cons [OF ih new Cons.prems(3) _ st]) (use same in simp_all)
      qed
    qed
  qed
qed


section \<open>Subreddits\<close>

text \<open>What the Reddit scraper answers can always be stored.\<close>

definition stored_result :: "scrape_result \<Rightarrow> bool" where
  "stored_result r = (\<exists>a. r = curl_result a \<and> storable a)"

lemma parse_post_storable: "parse_post lib v = Inr a \<Longrightarrow> storable a"
proof -
  assume run: "parse_post lib v = Inr a"
  then obtain data where v: "v = JObj data" by (cases v) (simp_all add: parse_post_def)
  obtain body link where link: "(if post_content data body = [] then external_link data else Inr []) = Inr link"
    "ar_metadata a = post_metadata data link"
    using run unfolding v parse_post_def json.case sum_bind_Inr by force
  have "link = [] \<or> (\<exists>u. link = [(''link_url'', JStr u)])"
    using link(1) by (auto simp: external_link_def sum_bind_Inr split: if_splits)
  then show ?thesis
    by (auto simp: link(2) post_metadata_def storable_def sink_domain_def sink_bucket_def sink_raw_key_def dict_get_def)
qed

lemma add_posts_storable:
  "add_posts lib limit cs rs = Inr rs' \<Longrightarrow> \<forall>r \<in> set rs. stored_result r \<Longrightarrow> \<forall>r \<in> set rs'. stored_result r"
proof (induction cs arbitrary: rs)
  case (Cons c cs)
  from Cons.prems(1) obtain d where c: "c = JObj d" by (cases c) auto
  show ?case
  proof (cases "dict_get d ''kind'' = Some (JStr ''t3'') \<and> \<not> int (length rs) \<ge> limit")
    case True
    then obtain data a where a: "parse_post lib data = Inr a" "add_posts lib limit cs (rs @ [curl_result a]) = Inr rs'"
      using Cons.prems(1) by (auto simp: c sum_bind_Inr)
    then have "\<forall>r \<in> set (rs @ [curl_result a]). stored_result r"
      using Cons.prems(2) parse_post_storable by (auto simp: stored_result_def)
    with Cons.IH [OF a(2)] show ?thesis by blast
  next
    case False
    then have "add_posts lib limit cs rs = Inr rs' \<or> rs' = rs" using Cons.prems(1) by (auto simp: c split: if_splits)
    then show ?thesis using Cons by auto
  qed
qed simp

lemma listing_page_storable:
  "listing_page lib limit count rs payload = Inr (rs', next) \<Longrightarrow> \<forall>r \<in> set rs. stored_result r \<Longrightarrow> \<forall>r \<in> set rs'. stored_result r"
proof -
  assume run: "listing_page lib limit count rs payload = Inr (rs', next)" and good: "\<forall>r \<in> set rs. stored_result r"
  obtain listing where l: "get_key ''data'' payload = Inr listing" using run by (auto simp: listing_page_def sum_bind_Inr)
  then obtain d where d: "listing = JObj d" using run by (cases listing) (auto simp: listing_page_def sum_bind_def)
  show ?thesis
  proof (cases "truthy (case dict_get d ''children'' of None \<Rightarrow> JList [] | Some v \<Rightarrow> v)")
    case True
    then obtain cs where "add_posts lib limit cs rs = Inr rs'"
      using run l d by (auto simp: listing_page_def sum_bind_Inr Let_def)
    then show ?thesis using good by (rule add_posts_storable)
  next
    case False
    then show ?thesis using run l d good by (simp add: listing_page_def sum_bind_def Let_def)
  qed
qed

lemma listing_loop_storable:
  assumes "listing_loop lib fetch subreddit order limit after count rs e = Some (Inr rs', e')" and "\<forall>r \<in> set rs. stored_result r"
  shows "\<forall>r \<in> set rs'. stored_result r"
proof -
  have "\<forall>rs' e'. out = (Inr rs', e') \<longrightarrow> (\<forall>r \<in> set rs'. stored_result r)"
    if "listing_loop lib fetch subreddit order limit after count rs e = Some out" "\<forall>r \<in> set rs. stored_result r" for out
    using that
  proof (induction rule: listing_loop.raw_induct [rotated, consumes 1, case_names step])
    case (step loop lib fetch subreddit order limit after count rs e out)
    obtain answer e1 where f: "fetch (listing_url lib subreddit order limit (length rs) count after) e = (answer, e1)" by fastforce
    consider "int (length rs) \<ge> limit" | x where "sum_bind answer (listing_page lib limit count rs) = Inl x" "\<not> int (length rs) \<ge> limit"
      | rs1 "next" where "sum_bind answer (listing_page lib limit count rs) = Inr (rs1, next)" "\<not> int (length rs) \<ge> limit"
      by (metis old.sum.exhaust surj_pair)
    then show ?case
    proof cases
      case 3
      then have good: "\<forall>r \<in> set rs1. stored_result r"
        using step(3) listing_page_storable by (auto simp: sum_bind_Inr)
      show ?thesis
      proof (cases "next")
        case None
        then show ?thesis using step(2) f 3 good by auto
      next
        case (Some c)
        obtain after' count' where c: "c = (after', count')" by fastforce
        have "loop lib fetch subreddit order limit after' count' rs1 e1 = Some out" using step(2) f 3 Some c by simp
        from step(1) [OF this good] show ?thesis .
      qed
    qed (use step f in auto)
  qed
  from this [OF assms] show ?thesis by simp
qed

lemma scrape_subreddit_storable:
  "scrape_subreddit lib fetch subreddit limit order e = Some (Inr rs, e') \<Longrightarrow> \<forall>r \<in> set rs. stored_result r"
  using listing_loop_storable [of lib fetch subreddit order limit JNull 0 "[]" e]
  by (fastforce simp: scrape_subreddit_def sum_bind_Inr dest: in_set_takeD)

lemma answers_storable:
  assumes "answers_of scrapes e = Some (rs, e')" and "\<And>scrape e r e'. scrape \<in> set scrapes \<Longrightarrow> scrape e = Some (Inr r, e') \<Longrightarrow> \<forall>x \<in> set r. stored_result x"
  shows "\<forall>r \<in> set (answered rs). stored_result r"
  using assms
proof (induction scrapes arbitrary: e rs)
  case (Cons scrape scrapes)
  obtain r e1 rs1 where r: "scrape e = Some (r, e1)" "answers_of scrapes e1 = Some (rs1, e')" "rs = r # rs1"
    using Cons.prems(1) by (auto split: option.splits)
  have rest: "\<forall>r \<in> set (answered rs1). stored_result r" by (rule Cons.IH [OF r(2)]) (meson Cons.prems(2) list.set_intros(2))
  show ?case
  proof (cases r)
    case (Inr x)
    then have "\<forall>y \<in> set x. stored_result y" using Cons.prems(2) [of scrape e x e1] r(1) by simp
    then show ?thesis using rest r Inr by auto
  qed (use rest r in simp)
qed simp

lemma kept_storable: "\<forall>r \<in> set rs. stored_result r \<Longrightarrow> \<forall>a \<in> set (kept keep rs). storable a"
  by (induction rs) (auto simp: stored_result_def curl_result_def split: option.splits)

text \<open>
  C19.  The Reddit job, with the Reddit scraper that it drives: whatever the API answers, as long as each
  listing ends, the run returns and never raises; a subreddit whose scrape raises counts for nothing and the
  others are ingested as if it were not there.  The articles stored are the self-posts with text whose
  score reaches the floor, each id once with the text of its first post, and their number is returned;
  what other jobs computed for a row stays, and no other row and no job changes.
\<close>

theorem ingest_subreddits_contract:
  assumes "answers_of (map (\<lambda>sub. scrape_subreddit lib fetch sub limit order) subs) e = Some (rs, e')" and "db_ok (bw_db z)"
    and "posts = kept (quality_post min_score) (answered rs)"
  shows "\<exists>z'. ingest_subreddits sha (scrape_subreddit lib fetch) limit order min_score subs (e, z) =
      Some (Inr (int (card (ids_of sha posts))), (e', z')) \<and>
    db_ok (bw_db z') \<and> db_jobs (bw_db z') = db_jobs (bw_db z) \<and>
    (\<forall>i \<in> ids_of sha posts. \<exists>a. first_with sha i posts = Some a \<and> stored_as (bw_db z) (bw_db z') i a) \<and>
    (\<forall>i. i \<notin> ids_of sha posts \<longrightarrow> get_article i (bw_db z') = get_article i (bw_db z))"
proof -
  obtain x seen n z' where run: "persist_results sha (quality_post min_score) (answered rs) ({}, 0) z = ((x, (seen, n)), z')"
    by (metis prod.collapse)
  have "\<forall>r \<in> set (answered rs). stored_result r"
    using answers_storable [OF assms(1)] scrape_subreddit_storable by fastforce
  then have good: "\<forall>a \<in> set posts. storable a" unfolding assms(3) by (rule kept_storable)
  have spec: "persist_spec sha posts {} 0 z x seen n z'" using persist_effect [OF run assms(2)] by (simp add: assms(3))
  then have x: "x = None" "seen = ids_of sha posts" "n = int (card (ids_of sha posts))" using good by (auto simp: persist_spec_def)
  obtain e'' where "ingest_sources sha (\<lambda>x. True) (quality_post min_score) (map (\<lambda>sub. scrape_subreddit lib fetch sub limit order) subs) ({}, 0) (e, z) =
      Some ((x, (seen, n)), (e'', z'))" "e'' = e'" using ingest_all [OF assms(1) run] x(1) by blast
  then have "ingest_subreddits sha (scrape_subreddit lib fetch) limit order min_score subs (e, z) =
      Some (Inr (int (card (ids_of sha posts))), (e', z'))" by (simp add: ingest_subreddits_def persisted_count_def x)
  then show ?thesis using spec unfolding persist_spec_def x by (intro exI [of _ z']) simp
qed


section \<open>Publications\<close>

lemma ingest_append:
  "ingest_sources sha catches keep (xs @ ys) p s = (case ingest_sources sha catches keep xs p s of
     None \<Rightarrow> None | Some ((Some x, p'), s') \<Rightarrow> Some ((Some x, p'), s') | Some ((None, p'), s') \<Rightarrow> ingest_sources sha catches keep ys p' s')"
proof (induction xs arbitrary: p s)
  case (Cons scrape xs)
  obtain e z where "s = (e, z)" by fastforce
  with Cons show ?case by (auto split: option.splits sum.splits prod.splits)
qed (simp split: prod.splits)

lemma persisted_count_Inr: "persisted_count r = (Inr n, s) \<longleftrightarrow> (\<exists>seen. r = ((None, (seen, n)), s))"
  by (auto simp: persisted_count_def split: prod.splits option.splits)

definition rss_answer :: "feed_lib \<Rightarrow> (string \<Rightarrow> ('e, string) py) \<Rightarrow> string \<Rightarrow> int \<Rightarrow> 'e answering" where
  "rss_answer lib fetch_text base limit e = Some (scrape_publication_via_rss lib fetch_text base limit e)"

text \<open>A publication whose scrape raises: skipped for the exceptions of the program, the end of the run for others.\<close>

lemma publication_raises:
  assumes "ingest_publications sha (rss_answer lib fetch_text) api True limit done (e, z) = Some (Inr n, (e1, z1))"
    and "scrape_publication_via_rss lib fetch_text bad limit e1 = (Inl x, e2)" and "\<not> is_scrapeforge_error x"
  shows "ingest_publications sha (rss_answer lib fetch_text) api True limit (done @ bad # rest) (e, z) = Some (Inl x, (e2, z1))"
proof -
  obtain seen where "ingest_sources sha is_scrapeforge_error (\<lambda>a. True) (map (\<lambda>base. rss_answer lib fetch_text base limit) done) ({}, 0) (e, z) =
      Some ((None, (seen, n)), (e1, z1))"
    using assms(1) by (auto simp: ingest_publications_def persisted_count_Inr simp del: split_paired_Ex)
  then show ?thesis
    using assms(2,3) by (simp add: ingest_publications_def ingest_append rss_answer_def persisted_count_def)
qed

text \<open>
  C27.  The job's promise that one publication's failure does not abort the run fails: an item whose link has
  an unbalanced bracket in its host makes the RSS parser raise a \<open>ValueError\<close>, which the job does not
  catch.  The run raises it, with what the publications before had stored, and asks no publication after it.
\<close>

theorem publications_aborted:
  assumes "ingest_publications sha (rss_answer lib fetch_text) api True limit done (e, z) = Some (Inr n, (e1, z1))"
    and "normalize_base bad = Inr base" and "fetch_text (base @ ''/feed'') e1 = (Inr xml, e2)" and "fl_xml lib xml = Some (item # items)"
    and "el_text (ri_link item) \<noteq> []" and "url_domain (el_text (ri_link item)) = Inl (ValueError m)"
    and "length (clean_html lib (el_raw (ri_encoded item))) \<ge> 500" and "el_raw (ri_encoded item) \<noteq> []"
    and "item_date lib (el_text (ri_pub_date item)) = Inr d" and "0 < limit"
  shows "ingest_publications sha (rss_answer lib fetch_text) api True limit (done @ bad # rest) (e, z) = Some (Inl (ValueError m), (e2, z1))"
proof (rule publication_raises [OF assms(1)])
  have "feed_article lib ''community'' (el_raw (ri_encoded item)) (clean_html lib (el_raw (ri_encoded item))) item = Inl (ValueError m)"
    using assms(6,9) by (simp add: feed_article_def sum_bind_def)
  then have "parse_substack_feed lib limit min_content_length xml = Inl (ValueError m)"
    using assms(4,5,7,8,10) by (simp add: parse_substack_feed_def min_content_length_def sum_bind_def Let_def)
  then show "scrape_publication_via_rss lib fetch_text bad limit e1 = (Inl (ValueError m), e2)"
    using assms(2,3) by (simp add: scrape_publication_via_rss_def py_monad_defs py_lift_def)
qed simp

section \<open>Witnesses\<close>

definition bracket_item :: rss_item where
  "bracket_item = \<lparr>ri_link = Some (Some ''https://[x/p''), ri_title = None, ri_pub_date = None,
     ri_encoded = Some (Some (replicate 500 (CHR ''x''))), ri_description = None, ri_creator = None\<rparr>"

definition bracket_lib :: feed_lib where
  "bracket_lib = demo_feed_lib\<lparr>fl_xml := (\<lambda>s. Some [bracket_item])\<rparr>"

theorem publications_aborted_witness:
  "ingest_publications toy_sha (rss_answer bracket_lib (\<lambda>url n. (Inr [], n + 1))) (\<lambda>b l e. None) True 25 ([] @ ''a.b'' # [''c.d'']) (0, sum_demo) =
     Some (Inl (ValueError ''Invalid IPv6 URL''), (1 :: nat, sum_demo))"
proof (rule publications_aborted)
  show "ingest_publications toy_sha (rss_answer bracket_lib (\<lambda>url n. (Inr [], n + 1))) (\<lambda>b l e. None) True 25 [] (0, sum_demo) =
      Some (Inr 0, (0 :: nat, sum_demo))" by (simp add: ingest_publications_def persisted_count_def)
  show "normalize_base ''a.b'' = Inr ''https://a.b''" by code_simp
  show "url_domain (el_text (ri_link bracket_item)) = Inl (ValueError ''Invalid IPv6 URL'')" by code_simp
  show "el_text (ri_link bracket_item) \<noteq> []" by code_simp
  have "length (clean_html demo_feed_lib (replicate 500 (CHR ''x''))) = 500" by code_simp
  then show "length (clean_html bracket_lib (el_raw (ri_encoded bracket_item))) \<ge> 500"
    by (simp add: bracket_lib_def clean_html_def bracket_item_def el_raw_def)
  show "item_date bracket_lib (el_text (ri_pub_date bracket_item)) = Inr None" by code_simp
qed (simp_all add: bracket_lib_def bracket_item_def el_raw_def)

text \<open>One subreddit is blocked, the other has a post with text and a link post.\<close>

definition low_child :: json where
  "low_child = JObj [(''kind'', JStr ''t3''), (''data'', JObj [(''title'', JStr ''x''), (''permalink'', JStr ''/x'')])]"

definition two_subs :: "string \<Rightarrow> (nat, json) py" where
  "two_subs url n = (if n = 0 then Inl (DriverError ''HTTP 403'') else Inr (demo_payload [demo_child ''t3'' ''/a'', low_child] JNull), n + 1)"

theorem ingest_subreddits_contract_witness:
  "\<exists>z'. ingest_subreddits toy_sha (scrape_subreddit demo_lib two_subs) 20 ''hot'' 25 [''a'', ''b''] (0, sum_demo) = Some (Inr 1, (2, z'))"
proof -
  obtain low where low: "sum_bind (get_key ''data'' low_child) (parse_post demo_lib) = Inr low" "ar_content low = []"
    by (simp add: low_child_def get_key_def sum_bind_def parse_post_def text_or_def text_or_none_def get_or_null_def
      dict_get_def post_content_def external_link_def)
  have page: "is_page demo_lib (demo_payload [demo_child ''t3'' ''/a'', low_child] JNull) [demo_child ''t3'' ''/a'', low_child]
      [demo_article_of ''/a'', low] JNull"
    using low(1) demo_child_parse [of "''/a''" "''t3''" demo_lib]
    by (simp add: is_page_def demo_payload_def get_key_def dict_get_def get_or_null_def is_t3_def demo_child_def low_child_def sum_bind_def)
  have loop0: "scrape_subreddit demo_lib two_subs ''a'' 20 ''hot'' 0 = Some (Inl (DriverError ''HTTP 403''), 1)"
    unfolding scrape_subreddit_def by (subst listing_loop.simps) (simp add: two_subs_def sum_bind_def)
  have loop1: "scrape_subreddit demo_lib two_subs ''b'' 20 ''hot'' 1 = Some (Inr [curl_result (demo_article_of ''/a''), curl_result low], 2)"
    unfolding scrape_subreddit_def using listing_page_is_page [OF page, of "[]" 20 0]
    by (subst listing_loop.simps) (simp add: two_subs_def sum_bind_def)
  have ans: "answers_of (map (\<lambda>sub. scrape_subreddit demo_lib two_subs sub 20 ''hot'') [''a'', ''b'']) 0 =
      Some ([Inl (DriverError ''HTTP 403''), Inr [curl_result (demo_article_of ''/a''), curl_result low]], 2)"
    by (simp add: loop0 loop1 flip: One_nat_def)
  have posts: "[demo_article_of ''/a''] = kept (quality_post 25) (answered [Inl (DriverError ''HTTP 403''), Inr [curl_result (demo_article_of ''/a''), curl_result low]])"
    using low(2) by (simp add: curl_result_def mk_result_def quality_post_def demo_article_of_def post_metadata_def get_or_null_def dict_get_def
        int_value_def strip_by_def rstrip_by_def lstrip_by_def is_space_def)
  from ingest_subreddits_contract [OF ans sum_demo_ok posts, of toy_sha] show ?thesis by (auto simp: ids_of_def)
qed

end
