(* ===== verification/Sources.thy ===== *)
theory Sources
  imports Scheduler Ingest_Worker Substack "HOL-Library.Multiset"
begin

text \<open>
  The curated sources: publications (\<open>scrapers/community/substack_sources.py\<close>), subreddits
  (\<open>reddit_sources.py\<close>) and news feeds (\<open>scrapers/public/news_sources.py\<close>), their selection, and the
  seeding of the \<open>sources\<close> table from which the scheduler reads.
\<close>

section \<open>Selection\<close>

text \<open>The keys of a \<open>dict\<close> filled by \<open>setdefault\<close>: each label once, in the order of its first use.\<close>

fun first_seen :: "'k list \<Rightarrow> 'k list \<Rightarrow> 'k list" where
  "first_seen seen [] = seen"
| "first_seen seen (x # xs) = first_seen (if x \<in> set seen then seen else seen @ [x]) xs"

text \<open>\<open>items[:limit]\<close>; a negative limit drops from the end.\<close>

definition py_take :: "int \<Rightarrow> 'a list \<Rightarrow> 'a list" where
  "py_take n xs = (if n < 0 then take (nat (int (length xs) + n)) xs else take (nat n) xs)"

definition with_label :: "('a \<Rightarrow> string) \<Rightarrow> 'a list \<Rightarrow> string \<Rightarrow> 'a list" where
  "with_label f xs l = filter (\<lambda>x. f x = l) xs"

definition pick :: "('a \<Rightarrow> string) \<Rightarrow> 'a list \<Rightarrow> string option \<Rightarrow> int option \<Rightarrow> 'a list" where
  "pick f xs sector limit =
     (let items = (case sector of None \<Rightarrow> xs | Some l \<Rightarrow> with_label f xs l) in case limit of None \<Rightarrow> items | Some n \<Rightarrow> py_take n items)"

section \<open>The lists\<close>

record substack_source =
  sb_name :: string
  sb_base :: string
  sb_sector :: string
  sb_paywall :: bool

definition substack_source :: "string \<Rightarrow> string \<Rightarrow> string \<Rightarrow> bool \<Rightarrow> substack_source" where
  "substack_source name base sector paywall = \<lparr>sb_name = name, sb_base = base, sb_sector = sector, sb_paywall = paywall\<rparr>"

definition sb_url :: "substack_source \<Rightarrow> string" where
  "sb_url s = ''https://'' @ sb_base s"

definition substack_investing_sources :: "substack_source list" where
  "substack_investing_sources = [
    substack_source ''SemiAnalysis'' ''newsletter.semianalysis.com'' ''Semiconductors'' True,
    substack_source ''Fabricated Knowledge'' ''www.fabricatedknowledge.com'' ''Semiconductors'' True,
    substack_source ''Chipstrat'' ''www.chipstrat.com'' ''Semiconductors'' False,
    substack_source ''The Chip Letter'' ''thechipletter.substack.com'' ''Semiconductors'' False,
    substack_source ''Asianometry'' ''www.asianometry.com'' ''Semiconductors'' False,
    substack_source ''App Economy Insights'' ''www.appeconomyinsights.com'' ''Software & Internet'' False,
    substack_source ''Clouded Judgement'' ''cloudedjudgement.substack.com'' ''Software & Internet'' False,
    substack_source ''The Wolf of Harcourt Street'' ''www.thewolfofharcourtstreet.com'' ''Software & Internet'' False,
    substack_source ''Rijnberk InvestInsights'' ''rijnberkinvestinsights.substack.com'' ''Software & Internet'' False,
    substack_source ''TechFund'' ''www.techinvestments.io'' ''Software & Internet'' True,
    substack_source ''Not Boring'' ''www.notboring.co'' ''Software & Internet'' True,
    substack_source ''MBI Deep Dives'' ''mbideepdives.substack.com'' ''Equity Research'' True,
    substack_source ''StockOpine'' ''www.stockopine.com'' ''Equity Research'' False,
    substack_source ''TSOH Investment Research'' ''thescienceofhitting.com'' ''Equity Research'' True,
    substack_source ''Best Anchor Stocks'' ''www.bestanchorstocks.com'' ''Equity Research'' True,
    substack_source ''Yet Another Value Blog'' ''www.yetanothervalueblog.com'' ''Equity Research'' False,
    substack_source ''Kingswell'' ''www.kingswell.io'' ''Equity Research'' False,
    substack_source ''The Intrinsic Investor'' ''theintrinsicinvestor.substack.com'' ''Equity Research'' False,
    substack_source ''Invariant'' ''invariant.substack.com'' ''Equity Research'' False,
    substack_source ''Clark Square Capital'' ''www.clarksquarecapital.com'' ''Equity Research'' True,
    substack_source ''Eagle Point Capital'' ''eaglepointcapital.substack.com'' ''Equity Research'' False,
    substack_source ''Special Situation Investing'' ''specialsituationinvesting.substack.com'' ''Equity Research'' False,
    substack_source ''Investment Talk'' ''www.investmenttalk.co'' ''Equity Research'' False,
    substack_source ''The Finance Corner'' ''thefinancecorner.substack.com'' ''Equity Research'' False,
    substack_source ''Citrini Research'' ''www.citriniresearch.com'' ''Growth & Thematic'' True,
    substack_source ''Growth Stock Deep Dives'' ''growthstockdeepdives.substack.com'' ''Growth & Thematic'' False,
    substack_source ''The Generalist'' ''www.generalist.com'' ''Growth & Thematic'' True,
    substack_source ''The Bear Cave'' ''thebearcave.substack.com'' ''Forensic & Short'' False,
    substack_source ''NonGAAP Investing'' ''www.nongaap.com'' ''Forensic & Short'' True,
    substack_source ''Security Analysis'' ''www.securityanalysis.org'' ''Forensic & Short'' True,
    substack_source ''Net Interest'' ''www.netinterest.co'' ''Financials & Fintech'' True,
    substack_source ''Fintech Business Weekly'' ''fintechbusinessweekly.substack.com'' ''Financials & Fintech'' True,
    substack_source ''The Fintech Blueprint'' ''thefintechblueprint.substack.com'' ''Financials & Fintech'' False,
    substack_source ''Doomberg'' ''newsletter.doomberg.com'' ''Energy & Industrials'' True,
    substack_source ''HFI Research'' ''www.hfir.com'' ''Energy & Industrials'' True,
    substack_source ''Open Insights'' ''www.openinsightscap.com'' ''Energy & Industrials'' False,
    substack_source ''Super-Spiked (Arjun Murti)'' ''arjunmurti.substack.com'' ''Energy & Industrials'' False,
    substack_source ''Construction Physics'' ''www.construction-physics.com'' ''Energy & Industrials'' True,
    substack_source ''BowTiedBiotech'' ''bowtiedbiotech.substack.com'' ''Biotech & Healthcare'' True,
    substack_source ''Matt Gamber's Biotech'' ''mattbiotech.substack.com'' ''Biotech & Healthcare'' True,
    substack_source ''Biotech Blueprint'' ''www.biotechblueprint.com'' ''Biotech & Healthcare'' False,
    substack_source ''Biotech Analysis: 0 to 1'' ''adus.substack.com'' ''Biotech & Healthcare'' False,
    substack_source ''Hartaj Singh (pharma)'' ''hartajsingh1.substack.com'' ''Biotech & Healthcare'' False,
    substack_source ''Naavik (games industry)'' ''naavik.substack.com'' ''Sector Specialists'' False,
    substack_source ''The Merge (defense)'' ''themerge.substack.com'' ''Sector Specialists'' False,
    substack_source ''DeFi Education'' ''defieducation.substack.com'' ''Sector Specialists'' True,
    substack_source ''CleanTechnica'' ''cleantechnica.substack.com'' ''Sector Specialists'' True,
    substack_source ''Snaxshot (CPG)'' ''www.snaxshot.com'' ''Sector Specialists'' False,
    substack_source ''Baiguan (China business)'' ''www.baiguan.news'' ''Global & Big Tech'' True,
    substack_source ''Big Technology'' ''www.bigtechnology.com'' ''Global & Big Tech'' False]"

definition substack_sectors :: "string list" where
  "substack_sectors = first_seen [] (map sb_sector substack_investing_sources)"

definition substack_by_sector :: "string \<Rightarrow> substack_source list" where
  "substack_by_sector sector = with_label sb_sector substack_investing_sources sector"

definition select_sources :: "string option \<Rightarrow> int option \<Rightarrow> substack_source list" where
  "select_sources sector limit = pick sb_sector substack_investing_sources sector limit"

record reddit_source =
  rd_name :: string
  rd_subreddit :: string
  rd_sector :: string

definition reddit_source :: "string \<Rightarrow> string \<Rightarrow> string \<Rightarrow> reddit_source" where
  "reddit_source name subreddit sector = \<lparr>rd_name = name, rd_subreddit = subreddit, rd_sector = sector\<rparr>"

definition reddit_investing_subreddits :: "reddit_source list" where
  "reddit_investing_subreddits = [
    reddit_source ''r/investing'' ''investing'' ''Investing'',
    reddit_source ''r/stocks'' ''stocks'' ''Investing'',
    reddit_source ''r/SecurityAnalysis'' ''SecurityAnalysis'' ''Investing'',
    reddit_source ''r/ValueInvesting'' ''ValueInvesting'' ''Investing'',
    reddit_source ''r/StockMarket'' ''StockMarket'' ''Investing'',
    reddit_source ''r/Bogleheads'' ''Bogleheads'' ''Investing'',
    reddit_source ''r/dividends'' ''dividends'' ''Investing'',
    reddit_source ''r/options'' ''options'' ''Trading & Quant'',
    reddit_source ''r/wallstreetbets'' ''wallstreetbets'' ''Trading & Quant'',
    reddit_source ''r/algotrading'' ''algotrading'' ''Trading & Quant'',
    reddit_source ''r/quant'' ''quant'' ''Trading & Quant'',
    reddit_source ''r/economics'' ''economics'' ''Macro & Finance'',
    reddit_source ''r/finance'' ''finance'' ''Macro & Finance'',
    reddit_source ''r/artificial'' ''artificial'' ''AI & Tech'',
    reddit_source ''r/MachineLearning'' ''MachineLearning'' ''AI & Tech'',
    reddit_source ''r/LocalLLaMA'' ''LocalLLaMA'' ''AI & Tech'',
    reddit_source ''r/hardware'' ''hardware'' ''AI & Tech'',
    reddit_source ''r/technology'' ''technology'' ''AI & Tech'']"

definition reddit_sectors :: "string list" where
  "reddit_sectors = first_seen [] (map rd_sector reddit_investing_subreddits)"

definition reddit_by_sector :: "string \<Rightarrow> reddit_source list" where
  "reddit_by_sector sector = with_label rd_sector reddit_investing_subreddits sector"

definition select_subreddits :: "string option \<Rightarrow> int option \<Rightarrow> reddit_source list" where
  "select_subreddits sector limit = pick rd_sector reddit_investing_subreddits sector limit"

record news_feed =
  nf_name :: string
  nf_feed_url :: string
  nf_sector :: string

definition news_feed :: "string \<Rightarrow> string \<Rightarrow> string \<Rightarrow> news_feed" where
  "news_feed name feed_url sector = \<lparr>nf_name = name, nf_feed_url = feed_url, nf_sector = sector\<rparr>"

definition news_rss_feeds :: "news_feed list" where
  "news_rss_feeds = [
    news_feed ''TechCrunch'' ''https://techcrunch.com/feed/'' ''Tech & Startups'',
    news_feed ''Crunchbase News'' ''https://news.crunchbase.com/feed/'' ''Funding & VC'',
    news_feed ''VentureBeat'' ''https://venturebeat.com/feed/'' ''Tech & Startups'',
    news_feed ''Ars Technica'' ''https://feeds.arstechnica.com/arstechnica/index'' ''Tech & Startups'',
    news_feed ''CNBC Top News'' ''https://search.cnbc.com/rs/search/combinedcms/view.xml?partnerId=wrss01&id=100003114'' ''Markets & Finance'',
    news_feed ''MarketWatch Top Stories'' ''https://feeds.content.dowjones.io/public/rss/mw_topstories'' ''Markets & Finance'']"

definition news_sectors :: "string list" where
  "news_sectors = first_seen [] (map nf_sector news_rss_feeds)"

definition news_by_sector :: "string \<Rightarrow> news_feed list" where
  "news_by_sector sector = with_label nf_sector news_rss_feeds sector"

definition select_feeds :: "string option \<Rightarrow> int option \<Rightarrow> news_feed list" where
  "select_feeds sector limit = pick nf_sector news_rss_feeds sector limit"

section \<open>Seeding\<close>

text \<open>
  One statement inserts every row, and an existing name is updated.  A new row draws its id from the
  sequence of the column, \<open>ids\<close>, whether it is used or not; a statement that would touch a name twice is
  refused by the server.
\<close>

definition seed_name :: "substack_source \<Rightarrow> string" where
  "seed_name s = ''substack:'' @ sb_base s"

definition source_seed :: "int \<Rightarrow> bool \<Rightarrow> int \<Rightarrow> substack_source \<Rightarrow> source_row" where
  "source_seed limit enabled i s = \<lparr>s_id = i, s_name = seed_name s, s_bucket = ''community'',
     s_params = [(''url'', JStr (sb_base s)), (''platform'', JStr ''substack''), (''limit'', JInt limit)],
     s_cron = None, s_enabled = enabled\<rparr>"

definition update_source :: "source_row \<Rightarrow> source_row \<Rightarrow> source_row" where
  "update_source new old = old\<lparr>s_bucket := s_bucket new, s_params := s_params new, s_cron := s_cron new, s_enabled := s_enabled new\<rparr>"

definition insert_sources :: "source_row list \<Rightarrow> (db, unit) py" where
  "insert_sources rows d =
     (if distinct (map s_name rows) then (Inr (), d\<lparr>db_sources := fold (upsert_by s_name update_source) rows (db_sources d)\<rparr>)
      else (Inl (OtherError ''CardinalityViolationError''), d))"

definition seed_rows :: "(nat \<Rightarrow> int) \<Rightarrow> int \<Rightarrow> bool \<Rightarrow> source_row list" where
  "seed_rows ids limit enabled = map (\<lambda>(k, s). source_seed limit enabled (ids k) s) (List.enumerate 0 substack_investing_sources)"

definition seed_sources :: "(nat \<Rightarrow> int) \<Rightarrow> int \<Rightarrow> bool \<Rightarrow> (db, nat) py" where
  "seed_sources ids limit enabled = py_bind (insert_sources (seed_rows ids limit enabled)) (\<lambda>_. py_ret (length (seed_rows ids limit enabled)))"

section \<open>What the selection gives\<close>

lemma first_seen_set: "set (first_seen seen xs) = set seen \<union> set xs"
  by (induction seen xs rule: first_seen.induct) auto

lemma first_seen_distinct: "distinct seen \<Longrightarrow> distinct (first_seen seen xs)"
  by (induction seen xs rule: first_seen.induct) auto

lemma labels_partition: "distinct ls \<Longrightarrow> f ` set xs \<subseteq> set ls \<Longrightarrow> mset (concat (map (with_label f xs) ls)) = mset xs"
proof (induction ls arbitrary: xs)
  case (Cons l ls)
  let ?rest = "filter (\<lambda>x. f x \<noteq> l) xs"
  have "with_label f xs m = with_label f ?rest m" if "m \<in> set ls" for m
    using that Cons.prems(1) by (auto simp: with_label_def intro: filter_cong)
  then have eq: "map (with_label f xs) ls = map (with_label f ?rest) ls" by simp
  have "mset (concat (map (with_label f ?rest) ls)) = mset ?rest" using Cons.prems by (intro Cons.IH) auto
  then have "mset (concat (map (with_label f xs) (l # ls))) = mset (filter (\<lambda>x. f x = l) xs) + mset ?rest"
    unfolding list.map(2) concat.simps mset_append eq by (simp add: with_label_def)
  also have "\<dots> = mset xs" by (induction xs) auto
  finally show ?case .
qed simp


lemma curated_bases: "distinct (map sb_base substack_investing_sources)" "length substack_investing_sources = 50"
  by code_simp+

text \<open>The hosts are what the scraper makes of them: \<open>url\<close> of a source is its normalized base.\<close>

lemma curated_hosts: "\<forall>s \<in> set substack_investing_sources. normalize_base (sb_base s) = Inr (sb_url s)"
  by code_simp

lemma curated_nonempty: "\<forall>s \<in> set substack_investing_sources. sb_base s \<noteq> []"
  by code_simp

lemma curated_groups:
  "concat (map substack_by_sector substack_sectors) = substack_investing_sources"
  "concat (map reddit_by_sector reddit_sectors) = reddit_investing_subreddits"
  by code_simp+

lemma news_groups: "mset (concat (map news_by_sector news_sectors)) = mset news_rss_feeds"
proof -
  have "distinct news_sectors" "nf_sector ` set news_rss_feeds \<subseteq> set news_sectors"
    by (simp_all add: news_sectors_def first_seen_set first_seen_distinct)
  then show ?thesis unfolding news_by_sector_def by (rule labels_partition)
qed

section \<open>What the seeding leaves\<close>

lemma seed_row_simps [simp]:
  "s_name (source_seed limit enabled i s) = seed_name s" "s_enabled (source_seed limit enabled i s) = enabled"
  by (simp_all add: source_seed_def)

lemma update_source_name [simp]: "s_name (update_source new old) = s_name old"
  by (simp add: update_source_def)

lemma map_enumerate_snd: "map (\<lambda>x. g (snd x)) (List.enumerate n xs) = map g xs"
  by (induction xs arbitrary: n) simp_all

lemma seed_names: "map s_name (seed_rows ids limit enabled) = map seed_name substack_investing_sources"
  by (simp add: seed_rows_def comp_def case_prod_unfold map_enumerate_snd [where g = seed_name])

lemma seed_distinct: "distinct (map s_name (seed_rows ids limit enabled))"
  using curated_bases(1) unfolding seed_names by (auto simp: distinct_map inj_on_def seed_name_def)

lemma seed_run:
  "seed_sources ids limit enabled d = (Inr 50, d\<lparr>db_sources := fold (upsert_by s_name update_source) (seed_rows ids limit enabled) (db_sources d)\<rparr>)"
  using seed_distinct [of ids limit enabled]
  by (simp add: seed_sources_def insert_sources_def py_monad_defs seed_rows_def curated_bases(2))


text \<open>The row of a publication after a seeding.\<close>

definition seeded :: "int \<Rightarrow> bool \<Rightarrow> substack_source \<Rightarrow> source_row \<Rightarrow> bool" where
  "seeded limit enabled s r = (\<exists>i. r = source_seed limit enabled i s)"

lemma seed_rows_member:
  "s \<in> set substack_investing_sources \<Longrightarrow> \<exists>r. find_by s_name (seed_name s) (seed_rows ids limit enabled) = Some r \<and> seeded limit enabled s r"
proof -
  assume "s \<in> set substack_investing_sources"
  then obtain k where k: "k < length substack_investing_sources" "substack_investing_sources ! k = s" by (auto simp: in_set_conv_nth)
  then have "(k, s) \<in> set (List.enumerate 0 substack_investing_sources)" by (auto simp: in_set_enumerate_eq)
  then have "source_seed limit enabled (ids k) s \<in> set (seed_rows ids limit enabled)" by (force simp: seed_rows_def)
  then show ?thesis
    using find_by_unique [OF seed_distinct, of _ ids limit enabled] by (auto simp: seeded_def)
qed

lemma seed_rows_only:
  "find_by s_name n (seed_rows ids limit enabled) = Some r \<Longrightarrow>
     \<exists>s \<in> set substack_investing_sources. n = seed_name s \<and> seeded limit enabled s r"
  by (drule find_by_Some) (auto simp: seed_rows_def seeded_def in_set_enumerate_eq)

lemma seed_update: "seeded limit enabled s r \<Longrightarrow> s_name old = s_name r \<Longrightarrow> update_source r old = source_seed limit enabled (s_id old) s"
  by (auto simp: seeded_def update_source_def source_seed_def)

lemmas find_seeded = find_upserts [where key = s_name and overwrite = update_source, OF update_source_name seed_distinct]

lemma seeded_find:
  assumes "s \<in> set substack_investing_sources" and "seed_sources ids limit enabled d = (r, d')"
  shows "\<exists>i. find_by s_name (seed_name s) (db_sources d') = Some (source_seed limit enabled i s) \<and>
    (\<forall>old. find_by s_name (seed_name s) (db_sources d) = Some old \<longrightarrow> i = s_id old)"
proof -
  obtain row where row: "find_by s_name (seed_name s) (seed_rows ids limit enabled) = Some row" "seeded limit enabled s row"
    using seed_rows_member [OF assms(1)] by blast
  have d': "db_sources d' = fold (upsert_by s_name update_source) (seed_rows ids limit enabled) (db_sources d)"
    using assms(2) by (auto simp: seed_run)
  show ?thesis
  proof (cases "find_by s_name (seed_name s) (db_sources d)")
    case None
    then show ?thesis using row by (auto simp: d' find_seeded seeded_def)
  next
    case (Some old)
    then have "update_source row old = source_seed limit enabled (s_id old) s"
      using row(2) find_by_Some [OF Some] find_by_Some [OF row(1)] by (intro seed_update) simp_all
    then show ?thesis using row(1) Some by (simp add: d' find_seeded)
  qed
qed

text \<open>
  Seeding the curated publications: it returns 50 and leaves one row per publication, found under its name
  and with the parameters of the call, with its old id if it had one; every other source and every other
  table stays; names stay unique; and seeding again, with ids drawn anew, changes nothing.
\<close>

theorem seed_sources_idempotent:
  assumes "distinct (map s_name (db_sources d))"
  shows "\<exists>rows. seed_sources ids limit enabled d = (Inr 50, d\<lparr>db_sources := rows\<rparr>) \<and> distinct (map s_name rows) \<and>
    (\<forall>s \<in> set substack_investing_sources. \<exists>i. find_by s_name (seed_name s) rows = Some (source_seed limit enabled i s) \<and>
       (\<forall>old. find_by s_name (seed_name s) (db_sources d) = Some old \<longrightarrow> i = s_id old)) \<and>
    (\<forall>n. n \<notin> seed_name ` set substack_investing_sources \<longrightarrow> find_by s_name n rows = find_by s_name n (db_sources d)) \<and>
    seed_sources ids' limit enabled (d\<lparr>db_sources := rows\<rparr>) = (Inr 50, d\<lparr>db_sources := rows\<rparr>)"
proof -
  let ?f = "\<lambda>ids. fold (upsert_by s_name update_source) (seed_rows ids limit enabled)"
  let ?rows = "?f ids (db_sources d)"
  have dist: "distinct (map s_name ?rows)" by (rule distinct_upserts [OF update_source_name assms])
  have run: "seed_sources ids limit enabled d = (Inr 50, d\<lparr>db_sources := ?rows\<rparr>)" by (rule seed_run)
  have one: "\<exists>i. find_by s_name (seed_name s) ?rows = Some (source_seed limit enabled i s) \<and>
      (\<forall>old. find_by s_name (seed_name s) (db_sources d) = Some old \<longrightarrow> i = s_id old)"
    if "s \<in> set substack_investing_sources" for s using seeded_find [OF that run] by simp
  have other: "find_by s_name n ?rows = find_by s_name n (db_sources d)"
    if "n \<notin> seed_name ` set substack_investing_sources" for n
    using that seed_rows_only [of n ids limit enabled] by (auto simp: find_seeded split: option.splits)
  have "?f ids' ?rows = ?rows"
  proof (rule eq_by_find [where key = s_name])
    have "s_name ` set (seed_rows ids' limit enabled) = s_name ` set (seed_rows ids limit enabled)"
      by (metis list.set_map seed_names)
    also have "\<dots> \<subseteq> s_name ` set ?rows"
    proof
      fix n assume "n \<in> s_name ` set (seed_rows ids limit enabled)"
      then have "find_by s_name n ?rows \<noteq> None" by (auto simp: find_seeded find_by_None split: option.splits)
      then show "n \<in> s_name ` set ?rows" by (simp add: find_by_None)
    qed
    finally show keys: "map s_name (?f ids' ?rows) = map s_name ?rows" by (rule upserts_same_keys [where key = s_name and overwrite = update_source, OF update_source_name])
    then show "distinct (map s_name (?f ids' ?rows))" using dist by simp
    fix n
    show "find_by s_name n (?f ids' ?rows) = find_by s_name n ?rows"
    proof (cases "n \<in> seed_name ` set substack_investing_sources")
      case True
      then obtain s where s: "s \<in> set substack_investing_sources" "n = seed_name s" by blast
      obtain i where i: "find_by s_name n ?rows = Some (source_seed limit enabled i s)" using one s by blast
      obtain row where row: "find_by s_name n (seed_rows ids' limit enabled) = Some row" "seeded limit enabled s row"
        using seed_rows_member [OF s(1)] s(2) by blast
      have "update_source row (source_seed limit enabled i s) = source_seed limit enabled i s"
        using seed_update [OF row(2), of "source_seed limit enabled i s"] find_by_Some [OF row(1)] s(2) by (simp add: source_seed_def)
      then show ?thesis using row(1) i by (simp add: find_seeded)
    next
      case False
      then show ?thesis using seed_rows_only [of n ids' limit enabled] by (auto simp: find_seeded split: option.splits)
    qed
  qed
  then have again: "seed_sources ids' limit enabled (d\<lparr>db_sources := ?rows\<rparr>) = (Inr 50, d\<lparr>db_sources := ?rows\<rparr>)"
    by (simp add: seed_run)
  show ?thesis
    by (intro exI [of _ ?rows] conjI run dist again ballI allI impI one other)
qed


section \<open>From the list to the queue\<close>

lemma seeded_message:
  "source_ok (source_seed limit enabled i s)" "is_publication (source_seed limit enabled i s)"
  "scheduled j (source_seed limit enabled i s) = ingest_dict \<lparr>im_job_id = j, im_platform = ''substack'', im_target = str_or (Some (sb_base s)) (seed_name s),
     im_bucket = ''community'', im_limit = limit\<rparr>"
  by (simp_all add: source_ok_def source_seed_def dict_get_def is_publication_def scheduled_def param_str_def str_or_def Let_def)

lemma seeded_sources_ok:
  assumes "\<forall>s \<in> set (db_sources d). source_ok s" and "distinct (map s_name (db_sources d))" and "seed_sources ids limit enabled d = (r, d')"
  shows "\<forall>s \<in> set (db_sources d'). source_ok s"
proof
  fix x assume x: "x \<in> set (db_sources d')"
  have d': "db_sources d' = fold (upsert_by s_name update_source) (seed_rows ids limit enabled) (db_sources d)"
    using assms(3) by (auto simp: seed_run)
  have "distinct (map s_name (db_sources d'))" unfolding d' by (rule distinct_upserts [OF update_source_name assms(2)])
  then have f: "find_by s_name (s_name x) (db_sources d') = Some x" using x by (simp add: find_by_unique)
  show "source_ok x"
  proof (cases "\<exists>s \<in> set substack_investing_sources. s_name x = seed_name s")
    case True
    then obtain s where "s \<in> set substack_investing_sources" "s_name x = seed_name s" by blast
    with seeded_find [OF this(1) assms(3)] f show ?thesis using seeded_message(1) by auto
  next
    case False
    then have "find_by s_name (s_name x) (db_sources d) = Some x"
      using f seed_rows_only [of "s_name x" ids limit enabled] by (auto simp: d' find_seeded split: option.splits)
    then show ?thesis using assms(1) find_by_Some by metis
  qed
qed

text \<open>
  C20.  From the curated list to the ingest worker: after a seeding with sources enabled, one tick of the
  scheduler, over any queue, succeeds and leaves on the ingest queue, for every curated publication, a
  message that the worker reads and whose platform it knows, and whose target is the publication's host.
\<close>

theorem seeded_publications_queued:
  assumes "message_queue qops valid qinv qabs rest" and "qinv q" and "valid jq" and "valid iq" and "jq \<noteq> iq"
    and "distinct (map s_name (db_sources (pw_db w)))" and "\<forall>s \<in> set (db_sources (pw_db w)). source_ok s"
    and "seed_sources ids limit True (pw_db w) = (Inr n, d)" and "ss = list_enabled_sources d"
    and "inj_on (pw_uuids w) {..<length ss}" and "\<forall>k < length ss. get_job (pw_uuids w k) (pw_db w) = None"
  shows "\<exists>q' w'. enqueue_due_sources qops jq iq (q, w\<lparr>pw_db := d\<rparr>) = (Inr (length ss), (q', w')) \<and>
    (\<forall>s \<in> set substack_investing_sources. \<exists>p \<in> set (map m_payload (aq_wait (qabs q') iq)). \<exists>m. read_ingest p = Inr m \<and>
       resolve_platform (im_platform m) = Inr () \<and> im_limit m = limit \<and> normalize_base (im_target m) = Inr (sb_url s))"
proof -
  note mq = assms(1)
  let ?w = "w\<lparr>pw_db := d\<rparr>" and ?js = "map (pw_uuids w) [0..<length ss]"
  have d: "d = (pw_db w)\<lparr>db_sources := db_sources d\<rparr>" using assms(8) by (auto simp: seed_run)
  have ok: "\<forall>s \<in> set ss. source_ok s"
    using seeded_sources_ok [OF assms(7,6,8)] unfolding assms(9) by (auto simp: list_enabled_sources_def)
  have jobs: "\<forall>k < length ss. get_job (pw_uuids ?w k) (pw_db ?w) = None"
    using assms(11) d by (metis db.ext_inject db.surjective db.update_convs(3) get_job_def pworld.select_convs(1,3) pworld.surjective pworld.update_convs(1))
  obtain q' w' where run: "enqueue_sources qops jq iq ss 0 (q, ?w) = (Inr (length ss), (q', w'))"
    and pay: "map m_payload (aq_wait (qabs q') iq) = map m_payload (aq_wait (qabs q) iq) @ jobs_for ?js ss True"
    using message_queue.enqueue_sources_effect [OF mq assms(2-5) ok, of ?w ?js 0] assms(10) jobs
    unfolding message_queue.payloads_def [OF mq] by auto
  have msg: "\<exists>p \<in> set (map m_payload (aq_wait (qabs q') iq)). \<exists>m. read_ingest p = Inr m \<and>
       resolve_platform (im_platform m) = Inr () \<and> im_limit m = limit \<and> normalize_base (im_target m) = Inr (sb_url s)"
    if s: "s \<in> set substack_investing_sources" for s
  proof -
    obtain i where "find_by s_name (seed_name s) (db_sources d) = Some (source_seed limit True i s)"
      using seeded_find [OF s assms(8)] by blast
    then have "source_seed limit True i s \<in> set ss" using find_by_Some by (fastforce simp: assms(9) list_enabled_sources_def)
    then obtain k where k: "k < length ss" "ss ! k = source_seed limit True i s" by (auto simp: in_set_conv_nth)
    then have "(pw_uuids w k, source_seed limit True i s) \<in> set (zip ?js ss)" by (auto simp: in_set_zip intro!: exI [of _ k])
    then have "scheduled (pw_uuids w k) (source_seed limit True i s) \<in> set (jobs_for ?js ss True)"
      using seeded_message(2) by (force simp: jobs_for_def)
    moreover have "sb_base s \<noteq> []" and host: "normalize_base (sb_base s) = Inr (sb_url s)"
      using curated_hosts s curated_nonempty by blast+
    then have "str_or (Some (sb_base s)) (seed_name s) = sb_base s" by (cases "sb_base s") (simp_all add: str_or_def)
    ultimately show ?thesis
      unfolding pay using host by (intro bexI [of _ "scheduled (pw_uuids w k) (source_seed limit True i s)"])
        (simp_all add: seeded_message(3) read_ingest_dict resolve_platform_def)
  qed
  have tick: "enqueue_due_sources qops jq iq (q, ?w) = enqueue_sources qops jq iq ss 0 (q, ?w)"
    by (simp add: enqueue_due_sources_def assms(9))
  show ?thesis by (intro exI [of _ q'] exI [of _ w'] conjI ballI) (use run tick msg in auto)
qed

section \<open>Witnesses\<close>

theorem seed_sources_idempotent_witness:
  "\<exists>rows. seed_sources (\<lambda>k. int k + 1) 25 True db_empty = (Inr 50, db_empty\<lparr>db_sources := rows\<rparr>) \<and>
    seed_sources (\<lambda>k. int k + 51) 25 True (db_empty\<lparr>db_sources := rows\<rparr>) = (Inr 50, db_empty\<lparr>db_sources := rows\<rparr>)"
proof -
  have "distinct (map s_name (db_sources db_empty))" by (simp add: db_empty_def)
  from seed_sources_idempotent [OF this, of "\<lambda>k. int k + 1" 25 True "\<lambda>k. int k + 51"] show ?thesis by blast
qed

theorem seeded_publications_queued_witness:
  "\<exists>d q' w' n. seed_sources int 25 True (pw_db (tick_world\<lparr>pw_db := db_empty\<rparr>)) = (Inr 50, d) \<and>
    enqueue_due_sources memq_ops ''jobs'' ''ingest'' (idle_queue, tick_world\<lparr>pw_db := d\<rparr>) = (Inr n, (q', w')) \<and>
    map m_payload (aq_wait (memq_abs q') ''ingest'') \<noteq> []"
proof -
  let ?w = "tick_world\<lparr>pw_db := db_empty\<rparr>"
  obtain d where d: "seed_sources int 25 True (pw_db ?w) = (Inr 50, d)" by (auto simp: seed_run)
  have names: "distinct (map s_name (db_sources (pw_db ?w)))" "\<forall>s \<in> set (db_sources (pw_db ?w)). source_ok s"
    by (simp_all add: db_empty_def)
  have inj: "inj_on (pw_uuids ?w) {..<length (list_enabled_sources d)}"
    by (rule inj_onI) (metis (no_types, lifting) length_replicate pworld.select_convs(3) pworld.update_convs(1) tick_world_def)
  have fresh: "\<forall>k < length (list_enabled_sources d). get_job (pw_uuids ?w k) (pw_db ?w) = None"
    by (simp add: get_job_def find_by_def db_empty_def)
  have "''jobs'' \<noteq> ''ingest''" by simp
  from seeded_publications_queued [OF memq.message_queue_axioms idle_queue_inv TrueI TrueI this names d refl inj fresh]
  obtain q' w' where run: "enqueue_due_sources memq_ops ''jobs'' ''ingest'' (idle_queue, ?w\<lparr>pw_db := d\<rparr>) = (Inr (length (list_enabled_sources d)), (q', w'))"
    and msgs: "\<forall>s \<in> set substack_investing_sources. \<exists>p \<in> set (map m_payload (aq_wait (memq_abs q') ''ingest'')). \<exists>m. read_ingest p = Inr m \<and>
       resolve_platform (im_platform m) = Inr () \<and> im_limit m = 25 \<and> normalize_base (im_target m) = Inr (sb_url s)" by blast
  have "substack_investing_sources \<noteq> []" using curated_bases(2) by auto
  then obtain s where "s \<in> set substack_investing_sources" by (metis last_in_set)
  with msgs have "map m_payload (aq_wait (memq_abs q') ''ingest'') \<noteq> []" by force
  then show ?thesis using d run by (intro exI conjI) simp_all
qed

end
