(* ===== verification/User_Sync.thy ===== *)
theory User_Sync
  imports Embedding_Jobs Digest
begin

text \<open>
  The synchronisation of users, \<open>pipeline/user_sync.py\<close>: the onboarded users of the application database
  become profiles of this one.

  The application's tables are read by one query; a row of each is a record with the columns that the
  query names.  The order in which the server returns the join is not fixed by the query; the model takes
  the order of the profiles.
\<close>

section \<open>The source\<close>

record app_user =
  hu_id :: string
  hu_clerk_user_id :: string
  hu_email :: string
  hu_deleted_at :: "datetime option"

record app_profile =
  ap_user_id :: string
  ap_interests :: json
  ap_investor_type :: "string option"
  ap_experience_level :: "string option"
  ap_risk_tolerance :: "string option"
  ap_primary_objective :: "string option"
  ap_time_horizon :: "string option"
  ap_onboarding_completed :: "bool option"

type_synonym app_db = "app_user list \<times> app_profile list"

record hezzian_row =
  hz_clerk_user_id :: string
  hz_email :: string
  hz_interests :: json
  hz_investor_type :: "string option"
  hz_experience_level :: "string option"
  hz_risk_tolerance :: "string option"
  hz_primary_objective :: "string option"
  hz_time_horizon :: "string option"

definition hezzian_row_of :: "app_profile \<Rightarrow> app_user \<Rightarrow> hezzian_row" where
  "hezzian_row_of p u = \<lparr>hz_clerk_user_id = hu_clerk_user_id u, hz_email = hu_email u, hz_interests = ap_interests p,
     hz_investor_type = ap_investor_type p, hz_experience_level = ap_experience_level p, hz_risk_tolerance = ap_risk_tolerance p,
     hz_primary_objective = ap_primary_objective p, hz_time_horizon = ap_time_horizon p\<rparr>"

definition fetch_onboarded_users :: "app_db \<Rightarrow> hezzian_row list" where
  "fetch_onboarded_users app = (case app of (users, profiles) \<Rightarrow>
     concat (map (\<lambda>p. map (hezzian_row_of p)
       (filter (\<lambda>u. hu_id u = ap_user_id p \<and> hu_deleted_at u = None \<and> ap_onboarding_completed p = Some True) users)) profiles))"

section \<open>The mapping\<close>

definition as_dict :: "pylib \<Rightarrow> json \<Rightarrow> pydict" where
  "as_dict lib interests = (case interests of
      JObj d \<Rightarrow> d
    | JStr s \<Rightarrow> if strip s = [] then [] else (case json_line lib s of Inr (JObj d) \<Rightarrow> d | _ \<Rightarrow> [])
    | _ \<Rightarrow> [])"

definition str_list :: "json \<Rightarrow> string list" where
  "str_list v = (case v of JList vs \<Rightarrow> stripped_strings vs | _ \<Rightarrow> [])"

definition focus_parts :: "hezzian_row \<Rightarrow> string list \<Rightarrow> string option list" where
  "focus_parts row regions = [hz_investor_type row,
     (case hz_risk_tolerance row of Some (c # cs) \<Rightarrow> Some (c # cs @ '' risk'') | _ \<Rightarrow> None),
     hz_primary_objective row, hz_time_horizon row] @ map Some regions"

definition truthy_parts :: "string option list \<Rightarrow> string list" where
  "truthy_parts ps = List.map_filter (\<lambda>p. case p of Some (c # cs) \<Rightarrow> Some (c # cs) | _ \<Rightarrow> None) ps"

definition map_to_profile :: "pylib \<Rightarrow> datetime \<Rightarrow> hezzian_row \<Rightarrow> user_profile" where
  "map_to_profile lib now row =
     (let interests = as_dict lib (hz_interests row); field = (\<lambda>k. str_list (get_or_null interests k));
          focus = join ''; '' (truthy_parts (focus_parts row (field ''regions'')))
      in \<lparr>u_id = hz_clerk_user_id row, u_portfolio = field ''watch_tickers'', u_sectors = field ''sectors'' @ field ''asset_classes'',
           u_focus = (if focus = [] then None else Some focus), u_email = Some (hz_email row), u_updated_at = now\<rparr>)"

section \<open>The job\<close>

definition overwrite_profile :: "user_profile \<Rightarrow> user_profile \<Rightarrow> user_profile" where
  "overwrite_profile new old = old\<lparr>u_email := u_email new, u_portfolio := u_portfolio new, u_sectors := u_sectors new,
     u_focus := u_focus new, u_updated_at := u_updated_at new\<rparr>"

definition sync_users :: "pylib \<Rightarrow> app_db \<Rightarrow> batch_world \<Rightarrow> nat \<times> batch_world" where
  "sync_users lib app z = (let rows = fetch_onboarded_users app in
     if rows = [] then (0, z)
     else (length rows, z\<lparr>bw_clock := (\<lambda>n. bw_clock z (Suc n)), bw_db := (bw_db z)\<lparr>db_users :=
        fold (\<lambda>row. upsert_by u_id overwrite_profile (map_to_profile lib (bw_clock z 0) row)) rows (db_users (bw_db z))\<rparr>\<rparr>))"

text \<open>The URL of the application database for the async driver.\<close>

definition asyncpg_url :: "string \<Rightarrow> string" where
  "asyncpg_url url = (let p = ''postgresql://'' in
     takeWhile (\<lambda>c. c \<noteq> CHR ''?'') (if starts_with p url then ''postgresql+asyncpg://'' @ drop (length p) url else url))"

section \<open>What a run leaves\<close>

lemma overwrite_profile_simps [simp]: "u_id (overwrite_profile n r) = u_id r" "u_id n = u_id r \<Longrightarrow> overwrite_profile n r = n"
  by (simp_all add: overwrite_profile_def)

lemma map_to_profile_simps [simp]: "u_id (map_to_profile lib now row) = hz_clerk_user_id row" "u_updated_at (map_to_profile lib now row) = now"
  by (simp_all add: map_to_profile_def Let_def)

text \<open>The last row of a user.\<close>

definition last_row :: "string \<Rightarrow> hezzian_row list \<Rightarrow> hezzian_row option" where
  "last_row i rows = find (\<lambda>r. hz_clerk_user_id r = i) (rev rows)"

lemma find_mapped: "find_by u_id i (map (map_to_profile lib now) rows) = map_option (map_to_profile lib now) (find (\<lambda>r. hz_clerk_user_id r = i) rows)"
  by (induction rows) auto

lemma fold_upsert_map: "fold (\<lambda>x. f (g x)) xs s = fold f (map g xs) s"
  by (induction xs arbitrary: s) simp_all

lemma sync_find:
  "find_by u_id i (db_users (bw_db (snd (sync_users lib app z)))) = (case last_row i (fetch_onboarded_users app) of
     None \<Rightarrow> find_by u_id i (db_users (bw_db z)) | Some row \<Rightarrow> Some (map_to_profile lib (bw_clock z 0) row))"
proof (cases "fetch_onboarded_users app = []")
  case False
  then show ?thesis
    by (simp add: sync_users_def Let_def fold_upsert_map find_upserts_last rev_map find_mapped last_row_def split: option.splits)
qed (simp add: sync_users_def last_row_def)

lemma sync_distinct:
  "distinct (map u_id (db_users (bw_db z))) \<Longrightarrow> distinct (map u_id (db_users (bw_db (snd (sync_users lib app z)))))"
  by (simp add: sync_users_def Let_def fold_upsert_map distinct_upserts)

lemma sync_keys:
  assumes "hz_clerk_user_id ` set (fetch_onboarded_users app) \<subseteq> u_id ` set (db_users (bw_db z))"
  shows "map u_id (db_users (bw_db (snd (sync_users lib app z)))) = map u_id (db_users (bw_db z))"
proof (cases "fetch_onboarded_users app = []")
  case False
  have "u_id ` set (map (map_to_profile lib (bw_clock z 0)) (fetch_onboarded_users app)) = hz_clerk_user_id ` set (fetch_onboarded_users app)"
    by (simp add: image_image)
  then show ?thesis
    using False assms upserts_same_keys [where key = u_id and overwrite = overwrite_profile and xs = "map (map_to_profile lib (bw_clock z 0)) (fetch_onboarded_users app)"]
    by (simp add: sync_users_def Let_def fold_upsert_map)
qed (simp add: sync_users_def)


lemma sync_same_hash:
  assumes "distinct (map u_id (db_users (bw_db z)))" and "sync_users lib app z = (n, z1)" and "db_users (bw_db z2) = db_users (bw_db z1)"
    and "sync_users lib app z2 = (m, z3)"
  shows "map (\<lambda>u. (u_id u, row_hash sha u)) (db_users (bw_db z3)) = map (\<lambda>u. (u_id u, row_hash sha u)) (db_users (bw_db z2))"
proof (rule map_eq_by_find [where key = u_id])
  have z1: "z1 = snd (sync_users lib app z)" and z3: "z3 = snd (sync_users lib app z2)" by (simp_all add: assms(2,4))
  have "hz_clerk_user_id ` set (fetch_onboarded_users app) \<subseteq> u_id ` set (db_users (bw_db z2))"
  proof
    fix i assume "i \<in> hz_clerk_user_id ` set (fetch_onboarded_users app)"
    then have "last_row i (fetch_onboarded_users app) \<noteq> None" by (auto simp: last_row_def find_None_iff)
    then have "find_by u_id i (db_users (bw_db z2)) \<noteq> None" unfolding assms(3) z1 sync_find by auto
    then show "i \<in> u_id ` set (db_users (bw_db z2))" by (simp add: find_by_None)
  qed
  then show ids: "map u_id (db_users (bw_db z3)) = map u_id (db_users (bw_db z2))" unfolding z3 by (rule sync_keys)
  show "distinct (map u_id (db_users (bw_db z3)))" unfolding ids assms(3) z1 by (rule sync_distinct [OF assms(1)])
  fix i x y
  assume x: "find_by u_id i (db_users (bw_db z3)) = Some x" and y: "find_by u_id i (db_users (bw_db z2)) = Some y"
  have same: "row_hash sha (map_to_profile lib t row) = row_hash sha (map_to_profile lib t' row)" for t t' row
    by (simp add: row_hash_def map_to_profile_def Let_def)
  have "row_hash sha x = row_hash sha y"
  proof (cases "last_row i (fetch_onboarded_users app)")
    case None
    then show ?thesis using x y unfolding z3 sync_find by simp
  next
    case (Some row)
    have "x = map_to_profile lib (bw_clock z2 0) row" using x Some unfolding z3 sync_find by simp
    moreover have "y = map_to_profile lib (bw_clock z 0) row" using y Some unfolding assms(3) z1 sync_find by simp
    ultimately show ?thesis using same by simp
  qed
  then show "(u_id x, row_hash sha x) = (u_id y, row_hash sha y)" using find_by_Some [OF x] find_by_Some [OF y] by simp
qed

lemma changed_by_hash:
  "map u_id (changed_profiles sha d) =
     map fst (filter (\<lambda>(i, h). Some h \<noteq> stored_hash d i) (map (\<lambda>u. (u_id u, row_hash sha u)) (db_users d)))"
proof -
  have "map u_id (filter (\<lambda>u. Some (row_hash sha u) \<noteq> stored_hash d (u_id u)) us) =
      map fst (filter (\<lambda>(i, h). Some h \<noteq> stored_hash d i) (map (\<lambda>u. (u_id u, row_hash sha u)) us))" for us
    by (induction us) simp_all
  then show ?thesis by (simp add: changed_profiles_def)
qed

lemma sync_frame: "bw_db (snd (sync_users lib app z)) = (bw_db z)\<lparr>db_users := db_users (bw_db (snd (sync_users lib app z)))\<rparr>"
  by (simp add: sync_users_def Let_def)

text \<open>
  C21.  The synchronisation of users: a profile is written for exactly the users that are not deleted and have
  completed the onboarding, each the mapping of the last of its rows; every other profile and every other
  table stays, ids stay unique, and the rows are counted.  A later synchronisation of the same rows, with
  the embedding job in between or not, makes no profile count as changed: nothing is embedded again for it.
\<close>

theorem sync_users_contract:
  assumes "sync_users lib (users, profiles) z = (n, z')" and "distinct (map u_id (db_users (bw_db z)))"
    and "rows = fetch_onboarded_users (users, profiles)"
  shows "n = length rows \<and> distinct (map u_id (db_users (bw_db z'))) \<and>
    (\<forall>i. find_by u_id i (db_users (bw_db z')) = (case last_row i rows of
       None \<Rightarrow> find_by u_id i (db_users (bw_db z)) | Some row \<Rightarrow> Some (map_to_profile lib (bw_clock z 0) row))) \<and>
    (\<forall>i. last_row i rows \<noteq> None \<longleftrightarrow> (\<exists>u \<in> set users. \<exists>p \<in> set profiles. hu_clerk_user_id u = i \<and> hu_id u = ap_user_id p \<and>
       hu_deleted_at u = None \<and> ap_onboarding_completed p = Some True)) \<and>
    bw_db z' = (bw_db z)\<lparr>db_users := db_users (bw_db z')\<rparr> \<and>
    (\<forall>sha z2. db_users (bw_db z2) = db_users (bw_db z') \<longrightarrow>
       map u_id (changed_profiles sha (bw_db (snd (sync_users lib (users, profiles) z2)))) = map u_id (changed_profiles sha (bw_db z2)))"
proof -
  have z': "z' = snd (sync_users lib (users, profiles) z)" by (simp add: assms(1))
  have n: "n = length rows" using assms(1,3) by (auto simp: sync_users_def Let_def split: if_splits)
  have found: "last_row i rows \<noteq> None \<longleftrightarrow> (\<exists>u \<in> set users. \<exists>p \<in> set profiles. hu_clerk_user_id u = i \<and> hu_id u = ap_user_id p \<and>
       hu_deleted_at u = None \<and> ap_onboarding_completed p = Some True)" for i
  proof -
    have "set rows = {hezzian_row_of p u | u p. u \<in> set users \<and> p \<in> set profiles \<and> hu_id u = ap_user_id p \<and>
        hu_deleted_at u = None \<and> ap_onboarding_completed p = Some True}"
      by (auto simp: assms(3) fetch_onboarded_users_def)
    moreover have "hz_clerk_user_id (hezzian_row_of p u) = hu_clerk_user_id u" for p u by (simp add: hezzian_row_of_def)
    ultimately show ?thesis by (auto simp: last_row_def find_None_iff)
  qed
  have again: "map u_id (changed_profiles sha (bw_db (snd (sync_users lib (users, profiles) z2)))) = map u_id (changed_profiles sha (bw_db z2))"
    if "db_users (bw_db z2) = db_users (bw_db z')" for sha z2
  proof -
    obtain m z3 where z3: "sync_users lib (users, profiles) z2 = (m, z3)" by fastforce
    have "stored_hash (bw_db z3) i = stored_hash (bw_db z2) i" for i
      using sync_frame [of lib "(users, profiles)" z2] z3 by (metis db.select_convs(5) db.surjective db.update_convs(4) snd_conv stored_hash_def)
    then show ?thesis using sync_same_hash [OF assms(2,1) that z3] by (simp add: z3 changed_by_hash)
  qed
  show ?thesis
    unfolding n using sync_distinct [OF assms(2), of lib "(users, profiles)"] sync_find [of _ lib "(users, profiles)" z]
      sync_frame [of lib "(users, profiles)" z] found again
    by (intro conjI) (simp_all add: z' assms(3))
qed

definition demo_user :: app_user where
  "demo_user = \<lparr>hu_id = ''1'', hu_clerk_user_id = ''u'', hu_email = ''a@b'', hu_deleted_at = None\<rparr>"

definition demo_profile :: app_profile where
  "demo_profile = \<lparr>ap_user_id = ''1'', ap_interests = JObj [(''watch_tickers'', JList [JStr '' NVDA '', JStr [], JInt 3])], ap_investor_type = Some ''growth'',
     ap_experience_level = None, ap_risk_tolerance = Some ''high'', ap_primary_objective = None, ap_time_horizon = None,
     ap_onboarding_completed = Some True\<rparr>"

theorem sync_users_contract_witness:
  "\<exists>z'. sync_users demo_lib ([demo_user], [demo_profile]) sum_demo = (1, z') \<and>
    find_by u_id ''u'' (db_users (bw_db z')) = Some \<lparr>u_id = ''u'', u_portfolio = [''NVDA''], u_sectors = [], u_focus = Some ''growth; high risk'',
      u_email = Some ''a@b'', u_updated_at = 0\<rparr>"
proof -
  obtain n z' where run: "sync_users demo_lib ([demo_user], [demo_profile]) sum_demo = (n, z')" by fastforce
  have d: "distinct (map u_id (db_users (bw_db sum_demo)))" by (simp add: sum_demo_def db_empty_def)
  have rows: "[hezzian_row_of demo_profile demo_user] = fetch_onboarded_users ([demo_user], [demo_profile])"
    by (simp add: fetch_onboarded_users_def demo_user_def demo_profile_def)
  have last: "last_row ''u'' [hezzian_row_of demo_profile demo_user] = Some (hezzian_row_of demo_profile demo_user)"
    by (simp add: last_row_def hezzian_row_of_def demo_user_def)
  have p: "map_to_profile demo_lib 0 (hezzian_row_of demo_profile demo_user) = \<lparr>u_id = ''u'', u_portfolio = [''NVDA''], u_sectors = [], u_focus = Some ''growth; high risk'',
      u_email = Some ''a@b'', u_updated_at = 0\<rparr>" by code_simp
  have "bw_clock sum_demo 0 = 0" by (simp add: sum_demo_def)
  then show ?thesis using sync_users_contract [OF run d rows] run last p by simp
qed

end
