(* ===== verification/Humanize.thy ===== *)
theory Humanize
  imports Pyfloat
begin

text \<open>
  The human-like timings and paths of \<open>utils/humanize.py\<close>: pure functions of the random module.

  The state of \<open>random\<close> is what it will still draw: units in [0, 1) for \<open>uniform\<close>, bits for \<open>randint\<close> and
  standard normals for \<open>gauss\<close>; every possible outcome is a choice of the three.  Floats are reals here:
  rounding in the last place is not modelled.
\<close>

section \<open>Random draws\<close>

record rng =
  rn_units :: "nat \<Rightarrow> real"
  rn_bits :: "nat \<Rightarrow> nat"
  rn_normals :: "nat \<Rightarrow> real"

definition rng_ok :: "rng \<Rightarrow> bool" where
  "rng_ok g = (\<forall>n. 0 \<le> rn_units g n \<and> rn_units g n < 1)"

definition uniform :: "real \<Rightarrow> real \<Rightarrow> rng \<Rightarrow> real \<times> rng" where
  "uniform a b g = (a + (b - a) * rn_units g 0, g\<lparr>rn_units := (\<lambda>n. rn_units g (Suc n))\<rparr>)"

definition randint :: "int \<Rightarrow> int \<Rightarrow> rng \<Rightarrow> int \<times> rng" where
  "randint a b g = (a + int (rn_bits g 0) mod (b - a + 1), g\<lparr>rn_bits := (\<lambda>n. rn_bits g (Suc n))\<rparr>)"

definition gauss :: "real \<Rightarrow> real \<Rightarrow> rng \<Rightarrow> real \<times> rng" where
  "gauss mean std g = (mean + std * rn_normals g 0, g\<lparr>rn_normals := (\<lambda>n. rn_normals g (Suc n))\<rparr>)"

section \<open>Mouse paths\<close>

definition mouse_jitter :: int where "mouse_jitter = 4"

text \<open>The cubic Bezier curve of one coordinate.\<close>

definition bezier :: "real \<Rightarrow> real \<Rightarrow> real \<Rightarrow> real \<Rightarrow> real \<Rightarrow> real" where
  "bezier p0 p1 p2 p3 t = (let u = 1 - t in u ^ 3 * p0 + 3 * u ^ 2 * t * p1 + 3 * u * t ^ 2 * p2 + t ^ 3 * p3)"

record curve =
  cv_start :: "int \<times> int"
  cv_end :: "int \<times> int"
  cv_p1 :: "real \<times> real"
  cv_p2 :: "real \<times> real"

definition curve_at :: "curve \<Rightarrow> real \<Rightarrow> real \<times> real" where
  "curve_at c t = (bezier (fst (cv_start c)) (fst (cv_p1 c)) (fst (cv_p2 c)) (fst (cv_end c)) t,
     bezier (snd (cv_start c)) (snd (cv_p1 c)) (snd (cv_p2 c)) (snd (cv_end c)) t)"

definition path_point :: "curve \<Rightarrow> int \<Rightarrow> int \<Rightarrow> rng \<Rightarrow> (int \<times> int) \<times> rng" where
  "path_point c n_points i g =
     (let b = curve_at c (of_int i / of_int (n_points - 1)) in
      if i = 0 then (cv_start c, g)
      else if i = n_points - 1 then (cv_end c, g)
      else (let (jx, g1) = randint (- mouse_jitter) mouse_jitter g; (jy, g2) = randint (- mouse_jitter) mouse_jitter g1
            in ((round_even (fst b) + jx, round_even (snd b) + jy), g2)))"

fun path_points :: "curve \<Rightarrow> int \<Rightarrow> int list \<Rightarrow> rng \<Rightarrow> (int \<times> int) list \<times> rng" where
  "path_points c n_points [] g = ([], g)"
| "path_points c n_points (i # is) g = (let (p, g1) = path_point c n_points i g; (ps, g2) = path_points c n_points is g1 in (p # ps, g2))"

definition mouse_curve :: "int \<times> int \<Rightarrow> int \<times> int \<Rightarrow> rng \<Rightarrow> curve \<times> rng" where
  "mouse_curve start target g = (case (start, target) of ((x0, y0), (x3, y3)) \<Rightarrow>
     (let mid_x = (of_int x0 + of_int x3) / 2; mid_y = (of_int y0 + of_int y3) / 2;
          span = max (max \<bar>x3 - x0\<bar> \<bar>y3 - y0\<bar>) 1; offset_scale = of_int span * (3 / 10);
          (dx1, g1) = uniform (- offset_scale) offset_scale g; (dy1, g2) = uniform (- offset_scale) offset_scale g1;
          (dx2, g3) = uniform (- offset_scale) offset_scale g2; (dy2, g4) = uniform (- offset_scale) offset_scale g3
      in (\<lparr>cv_start = start, cv_end = target, cv_p1 = (mid_x + dx1, mid_y + dy1), cv_p2 = (mid_x + dx2, mid_y + dy2)\<rparr>, g4)))"

definition mouse_path :: "int \<times> int \<Rightarrow> int \<times> int \<Rightarrow> int \<Rightarrow> rng \<Rightarrow> (int \<times> int) list \<times> rng" where
  "mouse_path start target duration_ms g =
     (let n_points = max 2 (duration_ms div 16); (c, g1) = mouse_curve start target g
      in path_points c n_points [0..n_points - 1] g1)"

section \<open>Scrolling\<close>

definition scroll_jitter :: int where "scroll_jitter = 40"

text \<open>One event: the step, with its last one clamped, and the delay.\<close>

definition scroll_event :: "int \<Rightarrow> rng \<Rightarrow> (int \<times> int) \<times> rng" where
  "scroll_event remaining g =
     (let (base_step, g1) = randint 80 300 g; (jitter, g2) = randint (- scroll_jitter) scroll_jitter g1;
          step = max 1 (min (max 1 (base_step + jitter)) (remaining + scroll_jitter)); (delay, g3) = randint 50 300 g2
      in ((step, delay), g3))"

lemma scroll_step_positive: "fst (fst (scroll_event remaining g)) \<ge> 1"
  by (simp add: scroll_event_def Let_def split: prod.splits)

function scroll_loop :: "int \<Rightarrow> int \<Rightarrow> rng \<Rightarrow> (int \<times> int) list \<times> rng" where
  "scroll_loop scrollable accumulated g =
     (if accumulated < scrollable
      then (let (e, g1) = scroll_event (scrollable - accumulated) g; (es, g2) = scroll_loop scrollable (accumulated + fst e) g1 in (e # es, g2))
      else ([], g))"
  by pat_completeness auto
termination
proof (relation "measure (\<lambda>(scrollable, accumulated, g). nat (scrollable - accumulated))")
  fix scrollable accumulated :: int and g p e g1
  assume "accumulated < scrollable" "p = scroll_event (scrollable - accumulated) g" "(e, g1) = p"
  moreover from this have "fst e \<ge> 1" using scroll_step_positive by (metis fst_conv)
  ultimately show "((scrollable, accumulated + fst e, g1), (scrollable, accumulated, g)) \<in>
      measure (\<lambda>(scrollable, accumulated, g). nat (scrollable - accumulated))" by simp
qed simp

declare scroll_loop.simps [simp del]

definition generate_scrolls :: "int \<Rightarrow> int \<Rightarrow> rng \<Rightarrow> (int \<times> int) list \<times> rng" where
  "generate_scrolls page_height viewport_height g =
     (let scrollable = page_height - viewport_height in if scrollable \<le> 0 then ([], g) else scroll_loop scrollable 0 g)"

section \<open>Delays\<close>

definition reading_pause :: "rng \<Rightarrow> real \<times> rng" where
  "reading_pause g = uniform 2 6 g"

definition action_delay :: "int \<Rightarrow> int \<Rightarrow> rng \<Rightarrow> real \<times> rng" where
  "action_delay min_ms max_ms g = uniform (of_int min_ms / 1000) (of_int max_ms / 1000) g"

definition typing_interval :: "real \<Rightarrow> real \<Rightarrow> rng \<Rightarrow> real \<times> rng" where
  "typing_interval mean_ms std_ms g = (let (raw_ms, g1) = gauss mean_ms std_ms g in (max 0 (raw_ms / 1000), g1))"

section \<open>Bounds\<close>

lemma randint_bounds: "a \<le> b \<Longrightarrow> randint a b g = (k, g') \<Longrightarrow> a \<le> k \<and> k \<le> b \<and> rn_units g' = rn_units g"
  using pos_mod_bound [of "b - a + 1" "int (rn_bits g 0)"] pos_mod_sign [of "b - a + 1" "int (rn_bits g 0)"] by (auto simp: randint_def)

lemma uniform_bounds:
  assumes "uniform a b g = (x, g')" and "rng_ok g" and "a \<le> b"
  shows "a \<le> x \<and> x \<le> b \<and> rng_ok g'"
proof -
  have u: "0 \<le> rn_units g 0" "rn_units g 0 \<le> 1" using assms(2) by (auto simp: rng_ok_def less_imp_le)
  have "(b - a) * rn_units g 0 \<le> (b - a) * 1" using u assms(3) by (intro mult_left_mono) auto
  moreover have "0 \<le> (b - a) * rn_units g 0" using u assms(3) by simp
  ultimately show ?thesis using assms(1,2) by (auto simp: uniform_def rng_ok_def)
qed

text \<open>A point of the curve lies between the bounds of its four control points.\<close>

lemma bezier_hull:
  assumes "0 \<le> t" "t \<le> 1" and "lo \<le> p0" "lo \<le> p1" "lo \<le> p2" "lo \<le> p3" and "p0 \<le> hi" "p1 \<le> hi" "p2 \<le> hi" "p3 \<le> hi"
  shows "lo \<le> bezier p0 p1 p2 p3 t \<and> bezier p0 p1 p2 p3 t \<le> hi"
proof -
  let ?u = "1 - t"
  have w: "0 \<le> ?u ^ 3" "0 \<le> 3 * ?u ^ 2 * t" "0 \<le> 3 * ?u * t ^ 2" "0 \<le> t ^ 3" using assms(1,2) by simp_all
  have one: "?u ^ 3 * c + 3 * ?u ^ 2 * t * c + 3 * ?u * t ^ 2 * c + t ^ 3 * c = c" for c :: real
    by (simp add: algebra_simps power2_eq_square power3_eq_cube)
  have "?u ^ 3 * lo + 3 * ?u ^ 2 * t * lo + 3 * ?u * t ^ 2 * lo + t ^ 3 * lo \<le> bezier p0 p1 p2 p3 t"
    unfolding bezier_def Let_def by (intro add_mono mult_left_mono w assms)
  moreover have "bezier p0 p1 p2 p3 t \<le> ?u ^ 3 * hi + 3 * ?u ^ 2 * t * hi + 3 * ?u * t ^ 2 * hi + t ^ 3 * hi"
    unfolding bezier_def Let_def by (intro add_mono mult_left_mono w assms)
  ultimately show ?thesis by (simp only: one)
qed


text \<open>The box of the two ends, widened on each side by 30 percent of the longer of its sides.\<close>

definition path_span :: "int \<times> int \<Rightarrow> int \<times> int \<Rightarrow> real" where
  "path_span p q = of_int (max (max \<bar>fst q - fst p\<bar> \<bar>snd q - snd p\<bar>) 1) * (3 / 10)"

definition near :: "real \<Rightarrow> int \<Rightarrow> int \<Rightarrow> real \<Rightarrow> bool" where
  "near w a b x = (of_int (min a b) - w \<le> x \<and> x \<le> of_int (max a b) + w)"

definition curve_ok :: "curve \<Rightarrow> bool" where
  "curve_ok c = (let s = path_span (cv_start c) (cv_end c) in
     (\<forall>p \<in> {cv_p1 c, cv_p2 c}. near s (fst (cv_start c)) (fst (cv_end c)) (fst p) \<and> near s (snd (cv_start c)) (snd (cv_end c)) (snd p)))"

lemma mid_near: "0 \<le> w \<Longrightarrow> - w \<le> d \<Longrightarrow> d \<le> w \<Longrightarrow> near w a b ((of_int a + of_int b) / 2 + d)"
proof -
  assume d: "0 \<le> w" "- w \<le> d" "d \<le> w"
  show "near w a b ((of_int a + of_int b) / 2 + d)"
  proof (cases "a \<le> b")
    case True
    then have m: "min a b = a" "max a b = b" and r: "real_of_int a \<le> real_of_int b" by simp_all
    have "real_of_int a - w \<le> (real_of_int a + real_of_int b) / 2 + d" using d r by (simp add: field_simps)
    moreover have "(real_of_int a + real_of_int b) / 2 + d \<le> real_of_int b + w" using d r by (simp add: field_simps)
    ultimately show ?thesis unfolding near_def m by blast
  next
    case False
    then have m: "min a b = b" "max a b = a" and r: "real_of_int b \<le> real_of_int a" by simp_all
    have "real_of_int b - w \<le> (real_of_int a + real_of_int b) / 2 + d" using d r by (simp add: field_simps)
    moreover have "(real_of_int a + real_of_int b) / 2 + d \<le> real_of_int a + w" using d r by (simp add: field_simps)
    ultimately show ?thesis unfolding near_def m by blast
  qed
qed

lemma mouse_curve_ok:
  assumes "mouse_curve p q g = (c, g')" and "rng_ok g"
  shows "cv_start c = p \<and> cv_end c = q \<and> curve_ok c"
proof -
  let ?s = "path_span p q"
  obtain dx1 g1 where u1: "uniform (- ?s) ?s g = (dx1, g1)" by fastforce
  obtain dy1 g2 where u2: "uniform (- ?s) ?s g1 = (dy1, g2)" by fastforce
  obtain dx2 g3 where u3: "uniform (- ?s) ?s g2 = (dx2, g3)" by fastforce
  obtain dy2 g4 where u4: "uniform (- ?s) ?s g3 = (dy2, g4)" by fastforce
  have s: "0 \<le> ?s" "- ?s \<le> ?s" by (simp_all add: path_span_def)
  note b1 = uniform_bounds [OF u1 assms(2) s(2)]
  note b2 = uniform_bounds [OF u2 conjunct2 [OF conjunct2 [OF b1]] s(2)]
  note b3 = uniform_bounds [OF u3 conjunct2 [OF conjunct2 [OF b2]] s(2)]
  note b4 = uniform_bounds [OF u4 conjunct2 [OF conjunct2 [OF b3]] s(2)]
  have c: "c = \<lparr>cv_start = p, cv_end = q, cv_p1 = ((of_int (fst p) + of_int (fst q)) / 2 + dx1, (of_int (snd p) + of_int (snd q)) / 2 + dy1),
      cv_p2 = ((of_int (fst p) + of_int (fst q)) / 2 + dx2, (of_int (snd p) + of_int (snd q)) / 2 + dy2)\<rparr>"
    using assms(1) u1 u2 u3 u4 by (simp add: mouse_curve_def path_span_def Let_def case_prod_unfold)
  have "near ?s (fst p) (fst q) ((of_int (fst p) + of_int (fst q)) / 2 + dx1)" "near ?s (snd p) (snd q) ((of_int (snd p) + of_int (snd q)) / 2 + dy1)"
    "near ?s (fst p) (fst q) ((of_int (fst p) + of_int (fst q)) / 2 + dx2)" "near ?s (snd p) (snd q) ((of_int (snd p) + of_int (snd q)) / 2 + dy2)"
    using b1 b2 b3 b4 s(1) by (blast intro: mid_near)+
  then show ?thesis by (simp add: c curve_ok_def)
qed

lemma bezier_near:
  assumes "0 \<le> t" "t \<le> 1" and "0 \<le> w" and "near w a b p1" "near w a b p2"
  shows "near w a b (bezier (of_int a) p1 p2 (of_int b) t)"
  using assms(4,5) unfolding near_def by (intro bezier_hull) (use assms(1-3) in \<open>auto simp: min_def max_def\<close>)

lemma curve_near:
  assumes "curve_ok c" and "0 \<le> t" "t \<le> 1"
  shows "near (path_span (cv_start c) (cv_end c)) (fst (cv_start c)) (fst (cv_end c)) (fst (curve_at c t))"
    "near (path_span (cv_start c) (cv_end c)) (snd (cv_start c)) (snd (cv_end c)) (snd (curve_at c t))"
proof -
  have "0 \<le> path_span (cv_start c) (cv_end c)" by (simp add: path_span_def)
  then show "near (path_span (cv_start c) (cv_end c)) (fst (cv_start c)) (fst (cv_end c)) (fst (curve_at c t))"
    "near (path_span (cv_start c) (cv_end c)) (snd (cv_start c)) (snd (cv_end c)) (snd (curve_at c t))"
    using assms(1) by (auto simp: curve_at_def curve_ok_def Let_def intro!: bezier_near assms(2,3))
qed

text \<open>Where a point of a path may be: in the widened box, up to the jitter and the rounding.\<close>

definition in_box :: "int \<times> int \<Rightarrow> int \<times> int \<Rightarrow> int \<times> int \<Rightarrow> bool" where
  "in_box p q x = (near (path_span p q + 9 / 2) (fst p) (fst q) (of_int (fst x)) \<and> near (path_span p q + 9 / 2) (snd p) (snd q) (of_int (snd x)))"

lemma near_round: "near w a b x \<Longrightarrow> -4 \<le> j \<Longrightarrow> j \<le> 4 \<Longrightarrow> near (w + 9 / 2) a b (of_int (round_even x + j))"
proof -
  assume x: "near w a b x" and j: "-4 \<le> j" "j \<le> 4"
  have "real_of_int (round_even x) - x \<le> 1 / 2" "- (1 / 2) \<le> real_of_int (round_even x) - x"
    using round_even_bounds [of x] by linarith+
  moreover have "-4 \<le> real_of_int j" "real_of_int j \<le> 4" using j by simp_all
  ultimately show ?thesis using x unfolding near_def of_int_add by linarith
qed

lemma in_box_ends: "in_box p q p" "in_box p q q"
  by (auto simp: in_box_def near_def path_span_def min_def max_def)

lemma path_point_in_box:
  assumes "path_point c n i g = (x, g')" and "curve_ok c" and "0 \<le> i" "i < n" "2 \<le> n"
  shows "in_box (cv_start c) (cv_end c) x"
proof -
  let ?t = "of_int i / of_int (n - 1) :: real"
  have t: "0 \<le> ?t" "?t \<le> 1" using assms(3-5) by (simp_all add: divide_le_eq)
  consider "x = cv_start c" | "x = cv_end c" | (inner) jx jy g1 where
      "randint (- mouse_jitter) mouse_jitter g = (jx, g1)" "randint (- mouse_jitter) mouse_jitter g1 = (jy, g')"
      "x = (round_even (fst (curve_at c ?t)) + jx, round_even (snd (curve_at c ?t)) + jy)"
    using assms(1) by (auto simp: path_point_def Let_def split: if_splits prod.splits)
  then show ?thesis
  proof cases
    case inner
    have "-4 \<le> jx" "jx \<le> 4" "-4 \<le> jy" "jy \<le> 4"
      using randint_bounds [OF _ inner(1)] randint_bounds [OF _ inner(2)] by (simp_all add: mouse_jitter_def)
    then show ?thesis
      using near_round [OF curve_near(1) [OF assms(2) t]] near_round [OF curve_near(2) [OF assms(2) t]] by (simp add: in_box_def inner(3))
  qed (simp_all add: in_box_ends)
qed

lemma path_points_in_box:
  assumes "path_points c n is g = (xs, g')" and "curve_ok c" and "2 \<le> n" and "\<forall>i \<in> set is. 0 \<le> i \<and> i < n"
  shows "length xs = length is \<and> (\<forall>x \<in> set xs. in_box (cv_start c) (cv_end c) x) \<and>
    (\<forall>k < length is. (is ! k = 0 \<longrightarrow> xs ! k = cv_start c) \<and> (is ! k = n - 1 \<longrightarrow> xs ! k = cv_end c))"
  using assms(1,4)
proof (induction "is" arbitrary: xs g)
  case (Cons i "is")
  obtain x g1 where x: "path_point c n i g = (x, g1)" by fastforce
  obtain ys where ys: "path_points c n is g1 = (ys, g')" "xs = x # ys"
    using Cons.prems(1) x by (auto simp: Let_def split: prod.splits)
  have "in_box (cv_start c) (cv_end c) x" using path_point_in_box [OF x assms(2)] Cons.prems(2) assms(3) by simp
  moreover have "(i = 0 \<longrightarrow> x = cv_start c) \<and> (i = n - 1 \<longrightarrow> x = cv_end c)" using x assms(3) by (auto simp: path_point_def Let_def)
  ultimately show ?case
    using Cons.IH [OF ys(1)] Cons.prems(2) ys(2) by (auto simp: nth_Cons split: nat.splits)
qed simp

text \<open>
  A mouse path, whatever is drawn: one point per 16 milliseconds and at least two, the first and the last
  exactly the two ends, and every point within the box of the ends widened by 30 percent of its longer
  side (the reach of the control points), half a pixel of rounding and 4 pixels of jitter.
\<close>

theorem mouse_path_bounds:
  assumes "mouse_path p q duration_ms g = (path, g')" and "rng_ok g"
  shows "int (length path) = max 2 (duration_ms div 16) \<and> hd path = p \<and> last path = q \<and> (\<forall>x \<in> set path. in_box p q x)"
proof -
  let ?n = "max 2 (duration_ms div 16)"
  obtain c g1 where c: "mouse_curve p q g = (c, g1)" by fastforce
  then have ok: "cv_start c = p" "cv_end c = q" "curve_ok c" using mouse_curve_ok assms(2) by blast+
  have run: "path_points c ?n [0..?n - 1] g1 = (path, g')" using assms(1) c by (simp add: mouse_path_def Let_def)
  have two: "2 \<le> ?n" by simp
  note pts = path_points_in_box [OF run ok(3) two]
  have idx: "\<forall>i \<in> set [0..?n - 1]. 0 \<le> i \<and> i < ?n" by simp
  note box = pts [OF idx, unfolded ok]
  have len: "length path = nat ?n" using conjunct1 [OF box] by simp
  have ends: "[0..?n - 1] ! 0 = 0" "[0..?n - 1] ! (nat ?n - 1) = ?n - 1" "0 < nat ?n" "nat ?n - 1 < nat ?n" "length [0..?n - 1] = nat ?n"
    by (simp_all add: nth_upto)
  have at: "k < nat ?n \<Longrightarrow> ([0..?n - 1] ! k = 0 \<longrightarrow> path ! k = p) \<and> ([0..?n - 1] ! k = ?n - 1 \<longrightarrow> path ! k = q)" for k
    using box unfolding ends(5) by blast
  have ne: "path \<noteq> []" using len two by auto
  have "path ! 0 = p" using at [OF ends(3)] ends(1) by blast
  then have "hd path = p" using ne by (simp add: hd_conv_nth)
  moreover have "path ! (length path - 1) = q" unfolding len using at [OF ends(4)] ends(2) by blast
  then have "last path = q" using ne by (simp add: last_conv_nth)
  moreover have "int (length path) = ?n" using len two by linarith
  ultimately show ?thesis using box by blast
qed

text \<open>
  The scroll events, whatever is drawn: none when there is nothing to scroll; otherwise they reach the end
  of the page and overshoot by at most 40 pixels, every step is of 40 to 340 pixels and every pause of 50 to
  300 milliseconds, so their number is at most the 40th part of the way, rounded up.
\<close>

theorem scrolls_cover_page:
  assumes "generate_scrolls page_height viewport_height g = (events, g')" and "way = page_height - viewport_height"
  shows "(way \<le> 0 \<longrightarrow> events = []) \<and> (0 < way \<longrightarrow> way \<le> sum_list (map fst events) \<and> sum_list (map fst events) \<le> way + 40) \<and>
    (\<forall>(step, delay) \<in> set events. 40 \<le> step \<and> step \<le> 340 \<and> 50 \<le> delay \<and> delay \<le> 300) \<and> 40 * int (length events) \<le> max 0 way + 40"
proof -
  have event: "40 \<le> step \<and> step \<le> 340 \<and> step \<le> remaining + 40 \<and> 50 \<le> delay \<and> delay \<le> 300"
    if "scroll_event remaining g = ((step, delay), g')" "0 < remaining" for remaining g step delay g'
  proof -
    obtain base g1 where r1: "randint 80 300 g = (base, g1)" by fastforce
    obtain jitter g2 where r2: "randint (- scroll_jitter) scroll_jitter g1 = (jitter, g2)" by fastforce
    obtain d g3 where r3: "randint 50 300 g2 = (d, g3)" by fastforce
    have "step = max 1 (min (max 1 (base + jitter)) (remaining + scroll_jitter))" "delay = d"
      using that(1) by (auto simp: scroll_event_def r1 r2 r3)
    with that(2) r1 r2 r3 show ?thesis
      using randint_bounds [of 80 300 g base g1] randint_bounds [of "- scroll_jitter" scroll_jitter g1 jitter g2]
        randint_bounds [of 50 300 g2 d g3] by (auto simp: scroll_jitter_def min_def max_def)
  qed
  have loop: "acc + sum_list (map fst es) \<le> way + 40 \<and> way \<le> acc + sum_list (map fst es) \<and>
      (\<forall>(step, delay) \<in> set es. 40 \<le> step \<and> step \<le> 340 \<and> 50 \<le> delay \<and> delay \<le> 300)"
    if "scroll_loop way acc g = (es, g')" "acc \<le> way + 40" for acc g es g'
    using that
  proof (induction way acc g arbitrary: es rule: scroll_loop.induct)
    case (1 way acc g)
    show ?case
    proof (cases "acc < way")
      case True
      obtain step delay g1 where e: "scroll_event (way - acc) g = ((step, delay), g1)" by (metis prod.collapse)
      obtain fs where fs: "scroll_loop way (acc + step) g1 = (fs, g')" "es = (step, delay) # fs"
        using "1.prems"(1) True e by (subst (asm) scroll_loop.simps) (auto simp: Let_def split: prod.splits)
      have b: "40 \<le> step \<and> step \<le> 340 \<and> step \<le> way - acc + 40 \<and> 50 \<le> delay \<and> delay \<le> 300" using event [OF e] True by simp
      have "acc + step \<le> way + 40" using b by simp
      from "1.IH" [OF True e [symmetric] refl, simplified, OF fs(1) this] b show ?thesis by (auto simp: fs(2))
    next
      case False
      then show ?thesis using "1.prems" by (subst (asm) scroll_loop.simps) simp
    qed
  qed
  have count: "40 * int (length es) \<le> sum_list (map fst es)" if "\<forall>(step, delay) \<in> set es. 40 \<le> step" for es :: "(int \<times> int) list"
    using that by (induction es) auto
  show ?thesis
  proof (cases "way \<le> 0")
    case True
    then show ?thesis using assms by (simp add: generate_scrolls_def Let_def)
  next
    case False
    then have "scroll_loop way 0 g = (events, g')" using assms by (simp add: generate_scrolls_def Let_def)
    note l = loop [OF this]
    have "\<forall>(step, delay) \<in> set events. 40 \<le> step" using l False by auto
    from count [OF this] show ?thesis using l False by auto
  qed
qed

lemma delays_bounded:
  "rng_ok g \<Longrightarrow> reading_pause g = (x, g') \<Longrightarrow> 2 \<le> x \<and> x \<le> 6"
  "rng_ok g \<Longrightarrow> action_delay a b g = (x, g') \<Longrightarrow> a \<le> b \<Longrightarrow> of_int a / 1000 \<le> x \<and> x \<le> of_int b / 1000"
  "typing_interval m s g = (x, g') \<Longrightarrow> 0 \<le> x"
  using uniform_bounds [of 2 6 g x g'] uniform_bounds [of "of_int a / 1000" "of_int b / 1000" g x g']
  by (auto simp: reading_pause_def action_delay_def typing_interval_def Let_def gauss_def)

section \<open>Witnesses\<close>

definition demo_rng :: rng where
  "demo_rng = \<lparr>rn_units = (\<lambda>n. 1 / 2), rn_bits = (\<lambda>n. 0), rn_normals = (\<lambda>n. 0)\<rparr>"

theorem mouse_path_bounds_witness:
  "\<exists>path g'. mouse_path (0, 0) (10, 20) 64 demo_rng = (path, g') \<and> length path = 4 \<and> hd path = (0, 0) \<and> last path = (10, 20)"
proof -
  obtain path g' where run: "mouse_path (0, 0) (10, 20) 64 demo_rng = (path, g')" by fastforce
  have "rng_ok demo_rng" by (simp add: rng_ok_def demo_rng_def)
  from mouse_path_bounds [OF run this] run show ?thesis by auto
qed

theorem scrolls_cover_page_witness:
  "\<exists>events g'. generate_scrolls 200 100 demo_rng = (events, g') \<and> 100 \<le> sum_list (map fst events) \<and> sum_list (map fst events) \<le> 140"
proof -
  obtain events g' where run: "generate_scrolls 200 100 demo_rng = (events, g')" by fastforce
  have "(100 :: int) = 200 - 100" by simp
  from scrolls_cover_page [OF run this] run show ?thesis by auto
qed

end
