(* ===== verification/Pipeline_Commands.thy ===== *)
theory Pipeline_Commands
  imports Ingest_Jobs Sources User_Sync
begin

text \<open>
  The commands of \<open>pipeline/cli.py\<close> and the daily run, the steps of the workflow
  \<open>daily-pipeline.yml\<close>: the jobs of \<open>Ingest_Jobs\<close>, \<open>Summarize_Worker\<close>, \<open>Embedding_Jobs\<close>,
  \<open>User_Sync\<close> and \<open>Database\<close>, one after the other, on one database.

  A step is a process of its own, so all it hands on is the database.  A step that raises ends its process
  with a nonzero status, and then the steps after it are not run.  \<open>init-db\<close> is DDL and is not modelled;
  the daily run starts from a database that has its tables.
\<close>

section \<open>The site\<close>

text \<open>The world of the scrapers, the model providers, the database (with its clock), and standard output.\<close>

record 'e site =
  si_net :: 'e
  si_http :: hworld
  si_batch :: batch_world
  si_out :: "string list"

text \<open>
  The settings of the modules, and what the scrapers fetch with: the JSON endpoints of Substack and Reddit,
  the feeds of Substack and of the news sites.
\<close>

record 'e site_env =
  pe_lib :: pylib
  pe_feed_lib :: feed_lib
  pe_sha :: "string \<Rightarrow> string"
  pe_iso :: "datetime \<Rightarrow> string"
  pe_substack :: substack_settings
  pe_substack_json :: "string \<Rightarrow> ('e, json) py"
  pe_substack_feed :: "string \<Rightarrow> ('e, string) py"
  pe_reddit_json :: "string \<Rightarrow> ('e, json) py"
  pe_news_feed :: "string \<Rightarrow> ('e, string) py"
  pe_llm :: llm_settings
  pe_summary :: sum_settings
  pe_embed :: embed_settings
  pe_max_batches :: nat
  pe_batch_pause :: real
  pe_window_days :: int
  pe_top_k :: nat
  pe_retention_days :: int
  pe_max_articles :: int
  pe_relevance_floor :: int
  pe_app_url :: string
  pe_app :: app_db
  pe_distance :: "real list \<Rightarrow> real list \<Rightarrow> real"

type_synonym 'e command = "'e site \<Rightarrow> ((exn + unit) \<times> 'e site) option"

definition say :: "string \<Rightarrow> 'e site \<Rightarrow> 'e site" where
  "say line s = s\<lparr>si_out := si_out s @ [line]\<rparr>"

definition report :: "('a \<Rightarrow> string) \<Rightarrow> (exn + 'a) \<times> 'e site \<Rightarrow> (exn + unit) \<times> 'e site" where
  "report line x = (case x of (Inl e, s) \<Rightarrow> (Inl e, s) | (Inr n, s) \<Rightarrow> (Inr (), say (line n) s))"

definition on_scrapers :: "('e \<times> batch_world \<Rightarrow> ((exn + 'a) \<times> ('e \<times> batch_world)) option) \<Rightarrow> 'e site \<Rightarrow> ((exn + 'a) \<times> 'e site) option" where
  "on_scrapers job s = map_option (\<lambda>(r, (e, z)). (r, s\<lparr>si_net := e, si_batch := z\<rparr>)) (job (si_net s, si_batch s))"

definition on_provider :: "(hworld \<times> batch_world, 'a) py \<Rightarrow> ('e site, 'a) py" where
  "on_provider job s = (case job (si_http s, si_batch s) of (r, (h, z)) \<Rightarrow> (r, s\<lparr>si_http := h, si_batch := z\<rparr>))"

definition on_database :: "(batch_world \<Rightarrow> nat \<times> batch_world) \<Rightarrow> ('e site, nat) py" where
  "on_database job s = (case job (si_batch s) of (n, z) \<Rightarrow> (Inr n, s\<lparr>si_batch := z\<rparr>))"

section \<open>The commands\<close>

definition ingest_cmd :: "'e site_env \<Rightarrow> int \<Rightarrow> string option \<Rightarrow> int option \<Rightarrow> bool \<Rightarrow> 'e command" where
  "ingest_cmd env limit sector max_pubs rss s =
     (let sources = select_sources sector max_pubs; mode = (if rss then ''RSS'' else ''JSON API'');
          api = (\<lambda>base n. scrape_publication (pe_lib env) (pe_feed_lib env) (pe_substack_json env) (pe_substack env) base n ''new'')
      in map_option (report (\<lambda>n. ''ingest: persisted '' @ int_str n @ '' articles from '' @ nat_str (length sources) @
           '' publication(s) via '' @ mode @ ''.''))
         (on_scrapers (ingest_publications (pe_sha env) (rss_answer (pe_feed_lib env) (pe_substack_feed env)) api rss limit
            (map sb_base sources)) s))"

definition ingest_reddit_cmd :: "'e site_env \<Rightarrow> int \<Rightarrow> string option \<Rightarrow> int option \<Rightarrow> string \<Rightarrow> int \<Rightarrow> 'e command" where
  "ingest_reddit_cmd env limit sector max_subs order min_score s =
     (let subreddits = select_subreddits sector max_subs
      in map_option (report (\<lambda>n. ''ingest-reddit: persisted '' @ int_str n @ '' posts from '' @ nat_str (length subreddits) @
           '' subreddit(s).''))
         (on_scrapers (ingest_subreddits (pe_sha env) (scrape_subreddit (pe_lib env) (pe_reddit_json env)) limit order min_score
            (map rd_subreddit subreddits)) s))"

text \<open>\<open>NewsScraper.scrape_feed\<close>, with the fetch of a feed as the site has it.\<close>

definition news_answer :: "'e site_env \<Rightarrow> string \<Rightarrow> int \<Rightarrow> int \<Rightarrow> 'e answering" where
  "news_answer env url limit min_chars e =
     Some (py_bind (pe_news_feed env url) (\<lambda>xml. py_lift (parse_news_feed (pe_feed_lib env) limit min_chars xml)) e)"

definition ingest_news_cmd :: "'e site_env \<Rightarrow> int \<Rightarrow> string option \<Rightarrow> int option \<Rightarrow> int \<Rightarrow> 'e command" where
  "ingest_news_cmd env limit sector max_feeds min_chars s =
     (let feeds = select_feeds sector max_feeds
      in map_option (report (\<lambda>n. ''ingest-news: persisted '' @ int_str n @ '' articles from '' @ nat_str (length feeds) @ '' feed(s).''))
         (on_scrapers (ingest_news_feeds (pe_sha env) (news_answer env) limit min_chars (map nf_feed_url feeds)) s))"

definition prune_cmd :: "'e site_env \<Rightarrow> int option \<Rightarrow> int option \<Rightarrow> 'e command" where
  "prune_cmd env days max_articles s =
     (let window = (case days of Some n \<Rightarrow> n | None \<Rightarrow> pe_retention_days env);
          cap = (case max_articles of Some n \<Rightarrow> n | None \<Rightarrow> pe_max_articles env)
      in Some (report (\<lambda>n. ''prune: deleted '' @ nat_str n @ '' article(s).'')
         (on_database (\<lambda>z. case prune_articles window cap (pe_relevance_floor env) (bw_clock z 0) (bw_db z) of
            (n, d) \<Rightarrow> (n, z\<lparr>bw_clock := (\<lambda>k. bw_clock z (Suc k)), bw_db := d\<rparr>)) s)))"

text \<open>
  The worker's loop gets fuel for one round per article that is not summarized, and one more: it never
  runs out (\<open>worker_returns\<close>).
\<close>

definition summarize_cmd :: "'e site_env \<Rightarrow> int \<Rightarrow> 'e command" where
  "summarize_cmd env refresh s =
     (let llm = summarize (pe_lib env) (pe_iso env) (pe_llm env) in
      if ls_key (pe_llm env) = [] then Some (Inr (), say ''summarize: skipped (no SUMMARY_API_KEY).'' s)
      else if refresh > 0
      then Some (report (\<lambda>n. ''summarize: refreshed '' @ nat_str n @ '' recent article(s).'')
             (on_provider (summarize_pending llm (pe_summary env) (pe_iso env) (Some (nat refresh))) s))
      else map_option (\<lambda>(r, (h, z)). report (\<lambda>u. ''summarize: done.'') (r, s\<lparr>si_http := h, si_batch := z\<rparr>))
             (run_summarize_worker (Suc (unsummarized (db_articles (bw_db (si_batch s))))) llm (pe_summary env) (pe_iso env)
                (si_http s, si_batch s)))"

definition seed_owner_cmd :: "'e site_env \<Rightarrow> 'e command" where
  "seed_owner_cmd env s = Some (Inr (), say ''seed-owner: owner profile upserted.''
     (s\<lparr>si_batch := seed_owner (sz_portfolio (pe_summary env)) (sz_interests (pe_summary env)) (ls_focus (pe_llm env)) (si_batch s)\<rparr>))"

definition embedder_or_skip :: "'e site_env \<Rightarrow> string \<Rightarrow> ('e site, embed_adapter option) py" where
  "embedder_or_skip env action s =
     (if es_key (pe_embed env) = [] then (Inr None, say (action @ '': skipped (no EMBED_API_KEY).'') s)
      else (sum_bind (make_embedder (pe_lib env) (pe_embed env)) (\<lambda>ad. Inr (Some ad)), s))"

definition with_embedder :: "'e site_env \<Rightarrow> string \<Rightarrow> (hworld embed_fn \<Rightarrow> (hworld \<times> batch_world, nat) py) \<Rightarrow> (nat \<Rightarrow> string) \<Rightarrow> 'e command" where
  "with_embedder env action job line s = (case embedder_or_skip env action s of
      (Inl x, s1) \<Rightarrow> Some (Inl x, s1)
    | (Inr None, s1) \<Rightarrow> Some (Inr (), s1)
    | (Inr (Some ad), s1) \<Rightarrow> Some (report line (on_provider (job (embed (pe_lib env) (pe_embed env) ad)) s1)))"

definition embed_articles_cmd :: "'e site_env \<Rightarrow> 'e command" where
  "embed_articles_cmd env = with_embedder env ''embed-articles''
     (\<lambda>emb. embed_articles_batched emb (nat (es_batch (pe_embed env))) (pe_max_batches env) (pe_batch_pause env) 0)
     (\<lambda>n. ''embed-articles: embedded '' @ nat_str n @ '' article(s).'')"

definition embed_profiles_cmd :: "'e site_env \<Rightarrow> 'e command" where
  "embed_profiles_cmd env = with_embedder env ''embed-profiles'' (embed_profiles (pe_sha env))
     (\<lambda>n. ''embed-profiles: (re-)embedded '' @ nat_str n @ '' profile(s).'')"

definition score_users_cmd :: "'e site_env \<Rightarrow> 'e command" where
  "score_users_cmd env s = Some (report (\<lambda>n. ''score-users: wrote '' @ nat_str n @ '' (user, article) score(s).'')
     (on_database (score_users (pe_distance env) (pe_window_days env) (pe_top_k env)) s))"

definition sync_users_cmd :: "'e site_env \<Rightarrow> 'e command" where
  "sync_users_cmd env s =
     (if pe_app_url env = [] then Some (Inr (), say ''sync-users: skipped (no HEZZIAN_DATABASE_URL).'' s)
      else Some (report (\<lambda>n. ''sync-users: synced '' @ nat_str n @ '' user(s).'') (on_database (sync_users (pe_lib env) (pe_app env)) s)))"

section \<open>The daily run\<close>

fun run_steps :: "'e command list \<Rightarrow> 'e command" where
  "run_steps [] s = Some (Inr (), s)"
| "run_steps (c # cs) s = (case c s of
      None \<Rightarrow> None
    | Some (Inl x, s') \<Rightarrow> Some (Inl x, s')
    | Some (Inr u, s') \<Rightarrow> run_steps cs s')"

definition daily_steps :: "'e site_env \<Rightarrow> int \<Rightarrow> 'e command list" where
  "daily_steps env refresh =
     [ingest_cmd env 5 None None True, ingest_reddit_cmd env 20 None None ''hot'' 25, ingest_news_cmd env 20 None None 200,
      summarize_cmd env refresh, seed_owner_cmd env, sync_users_cmd env, embed_articles_cmd env, embed_profiles_cmd env,
      score_users_cmd env, prune_cmd env None None]"

definition daily_pipeline :: "'e site_env \<Rightarrow> int \<Rightarrow> 'e command" where
  "daily_pipeline env refresh = run_steps (daily_steps env refresh)"

section \<open>What the jobs may change\<close>

abbreviation site_db :: "'e site \<Rightarrow> db" where
  "site_db s \<equiv> bw_db (si_batch s)"

text \<open>The invariant of the database: the keys of its tables.\<close>

definition store_ok :: "db \<Rightarrow> bool" where
  "store_ok d = (db_ok d \<and> distinct (map u_id (db_users d)) \<and> distinct (map v_user (db_vectors d)))"

text \<open>A job that works on the articles only, and keeps their ids unique.\<close>

definition articles_only :: "db \<Rightarrow> db \<Rightarrow> bool" where
  "articles_only d d' = (d' = d\<lparr>db_articles := db_articles d'\<rparr> \<and> (db_ok d \<longrightarrow> db_ok d'))"

lemma articles_only_refl [simp]: "articles_only d d"
  by (simp add: articles_only_def)

lemma articles_only_trans [trans]: "articles_only d d' \<Longrightarrow> articles_only d' d'' \<Longrightarrow> articles_only d d''"
  by (cases d; cases d'; cases d'') (simp add: articles_only_def)

lemma articles_only_tables:
  "articles_only d d' \<Longrightarrow> db_users d' = db_users d \<and> db_vectors d' = db_vectors d \<and> db_relevance d' = db_relevance d \<and> db_jobs d' = db_jobs d"
  by (cases d; cases d') (simp add: articles_only_def)

lemma articles_only_store_ok: "articles_only d d' \<Longrightarrow> store_ok d \<Longrightarrow> store_ok d'"
  using articles_only_tables [of d d'] by (simp add: store_ok_def articles_only_def)

lemma articles_only_ids: "map a_id rows' = map a_id (db_articles d) \<Longrightarrow> articles_only d (d\<lparr>db_articles := rows'\<rparr>)"
  by (simp add: articles_only_def db_ok_def)

lemma articles_only_upsert: "articles_only d (upsert_article row d)"
  using upsert_db_ok [of d row] by (simp add: articles_only_def upsert_article_def)

lemma pg_write_articles_only: "pg_write sha now r (seen, d) = (x, (seen', d')) \<Longrightarrow> articles_only d d'"
  by (auto simp: pg_write_def articles_only_upsert split: option.splits if_splits sum.splits)

lemma persist_articles_only:
  "persist_results sha keep rs p z = (x, z') \<Longrightarrow> articles_only (bw_db z) (bw_db z')"
proof (induction rs arbitrary: p z)
  case (Cons r rs)
  obtain seen n where p: "p = (seen, n)" by fastforce
  show ?case
  proof (cases "\<exists>a. sr_article r = Some a \<and> sr_status r = ''success'' \<and> keep a \<and> \<not> pg_seen sha (ar_url a) (seen, bw_db z)")
    case True
    let ?z1 = "z\<lparr>bw_clock := (\<lambda>k. bw_clock z (Suc k))\<rparr>"
    obtain y seen' d where w: "pg_write sha (bw_clock z 0) r (seen, bw_db z) = (y, (seen', d))" by (metis prod.collapse)
    then have d: "articles_only (bw_db z) d" by (rule pg_write_articles_only)
    show ?thesis
    proof (cases y)
      case (Inl e)
      then show ?thesis using True Cons.prems w d by (auto simp: p Let_def)
    next
      case (Inr u)
      then have "persist_results sha keep rs (seen', n + 1) (?z1\<lparr>bw_db := d\<rparr>) = (x, z')" using True Cons.prems w by (auto simp: p Let_def)
      from Cons.IH [OF this] d show ?thesis using articles_only_trans by simp
    qed
  next
    case False
    then have "persist_results sha keep rs (seen, n) z = (x, z')" using Cons.prems by (auto simp: p split: option.splits if_splits)
    then show ?thesis by (rule Cons.IH)
  qed
qed simp

lemma ingest_articles_only:
  "ingest_sources sha catches keep scrapes p (e, z) = Some (x, (e', z')) \<Longrightarrow> articles_only (bw_db z) (bw_db z')"
proof (induction scrapes arbitrary: p e z)
  case (Cons scrape rest)
  then obtain y e1 where y: "scrape e = Some (y, e1)" by (auto split: option.splits)
  show ?case
  proof (cases y)
    case (Inl ex)
    then show ?thesis using Cons.prems Cons.IH [of p e1 z] y by (auto split: if_splits)
  next
    case (Inr results)
    obtain q p1 z1 where q: "persist_results sha keep results p z = ((q, p1), z1)" by (metis prod.collapse)
    then have one: "articles_only (bw_db z) (bw_db z1)" by (rule persist_articles_only)
    show ?thesis
    proof (cases q)
      case None
      then show ?thesis using Cons.prems Cons.IH [of p1 e1 z1] y Inr q one articles_only_trans by auto
    next
      case (Some ex)
      then show ?thesis using Cons.prems y Inr q one by auto
    qed
  qed
qed simp

lemma summarize_batch_articles_only:
  "summarize_batch sm ws isof rows c0 (s, z) = (r, (s', z')) \<Longrightarrow> articles_only (bw_db z) (bw_db z')"
proof (induction rows arbitrary: c0 s z)
  case (Cons row rows)
  obtain y s1 where y: "sm (a_title row) (a_content row) (a_publish_date row) (sz_portfolio ws) (sz_interests ws) s = (y, s1)" by fastforce
  show ?case
  proof (cases y)
    case (Inl e)
    then show ?thesis using Cons.prems Cons.IH [of c0 s1 z] y by (cases e) (auto split: if_splits)
  next
    case (Inr res)
    let ?z1 = "persist_summary isof (a_id row) res z"
    have "map a_id (db_articles (bw_db ?z1)) = map a_id (db_articles (bw_db z))"
      by (auto simp: persist_summary_def)
    then have one: "articles_only (bw_db z) (bw_db ?z1)"
      using articles_only_ids [of "db_articles (bw_db ?z1)" "bw_db z"] by (simp add: persist_summary_def)
    have "bw_db (inter_request_pause (sz_delay ws) ?z1) = bw_db ?z1" by (simp add: inter_request_pause_def)
    then show ?thesis using Cons.prems Cons.IH [of "c0 + 1" s1 "inter_request_pause (sz_delay ws) ?z1"] y Inr one articles_only_trans by auto
  qed
qed simp

lemma summarize_pending_articles_only:
  "summarize_pending sm ws isof refresh_limit (s, z) = (r, (s', z')) \<Longrightarrow> articles_only (bw_db z) (bw_db z')"
  unfolding summarize_pending_def by (rule summarize_batch_articles_only)

lemma summarize_worker_articles_only:
  "run_summarize_worker n sm ws isof (s, z) = Some (r, (s', z')) \<Longrightarrow> articles_only (bw_db z) (bw_db z')"
proof (induction n arbitrary: s z)
  case (Suc n)
  obtain y s1 z1 where y: "summarize_pending sm ws isof None (s, z) = (y, (s1, z1))" by (metis prod.collapse)
  then have one: "articles_only (bw_db z) (bw_db z1)" by (rule summarize_pending_articles_only)
  show ?case
  proof (cases y)
    case (Inl e)
    then show ?thesis using Suc.prems y one by (simp add: run_summarize_worker_def py_monad_defs)
  next
    case (Inr c)
    then show ?thesis using Suc.prems Suc.IH [of s1 z1] y one articles_only_trans
      by (cases "c > 0") (auto simp: run_summarize_worker_def py_monad_defs)
  qed
qed (simp add: run_summarize_worker_def)

lemma embed_batched_articles_only:
  assumes "embed_articles_batched emb batch n pause acc (s, z) = (r, (s', z'))" and "db_ok (bw_db z)"
  shows "articles_only (bw_db z) (bw_db z')"
proof -
  note eff = embed_batched_effect [OF assms]
  then have "map a_id (db_articles (bw_db z')) = map a_id (db_articles (bw_db z))" using embed_steps_ids by blast
  from articles_only_ids [OF this] eff show ?thesis by metis
qed

section \<open>What the commands do\<close>

lemma say_simps [simp]: "si_batch (say line s) = si_batch s" "si_http (say line s) = si_http s" "si_net (say line s) = si_net s"
  by (simp_all add: say_def)

lemma report_run: "report line x = (r, s') \<Longrightarrow> si_batch s' = si_batch (snd x) \<and> (r = Inr u \<longrightarrow> (\<exists>n. fst x = Inr n))"
  by (cases x) (auto simp: report_def split: sum.splits)

lemma scrapers_command:
  assumes "map_option (report line) (on_scrapers job s) = Some (r, s')"
  obtains q e z where "job (si_net s, si_batch s) = Some (q, (e, z))" "si_batch s' = z"
  using assms report_run [of line] by (fastforce simp: on_scrapers_def)

lemma provider_command:
  assumes "report line (on_provider job s) = (r, s')"
  obtains q h z where "job (si_http s, si_batch s) = (q, (h, z))" "si_batch s' = z" "r = Inr () \<Longrightarrow> \<exists>n. q = Inr n"
proof -
  obtain q h z where job: "job (si_http s, si_batch s) = (q, (h, z))" by (metis prod.collapse)
  then show thesis using that [OF job] report_run [OF assms, of "()"] by (simp add: on_provider_def)
qed

lemma database_command:
  assumes "report line (on_database job s) = (r, s')"
  obtains n where "job (si_batch s) = (n, si_batch s')"
  using assms report_run [OF assms] by (cases "job (si_batch s)") (simp add: on_database_def)

lemma persisted_count_state: "persisted_count x = (r, s) \<Longrightarrow> snd x = s"
  by (cases x) (auto simp: persisted_count_def split: option.splits prod.splits)

lemma scraping_commands:
  assumes "ingest_cmd env limit sector m rss s = Some (r, s') \<or> ingest_reddit_cmd env limit sector m order min_score s = Some (r, s') \<or>
    ingest_news_cmd env limit sector m min_chars s = Some (r, s')"
  shows "articles_only (site_db s) (site_db s')"
proof -
  obtain line job where "map_option (report line) (on_scrapers (\<lambda>x. map_option persisted_count (job x)) s) = Some (r, s')"
    "\<And>e z x e' z'. job (e, z) = Some (x, (e', z')) \<Longrightarrow> articles_only (bw_db z) (bw_db z')"
    using assms unfolding ingest_cmd_def ingest_reddit_cmd_def ingest_news_cmd_def Let_def ingest_publications_def [abs_def]
      ingest_subreddits_def [abs_def] ingest_news_feeds_def [abs_def] by (elim disjE) (blast intro: ingest_articles_only)+
  then show ?thesis by (elim scrapers_command) (auto dest!: persisted_count_state)
qed

lemma summarize_command:
  assumes "summarize_cmd env refresh s = Some (r, s')"
  shows "articles_only (site_db s) (site_db s')"
proof -
  consider "ls_key (pe_llm env) = []" | "ls_key (pe_llm env) \<noteq> []" "refresh > 0" | "ls_key (pe_llm env) \<noteq> []" "\<not> refresh > 0" by blast
  then show ?thesis
  proof cases
    case 1
    then show ?thesis using assms by (auto simp: summarize_cmd_def Let_def)
  next
    case 2
    then obtain line where "report line (on_provider (summarize_pending (summarize (pe_lib env) (pe_iso env) (pe_llm env)) (pe_summary env)
        (pe_iso env) (Some (nat refresh))) s) = (r, s')"
      using assms by (auto simp: summarize_cmd_def Let_def)
    then show ?thesis by (rule provider_command) (auto dest: summarize_pending_articles_only)
  next
    case 3
    then obtain q h z line where q: "run_summarize_worker (Suc (unsummarized (db_articles (site_db s)))) (summarize (pe_lib env) (pe_iso env) (pe_llm env))
        (pe_summary env) (pe_iso env) (si_http s, si_batch s) = Some (q, (h, z))"
      and "report (\<lambda>u. line) (q, s\<lparr>si_http := h, si_batch := z\<rparr>) = (r, s')"
      using assms by (auto simp: summarize_cmd_def Let_def)
    from report_run [OF this(2)] summarize_worker_articles_only [OF q] show ?thesis by simp
  qed
qed

lemma embedder_command:
  assumes "with_embedder env action job line s = Some (r, s')"
  obtains (idle) "si_batch s' = si_batch s" "es_key (pe_embed env) = [] \<or> r \<noteq> Inr ()"
    | (run) ad q h z where "job (embed (pe_lib env) (pe_embed env) ad) (si_http s, si_batch s) = (q, (h, z))" "si_batch s' = z"
        "r = Inr () \<Longrightarrow> \<exists>n. q = Inr n"
proof (cases "es_key (pe_embed env) = []")
  case True
  then show thesis using assms by (intro idle) (auto simp: with_embedder_def embedder_or_skip_def)
next
  case key: False
  show thesis
  proof (cases "make_embedder (pe_lib env) (pe_embed env)")
    case (Inl x)
    then show thesis using assms key by (intro idle) (auto simp: with_embedder_def embedder_or_skip_def sum_bind_def)
  next
    case (Inr ad)
    then have "report line (on_provider (job (embed (pe_lib env) (pe_embed env) ad)) s) = (r, s')"
      using assms key by (simp add: with_embedder_def embedder_or_skip_def sum_bind_def)
    then show thesis by (rule provider_command) (blast intro: run)
  qed
qed

lemma seed_owner_command:
  assumes "seed_owner_cmd env s = Some (r, s')"
  shows "store_ok (site_db s) \<Longrightarrow> store_ok (site_db s')" and "''owner'' \<in> u_id ` set (db_users (site_db s'))"
proof -
  have b: "si_batch s' = seed_owner (sz_portfolio (pe_summary env)) (sz_interests (pe_summary env)) (ls_focus (pe_llm env)) (si_batch s)"
    using assms by (auto simp: seed_owner_cmd_def)
  then show "store_ok (site_db s) \<Longrightarrow> store_ok (site_db s')"
    by (simp add: seed_owner_def store_ok_def db_ok_def distinct_upsert_by)
  let ?o = "\<lambda>(new :: user_profile) old. old\<lparr>u_portfolio := u_portfolio new, u_sectors := u_sectors new, u_focus := u_focus new, u_updated_at := u_updated_at new\<rparr>"
  have "set (map u_id (upsert_by u_id ?o x us)) = insert (u_id x) (u_id ` set us)" for x us
    by (subst upsert_by_keys) auto
  then show "''owner'' \<in> u_id ` set (db_users (site_db s'))" by (simp add: b seed_owner_def)
qed

lemma has_profile: "i \<in> u_id ` set us \<longleftrightarrow> find_by u_id i us \<noteq> None"
  by (simp add: find_by_None)

lemma sync_command:
  assumes "sync_users_cmd env s = Some (r, s')"
  shows "store_ok (site_db s) \<Longrightarrow> store_ok (site_db s')"
    and "u_id ` set (db_users (site_db s)) \<subseteq> u_id ` set (db_users (site_db s'))"
    and "pe_app_url env \<noteq> [] \<Longrightarrow> hz_clerk_user_id ` set (fetch_onboarded_users (pe_app env)) \<subseteq> u_id ` set (db_users (site_db s'))"
proof -
  have two: "pe_app_url env = [] \<and> si_batch s' = si_batch s \<or>
    pe_app_url env \<noteq> [] \<and> si_batch s' = snd (sync_users (pe_lib env) (pe_app env) (si_batch s))"
    using assms by (auto simp: sync_users_cmd_def elim!: database_command split: if_splits)
  let ?z = "snd (sync_users (pe_lib env) (pe_app env) (si_batch s))"
  have ok: "store_ok (site_db s) \<Longrightarrow> store_ok (bw_db ?z)"
    using sync_frame [of "pe_lib env" "pe_app env" "si_batch s"] sync_distinct [of "si_batch s" "pe_lib env" "pe_app env"]
    unfolding store_ok_def db_ok_def by (metis db.select_convs(1,2,5) db.surjective db.update_convs(4))
  show "store_ok (site_db s) \<Longrightarrow> store_ok (site_db s')" using two ok by auto
  have find: "find_by u_id i (db_users (bw_db ?z)) = (case last_row i (fetch_onboarded_users (pe_app env)) of
     None \<Rightarrow> find_by u_id i (db_users (site_db s)) | Some row \<Rightarrow> Some (map_to_profile (pe_lib env) (bw_clock (si_batch s) 0) row))" for i
    by (rule sync_find)
  have "u_id ` set (db_users (site_db s)) \<subseteq> u_id ` set (db_users (bw_db ?z))"
    by (auto simp only: subset_iff has_profile find split: option.splits)
  then show "u_id ` set (db_users (site_db s)) \<subseteq> u_id ` set (db_users (site_db s'))" using two by auto
  have "hz_clerk_user_id row \<in> u_id ` set (db_users (bw_db ?z))" if "row \<in> set (fetch_onboarded_users (pe_app env))" for row
  proof -
    have "last_row (hz_clerk_user_id row) (fetch_onboarded_users (pe_app env)) \<noteq> None"
      using that by (auto simp: last_row_def find_None_iff)
    then show ?thesis unfolding has_profile find by auto
  qed
  then have "hz_clerk_user_id ` set (fetch_onboarded_users (pe_app env)) \<subseteq> u_id ` set (db_users (bw_db ?z))" by blast
  then show "pe_app_url env \<noteq> [] \<Longrightarrow> hz_clerk_user_id ` set (fetch_onboarded_users (pe_app env)) \<subseteq> u_id ` set (db_users (site_db s'))"
    using two by auto
qed

lemma embed_articles_command:
  assumes "embed_articles_cmd env s = Some (r, s')" and "db_ok (site_db s)"
  shows "articles_only (site_db s) (site_db s')"
  using assms(1) unfolding embed_articles_cmd_def
  by (rule embedder_command) (use assms(2) embed_batched_articles_only in auto)

lemma embed_profiles_raises: "embed_profiles sha emb (h, z) = (Inl x, (h', z')) \<Longrightarrow> z' = z"
  by (auto simp: embed_profiles_def Let_def py_monad_defs on_fst_def on_snd_def py_lift_def split: if_splits sum.splits prod.splits)

lemma embed_profiles_command:
  assumes "embed_profiles_cmd env s = Some (r, s')" and "store_ok (site_db s)"
  shows "store_ok (site_db s')" and "db_users (site_db s') = db_users (site_db s)"
    and "r = Inr () \<Longrightarrow> es_key (pe_embed env) \<noteq> [] \<Longrightarrow> changed_profiles (pe_sha env) (site_db s') = []"
proof -
  have "store_ok (site_db s') \<and> db_users (site_db s') = db_users (site_db s) \<and>
    (r = Inr () \<longrightarrow> es_key (pe_embed env) \<noteq> [] \<longrightarrow> changed_profiles (pe_sha env) (site_db s') = [])"
    using assms(1) unfolding embed_profiles_cmd_def
  proof (rule embedder_command)
    assume "si_batch s' = si_batch s" "es_key (pe_embed env) = [] \<or> r \<noteq> Inr ()"
    then show ?thesis using assms(2) by auto
  next
    fix ad q h z
    assume q: "embed_profiles (pe_sha env) (embed (pe_lib env) (pe_embed env) ad) (si_http s, si_batch s) = (q, (h, z))" "si_batch s' = z"
      "r = Inr () \<Longrightarrow> \<exists>n. q = Inr n"
    have d: "distinct (map u_id (db_users (bw_db (si_batch s))))" using assms(2) by (simp add: store_ok_def)
    show ?thesis
    proof (cases q)
      case (Inl x)
      then show ?thesis using q assms(2) embed_profiles_raises by fastforce
    next
      case (Inr n)
      from embed_profiles_run [OF d q(1) [unfolded Inr]] show ?thesis
        using assms(2) q(2) by (simp add: store_ok_def db_ok_def)
    qed
  qed
  then show "store_ok (site_db s')" "db_users (site_db s') = db_users (site_db s)"
    "r = Inr () \<Longrightarrow> es_key (pe_embed env) \<noteq> [] \<Longrightarrow> changed_profiles (pe_sha env) (site_db s') = []" by auto
qed

lemma score_users_command:
  assumes "score_users_cmd env s = Some (r, s')" and "store_ok (site_db s)"
  shows "store_ok (site_db s')" and "db_articles (site_db s') = db_articles (site_db s)" and "db_users (site_db s') = db_users (site_db s)"
    and "db_vectors (site_db s') = db_vectors (site_db s)"
    and "\<exists>cutoff now. \<forall>v \<in> set (db_vectors (site_db s)). filter (\<lambda>y. r_user y = v_user v) (db_relevance (site_db s')) =
      map (relevance_of (pe_distance env) now v) (ranked (pe_distance env) cutoff (pe_top_k env) (v_embedding v) (db_articles (site_db s)))"
proof -
  obtain line where "report line (on_database (score_users (pe_distance env) (pe_window_days env) (pe_top_k env)) s) = (r, s')"
    using assms(1) by (auto simp: score_users_cmd_def)
  then obtain n where n: "score_users (pe_distance env) (pe_window_days env) (pe_top_k env) (si_batch s) = (n, si_batch s')"
    by (rule database_command)
  have ok: "db_ok (site_db s)" "distinct (map v_user (db_vectors (site_db s)))" using assms(2) by (simp_all add: store_ok_def)
  note run = score_users_run [OF ok n refl]
  then have frame: "site_db s' = (site_db s)\<lparr>db_relevance := db_relevance (site_db s')\<rparr>" by blast
  show "store_ok (site_db s')" using assms(2) by (subst frame) (simp add: store_ok_def db_ok_def)
  show "db_articles (site_db s') = db_articles (site_db s)" "db_users (site_db s') = db_users (site_db s)"
    "db_vectors (site_db s') = db_vectors (site_db s)" by (subst frame, simp)+
  show "\<exists>cutoff now. \<forall>v \<in> set (db_vectors (site_db s)). filter (\<lambda>y. r_user y = v_user v) (db_relevance (site_db s')) =
      map (relevance_of (pe_distance env) now v) (ranked (pe_distance env) cutoff (pe_top_k env) (v_embedding v) (db_articles (site_db s)))"
    using run by blast
qed

lemma prune_articles_frame:
  assumes "prune_articles days cap fl now d = (n, d')" and "store_ok d"
  shows "store_ok d'" and "set (db_articles d') \<subseteq> set (db_articles d)" and "0 \<le> cap \<Longrightarrow> int (length (db_articles d')) \<le> cap"
    and "db_users d' = db_users d" and "db_vectors d' = db_vectors d"
    and "db_relevance d' = filter (\<lambda>u. r_article u \<in> a_id ` set (db_articles d') \<or> r_article u \<notin> a_id ` set (db_articles d)) (db_relevance d)"
proof -
  define rows where "rows = prune_irrelevant now days fl (prune_age now days (db_articles d))"
  have d': "d' = d\<lparr>db_articles := prune_cap cap rows,
      db_relevance := filter (\<lambda>u. r_article u \<in> a_id ` set (prune_cap cap rows) \<or> r_article u \<notin> a_id ` set (db_articles d)) (db_relevance d)\<rparr>"
    using assms(1) by (auto simp: prune_articles_def Let_def rows_def)
  have rows: "set rows \<subseteq> set (db_articles d)" "distinct (map a_id rows)"
    using assms(2) by (auto simp: rows_def prune_age_def prune_irrelevant_def store_ok_def db_ok_def distinct_map_filter Let_def)
  have "distinct (map a_id (prune_cap cap rows))" using rows(2) by (simp add: prune_cap_def Let_def distinct_map_filter)
  then show "store_ok d'" using assms(2) by (simp add: d' store_ok_def db_ok_def)
  have "set (prune_cap cap rows) \<subseteq> set rows" by (auto simp: prune_cap_def Let_def)
  then show "set (db_articles d') \<subseteq> set (db_articles d)" using rows(1) by (simp add: d')
  show "0 \<le> cap \<Longrightarrow> int (length (db_articles d')) \<le> cap" using prune_cap_props(1) [OF rows(2)] by (simp add: d')
qed (use assms(1) in \<open>auto simp: prune_articles_def Let_def\<close>)

lemma prune_command:
  assumes "prune_cmd env days mx s = Some (r, s')"
  obtains n where "prune_articles (case days of Some n \<Rightarrow> n | None \<Rightarrow> pe_retention_days env)
      (case mx of Some n \<Rightarrow> n | None \<Rightarrow> pe_max_articles env) (pe_relevance_floor env) (bw_clock (si_batch s) 0) (site_db s) = (n, site_db s')"
proof -
  obtain line days' mx' where "days' = (case days of Some n \<Rightarrow> n | None \<Rightarrow> pe_retention_days env)" "mx' = (case mx of Some n \<Rightarrow> n | None \<Rightarrow> pe_max_articles env)"
    and "report line (on_database (\<lambda>z. case prune_articles days' mx' (pe_relevance_floor env) (bw_clock z 0) (bw_db z) of
            (n, d) \<Rightarrow> (n, z\<lparr>bw_clock := (\<lambda>k. bw_clock z (Suc k)), bw_db := d\<rparr>)) s) = (r, s')"
    using assms by (auto simp: prune_cmd_def Let_def)
  from this(3) show thesis
  proof (rule database_command)
    fix n
    assume n: "(case prune_articles days' mx' (pe_relevance_floor env) (bw_clock (si_batch s) 0) (site_db s) of
            (n, d) \<Rightarrow> (n, si_batch s\<lparr>bw_clock := (\<lambda>k. bw_clock (si_batch s) (Suc k)), bw_db := d\<rparr>)) = (n, si_batch s')"
    then obtain d where "prune_articles days' mx' (pe_relevance_floor env) (bw_clock (si_batch s) 0) (site_db s) = (n, d)"
      and z: "si_batch s' = si_batch s\<lparr>bw_clock := (\<lambda>k. bw_clock (si_batch s) (Suc k)), bw_db := d\<rparr>" by (auto split: prod.splits)
    moreover have "site_db s' = d" by (simp add: z)
    ultimately show thesis using that \<open>days' = _\<close> \<open>mx' = _\<close> by simp
  qed
qed

section \<open>The run of the steps\<close>

text \<open>Steps that keep the database's invariant, whether they end well or raise.\<close>

locale safe_steps =
  fixes steps :: "'e command list"
  assumes step_keeps: "c \<in> set steps \<Longrightarrow> store_ok (site_db s) \<Longrightarrow> c s = Some (r, s') \<Longrightarrow> store_ok (site_db s')"
begin

lemma run_part_keeps:
  "set cs \<subseteq> set steps \<Longrightarrow> store_ok (site_db s) \<Longrightarrow> run_steps cs s = Some (r, s') \<Longrightarrow> store_ok (site_db s')"
proof (induction cs arbitrary: s)
  case (Cons c cs)
  obtain x s1 where x: "c s = Some (x, s1)" using Cons.prems(3) by (auto split: option.splits)
  have ok: "store_ok (site_db s1)" using Cons.prems(1) by (intro step_keeps [where c = c and s = s and r = x, OF _ Cons.prems(2) x]) simp
  show ?case using Cons.prems(1,3) Cons.IH [OF _ ok] x ok by (cases x) auto
qed simp

lemma run_ends:
  assumes "\<forall>c \<in> set steps. \<forall>s. store_ok (site_db s) \<longrightarrow> c s \<noteq> None" and "store_ok (site_db s)"
  shows "\<exists>r s'. run_steps steps s = Some (r, s') \<and> store_ok (site_db s')"
proof -
  have "run_steps cs s \<noteq> None" if "set cs \<subseteq> set steps" "store_ok (site_db s)" for cs s
    using that
  proof (induction cs arbitrary: s)
    case (Cons c cs)
    obtain x s1 where x: "c s = Some (x, s1)" using assms(1) Cons.prems by fastforce
    have "store_ok (site_db s1)" using Cons.prems(1) by (intro step_keeps [where c = c and s = s and r = x, OF _ Cons.prems(2) x]) simp
    then show ?case using Cons.prems(1) Cons.IH [of s1] x by (cases x) auto
  qed simp
  then obtain y where "run_steps steps s = Some y" using assms(2) by blast
  then show ?thesis using run_part_keeps [OF subset_refl assms(2)] by (cases y) blast
qed

end

lemma daily_step_keeps:
  assumes "c \<in> set (daily_steps env refresh)" and ok: "store_ok (site_db s)" and run: "c s = Some (r, s')"
  shows "store_ok (site_db s')"
proof -
  have "db_ok (site_db s)" using ok by (simp add: store_ok_def)
  then show ?thesis
    using assms(1) run unfolding daily_steps_def
    by (auto intro: articles_only_store_ok [OF scraping_commands ok] articles_only_store_ok [OF summarize_command ok]
      articles_only_store_ok [OF embed_articles_command ok] seed_owner_command(1) [OF _ ok] sync_command(1) [OF _ ok]
      embed_profiles_command(1) [OF _ ok] score_users_command(1) [OF _ ok] elim!: prune_command intro: prune_articles_frame(1) [OF _ ok])
qed

interpretation daily: safe_steps "daily_steps env refresh" for env refresh
  by (rule safe_steps.intro) (rule daily_step_keeps)

lemma run_steps_append:
  "run_steps (cs @ ds) s = Some (Inr u, s') \<longleftrightarrow> (\<exists>s1. run_steps cs s = Some (Inr (), s1) \<and> run_steps ds s1 = Some (Inr u, s'))"
  by (induction cs arbitrary: s) (auto split: option.splits sum.splits)

lemma run_steps_Cons:
  "run_steps (c # cs) s = Some (Inr u, s') \<longleftrightarrow> (\<exists>s1. c s = Some (Inr (), s1) \<and> run_steps cs s1 = Some (Inr u, s'))"
  by (auto split: option.splits sum.splits)

text \<open>The steps up to the embedding of the articles, and the rest, of a day on which no step raises.\<close>

lemma daily_split:
  assumes "daily_pipeline env refresh s = Some (Inr (), s')" and "store_ok (site_db s)"
  obtains s4 s5 s6 s7 s8 s9 where "store_ok (site_db s4)" "seed_owner_cmd env s4 = Some (Inr (), s5)" "sync_users_cmd env s5 = Some (Inr (), s6)"
    "embed_articles_cmd env s6 = Some (Inr (), s7)" "embed_profiles_cmd env s7 = Some (Inr (), s8)" "score_users_cmd env s8 = Some (Inr (), s9)"
    "prune_cmd env None None s9 = Some (Inr (), s')"
proof -
  let ?first = "take 4 (daily_steps env refresh)"
  have split: "daily_steps env refresh = ?first @ [seed_owner_cmd env, sync_users_cmd env, embed_articles_cmd env, embed_profiles_cmd env,
      score_users_cmd env, prune_cmd env None None]"
    by (simp add: daily_steps_def)
  obtain s4 where s4: "run_steps ?first s = Some (Inr (), s4)"
    and rest: "run_steps [seed_owner_cmd env, sync_users_cmd env, embed_articles_cmd env, embed_profiles_cmd env,
      score_users_cmd env, prune_cmd env None None] s4 = Some (Inr (), s')"
    using assms(1) unfolding daily_pipeline_def by (subst (asm) split) (auto simp only: run_steps_append)
  have "store_ok (site_db s4)" by (rule daily.run_part_keeps [OF set_take_subset assms(2) s4])
  with rest show thesis
    by (auto simp only: run_steps_Cons run_steps.simps(1) option.inject prod.inject intro: that)
qed

lemma length_filter_filter_le: "length (filter P (filter Q xs)) \<le> length (filter P xs)"
  by (induction xs) auto

lemma user_scores_shape:
  assumes "db_ok d" and "filter (\<lambda>y. r_user y = v_user v) rel = map (relevance_of cos_dist now v) (ranked cos_dist cutoff k (v_embedding v) (db_articles d))"
  shows "length (filter (\<lambda>y. r_user y = v_user v) rel) \<le> k \<and> (\<forall>y \<in> set rel. r_user y = v_user v \<longrightarrow>
    (\<exists>a \<in> set (db_articles d). a_id a = r_article y \<and> a_embedding a \<noteq> None \<and> r_score y = 1 - article_distance cos_dist (v_embedding v) a))"
proof -
  have d: "distinct (map a_id (db_articles d))" using assms(1) by (simp add: db_ok_def)
  note shape = ranked_shape [OF d, where cos_dist = cos_dist and cutoff = cutoff and k = k and u = "v_embedding v"]
  have "\<exists>a \<in> set (db_articles d). a_id a = r_article y \<and> a_embedding a \<noteq> None \<and> r_score y = 1 - article_distance cos_dist (v_embedding v) a"
    if "y \<in> set rel" "r_user y = v_user v" for y
  proof -
    have "y \<in> set (map (relevance_of cos_dist now v) (ranked cos_dist cutoff k (v_embedding v) (db_articles d)))"
      using that by (simp flip: assms(2))
    then obtain a where "a \<in> set (ranked cos_dist cutoff k (v_embedding v) (db_articles d))" "y = relevance_of cos_dist now v a" by auto
    then show ?thesis using shape(3) by (auto simp: relevance_of_def candidates_def)
  qed
  then show ?thesis using shape(1) by (simp add: assms(2))
qed

text \<open>No changed profile means a current vector for every one.\<close>

lemma current_vectors:
  assumes "changed_profiles sha d = []" and "u \<in> set (db_users d)"
  shows "\<exists>v. find_by v_user (u_id u) (db_vectors d) = Some v \<and> v_source_hash v = row_hash sha u"
proof -
  have "Some (row_hash sha u) = map_option v_source_hash (find_by v_user (u_id u) (db_vectors d))"
    using assms by (simp add: changed_profiles_def stored_hash_def filter_empty_conv)
  then show ?thesis by (cases "find_by v_user (u_id u) (db_vectors d)") simp_all
qed

text \<open>Sound and bounded scores stay so when articles are pruned with the scores that name them.\<close>

lemma pruned_scores:
  assumes "length (filter (\<lambda>y. r_user y = x) rel) \<le> k \<and> (\<forall>y \<in> set rel. r_user y = x \<longrightarrow> (\<exists>a \<in> set as. a_id a = r_article y \<and> ok a y))"
    and "inj_on a_id (set as)" and "set as' \<subseteq> set as"
  defines "rel' \<equiv> filter (\<lambda>y. r_article y \<in> a_id ` set as' \<or> r_article y \<notin> a_id ` set as) rel"
  shows "length (filter (\<lambda>y. r_user y = x) rel') \<le> k \<and> (\<forall>y \<in> set rel'. r_user y = x \<longrightarrow> (\<exists>a \<in> set as'. a_id a = r_article y \<and> ok a y))"
proof (intro conjI ballI impI)
  show "length (filter (\<lambda>y. r_user y = x) rel') \<le> k"
    unfolding rel'_def using assms(1) length_filter_filter_le le_trans by blast
  fix y assume y: "y \<in> set rel'" "r_user y = x"
  obtain a where a: "a \<in> set as" "a_id a = r_article y" "ok a y" using assms(1) y unfolding rel'_def by auto
  then have "r_article y \<in> a_id ` set as'" using y(1) unfolding rel'_def by (auto simp: image_iff)
  then obtain b where b: "b \<in> set as'" "a_id b = a_id a" using a(2) by auto
  then have "b = a" using inj_onD [OF assms(2) b(2) subsetD [OF assms(3) b(1)] a(1)] by simp
  then show "\<exists>a \<in> set as'. a_id a = r_article y \<and> ok a y" using a b(1) by blast
qed


lemma ingest_returns:
  "\<forall>scrape \<in> set scrapes. \<forall>e. scrape e \<noteq> None \<Longrightarrow> ingest_sources sha catches keep scrapes p (e, z) \<noteq> None"
proof (induction scrapes arbitrary: p e z)
  case (Cons scrape rest)
  then obtain y e1 where y: "scrape e = Some (y, e1)" by fastforce
  show ?case
  proof (cases y)
    case (Inl x)
    then show ?thesis using Cons y by simp
  next
    case (Inr results)
    obtain q p1 z1 where q: "persist_results sha keep results p z = ((q, p1), z1)" by (metis prod.collapse)
    then show ?thesis using Cons y Inr by (cases q) simp_all
  qed
qed simp

lemma daily_step_returns:
  assumes "\<forall>sub limit order e. scrape_subreddit (pe_lib env) (pe_reddit_json env) sub limit order e \<noteq> None"
    and "c \<in> set (daily_steps env refresh)" and "store_ok (site_db s)"
  shows "c s \<noteq> None"
proof -
  have feeds: "ingest_cmd env l sec m True s \<noteq> None" "ingest_news_cmd env l sec m n s \<noteq> None" for l sec m n
    by (simp_all add: ingest_cmd_def ingest_news_cmd_def Let_def on_scrapers_def ingest_publications_def ingest_news_feeds_def
        ingest_returns rss_answer_def news_answer_def)
  have reddit: "ingest_reddit_cmd env l sec m order n s \<noteq> None" for l sec m order n
    using assms(1) by (simp add: ingest_reddit_cmd_def Let_def on_scrapers_def ingest_subreddits_def ingest_returns)
  obtain x where "run_summarize_worker (Suc (unsummarized (db_articles (site_db s)))) (summarize (pe_lib env) (pe_iso env) (pe_llm env))
      (pe_summary env) (pe_iso env) (si_http s, si_batch s) = Some x"
    using openai.worker_returns [of "si_batch s"] assms(3) unfolding store_ok_def by blast
  then have summaries: "summarize_cmd env refresh s \<noteq> None"
    by (cases x) (simp add: summarize_cmd_def Let_def)
  have others: "seed_owner_cmd env s \<noteq> None" "sync_users_cmd env s \<noteq> None" "score_users_cmd env s \<noteq> None" "prune_cmd env None None s \<noteq> None"
    by (simp_all add: seed_owner_cmd_def sync_users_cmd_def score_users_cmd_def prune_cmd_def Let_def)
  have "with_embedder env action job line s \<noteq> None" for action job line
    by (auto simp: with_embedder_def split: prod.splits sum.splits option.splits)
  then show ?thesis using assms(2) feeds reddit summaries others
    by (auto simp: daily_steps_def embed_articles_cmd_def embed_profiles_cmd_def)
qed


section \<open>Witnesses\<close>

text \<open>A day on which every site is down, nothing is to be summarized, and the owner's profile has its vector.\<close>

definition quiet_owner :: user_profile where
  "quiet_owner = \<lparr>u_id = ''owner'', u_portfolio = [''NVDA''], u_sectors = [], u_focus = Some ''finance'', u_email = None, u_updated_at = 0\<rparr>"

definition quiet_batch :: batch_world where
  "quiet_batch = \<lparr>bw_db = db_empty\<lparr>db_users := [quiet_owner], db_vectors := [\<lparr>v_user = ''owner'', v_embedding = [1],
     v_source_hash = row_hash (\<lambda>x. x) quiet_owner, v_updated_at = 0\<rparr>]\<rparr>, bw_clock = (\<lambda>n. 0), bw_slept = []\<rparr>"

definition quiet_env :: "unit site_env" where
  "quiet_env = \<lparr>pe_lib = demo_lib, pe_feed_lib = demo_feed_lib, pe_sha = (\<lambda>x. x), pe_iso = (\<lambda>t. []), pe_substack = demo_substack,
     pe_substack_json = (\<lambda>u. py_raise (DriverError ''down'')), pe_substack_feed = (\<lambda>u. py_raise (DriverError ''down'')),
     pe_reddit_json = (\<lambda>u. py_raise (DriverError ''down'')), pe_news_feed = (\<lambda>u. py_raise (DriverError ''down'')),
     pe_llm = demo_settings\<lparr>ls_key := []\<rparr>, pe_summary = sum_demo_settings\<lparr>sz_portfolio := [''NVDA'']\<rparr>, pe_embed = default_embed_settings ''k'',
     pe_max_batches = 25, pe_batch_pause = 0, pe_window_days = 30, pe_top_k = 200, pe_retention_days = 30, pe_max_articles = 5000,
     pe_relevance_floor = 3, pe_app_url = [], pe_app = ([], []), pe_distance = (\<lambda>v u. 0)\<rparr>"

definition quiet_site :: "unit site" where
  "quiet_site = \<lparr>si_net = (), si_http = tiny_world, si_batch = quiet_batch, si_out = []\<rparr>"

lemma quiet_ok: "store_ok (site_db quiet_site)"
  by (simp add: quiet_site_def quiet_batch_def store_ok_def db_ok_def db_empty_def)

lemma quiet_reddit: "\<exists>x. scrape_subreddit (pe_lib quiet_env) (pe_reddit_json quiet_env) sub limit order e = Some (x, e)"
  by (simp add: scrape_subreddit_def quiet_env_def listing_loop.simps py_monad_defs sum_bind_def)

lemma ingest_down:
  "\<forall>scrape \<in> set scrapes. \<forall>e. \<exists>x. scrape e = Some (Inl x, e) \<and> catches x \<Longrightarrow> ingest_sources sha catches keep scrapes p (e, z) = Some ((None, p), (e, z))"
proof (induction scrapes)
  case (Cons scrape rest)
  obtain x where "scrape e = Some (Inl x, e)" "catches x" using Cons.prems by (metis list.set_intros(1))
  then show ?case using Cons by simp
qed simp

lemma quiet_feed: "normalize_base b = Inr base \<Longrightarrow> rss_answer demo_feed_lib (\<lambda>u. py_raise (DriverError ''down'')) b n e = Some (Inl (DriverError ''down''), e)"
  by (simp add: rss_answer_def scrape_publication_via_rss_def py_monad_defs py_lift_def)

lemma quiet_scrapes:
  assumes "c \<in> set (take 3 (daily_steps quiet_env 0))"
  shows "\<exists>s'. c s = Some (Inr (), s') \<and> si_batch s' = si_batch s"
proof -
  have pub: "ingest_sources sha is_scrapeforge_error keep (map (\<lambda>base. rss_answer (pe_feed_lib quiet_env) (pe_substack_feed quiet_env) base n)
      (map sb_base (select_sources None None))) p (e, z) = Some ((None, p), (e, z))" for sha keep n p e z
    by (rule ingest_down) (auto simp: quiet_env_def select_sources_def pick_def quiet_feed [OF bspec [OF curated_hosts]])
  have red: "ingest_sources sha (\<lambda>x. True) keep (map (\<lambda>sub. scrape_subreddit (pe_lib quiet_env) (pe_reddit_json quiet_env) sub 20 order) subs) p (e, z) =
      Some ((None, p), (e, z))" for sha keep order subs p e z
    by (rule ingest_down) (auto simp: quiet_env_def scrape_subreddit_def listing_loop.simps py_monad_defs sum_bind_def)
  have news: "ingest_sources sha (\<lambda>x. True) keep (map (\<lambda>feed. news_answer quiet_env feed n m) feeds) p (e, z) =
      Some ((None, p), (e, z))" for sha keep n m feeds p e z
    by (rule ingest_down) (auto simp: quiet_env_def news_answer_def py_monad_defs)
  have "\<exists>s'. ingest_cmd quiet_env 5 None None True s = Some (Inr (), s') \<and> si_batch s' = si_batch s"
    by (simp add: ingest_cmd_def Let_def on_scrapers_def report_def ingest_publications_def pub persisted_count_def del: map_map)
  moreover have "\<exists>s'. ingest_reddit_cmd quiet_env 20 None None ''hot'' 25 s = Some (Inr (), s') \<and> si_batch s' = si_batch s"
    by (simp add: ingest_reddit_cmd_def Let_def on_scrapers_def report_def ingest_subreddits_def red persisted_count_def del: map_map)
  moreover have "\<exists>s'. ingest_news_cmd quiet_env 20 None None 200 s = Some (Inr (), s') \<and> si_batch s' = si_batch s"
    by (simp add: ingest_news_cmd_def Let_def on_scrapers_def report_def ingest_news_feeds_def news persisted_count_def del: map_map)
  moreover have "c \<in> {ingest_cmd quiet_env 5 None None True, ingest_reddit_cmd quiet_env 20 None None ''hot'' 25,
      ingest_news_cmd quiet_env 20 None None 200}"
    using assms by (simp add: daily_steps_def)
  ultimately show ?thesis by (elim insertE emptyE) simp_all
qed

lemma quiet_step:
  assumes "c \<in> set (daily_steps quiet_env 0)" and "si_batch s = quiet_batch"
  shows "\<exists>s'. c s = Some (Inr (), s') \<and> si_batch s' = quiet_batch"
proof -
  have key: "make_embedder demo_lib (default_embed_settings ''k'') = Inr (gemini_adapter demo_lib (default_embed_settings ''k''))"
    "es_key (default_embed_settings ''k'') = ''k''"
  proof -
    have "lower (strip (es_provider (default_embed_settings ''k''))) = ''gemini''" by code_simp
    then show "make_embedder demo_lib (default_embed_settings ''k'') = Inr (gemini_adapter demo_lib (default_embed_settings ''k''))"
      by (simp add: make_embedder_def Let_def)
  qed (simp add: default_embed_settings_def)
  have sum: "\<exists>s'. summarize_cmd quiet_env 0 s = Some (Inr (), s') \<and> si_batch s' = quiet_batch"
    using assms(2) by (simp add: summarize_cmd_def quiet_env_def)
  have seed: "\<exists>s'. seed_owner_cmd quiet_env s = Some (Inr (), s') \<and> si_batch s' = quiet_batch"
    using assms(2) by (simp add: seed_owner_cmd_def quiet_env_def seed_owner_def quiet_batch_def quiet_owner_def upsert_by_def
        demo_settings_def sum_demo_settings_def db_empty_def)
  have sync: "\<exists>s'. sync_users_cmd quiet_env s = Some (Inr (), s') \<and> si_batch s' = quiet_batch"
    using assms(2) by (simp add: sync_users_cmd_def quiet_env_def)
  have arts: "\<exists>s'. embed_articles_cmd quiet_env s = Some (Inr (), s') \<and> si_batch s' = quiet_batch"
    using assms(2) by (simp add: embed_articles_cmd_def with_embedder_def embedder_or_skip_def quiet_env_def key sum_bind_def on_provider_def report_def
        embed_articles_def unembedded_rows_def newest_first_def quiet_batch_def db_empty_def numeral_eq_Suc)
  have profs: "\<exists>s'. embed_profiles_cmd quiet_env s = Some (Inr (), s') \<and> si_batch s' = quiet_batch"
    using assms(2) by (simp add: embed_profiles_cmd_def with_embedder_def embedder_or_skip_def quiet_env_def key sum_bind_def on_provider_def report_def
        embed_profiles_def changed_profiles_def stored_hash_def quiet_batch_def quiet_owner_def db_empty_def)
  have scores: "\<exists>s'. score_users_cmd quiet_env s = Some (Inr (), s') \<and> si_batch s' = quiet_batch"
    using assms(2) by (simp add: score_users_cmd_def on_database_def report_def score_users_def score_user_def ranked_def candidates_def
        quiet_env_def quiet_batch_def db_empty_def Let_def)
  have "prune_articles days cap fl now (bw_db quiet_batch) = (0, bw_db quiet_batch)" if "0 \<le> cap" for days cap fl now
    using that by (simp add: prune_articles_def prune_age_def prune_irrelevant_def prune_cap_def quiet_batch_def db_empty_def)
  then have prune: "\<exists>s'. prune_cmd quiet_env None None s = Some (Inr (), s') \<and> si_batch s' = quiet_batch"
    using assms(2) by (simp add: prune_cmd_def on_database_def report_def quiet_env_def) (simp add: quiet_batch_def)
  have "c \<in> set (take 3 (daily_steps quiet_env 0)) \<or> c \<in> {summarize_cmd quiet_env 0, seed_owner_cmd quiet_env, sync_users_cmd quiet_env,
      embed_articles_cmd quiet_env, embed_profiles_cmd quiet_env, score_users_cmd quiet_env, prune_cmd quiet_env None None}"
    using assms(1) by (auto simp: daily_steps_def)
  then show ?thesis using quiet_scrapes [of c s] assms(2) sum seed sync arts profs scores prune by (elim disjE insertE emptyE) simp_all
qed

lemma quiet_day: "\<exists>s'. daily_pipeline quiet_env 0 quiet_site = Some (Inr (), s')"
proof -
  have "\<exists>s'. run_steps cs s = Some (Inr (), s')" if "set cs \<subseteq> set (daily_steps quiet_env 0)" "si_batch s = quiet_batch" for cs s
    using that
  proof (induction cs arbitrary: s)
    case (Cons c cs)
    obtain s1 where "c s = Some (Inr (), s1)" "si_batch s1 = quiet_batch" using quiet_step [of c s] Cons.prems by auto
    then show ?case using Cons by simp
  qed simp
  then show ?thesis unfolding daily_pipeline_def by (simp add: quiet_site_def)
qed



end
