(* ===== verification/Digest_Commands.thy ===== *)
theory Digest_Commands
  imports Delivery Scheduler Substack "HOL-Library.Sublist"
begin

text \<open>
  The two senders of \<open>digest/sender.py\<close> and the commands of \<open>digest/cli.py\<close>.

  The environment is a map from names to values, after \<open>.env\<close> was loaded.  The SMTP server is not under src/:
  the state has a stream of the outcomes of its sessions, about which nothing is assumed; a
  session can take the message and still raise, at the end of the session.  The output directory of the
  previews is given as the absolute path that it resolves to, and has no subdirectories.
\<close>

section \<open>The senders\<close>

type_synonym environ = "string \<Rightarrow> string option"

definition env_get :: "environ \<Rightarrow> string \<Rightarrow> string \<Rightarrow> string" where
  "env_get vars key dflt = (case vars key of Some v \<Rightarrow> v | None \<Rightarrow> dflt)"

record preview_state =
  pv_files :: "string \<Rightarrow> string option"
  pv_out :: "string list"

definition preview_slug :: "string \<Rightarrow> string" where
  "preview_slug to = replace_char (CHR ''.'') ''_'' (replace_char (CHR ''@'') ''_at_'' to)"

definition preview_path :: "string \<Rightarrow> string \<Rightarrow> string" where
  "preview_path out_dir to = out_dir @ ''/'' @ preview_slug to @ ''.html''"

definition preview_send :: "string \<Rightarrow> preview_state sender" where
  "preview_send out_dir to mail s =
     (if CHR ''/'' \<in> set (preview_slug to) then (Inl (OtherError ''FileNotFoundError''), s)
      else (Inr (), s\<lparr>pv_files := (pv_files s)(preview_path out_dir to \<mapsto> re_html mail),
        pv_out := pv_out s @ [''=== Hezzian digest (PREVIEW - not sent) ==='', ''To:      '' @ to, ''Subject: '' @ re_subject mail,
          ''HTML:    '' @ preview_path out_dir to, ''--- plain text ---'', re_text mail, replicate 44 (CHR ''='')]\<rparr>))"

record smtp_config =
  sc_host :: string
  sc_port :: int
  sc_user :: string
  sc_password :: string
  sc_from :: string

record smtp_message =
  sg_subject :: string
  sg_from :: string
  sg_to :: string
  sg_text :: string
  sg_html :: string

datatype smtp_outcome = Refused exn | Taken | Taken_Raised exn

record smtp_state =
  mt_sessions :: "nat \<Rightarrow> smtp_outcome"
  mt_delivered :: "smtp_message list"

text \<open>\<open>SmtpEmailSender()\<close>: everything comes from the environment.\<close>

definition smtp_credentials_missing :: string where
  "smtp_credentials_missing = ''SMTP credentials missing: set DIGEST_SMTP_USER and DIGEST_SMTP_PASSWORD '' @
     ''(a Gmail app password) in the environment / .env before real sending.''"

definition smtp_sender :: "environ \<Rightarrow> exn + smtp_config" where
  "smtp_sender vars =
     sum_bind (int_text (env_get vars ''DIGEST_SMTP_PORT'' ''587'')) (\<lambda>port.
       let user = env_get vars ''DIGEST_SMTP_USER'' []; password = env_get vars ''DIGEST_SMTP_PASSWORD'' []
       in if user = [] \<or> password = [] then Inl (ValueError smtp_credentials_missing)
          else Inr \<lparr>sc_host = env_get vars ''DIGEST_SMTP_HOST'' ''smtp.gmail.com'', sc_port = port, sc_user = user,
                 sc_password = password, sc_from = env_get vars ''DIGEST_FROM'' user\<rparr>)"

text \<open>A header of \<open>EmailMessage\<close> is one line.\<close>

definition header_ok :: "string \<Rightarrow> bool" where
  "header_ok v = (length (splitlines v) \<le> 1)"

definition smtp_message_of :: "smtp_config \<Rightarrow> string \<Rightarrow> rendered_email \<Rightarrow> exn + smtp_message" where
  "smtp_message_of cfg to mail =
     (if header_ok (re_subject mail) \<and> header_ok (sc_from cfg) \<and> header_ok to
      then Inr \<lparr>sg_subject = re_subject mail, sg_from = sc_from cfg, sg_to = to, sg_text = re_text mail, sg_html = re_html mail\<rparr>
      else Inl (ValueError ''Header values may not contain linefeed or carriage return characters''))"

definition smtp_session :: "smtp_message \<Rightarrow> (smtp_state, unit) py" where
  "smtp_session m w =
     (let w' = w\<lparr>mt_sessions := (\<lambda>n. mt_sessions w (Suc n))\<rparr>; taken = w'\<lparr>mt_delivered := mt_delivered w @ [m]\<rparr> in
      case mt_sessions w 0 of Refused e \<Rightarrow> (Inl e, w') | Taken \<Rightarrow> (Inr (), taken) | Taken_Raised e \<Rightarrow> (Inl e, taken))"

definition smtp_send :: "smtp_config \<Rightarrow> smtp_state sender" where
  "smtp_send cfg to mail = py_bind (py_lift (smtp_message_of cfg to mail)) smtp_session"

section \<open>The commands\<close>

datatype exit_code = Returned | Exited nat | Raised exn

record digest_env =
  de_lib :: pylib
  de_dl :: digest_lib
  de_fromiso :: "string \<Rightarrow> exn + datetime"
  de_settings :: digest_settings
  de_samples :: "article list"
  de_read :: "string \<Rightarrow> exn + string"
  de_subscriber :: "string \<Rightarrow> exn + subscriber"
  de_vars :: environ
  de_db :: db
  de_clock :: "nat \<Rightarrow> datetime"
  de_confirmed :: bool

text \<open>Standard output, standard error, and how the process ends, beside the state of the sender.\<close>

record 's terminal =
  tm_sender :: 's
  tm_out :: "string list"
  tm_err :: "string list"

definition recipient_override :: "digest_env \<Rightarrow> string option" where
  "recipient_override env = (case de_vars env ''DIGEST_TO'' of Some (c # cs) \<Rightarrow> Some (c # cs) | _ \<Rightarrow> None)"

definition deliver_one :: "digest_env \<Rightarrow> string \<Rightarrow> string \<Rightarrow> 's sender \<Rightarrow> ('s, digest) py" where
  "deliver_one env path source send = deliver (de_lib env) (de_dl env) (de_fromiso env) (de_settings env) (de_samples env) (de_read env)
     (de_db env) (de_subscriber env path) source send (recipient_override env) (de_clock env 0) (de_clock env 1)"

definition summary_str :: "delivery_summary \<Rightarrow> string" where
  "summary_str y = ''sent='' @ nat_str (dy_sent y) @ '' skipped_empty='' @ nat_str (dy_skipped y) @ '' failed='' @ nat_str (dy_failed y)"

definition digest_preview :: "digest_env \<Rightarrow> string \<Rightarrow> string \<Rightarrow> string \<Rightarrow> preview_state terminal \<Rightarrow> exit_code \<times> preview_state terminal" where
  "digest_preview env path source out_dir t = (case deliver_one env path source (preview_send out_dir) (tm_sender t) of
      (Inl e, s) \<Rightarrow> (Raised e, t\<lparr>tm_sender := s\<rparr>)
    | (Inr d, s) \<Rightarrow> (Returned, t\<lparr>tm_sender := s, tm_out := tm_out t @ [''Built digest for '' @ dg_subscriber_name d @ '' <'' @ dg_subscriber_email d @
        ''>: '' @ nat_str (total_items d) @ '' item(s) across '' @ nat_str (length (dg_sections d)) @ '' section(s).'']\<rparr>))"

text \<open>Every \<open>ValueError\<close>, those of the readers and validators too, is reported as a refusal to send; other exceptions are not caught.\<close>

fun is_value_error :: "exn \<Rightarrow> bool" where
  "is_value_error (ValueError m) = True"
| "is_value_error (JSONDecodeError m) = True"
| "is_value_error e = False"

definition cannot_send :: "exn \<Rightarrow> 's \<Rightarrow> 's terminal \<Rightarrow> exit_code \<times> 's terminal" where
  "cannot_send e s t = (if is_value_error e then (Exited 1, t\<lparr>tm_sender := s, tm_err := tm_err t @ [''Cannot send: '' @ exn_str e]\<rparr>)
     else (Raised e, t\<lparr>tm_sender := s\<rparr>))"

definition digest_send :: "digest_env \<Rightarrow> string \<Rightarrow> string \<Rightarrow> bool \<Rightarrow> smtp_state terminal \<Rightarrow> exit_code \<times> smtp_state terminal" where
  "digest_send env path source yes t =
     (if \<not> yes \<and> \<not> de_confirmed env then (Exited 1, t\<lparr>tm_err := tm_err t @ [''Aborted.'']\<rparr>)
      else (case smtp_sender (de_vars env) of
          Inl e \<Rightarrow> cannot_send e (tm_sender t) t
        | Inr cfg \<Rightarrow> (case deliver_one env path source (smtp_send cfg) (tm_sender t) of
            (Inl e, s) \<Rightarrow> cannot_send e s t
          | (Inr d, s) \<Rightarrow> (Returned, t\<lparr>tm_sender := s, tm_out := tm_out t @ [''Sent digest to '' @
              str_or (recipient_override env) (dg_subscriber_email d) @ '' ('' @ nat_str (total_items d) @ '' items).'']\<rparr>))))"

definition digest_preview_all :: "digest_env \<Rightarrow> string \<Rightarrow> string \<Rightarrow> preview_state terminal \<Rightarrow> exit_code \<times> preview_state terminal" where
  "digest_preview_all env source out_dir t =
     (case deliver_all (de_dl env) (de_settings env) (de_clock env) (de_db env) (preview_send out_dir) source (tm_sender t) of
        (Inl e, s) \<Rightarrow> (Raised e, t\<lparr>tm_sender := s\<rparr>)
      | (Inr y, s) \<Rightarrow> (Returned, t\<lparr>tm_sender := s, tm_out := tm_out t @ [''Per-user digests (preview): '' @ summary_str y]\<rparr>))"

definition digest_send_all :: "digest_env \<Rightarrow> string \<Rightarrow> bool \<Rightarrow> smtp_state terminal \<Rightarrow> exit_code \<times> smtp_state terminal" where
  "digest_send_all env source yes t =
     (if \<not> yes \<and> \<not> de_confirmed env then (Exited 1, t\<lparr>tm_err := tm_err t @ [''Aborted.'']\<rparr>)
      else (case smtp_sender (de_vars env) of
          Inl e \<Rightarrow> cannot_send e (tm_sender t) t
        | Inr cfg \<Rightarrow>
            (case deliver_all (de_dl env) (de_settings env) (de_clock env) (de_db env) (smtp_send cfg) source (tm_sender t) of
               (Inl e, s) \<Rightarrow> cannot_send e s t
             | (Inr y, s) \<Rightarrow> (Returned, t\<lparr>tm_sender := s, tm_out := tm_out t @ [''Per-user digests sent: '' @ summary_str y]\<rparr>))))"

section \<open>What a sender promises\<close>

text \<open>A mail whose sending returns is out; one whose sending raises is out at most once.\<close>

locale email_sender =
  fixes send :: "'s sender"
    and outbox :: "'s \<Rightarrow> (string \<times> rendered_email) list"
  assumes sent: "send to mail s = (Inr u, s') \<Longrightarrow> outbox s' = outbox s @ [(to, mail)]"
    and raised: "send to mail s = (Inl e, s') \<Longrightarrow> outbox s' = outbox s \<or> outbox s' = outbox s @ [(to, mail)]"
begin

lemma deliver_user_outbox:
  assumes "deliver_user dl send now u articles s = (r, s')"
  shows "\<exists>ms. outbox s' = outbox s @ ms \<and>
    (case build_user_digest dl u articles now of Inl e \<Rightarrow> ms = [] \<and> r \<noteq> Inr () | Inr dg \<Rightarrow>
       (ms = [] \<and> r \<noteq> Inr () \<or> ms = [(au_email u, render_email dg)]))"
proof (cases "build_user_digest dl u articles now")
  case (Inl e)
  then show ?thesis using assms by (auto simp: deliver_user_def py_monad_defs py_lift_def)
next
  case (Inr dg)
  then have send: "send (au_email u) (render_email dg) s = (r, s')" using assms by (simp add: deliver_user_def py_monad_defs py_lift_def)
  from Inr show ?thesis using sent [of "au_email u" "render_email dg" s "()" s'] raised [of "au_email u" "render_email dg" s _ s'] send
    by (cases r) fastforce+
qed

lemma batches_outbox:
  "deliver_batches dl send clock i batches acc s = (y, s') \<Longrightarrow>
     \<exists>ms. outbox s' = outbox s @ ms \<and> subseq ms (planned_mails dl clock i batches) \<and> dy_sent y \<le> dy_sent acc + length ms"
proof (induction batches arbitrary: i acc s)
  case (Cons b rest)
  obtain u articles where b: "b = (u, articles)" by (cases b)
  show ?case
  proof (cases "articles = []")
    case True
    then show ?thesis using Cons.prems Cons.IH [of i "acc\<lparr>dy_skipped := dy_skipped acc + 1\<rparr>" s] by (simp add: b)
  next
    case False
    obtain r s1 where one: "deliver_user dl send (clock i) u articles s = (r, s1)" by (metis prod.collapse)
    let ?acc = "case r of Inl e \<Rightarrow> acc\<lparr>dy_failed := dy_failed acc + 1\<rparr> | Inr _ \<Rightarrow> acc\<lparr>dy_sent := dy_sent acc + 1\<rparr>"
    have "deliver_batches dl send clock (i + 1) rest ?acc s1 = (y, s')"
      using Cons.prems one False by (cases r) (simp_all add: b)
    from Cons.IH [OF this] obtain ms where ms: "outbox s' = outbox s1 @ ms" "subseq ms (planned_mails dl clock (i + 1) rest)"
      "dy_sent y \<le> dy_sent ?acc + length ms" by blast
    obtain m where m: "outbox s1 = outbox s @ m" and r: "case build_user_digest dl u articles (clock i) of Inl e \<Rightarrow> m = [] \<and> r \<noteq> Inr ()
        | Inr dg \<Rightarrow> (m = [] \<and> r \<noteq> Inr () \<or> m = [(au_email u, render_email dg)])"
      using deliver_user_outbox [OF one] by blast
    have "subseq (m @ ms) (planned_mails dl clock i (b # rest))"
      using r ms(2) False by (auto simp: b intro: list_emb_Cons split: sum.splits)
    moreover have "dy_sent ?acc \<le> dy_sent acc + length m" using r by (cases r) (auto split: sum.splits)
    ultimately show ?thesis using m ms(1,3) by (intro exI [of _ "m @ ms"]) auto
  qed
qed simp

end

definition smtp_outbox :: "smtp_state \<Rightarrow> (string \<times> rendered_email) list" where
  "smtp_outbox w = map (\<lambda>m. (sg_to m, \<lparr>re_subject = sg_subject m, re_html = sg_html m, re_text = sg_text m\<rparr>)) (mt_delivered w)"

lemma smtp_send_effect:
  assumes "smtp_send cfg to mail w = (r, w')"
  shows "\<exists>ms. mt_delivered w' = mt_delivered w @ ms \<and> (r = Inr () \<longrightarrow> ms \<noteq> []) \<and>
    (ms = [] \<or> ms = [\<lparr>sg_subject = re_subject mail, sg_from = sc_from cfg, sg_to = to, sg_text = re_text mail, sg_html = re_html mail\<rparr>])"
  using assms by (auto simp: smtp_send_def smtp_message_of_def smtp_session_def py_monad_defs py_lift_def Let_def split: if_splits smtp_outcome.splits)

interpretation smtp: email_sender "smtp_send cfg" smtp_outbox for cfg
proof unfold_locales
  fix to mail w u w' e
  show "smtp_outbox w' = smtp_outbox w @ [(to, mail)]" if "smtp_send cfg to mail w = (Inr u, w')"
    using smtp_send_effect [OF that] by (auto simp: smtp_outbox_def)
  show "smtp_outbox w' = smtp_outbox w \<or> smtp_outbox w' = smtp_outbox w @ [(to, mail)]" if "smtp_send cfg to mail w = (Inl e, w')"
    using smtp_send_effect [OF that] by (auto simp: smtp_outbox_def)
qed

text \<open>Every message of a batch carries the configured sender.\<close>

lemma batches_from:
  "deliver_batches dl (smtp_send cfg) clock i batches acc w = (y, w') \<Longrightarrow>
     \<exists>ms. mt_delivered w' = mt_delivered w @ ms \<and> (\<forall>m \<in> set ms. sg_from m = sc_from cfg)"
proof (induction batches arbitrary: i acc w)
  case (Cons b rest)
  obtain u articles where b: "b = (u, articles)" by (cases b)
  show ?case
  proof (cases "articles = []")
    case True
    then show ?thesis using Cons.prems Cons.IH by (simp add: b)
  next
    case False
    obtain r w1 where one: "deliver_user dl (smtp_send cfg) (clock i) u articles w = (r, w1)" by (metis prod.collapse)
    have first: "\<exists>ms. mt_delivered w1 = mt_delivered w @ ms \<and> (\<forall>m \<in> set ms. sg_from m = sc_from cfg)"
    proof (cases "build_user_digest dl u articles (clock i)")
      case (Inl e)
      then show ?thesis using one by (simp add: deliver_user_def py_monad_defs py_lift_def)
    next
      case (Inr dg)
      then have "smtp_send cfg (au_email u) (render_email dg) w = (r, w1)" using one by (simp add: deliver_user_def py_monad_defs py_lift_def)
      from smtp_send_effect [OF this] show ?thesis by fastforce
    qed
    obtain acc' where "deliver_batches dl (smtp_send cfg) clock (i + 1) rest acc' w1 = (y, w')"
      using Cons.prems one False by (cases r) (simp_all add: b)
    from Cons.IH [OF this] first show ?thesis by fastforce
  qed
qed simp

section \<open>Properties\<close>

lemma deliver_all_postgres:
  "deliver_all dl st clock d send ''postgres'' s = (case deliver_batches dl send clock (length (load_active_users d)) (load_all st clock d)
     \<lparr>dy_sent = 0, dy_skipped = 0, dy_failed = 0\<rparr> s of (r, s') \<Rightarrow> (Inr r, s'))"
  by (simp add: deliver_all_def)

text \<open>
  C32.  \<open>digest send-all\<close>: without a confirmation, without credentials or for another source nothing is handed to the
  server and the exit code is 1; otherwise the command returns, however many mails fail, and what the server
  took is a subsequence of the mails that were to be sent, in their order, every one from the configured
  address; each mail that the printed summary counts as sent was taken, and the counts of the summary
  add up to the active users.
\<close>

theorem send_all_contract:
  assumes "digest_send_all env source yes t = (x, t')" and "batches = load_all (de_settings env) (de_clock env) (de_db env)"
  shows "(\<not> yes \<and> \<not> de_confirmed env \<or> source \<noteq> ''postgres'' \<or> (\<exists>e. smtp_sender (de_vars env) = Inl e) \<longrightarrow>
      x = Exited 1 \<and> tm_sender t' = tm_sender t \<and> tm_out t' = tm_out t) \<and>
    ((yes \<or> de_confirmed env) \<and> source = ''postgres'' \<longrightarrow> (\<forall>cfg. smtp_sender (de_vars env) = Inr cfg \<longrightarrow> x = Returned \<and>
      (\<exists>ms y. mt_delivered (tm_sender t') = mt_delivered (tm_sender t) @ ms \<and> (\<forall>m \<in> set ms. sg_from m = sc_from cfg) \<and>
        subseq (smtp_outbox ((tm_sender t')\<lparr>mt_delivered := ms\<rparr>))
          (planned_mails (de_dl env) (de_clock env) (length (load_active_users (de_db env))) batches) \<and>
        dy_sent y \<le> length ms \<and> dy_sent y + dy_skipped y + dy_failed y = length (load_active_users (de_db env)) \<and>
        tm_out t' = tm_out t @ [''Per-user digests sent: '' @ summary_str y])))"
proof (intro conjI impI allI)
  assume idle: "\<not> yes \<and> \<not> de_confirmed env \<or> source \<noteq> ''postgres'' \<or> (\<exists>e. smtp_sender (de_vars env) = Inl e)"
  have "is_value_error e" if "smtp_sender (de_vars env) = Inl e" for e
    using that by (auto simp: smtp_sender_def int_text_def Let_def sum_bind_def split: if_splits)
  then show "x = Exited 1" "tm_sender t' = tm_sender t" "tm_out t' = tm_out t"
    using assms(1) idle by (auto simp: digest_send_all_def deliver_all_def cannot_send_def split: if_splits sum.splits)
next
  fix cfg
  assume go: "(yes \<or> de_confirmed env) \<and> source = ''postgres''" and cfg: "smtp_sender (de_vars env) = Inr cfg"
  let ?n = "length (load_active_users (de_db env))"
  obtain y s where run: "deliver_batches (de_dl env) (smtp_send cfg) (de_clock env) ?n batches \<lparr>dy_sent = 0, dy_skipped = 0, dy_failed = 0\<rparr>
      (tm_sender t) = (y, s)" by fastforce
  then have x: "x = Returned" and t': "t' = t\<lparr>tm_sender := s, tm_out := tm_out t @ [''Per-user digests sent: '' @ summary_str y]\<rparr>"
    using assms go cfg by (auto simp: digest_send_all_def deliver_all_postgres)
  obtain ms where ms: "mt_delivered s = mt_delivered (tm_sender t) @ ms" "\<forall>m \<in> set ms. sg_from m = sc_from cfg"
    using batches_from [OF run] by blast
  obtain os where os: "smtp_outbox s = smtp_outbox (tm_sender t) @ os"
    "subseq os (planned_mails (de_dl env) (de_clock env) ?n batches)" "dy_sent y \<le> length os"
    using smtp.batches_outbox [OF run] by auto
  have "os = smtp_outbox (s\<lparr>mt_delivered := ms\<rparr>)" using os(1) ms(1) by (simp add: smtp_outbox_def)
  moreover have "length (smtp_outbox (s\<lparr>mt_delivered := ms\<rparr>)) = length ms" by (simp add: smtp_outbox_def)
  moreover have "dy_sent y + dy_skipped y + dy_failed y = ?n"
    using deliver_batches_effect [OF run] by (simp add: assms(2) load_all_def)
  ultimately show "x = Returned" "\<exists>ms y. mt_delivered (tm_sender t') = mt_delivered (tm_sender t) @ ms \<and> (\<forall>m \<in> set ms. sg_from m = sc_from cfg) \<and>
        subseq (smtp_outbox ((tm_sender t')\<lparr>mt_delivered := ms\<rparr>)) (planned_mails (de_dl env) (de_clock env) ?n batches) \<and>
        dy_sent y \<le> length ms \<and> dy_sent y + dy_skipped y + dy_failed y = ?n \<and>
        tm_out t' = tm_out t @ [''Per-user digests sent: '' @ summary_str y]"
    using ms os x by (auto simp: t' intro!: exI [of _ ms] exI [of _ y])
qed

text \<open>Different recipients can share a preview file: the later preview replaces the earlier one.\<close>

lemma preview_collision:
  "preview_path out ''ann.lee@x.org'' = preview_path out ''ann_lee@x.org''"
  "pv_files (snd (preview_send out ''ann_lee@x.org'' m2 (snd (preview_send out ''ann.lee@x.org'' m1 s)))) =
     (pv_files s)(preview_path out ''ann_lee@x.org'' \<mapsto> re_html m2)"
  by (simp_all add: preview_send_def preview_path_def preview_slug_def replace_char_def)

text \<open>A \<open>DIGEST_FROM\<close> that is set and empty, as an unset secret of the workflow is, gives an empty sender address.\<close>

lemma smtp_from_empty:
  assumes "vars ''DIGEST_FROM'' = Some []" and "smtp_sender vars = Inr cfg"
  shows "sc_from cfg = [] \<and> sc_user cfg \<noteq> []"
  using assms by (auto simp: smtp_sender_def env_get_def Let_def sum_bind_def split: sum.splits if_splits)

section \<open>Witness\<close>

definition demo_digest_env :: digest_env where
  "demo_digest_env = \<lparr>de_lib = demo_lib, de_dl = demo_digest_lib, de_fromiso = unary_parse,
     de_settings = \<lparr>dt_floor = 5, dt_top_n = 10, dt_window_hours = 48, dt_user_top_n = 10, dt_user_window_hours = 48, dt_user_score_floor = 0\<rparr>,
     de_samples = [], de_read = (\<lambda>p. Inr []), de_subscriber = (\<lambda>p. Inl (OtherError ''FileNotFoundError'')),
     de_vars = [''DIGEST_SMTP_USER'' \<mapsto> ''u'', ''DIGEST_SMTP_PASSWORD'' \<mapsto> ''p''],
     de_db = db_empty\<lparr>db_users := [\<lparr>u_id = ''u'', u_portfolio = [], u_sectors = [], u_focus = None, u_email = Some ''a@b.c'', u_updated_at = 0\<rparr>]\<rparr>,
     de_clock = int, de_confirmed = False\<rparr>"

definition demo_terminal :: "smtp_state terminal" where
  "demo_terminal = \<lparr>tm_sender = \<lparr>mt_sessions = (\<lambda>n. Taken), mt_delivered = []\<rparr>, tm_out = [], tm_err = []\<rparr>"

theorem send_all_contract_witness:
  "\<exists>t'. digest_send_all demo_digest_env ''postgres'' True demo_terminal = (Returned, t') \<and> length (tm_out t') = 1"
proof -
  obtain x t' where run: "digest_send_all demo_digest_env ''postgres'' True demo_terminal = (x, t')" by fastforce
  have "int_text ''587'' = Inr 587" by code_simp
  then have "\<exists>cfg. smtp_sender (de_vars demo_digest_env) = Inr cfg"
    by (simp add: smtp_sender_def demo_digest_env_def env_get_def sum_bind_def Let_def)
  with send_all_contract [OF run refl] have "x = Returned" "length (tm_out t') = Suc (length (tm_out demo_terminal))" by auto
  then show ?thesis using run by (simp add: demo_terminal_def)
qed

end
