(* ===== verification/Deployment.thy ===== *)
theory Deployment
  imports Scraper_Worker Ingest_Worker Api
begin

text \<open>
  The scrape plane as it is deployed: the API and the scheduler that submit jobs, and the scraper, the
  transform and the ingest worker, separate processes on one queue, one object store and one database,
  in any interleaving.

  Each \<open>main\<close> of \<open>worker/run_*.py\<close> runs its drain loop, sleeps and starts again, for ever: it is a sequence
  of rounds of \<open>consume_once\<close>, one message a round, of which a round on an empty queue does nothing.  The
  rounds of the processes are interleaved as a list of events; a round itself is one event.  A round may
  be the last of its process, which dies after it has taken the message, or after it has handled it and
  before it settles it; a new process takes its place.  What the queue does with a message in
  flight (\<open>RedisQueue\<close> gives it back after a while) is the port's; here it stays in flight.
\<close>

section \<open>State\<close>

record plane_queues =
  pq_jobs :: string
  pq_results :: string
  pq_ingest :: string

record ('q, 's, 'e) plane_env =
  pn_queue :: "'q mq_ops"
  pn_names :: plane_queues
  pn_retries :: int
  pn_sha :: "string \<Rightarrow> string"
  pn_fr :: "real \<Rightarrow> string"
  pn_scrape :: "'e scrape_env"
  pn_store :: "'s store_ops"
  pn_transform :: "'s transform_env"
  pn_ingest :: "('s, 'e) ingest_env"

record ('q, 's, 'e) plane =
  pl_queue :: 'q
  pl_world :: "'s tworld"
  pl_uuids :: "nat \<Rightarrow> string"
  pl_net :: 'e

section \<open>Rounds\<close>

datatype round_end = Completed | Died_early | Died_late

definition worker_round :: "round_end \<Rightarrow> 's mq_ops \<Rightarrow> string \<Rightarrow> (pydict \<Rightarrow> ('s, 'a) py) \<Rightarrow> int \<Rightarrow> 's \<Rightarrow> 's" where
  "worker_round e ops q h mx s = (case e of
      Completed \<Rightarrow> snd (consume_once ops q h mx s)
    | Died_early \<Rightarrow> snd (op_reserve ops q s)
    | Died_late \<Rightarrow> (case op_reserve ops q s of (Inr (Some m), s1) \<Rightarrow> snd (h (m_payload m) s1) | (_, s1) \<Rightarrow> s1))"

definition scraper_round :: "('q, 's, 'e) plane_env \<Rightarrow> round_end \<Rightarrow> ('q, 's, 'e) plane \<Rightarrow> ('q, 's, 'e) plane" where
  "scraper_round env e p = (case worker_round e (lift_ops (pn_queue env)) (pq_jobs (pn_names env))
       (handle_scrape_job (pn_sha env) (pn_fr env) (pn_scrape env) (pn_store env) (pn_queue env) (pq_results (pn_names env)))
       (pn_retries env) (pl_queue p, (tw_store (pl_world p), pl_net p)) of
     (q, (st, x)) \<Rightarrow> p\<lparr>pl_queue := q, pl_world := (pl_world p)\<lparr>tw_store := st\<rparr>, pl_net := x\<rparr>)"

definition transform_round :: "('q, 's, 'e) plane_env \<Rightarrow> round_end \<Rightarrow> ('q, 's, 'e) plane \<Rightarrow> ('q, 's, 'e) plane" where
  "transform_round env e p = (case worker_round e (lift_ops (pn_queue env)) (pq_results (pn_names env))
       (\<lambda>m. on_snd (handle_result_pointer (pn_transform env) m)) (pn_retries env) (pl_queue p, pl_world p) of
     (q, w) \<Rightarrow> p\<lparr>pl_queue := q, pl_world := w\<rparr>)"

definition ingest_round :: "('q, 's, 'e) plane_env \<Rightarrow> round_end \<Rightarrow> ('q, 's, 'e) plane \<Rightarrow> ('q, 's, 'e) plane" where
  "ingest_round env e p = (case worker_round e (lift_ops (pn_queue env)) (pq_ingest (pn_names env))
       (\<lambda>m. on_snd (handle_ingest_job (pn_ingest env) m)) (pn_retries env) (pl_queue p, (pl_world p, pl_net p)) of
     (q, (w, x)) \<Rightarrow> p\<lparr>pl_queue := q, pl_world := w, pl_net := x\<rparr>)"

text \<open>A producer's call, which works on the queue, the database, the clock and the ids.\<close>

definition producing :: "('q \<times> pworld, 'a) py \<Rightarrow> ('q, 's, 'e) plane \<Rightarrow> ('q, 's, 'e) plane" where
  "producing f p = (case f (pl_queue p, \<lparr>pw_db = tw_db (pl_world p), pw_clock = tw_clock (pl_world p), pw_uuids = pl_uuids p\<rparr>) of
     (r, (q, w)) \<Rightarrow> p\<lparr>pl_queue := q, pl_uuids := pw_uuids w, pl_world := (pl_world p)\<lparr>tw_db := pw_db w, tw_clock := pw_clock w\<rparr>\<rparr>)"

datatype plane_event = Submitted job_in | Ticked | Scraped round_end | Transformed round_end | Ingested round_end

fun plane_step :: "('q, 's, 'e) plane_env \<Rightarrow> plane_event \<Rightarrow> ('q, 's, 'e) plane \<Rightarrow> ('q, 's, 'e) plane" where
  "plane_step env (Submitted body) p = producing (submit_job (pn_queue env) (pq_jobs (pn_names env)) body) p"
| "plane_step env Ticked p = producing (enqueue_due_sources (pn_queue env) (pq_jobs (pn_names env)) (pq_ingest (pn_names env))) p"
| "plane_step env (Scraped e) p = scraper_round env e p"
| "plane_step env (Transformed e) p = transform_round env e p"
| "plane_step env (Ingested e) p = ingest_round env e p"

definition plane_run :: "('q, 's, 'e) plane_env \<Rightarrow> plane_event list \<Rightarrow> ('q, 's, 'e) plane \<Rightarrow> ('q, 's, 'e) plane" where
  "plane_run env es p = fold (plane_step env) es p"

section \<open>Where a job is\<close>

text \<open>The messages of a queue, wherever they are, and the jobs they carry.\<close>

definition messages :: "aqueue \<Rightarrow> message set" where
  "messages a = (\<Union>q. set (aq_wait a q) \<union> set (aq_dead a q)) \<union> aq_fly a"

definition carries :: "pydict \<Rightarrow> string \<Rightarrow> bool" where
  "carries p i = (dict_get p ''job_id'' = Some (JStr i))"

definition carried :: "aqueue \<Rightarrow> string set" where
  "carried a = {i. \<exists>m \<in> messages a. carries (m_payload m) i}"

lemma carriedI: "m \<in> messages a \<Longrightarrow> carries (m_payload m) i \<Longrightarrow> i \<in> carried a"
  by (auto simp: carried_def)

lemma carried_publish: "carried (a_publish k q p a) = carried a \<union> {i. carries p i}"
proof -
  have "messages (a_publish k q p a) = insert \<lparr>m_id = k, m_queue = q, m_payload = p, m_attempts = 0\<rparr> (messages a)"
    by (auto simp: messages_def a_publish_def split: if_splits)
  then show ?thesis by (auto simp: carried_def)
qed

lemma waiting_split:
  assumes "f q = m # ms"
  shows "(\<Union>x. set (f x)) = insert m (\<Union>x. set ((f(q := ms)) x))"
proof (intro equalityI subsetI)
  fix y assume "y \<in> (\<Union>x. set (f x))"
  then obtain x where "y \<in> set (f x)" by auto
  then show "y \<in> insert m (\<Union>x. set ((f(q := ms)) x))"
    using assms by (cases "x = q") (auto intro: UN_I [of q] UN_I [of x])
next
  fix y assume "y \<in> insert m (\<Union>x. set ((f(q := ms)) x))"
  then show "y \<in> (\<Union>x. set (f x))"
    using assms by (auto intro: exI [of _ q] split: if_splits)
qed

lemma carried_reserve: "carried (snd (a_reserve q a)) = carried a"
proof (cases "aq_wait a q")
  case (Cons m ms)
  let ?rest = "(\<Union>x. set (((aq_wait a)(q := ms)) x)) \<union> (\<Union>q. set (aq_dead a q)) \<union> aq_fly a"
  have "messages (snd (a_reserve q a)) = insert (bump m) ?rest" using Cons by (auto simp: messages_def a_reserve_def)
  moreover have "messages a = insert m ?rest"
    using waiting_split [of "aq_wait a", OF Cons] by (simp add: messages_def Un_ac UN_Un_distrib)
  ultimately show ?thesis unfolding carried_def by simp
qed (simp add: a_reserve_def)

lemma messages_settle:
  "messages (settle mx m r a) = (case r of Inr v \<Rightarrow> messages (a\<lparr>aq_fly := aq_fly a - {m}\<rparr>) | Inl e \<Rightarrow> insert m (messages a))"
  by (auto simp: messages_def settle_def aqueue_defs split: sum.splits if_splits)

lemma carried_settle:
  "carried a \<subseteq> carried (settle mx m r a) \<union> (case r of Inr v \<Rightarrow> {i. carries (m_payload m) i} | Inl e \<Rightarrow> {})"
proof (cases r)
  case (Inr v)
  have "messages a \<subseteq> insert m (messages (a\<lparr>aq_fly := aq_fly a - {m}\<rparr>))" by (auto simp: messages_def)
  then show ?thesis unfolding carried_def messages_settle Inr by auto
qed (auto simp: carried_def messages_settle)

section \<open>A round, and what it keeps\<close>

context message_queue
begin

text \<open>
  A property of the queue and the rest of the state is kept by a round when its parts keep it: the
  reservation, which gives a fact \<open>M\<close> about the message; the handler, which gives a fact \<open>S\<close> about its result;
  and the settlement.
\<close>

lemma round_keeps:
  fixes h :: "pydict \<Rightarrow> ('s, 'b) py"
  assumes "inv s" and q: "valid q" and wb: "well_behaved q h" and P: "P (abs s) (rest s)"
    and reserve: "\<And>a w m ms. P a w \<Longrightarrow> aq_wait a q = m # ms \<Longrightarrow> P (snd (a_reserve q a)) w \<and> M (m_payload m) w"
    and handler: "\<And>p s r s'. inv s \<Longrightarrow> P (abs s) (rest s) \<Longrightarrow> M p (rest s) \<Longrightarrow> h p s = (r, s') \<Longrightarrow>
      P (abs s') (rest s') \<and> S p r (abs s') (rest s')"
    and settle: "\<And>a w m (r :: exn + 'b). P a w \<Longrightarrow> m_queue m = q \<Longrightarrow> m \<in> aq_fly a \<Longrightarrow> S (m_payload m) r a w \<Longrightarrow> P (settle mx m r a) w"
  shows "inv (worker_round e ops q h mx s) \<and> P (abs (worker_round e ops q h mx s)) (rest (worker_round e ops q h mx s))"
proof (cases "aq_wait (abs s) q")
  case Nil
  obtain s' where c: "consume_once ops q h mx s = (Inr False, s')" "inv s'" "abs s' = abs s" "rest s' = rest s"
    using consume_once_empty [OF assms(1) q Nil] by blast
  obtain s1 where "op_reserve ops q s = (Inr None, s1)" "inv s1" "rest s1 = rest s" "abs s1 = abs s"
    using reserve_refines [OF assms(1) q] Nil by (auto simp: a_reserve_def)
  then show ?thesis using c P by (cases e) (simp_all add: worker_round_def)
next
  case (Cons m ms)
  obtain s1 r s2 s' where c: "op_reserve ops q s = (Inr (Some (bump m)), s1)" "rest s1 = rest s" "inv s1"
    "h (m_payload m) s1 = (r, s2)" "inv s2" "bump m \<in> aq_fly (abs s2)" "consume_once ops q h mx s = (Inr True, s')" "inv s'"
    "rest s' = rest s2" "abs s' = settle mx (bump m) r (abs s2)"
    using consume_once_cons [OF assms(1) q Cons wb, of mx] by blast
  have "abs s1 = snd (a_reserve q (abs s))" using reserve_refines [OF assms(1) q] c(1) by auto
  then have one: "P (abs s1) (rest s1)" "M (m_payload m) (rest s1)" using reserve [OF P Cons] c(2) by simp_all
  have two: "P (abs s2) (rest s2)" "S (m_payload m) r (abs s2) (rest s2)" using handler [OF c(3) one c(4)] by simp_all
  have "m_queue (bump m) = q" using aq_ok_head(3) [OF abs_ok [OF assms(1)] Cons] by simp
  from settle [OF two(1) this c(6)] two(2) have "P (abs s') (rest s')" by (simp add: c(9,10))
  then show ?thesis using c one two by (cases e) (simp_all add: worker_round_def)
qed

end

section \<open>The invariant\<close>

text \<open>
  What holds of a message that waits on a queue: its job is in the database, and a pointer names an
  object that is in the store and the domain of its URL.
\<close>

definition message_ok :: "(string \<Rightarrow> pybytes option) \<Rightarrow> plane_queues \<Rightarrow> db \<Rightarrow> string \<Rightarrow> pydict \<Rightarrow> bool" where
  "message_ok objs names d q p =
     ((q = pq_jobs names \<longrightarrow> (\<forall>m. read_job p = Inr m \<longrightarrow> get_job (jm_job_id m) d \<noteq> None)) \<and>
      (q = pq_ingest names \<longrightarrow> (\<forall>m. read_ingest p = Inr m \<longrightarrow> get_job (im_job_id m) d \<noteq> None)) \<and>
      (q = pq_results names \<longrightarrow> (\<exists>r. read_pointer p = Inr r \<and> objs (rp_object_key r) \<noteq> None \<and> get_job (rp_job_id r) d \<noteq> None \<and>
         url_domain (rp_url r) = Inr (rp_domain r))))"

text \<open>No job is lost: it is finished, or a message carries it.\<close>

definition jobs_kept :: "aqueue \<Rightarrow> db \<Rightarrow> bool" where
  "jobs_kept a d = (\<forall>i j. get_job i d = Some j \<longrightarrow> j_finished_at j \<noteq> None \<or> i \<in> carried a)"

definition plane_inv :: "plane_queues \<Rightarrow> aqueue \<Rightarrow> (string \<Rightarrow> pybytes option) \<Rightarrow> db \<Rightarrow> (nat \<Rightarrow> string) \<Rightarrow> bool" where
  "plane_inv names a objs d u =
     (db_ok d \<and> inj u \<and> (\<forall>n. get_job (u n) d = None) \<and> (\<forall>s \<in> set (db_sources d). s_enabled s \<longrightarrow> source_ok s) \<and> jobs_kept a d \<and>
      (\<forall>q. \<forall>m \<in> set (aq_wait a q). message_ok objs names d q (m_payload m)) \<and> aq_dead a (pq_results names) = [])"

text \<open>How the workers change the database: jobs stay, and what is finished stays finished.\<close>

definition jobs_grow :: "db \<Rightarrow> db \<Rightarrow> bool" where
  "jobs_grow d d' = (db_ok d' \<and> db_sources d' = db_sources d \<and> (\<forall>k. case get_job k d of None \<Rightarrow> get_job k d' = None
     | Some j \<Rightarrow> \<exists>j'. get_job k d' = Some j' \<and> (j_finished_at j \<noteq> None \<longrightarrow> j_finished_at j' \<noteq> None)))"

lemma jobs_grow_None: "jobs_grow d d' \<Longrightarrow> get_job k d' = None \<longleftrightarrow> get_job k d = None"
  unfolding jobs_grow_def by (cases "get_job k d") (auto dest!: spec [of _ k])

lemma jobs_grow_finished:
  "jobs_grow d d' \<Longrightarrow> get_job k d = Some j \<Longrightarrow> j_finished_at j \<noteq> None \<Longrightarrow> get_job k d' = Some j' \<Longrightarrow> j_finished_at j' \<noteq> None"
  unfolding jobs_grow_def by (auto dest!: spec [of _ k])

lemma message_ok_grow:
  "message_ok objs names d q p \<Longrightarrow> (\<And>k. get_job k d \<noteq> None \<Longrightarrow> get_job k d' \<noteq> None) \<Longrightarrow> (\<And>k. objs k \<noteq> None \<Longrightarrow> objs' k \<noteq> None) \<Longrightarrow>
     message_ok objs' names d' q p"
  unfolding message_ok_def by blast

lemma plane_inv_grow:
  assumes "plane_inv names a objs d u" and "jobs_grow d d'" and "\<And>k. objs k \<noteq> None \<Longrightarrow> objs' k \<noteq> None"
  shows "plane_inv names a objs' d' u"
proof -
  note inv = assms(1) [unfolded plane_inv_def]
  have "jobs_kept a d'"
    unfolding jobs_kept_def
  proof (intro allI impI)
    fix i j' assume j': "get_job i d' = Some j'"
    then obtain j where "get_job i d = Some j" using jobs_grow_None [OF assms(2), of i] by auto
    then show "j_finished_at j' \<noteq> None \<or> i \<in> carried a"
      using inv jobs_grow_finished [OF assms(2) _ _ j'] unfolding jobs_kept_def by blast
  qed
  moreover have "message_ok objs' names d' q (m_payload m)" if "m \<in> set (aq_wait a q)" for q m
  proof -
    have "message_ok objs names d q (m_payload m)" using inv that by blast
    then show ?thesis by (rule message_ok_grow) (use assms(3) jobs_grow_None [OF assms(2)] in auto)
  qed
  moreover have "db_ok d'" "db_sources d' = db_sources d" using assms(2) by (simp_all add: jobs_grow_def)
  ultimately show ?thesis using inv jobs_grow_None [OF assms(2)] unfolding plane_inv_def by simp
qed

lemma carried_waiting: "m \<in> set (aq_wait a q) \<Longrightarrow> carries (m_payload m) i \<Longrightarrow> i \<in> carried a"
  by (auto simp: carried_def messages_def)

lemma plane_inv_publish:
  assumes "plane_inv names a objs d u" and "message_ok objs names d q p"
  shows "plane_inv names (a_publish k q p a) objs d u"
  using assms by (auto simp: plane_inv_def jobs_kept_def carried_publish) (auto simp: a_publish_def split: if_splits)

lemma plane_inv_reserve:
  assumes "plane_inv names a objs d u"
  shows "plane_inv names (snd (a_reserve q a)) objs d u"
proof (cases "aq_wait a q")
  case (Cons m ms)
  then show ?thesis using assms carried_reserve [of q a]
    by (auto simp: plane_inv_def jobs_kept_def) (auto simp: a_reserve_def split: if_splits)
qed (use assms in \<open>simp add: a_reserve_def\<close>)

lemma plane_inv_settle:
  assumes inv: "plane_inv names a objs d u" and "message_ok objs names d (m_queue m) (m_payload m)"
    and raised: "\<And>e. r = Inl e \<Longrightarrow> m_queue m \<noteq> pq_results names"
    and acked: "\<And>v i j. r = Inr v \<Longrightarrow> carries (m_payload m) i \<Longrightarrow> get_job i d = Some j \<Longrightarrow> j_finished_at j = None \<Longrightarrow>
      \<exists>q. \<exists>m' \<in> set (aq_wait a q). carries (m_payload m') i"
  shows "plane_inv names (settle mx m r a) objs d u"
proof -
  have wait: "aq_wait (settle mx m r a) = aq_wait a \<or>
      (r \<noteq> Inr (projr r) \<and> aq_wait (settle mx m r a) = (aq_wait a)(m_queue m := aq_wait a (m_queue m) @ [m]))"
    by (cases r) (auto simp: settle_def aqueue_defs)
  have "jobs_kept (settle mx m r a) d"
    unfolding jobs_kept_def
  proof (intro allI impI)
    fix i j assume j: "get_job i d = Some j"
    then have old: "j_finished_at j \<noteq> None \<or> i \<in> carried a" using inv by (auto simp: plane_inv_def jobs_kept_def)
    show "j_finished_at j \<noteq> None \<or> i \<in> carried (settle mx m r a)"
    proof (cases r)
      case (Inl e)
      then show ?thesis using old carried_settle [of a mx m r] by auto
    next
      case (Inr v)
      then have w: "aq_wait (settle mx m r a) = aq_wait a" using wait by auto
      show ?thesis
      proof (cases "carries (m_payload m) i \<and> j_finished_at j = None")
        case True
        then obtain q m' where "m' \<in> set (aq_wait a q)" "carries (m_payload m') i" using acked [OF Inr _ j] by blast
        then show ?thesis using carried_waiting w by metis
      next
        case False
        then show ?thesis using old carried_settle [of a mx m r] Inr by auto
      qed
    qed
  qed
  moreover have "aq_dead (settle mx m r a) (pq_results names) = []"
    using inv raised by (cases r) (auto simp: settle_def aqueue_defs plane_inv_def)
  moreover have "message_ok objs names d q (m_payload x)" if "x \<in> set (aq_wait (settle mx m r a) q)" for q x
    using that wait inv assms(2) by (auto simp: plane_inv_def split: if_splits)
  ultimately show ?thesis using inv by (auto simp: plane_inv_def)
qed

text \<open>A new job and the message that carries it.\<close>

lemma plane_inv_new_job:
  assumes inv: "plane_inv names a objs d u" and "carries p (u 0)" and "q \<noteq> pq_results names" and "j_id j = u 0"
  shows "plane_inv names (a_publish k q p a) objs (d\<lparr>db_jobs := db_jobs d @ [j]\<rparr>) (\<lambda>n. u (Suc n))"
proof -
  let ?d = "d\<lparr>db_jobs := db_jobs d @ [j]\<rparr>"
  have fresh: "get_job (u 0) d = None" and inj: "inj u" using inv by (auto simp: plane_inv_def)
  have get: "get_job i ?d = (if i = u 0 then Some j else get_job i d)" for i
    using fresh assms(4) by (auto simp: get_job_def find_by_append find_by_single split: option.splits)
  have "j_id j \<notin> j_id ` set (db_jobs d)" using fresh assms(4) by (simp add: get_job_def find_by_None)
  then have ok: "db_ok ?d" using inv by (auto simp: plane_inv_def db_ok_def)
  have "u (Suc n) \<noteq> u 0" for n using inj by (metis injD nat.distinct(1))
  then have ids: "get_job (u (Suc n)) ?d = None" for n using inv by (simp add: get plane_inv_def)
  have old: "message_ok objs names ?d q' (m_payload m)" if "m \<in> set (aq_wait a q')" for q' m
  proof -
    have "message_ok objs names d q' (m_payload m)" using inv that by (simp add: plane_inv_def)
    then show ?thesis by (rule message_ok_grow) (use get in auto)
  qed
  have "get_str p ''job_id'' = Inr (u 0)" using assms(2) by (simp add: carries_def get_str_def)
  then have new: "message_ok objs names ?d q p"
    using assms(3) get by (auto simp: message_ok_def read_job_def read_ingest_def sum_bind_def split: sum.splits)
  have "jobs_kept (a_publish k q p a) ?d"
    using inv assms(2) by (auto simp: jobs_kept_def carried_publish get plane_inv_def)
  moreover have "inj (\<lambda>n. u (Suc n))" using inj by (auto simp: inj_on_def)
  ultimately show ?thesis
    using inv ok ids old new by (auto simp: plane_inv_def) (auto simp: a_publish_def split: if_splits)
qed

section \<open>What the workers leave alone\<close>

text \<open>
  The sources are configuration, which no worker writes; and the workers of this plane put objects and
  never delete one.
\<close>

context object_store
begin

definition only_adds :: "'s tworld \<Rightarrow> 's tworld \<Rightarrow> bool" where
  "only_adds w w' = (db_sources (tw_db w') = db_sources (tw_db w) \<and>
     (inv (tw_store w) \<longrightarrow> inv (tw_store w') \<and> (\<forall>k. view (tw_store w) k \<noteq> None \<longrightarrow> view (tw_store w') k \<noteq> None)))"

definition adding :: "('s tworld, 'a) py \<Rightarrow> bool" where
  "adding f = (\<forall>w r w'. f w = (r, w') \<longrightarrow> only_adds w w')"

lemma addingD: "adding f \<Longrightarrow> f w = (r, w') \<Longrightarrow> only_adds w w'"
  unfolding adding_def by blast

lemma only_adds_trans: "only_adds w w1 \<Longrightarrow> only_adds w1 w2 \<Longrightarrow> only_adds w w2"
  unfolding only_adds_def by simp

lemma only_adds_same: "db_sources d = db_sources (tw_db w) \<Longrightarrow> only_adds w (w\<lparr>tw_clock := c, tw_db := d\<rparr>)"
  by (simp add: only_adds_def)

lemma adding_bind:
  assumes "adding f" and "\<And>x. adding (g x)"
  shows "adding (py_bind f g)"
  unfolding adding_def
proof (intro allI impI)
  fix w r w' assume run: "py_bind f g w = (r, w')"
  obtain x w1 where x: "f w = (x, w1)" by fastforce
  note one = addingD [OF assms(1) x]
  show "only_adds w w'"
    using run x one only_adds_trans [OF one] addingD [OF assms(2)] by (cases x) (auto simp: py_bind_def)
qed

lemma adding_basic:
  "adding (py_lift x)" "adding read_clock" "adding (set_status i u)" "adding (sink_write sha res)"
  by (auto simp: adding_def only_adds_def py_lift_def read_clock_def set_status_def on_db_def update_job_status_def py_bind_def
      sink_write_def pg_write_def upsert_article_def split: option.splits prod.splits sum.splits if_splits)

lemma adding_store: "adding (on_store (st_put ops k d ct))" "adding (on_store (st_get ops k))"
proof -
  show "adding (on_store (st_put ops k d ct))"
    unfolding adding_def only_adds_def on_store_def using put_law [where k = k and d = d and ct = ct] by (fastforce split: prod.splits)
  show "adding (on_store (st_get ops k))"
    unfolding adding_def only_adds_def on_store_def using get_law [where k = k] by (fastforce split: prod.splits)
qed

lemma adding_transform:
  assumes "te_store env = ops"
  shows "adding (handle_result_pointer env p)"
proof -
  let ?persist = "\<lambda>m html sels. py_bind read_clock (\<lambda>now. py_bind (sink_write (te_sha env) (transform_result
      (transform_article m (te_iso env now) (extract_fields (te_dom env) html sels)))) (\<lambda>_. set_status (rp_job_id m) (upd_done 1)))"
  let ?store = "\<lambda>m. \<lambda>w. case on_store (st_get (te_store env) (rp_object_key m)) w of
        (Inl (ObjectNotFound _), w') \<Rightarrow> set_status (rp_job_id m) (upd_error 0 ''raw payload missing'') w'
      | (Inl e, w') \<Rightarrow> (Inl e, w')
      | (Inr raw, w') \<Rightarrow>
          (let html = decode_utf8 raw; sels = te_selectors env (rp_domain m) in
           if \<not> response_is_valid (te_dom env) html sels 500
           then set_status (rp_job_id m) (upd_error 0 ''soft block or challenge page detected'') w'
           else ?persist m html sels w')"
  have "adding (?store m)" for m
    unfolding adding_def
  proof (intro allI impI)
    fix w r w' assume run: "?store m w = (r, w')"
    obtain x w1 where x: "on_store (st_get ops (rp_object_key m)) w = (x, w1)" by fastforce
    have "\<exists>f :: ('s tworld, unit) py. adding f \<and> f w1 = (r, w')"
    proof (cases x)
      case (Inl e)
      then show ?thesis using run x assms adding_basic(1) [of "Inl e"] adding_basic(3)
        by (cases e) (auto simp: py_lift_def intro: exI [of _ "py_lift (Inl e)"])
    next
      case (Inr raw)
      have "adding (?persist m (decode_utf8 raw) (te_selectors env (rp_domain m)))" by (intro adding_bind adding_basic)
      then show ?thesis
        using run x Inr assms adding_basic(3) [of "rp_job_id m" "upd_error 0 ''soft block or challenge page detected''"]
        by (cases "response_is_valid (te_dom env) (decode_utf8 raw) (te_selectors env (rp_domain m)) 500")
          (simp_all only: Let_def prod.case sum.case if_True if_False not_True_eq_False not_False_eq_True, blast+)
    qed
    then show "only_adds w w'" using addingD only_adds_trans addingD [OF adding_store(2) x] by metis
  qed
  then show ?thesis unfolding handle_result_pointer_def by (auto intro!: adding_bind adding_basic)
qed

lemma ingest_results_adds:
  assumes "ie_store env = ops" and "ingest_results env b rs pr w = (x, w')"
  shows "only_adds w w'"
  using assms(2)
proof (induction rs arbitrary: pr w)
  case Nil
  then show ?case by (simp add: only_adds_def)
next
  case (Cons r rs)
  obtain seen n where pr: "pr = (seen, n)" by fastforce
  show ?case
  proof (cases "\<exists>a. sr_article r = Some a \<and> sr_status r = ''success'' \<and> \<not> pg_seen (ie_sha env) (ar_url a) (seen, tw_db w)")
    case False
    then have "ingest_results env b rs (seen, n) w = (x, w')" using Cons.prems by (auto simp: pr split: option.splits if_splits)
    then show ?thesis by (rule Cons.IH)
  next
    case True
    then obtain a where a: "sr_article r = Some a" "sr_status r = ''success''" "\<not> pg_seen (ie_sha env) (ar_url a) (seen, tw_db w)" by blast
    let ?key = "raw_object_key b (url_id (ie_sha env) (ar_url a))"
    obtain raw ct where raw: "ingest_raw (ie_fr env) r a = (raw, ct)" by fastforce
    obtain y w1 where put: "on_store (st_put (ie_store env) ?key raw ct) w = (y, w1)" by fastforce
    note one = addingD [OF adding_store(1) put [unfolded assms(1)]]
    obtain z seen' d where wr: "pg_write (ie_sha env) (tw_clock w1 0) (r\<lparr>sr_article := Some (with_raw_key ?key a)\<rparr>) (seen, tw_db w1) = (z, (seen', d))"
      by (metis prod.collapse)
    let ?w2 = "(snd (read_clock w1))\<lparr>tw_db := d\<rparr>"
    have "db_sources d = db_sources (tw_db w1)"
      using wr by (auto simp: pg_write_def upsert_article_def split: option.splits if_splits sum.splits)
    then have two: "only_adds w ?w2" using only_adds_trans [OF one] only_adds_same by (simp add: read_clock_def)
    show ?thesis
    proof (cases y)
      case (Inl e)
      then show ?thesis using Cons.prems a raw put one by (auto simp: pr Let_def)
    next
      case (Inr u)
      then have "w' = ?w2 \<or> ingest_results env b rs (seen', n + 1) ?w2 = (x, w')"
        using Cons.prems a raw put wr by (cases z) (auto simp: pr Let_def)
      then show ?thesis using Cons.IH [of "(seen', n + 1)" ?w2] only_adds_trans [OF two] two by blast
    qed
  qed
qed

lemma ingest_job_adds:
  assumes env: "ie_store env = ops" and "handle_ingest_job env p (w, x) = (r, (w', x'))"
  shows "only_adds w w'"
proof (cases "read_ingest p")
  case (Inl e)
  then show ?thesis using assms(2) by (simp add: handle_ingest_job_def py_monad_defs py_lift_def only_adds_def)
next
  case m: (Inr m)
  note set = addingD [OF adding_basic(3)]
  obtain y w1 where y: "set_status (im_job_id m) upd_running w = (y, w1)" by fastforce
  obtain ans x1 where ans: "ie_scrape env (im_target m) (im_limit m) x = (ans, x1)" by fastforce
  note run = assms(2) [unfolded handle_ingest_job_def m py_monad_defs py_lift_def resolve_platform_def on_fst_def]
  show ?thesis
  proof (cases "im_platform m = ''substack'' \<and> y = Inr ()")
    case False
    then have "w' = w \<or> w' = w1" using run y by (cases y) (auto split: if_splits)
    then show ?thesis using set [OF y] by (auto simp: only_adds_def)
  next
    case True
    show ?thesis
    proof (cases ans)
      case (Inl e)
      obtain z w2 where z: "set_status (im_job_id m) (upd_failed 0 e) w1 = (z, w2)" by fastforce
      then have "w' = w2" using run True y ans Inl by (cases z) auto
      then show ?thesis using only_adds_trans [OF set [OF y] set [OF z]] by simp
    next
      case (Inr rs)
      obtain e seen n w2 where q: "ingest_results env (im_bucket m) rs ({}, 0) w1 = ((e, (seen, n)), w2)" by (metis prod.collapse)
      obtain z w3 where z: "set_status (im_job_id m) (case e of Some e \<Rightarrow> upd_failed n e | None \<Rightarrow> upd_done n) w2 = (z, w3)" by fastforce
      have "w' = w3" using run True y ans Inr q z by (cases e; cases z) auto
      then show ?thesis
        using only_adds_trans [OF set [OF y] only_adds_trans [OF ingest_results_adds [OF env q] set [OF z]]] by simp
    qed
  qed
qed

end

section \<open>What a delivery does to the jobs\<close>

lemma jobs_grow_refl: "db_ok d \<Longrightarrow> jobs_grow d d"
  by (auto simp: jobs_grow_def split: option.splits)

lemma jobs_grow_settled:
  assumes "db_ok d'" and "db_sources d' = db_sources d" and "get_job i d \<noteq> None" and "get_job i d' = Some j'"
    and "j_finished_at j' \<noteq> None" and "\<forall>k. k \<noteq> i \<longrightarrow> get_job k d' = get_job k d"
  shows "jobs_grow d d'"
proof -
  have "case get_job k d of None \<Rightarrow> get_job k d' = None
     | Some j \<Rightarrow> \<exists>j'. get_job k d' = Some j' \<and> (j_finished_at j \<noteq> None \<longrightarrow> j_finished_at j' \<noteq> None)" for k
    using assms(3-6) by (cases "k = i") (auto split: option.splits)
  then show ?thesis using assms(1,2) by (simp add: jobs_grow_def)
qed

text \<open>The job a message carries is the one its consumer reads.\<close>

lemma read_carries:
  "read_job p = Inr m \<Longrightarrow> carries p i \<longleftrightarrow> i = jm_job_id m"
  "read_pointer p = Inr r \<Longrightarrow> carries p i \<longleftrightarrow> i = rp_job_id r"
  "read_ingest p = Inr g \<Longrightarrow> carries p i \<longleftrightarrow> i = im_job_id g"
  by (auto simp: read_defs carries_def split: sum.splits option.splits json.splits)

context transform_stage
begin

lemma transform_grows:
  assumes p: "read_pointer p = Inr m" and dom: "url_domain (rp_url m) = Inr (rp_domain m)"
    and job: "get_job (rp_job_id m) (tw_db w) \<noteq> None" and ok: "db_ok (tw_db w)" "sinv (tw_store w)"
  shows "\<exists>w' j'. handle_result_pointer env p w = (Inr (), w') \<and> only_adds w w' \<and> jobs_grow (tw_db w) (tw_db w') \<and>
    get_job (rp_job_id m) (tw_db w') = Some j' \<and> j_finished_at j' \<noteq> None"
proof -
  obtain j where j: "get_job (rp_job_id m) (tw_db w) = Some j" using job by blast
  have known: "domain_known m" using dom by (auto simp: domain_known_def)
  obtain w' j' where w': "handle_result_pointer env p w = (Inr (), w')" "db_ok (tw_db w')"
    "get_job (rp_job_id m) (tw_db w') = Some j'" "j_finished_at j' \<noteq> None"
    "\<forall>k. k \<noteq> rp_job_id m \<longrightarrow> get_job k (tw_db w') = get_job k (tw_db w)"
    using transform_delivery [OF p known j ok] by blast
  have adds: "only_adds w w'" by (rule addingD [OF adding_transform [OF env_store] w'(1)])
  then have "db_sources (tw_db w') = db_sources (tw_db w)" by (simp add: only_adds_def)
  from jobs_grow_settled [OF w'(2) this job w'(3-5)] show ?thesis using w' adds by blast
qed

end

context ingest_stage
begin

lemma ingest_grows:
  assumes run: "handle_ingest_job env p (w, x) = (r, (w', x'))" and ok: "db_ok (tw_db w)" "sinv (tw_store w)"
    and job: "\<And>m. read_ingest p = Inr m \<Longrightarrow> get_job (im_job_id m) (tw_db w) \<noteq> None"
  shows "only_adds w w' \<and> jobs_grow (tw_db w) (tw_db w') \<and>
    (\<forall>v. r = Inr v \<longrightarrow> (\<exists>m j'. read_ingest p = Inr m \<and> get_job (im_job_id m) (tw_db w') = Some j' \<and> j_finished_at j' \<noteq> None))"
proof -
  have adds: "only_adds w w'" by (rule ingest_job_adds [OF env_store run])
  show ?thesis
  proof (cases "\<exists>m. read_ingest p = Inr m \<and> im_platform m = ''substack''")
    case False
    then have "w' = w \<and> (\<exists>e. r = Inl e)"
      using run by (cases "read_ingest p") (auto simp: handle_ingest_job_def py_monad_defs py_lift_def resolve_platform_def)
    then show ?thesis using adds jobs_grow_refl [OF ok(1)] by auto
  next
    case True
    then obtain m where m: "read_ingest p = Inr m" "im_platform m = ''substack''" by blast
    obtain j where j: "get_job (im_job_id m) (tw_db w) = Some j" using job [OF m(1)] by blast
    have wok: "world_ok w" using ok by (simp add: world_ok_def)
    obtain j' where j': "world_ok w'" "get_job (im_job_id m) (tw_db w') = Some j'" "j_finished_at j' \<noteq> None"
      "\<forall>k. k \<noteq> im_job_id m \<longrightarrow> get_job k (tw_db w') = get_job k (tw_db w)"
      using ingest_delivery [OF m j wok, of x] run by (elim exE conjE) (rule that; simp)
    have "db_ok (tw_db w')" "db_sources (tw_db w') = db_sources (tw_db w)" using j'(1) adds by (simp_all add: world_ok_def only_adds_def)
    from jobs_grow_settled [OF this job [OF m(1)] j'(2-4)] show ?thesis using adds m j' by blast
  qed
qed

end

section \<open>The plane\<close>

lemma on_snd_well_behaved:
  assumes "message_queue qops valid qinv qabs rest"
  shows "message_queue.well_behaved (\<lambda>s. qinv (fst s)) (\<lambda>s. qabs (fst s)) q (\<lambda>m. on_snd (h m))"
  by (auto simp: message_queue.well_behaved_def [OF message_queue_lift [OF assms]] on_snd_def split: prod.splits)

text \<open>A producer adds job rows, and draws an id for each.\<close>

lemma submit_frame:
  "submit_job qops jq b (q, w) = (r, (q', w')) \<Longrightarrow>
     pw_db w' = (pw_db w)\<lparr>db_jobs := db_jobs (pw_db w')\<rparr> \<and> pw_uuids w' = (\<lambda>n. pw_uuids w (Suc n))"
  by (auto simp: submit_job_def store_job_def create_job_def draw_uuid_def py_monad_defs on_fst_def on_snd_def Let_def
      split: prod.splits sum.splits if_splits option.splits)

lemma enqueue_source_frame:
  "enqueue_source qops jq iq s (q, w) = (r, (q', w')) \<Longrightarrow>
     pw_db w' = (pw_db w)\<lparr>db_jobs := db_jobs (pw_db w')\<rparr> \<and> pw_uuids w' = (\<lambda>n. pw_uuids w (Suc n))"
  by (auto simp: enqueue_source_def store_job_def create_job_def draw_uuid_def py_monad_defs py_lift_def on_fst_def on_snd_def Let_def
      split: prod.splits sum.splits if_splits option.splits)

lemma scheduled_carries: "carries (scheduled i s) i"
  by (cases "is_publication s")
    (simp_all add: scheduled_def Let_def read_carries(3) [OF read_ingest_dict] read_carries(1) [OF read_job_dict])

locale scrape_plane =
  scraper_stage "pn_queue env" valid qinv qabs rest "pn_store env" sinv view +
  transform: transform_stage "pn_store env" sinv view "pn_transform env" +
  ingest: ingest_stage "pn_store env" sinv view "pn_ingest env"
  for env :: "('q, 's, 'e) plane_env" and valid qinv qabs rest sinv view +
  assumes queues: "valid (pq_jobs (pn_names env))" "valid (pq_results (pn_names env))" "valid (pq_ingest (pn_names env))"
    "pq_jobs (pn_names env) \<noteq> pq_results (pn_names env)" "pq_jobs (pn_names env) \<noteq> pq_ingest (pn_names env)"
    "pq_results (pn_names env) \<noteq> pq_ingest (pn_names env)"
begin

definition kept :: "aqueue \<Rightarrow> 's \<Rightarrow> db \<Rightarrow> (nat \<Rightarrow> string) \<Rightarrow> bool" where
  "kept a st d u = (sinv st \<and> plane_inv (pn_names env) a (view st) d u)"

definition plane_ok :: "('q, 's, 'e) plane \<Rightarrow> bool" where
  "plane_ok p = (qinv (pl_queue p) \<and> kept (qabs (pl_queue p)) (tw_store (pl_world p)) (tw_db (pl_world p)) (pl_uuids p))"

abbreviation msg_ok :: "'s \<Rightarrow> db \<Rightarrow> string \<Rightarrow> pydict \<Rightarrow> bool" where
  "msg_ok st \<equiv> message_ok (view st) (pn_names env)"

lemma kept_reserve: "kept a st d u \<Longrightarrow> aq_wait a q = m # ms \<Longrightarrow>
    kept (snd (a_reserve q a)) st d u \<and> msg_ok st d q (m_payload m)"
  using plane_inv_reserve by (auto simp: kept_def plane_inv_def)

lemma kept_grow:
  assumes "kept a st d u" and "jobs_grow d d'" and "sinv st \<Longrightarrow> sinv st' \<and> (\<forall>k. view st k \<noteq> None \<longrightarrow> view st' k \<noteq> None)"
  shows "kept a st' d' u" and "msg_ok st d q p \<Longrightarrow> msg_ok st' d' q p"
proof -
  show "kept a st' d' u" using assms plane_inv_grow [of _ a "view st" d u d' "view st'"] by (simp add: kept_def)
  show "msg_ok st d q p \<Longrightarrow> msg_ok st' d' q p"
    by (erule message_ok_grow) (use assms jobs_grow_None [OF assms(2)] in \<open>simp_all add: kept_def\<close>)
qed

lemma kept_db: "kept a st d u \<Longrightarrow> db_ok d \<and> jobs_grow d d \<and> sinv st"
  using jobs_grow_refl by (simp add: kept_def plane_inv_def)

text \<open>The scraper's handler: the pointer it publishes carries the job on.\<close>

lemma scrape_handler_kept:
  assumes "qinv a" and "kept (qabs a) st d u" and ok: "msg_ok st d (pq_jobs (pn_names env)) p"
    and run: "handle_scrape_job sha fr senv (pn_store env) (pn_queue env) (pq_results (pn_names env)) p (a, st, e) = (r, (a', st', e'))"
  shows "kept (qabs a') st' d u \<and> msg_ok st' d (pq_jobs (pn_names env)) p \<and>
    (\<forall>v i. r = Inr v \<longrightarrow> carries p i \<longrightarrow> (\<exists>q. \<exists>m \<in> set (aq_wait (qabs a') q). carries (m_payload m) i))"
  using handle_scrape_job_run [OF run]
proof (elim disjE conjE exE)
  fix ex assume "r = Inl ex" "a' = a" "st' = st"
  then show ?thesis using assms by simp
next
  fix ex k dt ct x assume "r = Inl ex" "a' = a" and put: "st_put (pn_store env) k dt ct st = (x, st')"
  moreover have "sinv st \<Longrightarrow> sinv st' \<and> (\<forall>k. view st k \<noteq> None \<longrightarrow> view st' k \<noteq> None)"
    using store.put_law [of st k dt ct] put by auto
  ultimately show ?thesis using kept_grow [OF assms(2)] kept_db [OF assms(2)] ok by simp
next
  fix jm ptr dt ct x
  assume jm: "read_job p = Inr jm" "rp_job_id ptr = jm_job_id jm" and dom: "url_domain (rp_url ptr) = Inr (rp_domain ptr)"
    and put: "st_put (pn_store env) (rp_object_key ptr) dt ct st = (Inr (), st')"
    and pub: "op_publish (pn_queue env) (pq_results (pn_names env)) (pointer_dict ptr) a = (x, a')"
  have st': "sinv st'" "view st' = (view st)(rp_object_key ptr \<mapsto> dt)"
    using store.put_law [of st "rp_object_key ptr" dt ct] put kept_db [OF assms(2)] by auto
  have new: "kept (qabs a) st' d u" "msg_ok st' d (pq_jobs (pn_names env)) p"
    using kept_grow [OF assms(2), of d st'] kept_db [OF assms(2)] st' ok by simp_all
  have job: "get_job (rp_job_id ptr) d \<noteq> None" using ok jm by (simp add: message_ok_def)
  have ptr: "msg_ok st' d (pq_results (pn_names env)) (pointer_dict ptr)"
    using queues(4,6) job dom st'(2) by (simp add: message_ok_def read_pointer_dict)
  obtain i where a': "qabs a' = a_publish i (pq_results (pn_names env)) (pointer_dict ptr) (qabs a)"
    using queue.publish_refines [OF assms(1) queues(2) pointer_dict_ok [of ptr]] pub by auto
  have "carries p i \<Longrightarrow> carries (pointer_dict ptr) i" for i
    using read_carries(1) [OF jm(1)] read_carries(2) [OF read_pointer_dict, of ptr] jm(2) by simp
  then have "carries p i \<Longrightarrow> \<exists>q. \<exists>m \<in> set (aq_wait (qabs a') q). carries (m_payload m) i" for i
    by (intro exI [of _ "pq_results (pn_names env)"]) (auto simp: a' a_publish_def)
  then show ?thesis using new plane_inv_publish [OF _ ptr] st'(1) by (simp add: kept_def a')
qed

lemma kept_settle:
  assumes "kept a st d u" and "msg_ok st d (m_queue m) (m_payload m)" and "\<And>e. r = Inl e \<Longrightarrow> m_queue m \<noteq> pq_results (pn_names env)"
    and "\<And>v i j. r = Inr v \<Longrightarrow> carries (m_payload m) i \<Longrightarrow> get_job i d = Some j \<Longrightarrow> j_finished_at j = None \<Longrightarrow>
      \<exists>q. \<exists>m' \<in> set (aq_wait a q). carries (m_payload m') i"
  shows "kept (settle mx m r a) st d u"
  using assms plane_inv_settle [of _ a "view st" d u m r mx] by (simp add: kept_def)

lemma scraper_round_ok:
  assumes "plane_ok p"
  shows "plane_ok (scraper_round env e p)"
proof -
  let ?d = "tw_db (pl_world p)" and ?u = "pl_uuids p" and ?jobs = "pq_jobs (pn_names env)"
  let ?h = "handle_scrape_job (pn_sha env) (pn_fr env) (pn_scrape env) (pn_store env) (pn_queue env) (pq_results (pn_names env))"
  let ?s = "(pl_queue p, (tw_store (pl_world p), pl_net p))"
  let ?run = "worker_round e (lift_ops (pn_queue env)) ?jobs ?h (pn_retries env) ?s"
  note lifted = message_queue_lift [OF queue.message_queue_axioms, where ?'w = "'s \<times> 'e"]
  have "qinv (fst ?run) \<and> kept (qabs (fst ?run)) (fst (snd ?run)) ?d ?u"
  proof (rule message_queue.round_keeps [OF lifted _ queues(1) handler_well_behaved [OF queues(2,4)],
        where P = "\<lambda>a w. kept a (fst w) ?d ?u" and M = "\<lambda>p w. msg_ok (fst w) ?d ?jobs p" and
          S = "\<lambda>p r a w. msg_ok (fst w) ?d ?jobs p \<and>
            (\<forall>v i. r = Inr v \<longrightarrow> carries p i \<longrightarrow> (\<exists>q. \<exists>m \<in> set (aq_wait a q). carries (m_payload m) i))"])
    show "qinv (fst ?s)" "kept (qabs (fst ?s)) (fst (snd ?s)) ?d ?u" using assms by (simp_all add: plane_ok_def)
    show "kept (snd (a_reserve ?jobs a)) (fst w) ?d ?u \<and> msg_ok (fst w) ?d ?jobs (m_payload m)"
      if "kept a (fst w) ?d ?u" "aq_wait a ?jobs = m # ms" for a m ms and w :: "'s \<times> 'e"
      by (rule kept_reserve [OF that])
    show "kept (qabs (fst s')) (fst (snd s')) ?d ?u \<and> msg_ok (fst (snd s')) ?d ?jobs m \<and>
        (\<forall>v i. r = Inr v \<longrightarrow> carries m i \<longrightarrow> (\<exists>q. \<exists>m \<in> set (aq_wait (qabs (fst s')) q). carries (m_payload m) i))"
      if "qinv (fst s)" "kept (qabs (fst s)) (fst (snd s)) ?d ?u" "msg_ok (fst (snd s)) ?d ?jobs m" "?h m s = (r, s')" for m s r s'
      using scrape_handler_kept [of "fst s" "fst (snd s)" ?d ?u m _ _ _ "snd (snd s)" r "fst s'" "fst (snd s')" "snd (snd s')"] that by simp
    show "kept (settle (pn_retries env) m r a) (fst w) ?d ?u"
      if "kept a (fst w) ?d ?u" "m_queue m = ?jobs" "m \<in> aq_fly a" "msg_ok (fst w) ?d ?jobs (m_payload m) \<and>
        (\<forall>v i. r = Inr v \<longrightarrow> carries (m_payload m) i \<longrightarrow> (\<exists>q. \<exists>m \<in> set (aq_wait a q). carries (m_payload m) i))"
      for a m and r :: "exn + result_pointer" and w :: "'s \<times> 'e"
      by (rule kept_settle) (use that queues(4) in auto)
  qed
  then show ?thesis by (auto simp: scraper_round_def plane_ok_def split: prod.splits)
qed

lemma transform_round_ok:
  assumes "plane_ok p"
  shows "plane_ok (transform_round env e p)"
proof -
  let ?u = "pl_uuids p" and ?results = "pq_results (pn_names env)"
  let ?h = "\<lambda>m. on_snd (handle_result_pointer (pn_transform env) m)"
  let ?s = "(pl_queue p, pl_world p)"
  let ?run = "worker_round e (lift_ops (pn_queue env)) ?results ?h (pn_retries env) ?s"
  let ?P = "\<lambda>a w. kept a (tw_store w) (tw_db w) ?u" and ?M = "\<lambda>m w. msg_ok (tw_store w) (tw_db w) ?results m"
  let ?S = "\<lambda>m r a w. ?M m w \<and> r = Inr () \<and> (\<forall>i j. carries m i \<longrightarrow> get_job i (tw_db w) = Some j \<longrightarrow> j_finished_at j \<noteq> None)"
  note lifted = message_queue_lift [OF queue.message_queue_axioms, where ?'w = "'s tworld"]
  have "qinv (fst ?run) \<and> ?P (qabs (fst ?run)) (snd ?run)"
  proof (rule message_queue.round_keeps [OF lifted _ queues(2) on_snd_well_behaved [OF queue.message_queue_axioms],
        where P = ?P and M = ?M and S = ?S])
    show "qinv (fst ?s)" "?P (qabs (fst ?s)) (snd ?s)" using assms by (simp_all add: plane_ok_def)
    show "?P (snd (a_reserve ?results a)) w \<and> ?M (m_payload m) w" if "?P a w" "aq_wait a ?results = m # ms" for a m ms w
      by (rule kept_reserve [OF that])
    show "?P (qabs (fst s')) (snd s') \<and> ?S m r (qabs (fst s')) (snd s')"
      if "qinv (fst s)" and P: "?P (qabs (fst s)) (snd s)" and M: "?M m (snd s)" and run: "?h m s = (r, s')" for m s r s'
    proof -
      obtain ptr where ptr: "read_pointer m = Inr ptr" "get_job (rp_job_id ptr) (tw_db (snd s)) \<noteq> None"
        "url_domain (rp_url ptr) = Inr (rp_domain ptr)"
        using M by (auto simp: message_ok_def)
      obtain w' j' where w': "handle_result_pointer (pn_transform env) m (snd s) = (Inr (), w')" "store.only_adds (snd s) w'"
        "jobs_grow (tw_db (snd s)) (tw_db w')" "get_job (rp_job_id ptr) (tw_db w') = Some j'" "j_finished_at j' \<noteq> None"
        using transform.transform_grows [OF ptr(1,3,2)] kept_db [OF P] by blast
      have s': "s' = (fst s, w')" "r = Inr ()" using run w'(1) by (cases s; simp add: on_snd_def)+
      have "sinv (tw_store (snd s)) \<Longrightarrow> sinv (tw_store w') \<and> (\<forall>k. view (tw_store (snd s)) k \<noteq> None \<longrightarrow> view (tw_store w') k \<noteq> None)"
        using w'(2) by (simp add: store.only_adds_def)
      note new = kept_grow [OF P w'(3) this]
      show ?thesis using new M s' w'(4,5) read_carries(2) [OF ptr(1)] by simp
    qed
    show "?P (settle (pn_retries env) m r a) w" if "?P a w" "m_queue m = ?results" "m \<in> aq_fly a" "?S (m_payload m) r a w"
      for a m w and r :: "exn + unit"
      by (rule kept_settle) (use that in auto)
  qed
  then show ?thesis by (auto simp: transform_round_def plane_ok_def split: prod.splits)
qed

lemma ingest_round_ok:
  assumes "plane_ok p"
  shows "plane_ok (ingest_round env e p)"
proof -
  let ?u = "pl_uuids p" and ?jobs = "pq_ingest (pn_names env)"
  let ?h = "\<lambda>m. on_snd (handle_ingest_job (pn_ingest env) m)"
  let ?s = "(pl_queue p, (pl_world p, pl_net p))"
  let ?run = "worker_round e (lift_ops (pn_queue env)) ?jobs ?h (pn_retries env) ?s"
  let ?P = "\<lambda>a w. kept a (tw_store (fst w)) (tw_db (fst w)) ?u" and ?M = "\<lambda>m w. msg_ok (tw_store (fst w)) (tw_db (fst w)) ?jobs m"
  let ?S = "\<lambda>m r a w. ?M m w \<and> (\<forall>v i j. r = Inr v \<longrightarrow> carries m i \<longrightarrow> get_job i (tw_db (fst w)) = Some j \<longrightarrow> j_finished_at j \<noteq> None)"
  note lifted = message_queue_lift [OF queue.message_queue_axioms, where ?'w = "'s tworld \<times> 'e"]
  have "qinv (fst ?run) \<and> ?P (qabs (fst ?run)) (snd ?run)"
  proof (rule message_queue.round_keeps [OF lifted _ queues(3) on_snd_well_behaved [OF queue.message_queue_axioms],
        where P = ?P and M = ?M and S = ?S])
    show "qinv (fst ?s)" "?P (qabs (fst ?s)) (snd ?s)" using assms by (simp_all add: plane_ok_def)
    show "?P (snd (a_reserve ?jobs a)) w \<and> ?M (m_payload m) w" if "?P a w" "aq_wait a ?jobs = m # ms" for a m ms w
      by (rule kept_reserve [OF that])
    show "?P (qabs (fst s')) (snd s') \<and> ?S m r (qabs (fst s')) (snd s')"
      if "qinv (fst s)" and P: "?P (qabs (fst s)) (snd s)" and M: "?M m (snd s)" and run: "?h m s = (r, s')" for m s r s'
    proof -
      obtain q w x q' w' x' where s: "s = (q, (w, x))" "s' = (q', (w', x'))" by (cases s, cases s')
      have h: "handle_ingest_job (pn_ingest env) m (w, x) = (r, (w', x'))" "q' = q"
        using run by (auto simp: s on_snd_def split: prod.splits)
      have job: "get_job (im_job_id g) (tw_db w) \<noteq> None" if "read_ingest m = Inr g" for g
        using M that by (simp add: s message_ok_def)
      have w: "db_ok (tw_db w)" "sinv (tw_store w)" using kept_db [OF P] by (simp_all add: s)
      note grows = ingest.ingest_grows [OF h(1) w job]
      have "sinv (tw_store w) \<Longrightarrow> sinv (tw_store w') \<and> (\<forall>k. view (tw_store w) k \<noteq> None \<longrightarrow> view (tw_store w') k \<noteq> None)"
        using grows by (simp add: store.only_adds_def)
      note new = kept_grow [OF P [unfolded s fst_conv snd_conv] _ this, of "tw_db w'"]
      show ?thesis using new M grows h(2) read_carries(3) by (fastforce simp: s)
    qed
    show "?P (settle (pn_retries env) m r a) w" if "?P a w" "m_queue m = ?jobs" "m \<in> aq_fly a" "?S (m_payload m) r a w"
      for a m w and r :: "exn + int"
      by (rule kept_settle) (use that queues(6) in auto)
  qed
  then show ?thesis by (auto simp: ingest_round_def plane_ok_def split: prod.splits)
qed

lemma new_job_kept:
  assumes "kept a st d u" and "carries p (u 0)" and "q \<noteq> pq_results (pn_names env)" and "j_id j = u 0"
    and "d' = d\<lparr>db_jobs := db_jobs d'\<rparr>" and "db_jobs d' = db_jobs d @ [j]"
  shows "kept (a_publish k q p a) st d' (\<lambda>n. u (Suc n))"
  using plane_inv_new_job [where names = "pn_names env" and a = a and objs = "view st" and d = d and u = u and p = p and q = q and j = j and k = k]
    assms by (simp add: kept_def)

lemma submit_ok:
  assumes "plane_ok p"
  shows "plane_ok (plane_step env (Submitted b) p)"
proof -
  let ?jobs = "pq_jobs (pn_names env)"
  let ?w = "\<lparr>pw_db = tw_db (pl_world p), pw_clock = tw_clock (pl_world p), pw_uuids = pl_uuids p\<rparr>"
  have inv: "qinv (pl_queue p)" and kept: "kept (qabs (pl_queue p)) (tw_store (pl_world p)) (tw_db (pl_world p)) (pl_uuids p)"
    using assms by (simp_all add: plane_ok_def)
  have fresh: "get_job (pw_uuids ?w 0) (pw_db ?w) = None" using kept by (simp add: kept_def plane_inv_def)
  obtain q' w' j k where run: "submit_job (pn_queue env) ?jobs b (pl_queue p, ?w) = (Inr (job_out_of j), (q', w'))" "qinv q'"
    "j_id j = pl_uuids p 0" "db_jobs (pw_db w') = db_jobs (tw_db (pl_world p)) @ [j]"
    "qabs q' = a_publish k ?jobs (job_dict \<lparr>jm_job_id = pl_uuids p 0, jm_url = ji_source b, jm_bucket = ji_bucket b\<rparr>) (qabs (pl_queue p))"
    using queue.submit_job_effect [OF inv queues(1) fresh, of b] by auto
  note frame = submit_frame [OF run(1)]
  have "kept (qabs q') (tw_store (pl_world p)) (pw_db w') (pw_uuids w')"
    unfolding run(5) conjunct2 [OF frame]
    by (rule new_job_kept) (use kept run(3,4) frame queues(4) in \<open>simp_all add: read_carries(1) [OF read_job_dict]\<close>)
  then show ?thesis using run(1,2) by (simp add: producing_def plane_ok_def)
qed

lemma enqueue_sources_kept:
  assumes "qinv q" and "kept (qabs q) st (pw_db w) (pw_uuids w)" and "\<forall>s \<in> set ss. source_ok s"
    and "enqueue_sources (pn_queue env) (pq_jobs (pn_names env)) (pq_ingest (pn_names env)) ss c (q, w) = (r, (q', w'))"
  shows "qinv q' \<and> kept (qabs q') st (pw_db w') (pw_uuids w')"
  using assms
proof (induction ss arbitrary: q w c)
  case Nil
  then show ?case by (simp add: py_ret_def)
next
  case (Cons s ss)
  have "source_ok s" "get_job (pw_uuids w 0) (pw_db w) = None" using Cons.prems(2,3) by (simp_all add: kept_def plane_inv_def)
  from queue.enqueue_source_effect [OF Cons.prems(1) queues(1,3) this] obtain q1 w1 j k where
    run: "enqueue_source (pn_queue env) (pq_jobs (pn_names env)) (pq_ingest (pn_names env)) s (q, w) = (Inr (), (q1, w1))" "qinv q1"
    "db_jobs (pw_db w1) = db_jobs (pw_db w) @ [j]" "queued_as (pw_uuids w 0, s) j"
    "qabs q1 = a_publish k (if is_publication s then pq_ingest (pn_names env) else pq_jobs (pn_names env)) (scheduled (pw_uuids w 0) s) (qabs q)"
    by blast
  note frame = enqueue_source_frame [OF run(1)]
  have "kept (qabs q1) st (pw_db w1) (pw_uuids w1)"
    unfolding run(5) conjunct2 [OF frame]
    by (rule new_job_kept) (use Cons.prems(2) run(3,4) frame queues(4,6) scheduled_carries in \<open>auto simp: queued_as_def\<close>)
  from Cons.IH [OF run(2) this] show ?case using Cons.prems(3,4) run(1) by (simp add: py_monad_defs)
qed

lemma tick_ok:
  assumes "plane_ok p"
  shows "plane_ok (plane_step env Ticked p)"
proof -
  let ?w = "\<lparr>pw_db = tw_db (pl_world p), pw_clock = tw_clock (pl_world p), pw_uuids = pl_uuids p\<rparr>"
  let ?ss = "list_enabled_sources (tw_db (pl_world p))"
  obtain r q' w' where run: "enqueue_sources (pn_queue env) (pq_jobs (pn_names env)) (pq_ingest (pn_names env)) ?ss 0 (pl_queue p, ?w) =
      (r, (q', w'))" by (metis prod.collapse)
  have "\<forall>s \<in> set ?ss. source_ok s" using assms by (auto simp: plane_ok_def kept_def plane_inv_def list_enabled_sources_def)
  from enqueue_sources_kept [OF _ _ this run, of "tw_store (pl_world p)"] assms show ?thesis
    using run by (simp add: producing_def plane_ok_def enqueue_due_sources_def)
qed

lemma plane_run_ok: "plane_ok p \<Longrightarrow> plane_ok (plane_run env es p)"
  unfolding plane_run_def
proof (induction es arbitrary: p)
  case (Cons ev es)
  have "plane_ok (plane_step env ev p)"
    using Cons.prems submit_ok tick_ok scraper_round_ok transform_round_ok ingest_round_ok by (cases ev) auto
  then show ?case using Cons.IH by simp
qed simp

end

interpretation mem_plane: scrape_plane
    "\<lparr>pn_queue = memq_ops, pn_names = \<lparr>pq_jobs = ''jobs'', pq_results = ''results'', pq_ingest = ''ingest''\<rparr>, pn_retries = n,
       pn_sha = sha, pn_fr = fr, pn_scrape = senv, pn_store = memstore_ops,
       pn_transform = \<lparr>te_sha = sha, te_iso = isof, te_dom = dm, te_selectors = sels, te_store = memstore_ops\<rparr>,
       pn_ingest = \<lparr>ie_sha = sha, ie_fr = fr, ie_store = memstore_ops, ie_scrape = ingest\<rparr>\<rparr>"
    "\<lambda>_. True" memq_inv memq_abs "\<lambda>_. ()" "\<lambda>_. True" memstore_view
  for n sha fr senv isof dm sels ingest
  by (intro scrape_plane.intro scraper_stage.intro transform_stage.intro ingest_stage.intro transform_stage_axioms.intro
      ingest_stage_axioms.intro scrape_plane_axioms.intro)
    (simp_all add: memq.message_queue_axioms memstore.object_store_axioms)

section \<open>No job is lost\<close>


definition demo_plane :: "(memq, memstore, nat) plane" where
  "demo_plane = \<lparr>pl_queue = idle_queue, pl_world = \<lparr>tw_store = memstore_init, tw_db = pw_db tick_world, tw_clock = int\<rparr>,
     pl_uuids = \<lambda>n. replicate n (CHR ''u''), pl_net = 0\<rparr>"

definition demo_env :: "(memq, memstore, nat) plane_env" where
  "demo_env = \<lparr>pn_queue = memq_ops, pn_names = \<lparr>pq_jobs = ''jobs'', pq_results = ''results'', pq_ingest = ''ingest''\<rparr>,
     pn_retries = 3, pn_sha = toy_sha, pn_fr = \<lambda>_. [], pn_scrape = page_env, pn_store = memstore_ops, pn_transform = page_transform,
     pn_ingest = \<lparr>ie_sha = toy_sha, ie_fr = \<lambda>_. [], ie_store = memstore_ops,
       ie_scrape = \<lambda>t l n. (Inr [ok_result sample_article], Suc n)\<rparr>\<rparr>"

definition demo_events :: "plane_event list" where
  "demo_events = [Submitted \<lparr>ji_source = ''https://ft.com/a'', ji_urls = None, ji_bucket = None, ji_limit = None\<rparr>, Ticked,
     Scraped Died_early, Scraped Completed, Ingested Died_late, Transformed Completed]"


end
