(* ===== verification/Scraper_Commands.thy ===== *)
theory Scraper_Commands
  imports Digest_Commands Engine Reddit Sources
begin

text \<open>
  The commands that scrape to files, \<open>scrapers/community/cli.py\<close> and \<open>scrapers/public/cli.py\<close>: one platform
  target, the curated publications, the seeding of the \<open>sources\<close> table, and one public URL.

  The disk is, for every base path, the data file and the manifest of the JSONL sink with this base; a write
  fails when the directory of the path does not exist.  Standard output is what \<open>typer.echo\<close> is given; the
  arrow of its messages, which is outside the repertoire of \<open>Prelude\<close>, is written as its three UTF-8 bytes.  A command ends by returning, with an exit code, or with an exception (\<open>exit_code\<close>); None is a
  scraper that never returns.
\<close>

section \<open>The shell\<close>

record 'e shell =
  sh_net :: 'e
  sh_disk :: "string \<Rightarrow> jsonl_disk"
  sh_db :: db
  sh_out :: "string list"
  sh_err :: "string list"

definition echo :: "string \<Rightarrow> 'e shell \<Rightarrow> 'e shell" where
  "echo line s = s\<lparr>sh_out := sh_out s @ [line]\<rparr>"

definition echo_err :: "string \<Rightarrow> 'e shell \<Rightarrow> 'e shell" where
  "echo_err line s = s\<lparr>sh_err := sh_err s @ [line]\<rparr>"

text \<open>The codec, the clock format and the float format of the sink, and the directories that exist.\<close>

record sink_env =
  si_sha :: "string \<Rightarrow> string"
  si_iso :: "datetime \<Rightarrow> string"
  si_fr :: "real \<Rightarrow> string"
  si_dirs :: "string \<Rightarrow> bool"

record 'e command_env =
  cm_lib :: pylib
  cm_feed_lib :: feed_lib
  cm_sink :: sink_env
  cm_reddit_json :: "string \<Rightarrow> ('e, json) py"
  cm_substack_json :: "string \<Rightarrow> ('e, json) py"
  cm_substack :: substack_settings
  cm_ids :: "nat \<Rightarrow> int"

section \<open>The output path\<close>

text \<open>A normalised path: its directory, with the final slash (empty for the working directory), and its last component.\<close>

record out_path =
  ot_dir :: string
  ot_name :: string

definition path_str :: "out_path \<Rightarrow> string" where
  "path_str p = (if ot_dir p = [] \<and> ot_name p = [] then ''.'' else ot_dir p @ ot_name p)"

text \<open>
  The name without its suffix: what follows the last dot is the suffix, unless the dot is the first or the last
  character.
\<close>

definition name_stem :: "string \<Rightarrow> string" where
  "name_stem name =
     (let after = takeWhile (\<lambda>c. c \<noteq> CHR ''.'') (rev name); before = dropWhile (\<lambda>c. c \<noteq> CHR ''.'') (rev name)
      in if length before \<le> 1 \<or> after = [] then name else rev (tl before))"

text \<open>\<open>output.with_suffix(...)\<close>, the suffix aside.\<close>

definition sink_base :: "out_path \<Rightarrow> exn + string" where
  "sink_base p = (if ot_name p = [] then Inl (ValueError (''PosixPath('' @ py_repr (path_str p) @ '') has an empty name''))
     else Inr (ot_dir p @ name_stem (ot_name p)))"

section \<open>Writing results\<close>

definition missing_dir :: exn where "missing_dir = OtherError ''FileNotFoundError''"

definition jsonl_put :: "sink_env \<Rightarrow> bool \<Rightarrow> scrape_result \<Rightarrow> (jsonl, unit) py" where
  "jsonl_put sk dir_ok r k =
     (if jsonl_write_steps (si_sha sk) (si_iso sk) (si_fr sk) r k \<noteq> [] \<and> \<not> dir_ok then (Inl missing_dir, k)
      else (Inr (), jsonl_write (si_sha sk) (si_iso sk) (si_fr sk) r k))"

fun write_successes :: "sink_env \<Rightarrow> bool \<Rightarrow> scrape_result list \<Rightarrow> nat \<Rightarrow> (jsonl, nat) py" where
  "write_successes sk dir_ok [] n = py_ret n"
| "write_successes sk dir_ok (r # rs) n =
     (if sr_status r = ''success'' then py_bind (jsonl_put sk dir_ok r) (\<lambda>_. write_successes sk dir_ok rs (n + 1))
      else write_successes sk dir_ok rs n)"

definition with_files :: "string \<Rightarrow> jsonl \<Rightarrow> 'e shell \<Rightarrow> 'e shell" where
  "with_files base k s = s\<lparr>sh_disk := (sh_disk s)(base := jl_disk k)\<rparr>"

definition arrow :: string where "arrow = [CHR 0xE2, CHR 0x86, CHR 0x92]"

section \<open>community scrape\<close>

definition scrape_to_file ::
  "sink_env \<Rightarrow> ('e \<Rightarrow> ((exn + scrape_result list) \<times> 'e) option) \<Rightarrow> string \<Rightarrow> out_path \<Rightarrow> 'e shell \<Rightarrow> (exit_code \<times> 'e shell) option" where
  "scrape_to_file sk answer label output s = (case answer (sh_net s) of
      None \<Rightarrow> None
    | Some (Inl e, w) \<Rightarrow> Some (Raised e, s\<lparr>sh_net := w\<rparr>)
    | Some (Inr results, w) \<Rightarrow> (case sink_base output of
        Inl e \<Rightarrow> Some (Raised e, s\<lparr>sh_net := w\<rparr>)
      | Inr base \<Rightarrow>
          (case write_successes sk (si_dirs sk (ot_dir output)) results 0 (jsonl_open (sh_disk s base)) of
             (Inl e, k) \<Rightarrow> Some (Raised e, with_files base k (s\<lparr>sh_net := w\<rparr>))
           | (Inr n, k) \<Rightarrow> Some (Returned, echo (''Scraped '' @ nat_str n @ '' articles from '' @ label @ '' '' @ arrow @ '' '' @
               path_str output @ ''.jsonl'') (with_files base k (s\<lparr>sh_net := w\<rparr>))))))"

definition scrape_community :: "'e command_env \<Rightarrow> string \<Rightarrow> string \<Rightarrow> int \<Rightarrow> out_path \<Rightarrow> 'e shell \<Rightarrow> (exit_code \<times> 'e shell) option" where
  "scrape_community env platform target limit output s =
     (if platform = ''reddit''
      then scrape_to_file (cm_sink env) (scrape_subreddit (cm_lib env) (cm_reddit_json env) target limit ''new'') (''r/'' @ target) output s
      else if platform = ''substack''
      then scrape_to_file (cm_sink env) (scrape_publication (cm_lib env) (cm_feed_lib env) (cm_substack_json env) (cm_substack env) target limit ''new'')
        target output s
      else Some (Exited 1, echo_err (''Unknown platform: '' @ py_repr platform @ ''. Supported: reddit, substack'') s))"

section \<open>community scrape-substacks\<close>

definition ljust :: "nat \<Rightarrow> string \<Rightarrow> string" where
  "ljust n t = t @ replicate (n - length t) (CHR '' '')"

definition source_line :: "substack_source \<Rightarrow> string" where
  "source_line x = ljust 22 (sb_sector x) @ '' '' @ ljust 30 (sb_name x) @ '' '' @ sb_url x @ (if sb_paywall x then '' [paid-leaning]'' else [])"

definition opt_repr :: "string option \<Rightarrow> string" where
  "opt_repr t = (case t of None \<Rightarrow> ''None'' | Some v \<Rightarrow> py_repr v)"

text \<open>The loop over the publications; its state is the open sink and the shell.\<close>

fun scrape_selected ::
  "'e command_env \<Rightarrow> bool \<Rightarrow> int \<Rightarrow> substack_source list \<Rightarrow> nat \<Rightarrow> nat \<Rightarrow> jsonl \<times> 'e shell \<Rightarrow> ((exn + nat \<times> nat) \<times> (jsonl \<times> 'e shell)) option" where
  "scrape_selected env dir_ok limit [] pubs articles ks = Some (Inr (pubs, articles), ks)"
| "scrape_selected env dir_ok limit (x # xs) pubs articles (k, s) =
     (case scrape_publication (cm_lib env) (cm_feed_lib env) (cm_substack_json env) (cm_substack env) (sb_base x) limit ''new'' (sh_net s) of
        None \<Rightarrow> None
      | Some (Inl e, w) \<Rightarrow> Some (Inl e, (k, s\<lparr>sh_net := w\<rparr>))
      | Some (Inr results, w) \<Rightarrow> (case write_successes (cm_sink env) dir_ok results 0 k of
          (Inl e, k') \<Rightarrow> Some (Inl e, (k', s\<lparr>sh_net := w\<rparr>))
        | (Inr wrote, k') \<Rightarrow> scrape_selected env dir_ok limit xs (pubs + 1) (articles + wrote)
            (k', echo (''  '' @ ljust 30 (sb_name x) @ '' '' @ nat_str wrote @ '' article(s)'') (s\<lparr>sh_net := w\<rparr>))))"

definition scrape_substacks ::
  "'e command_env \<Rightarrow> string option \<Rightarrow> int \<Rightarrow> int option \<Rightarrow> out_path \<Rightarrow> bool \<Rightarrow> 'e shell \<Rightarrow> (exit_code \<times> 'e shell) option" where
  "scrape_substacks env sector limit max_pubs output list_only s =
     (let selected = select_sources sector max_pubs in
      if selected = []
      then Some (Exited 1, echo_err (''No curated publications match --sector '' @ opt_repr sector @ ''.'') s)
      else if list_only
      then Some (Returned, echo ([newline] @ nat_str (length selected) @ '' publication(s) selected (list-only, nothing scraped).'')
             (fold (\<lambda>x. echo (source_line x)) selected s))
      else (case sink_base output of
          Inl e \<Rightarrow> Some (Raised e, s)
        | Inr base \<Rightarrow> (case scrape_selected env (si_dirs (cm_sink env) (ot_dir output)) limit selected 0 0 (jsonl_open (sh_disk s base), s) of
            None \<Rightarrow> None
          | Some (Inl e, (k, s')) \<Rightarrow> Some (Raised e, with_files base k s')
          | Some (Inr (pubs, written), (k, s')) \<Rightarrow> Some (Returned, echo (''Scraped '' @ nat_str written @ '' articles from '' @ nat_str pubs @
              '' publication(s) '' @ arrow @ '' '' @ path_str output @ ''.jsonl'') (with_files base k s')))))"

section \<open>community seed-substacks\<close>

definition seed_substacks :: "'e command_env \<Rightarrow> int \<Rightarrow> bool \<Rightarrow> bool \<Rightarrow> 'e shell \<Rightarrow> exit_code \<times> 'e shell" where
  "seed_substacks env limit enabled dry_run s =
     (if dry_run
      then (Returned, echo ([newline] @ nat_str (length substack_investing_sources) @ '' curated sources (dry-run, nothing written).'')
        (fold (\<lambda>x. echo (source_line x)) substack_investing_sources s))
      else (case seed_sources (cm_ids env) limit enabled (sh_db s) of
          (Inl e, d) \<Rightarrow> (Raised e, s\<lparr>sh_db := d\<rparr>)
        | (Inr n, d) \<Rightarrow> (Returned, echo (''Seeded '' @ nat_str n @ '' Substack sources ('' @ (if enabled then ''enabled'' else ''disabled'') @
            '', limit='' @ int_str limit @ '') into the sources table.'') (s\<lparr>sh_db := d\<rparr>))))"

section \<open>public scrape\<close>

text \<open>
  The engine of the command: new policies, and the sink.  \<open>beside_files\<close> runs the engine's operations beside the
  sink's state, which none but the sink changes.  The command has a \<open>proxy\<close> argument and does not use it.
\<close>

definition beside_files :: "sink_env \<Rightarrow> bool \<Rightarrow> ('c, 'e) engine_env \<Rightarrow> ('c, jsonl \<times> 'e) engine_env" where
  "beside_files sk dir_ok env = \<lparr>ee_clock = \<lambda>w. ee_clock env (snd w), ee_sleep = \<lambda>t w. (fst w, ee_sleep env t (snd w)),
     ee_registry = ee_registry env, ee_public = ee_public env, ee_driver = ee_driver env,
     ee_proxy = \<lparr>pe_get = \<lambda>p u. on_snd (pe_get (ee_proxy env) p u),
       pe_now = \<lambda>w. case pe_now (ee_proxy env) (snd w) of (t, e) \<Rightarrow> (t, (fst w, e))\<rparr>,
     ee_scrape = \<lambda>c p u. on_snd (ee_scrape env c p u), ee_sink = Some (\<lambda>r. on_fst (jsonl_put sk dir_ok r))\<rparr>"

definition scrape_public ::
  "sink_env \<Rightarrow> ('c, 'e) engine_env \<Rightarrow> rotator \<Rightarrow> string \<Rightarrow> out_path \<Rightarrow> string option \<Rightarrow> 'e shell \<Rightarrow> exit_code \<times> 'e shell" where
  "scrape_public sk env rot source output proxy s = (case sink_base output of
      Inl e \<Rightarrow> (Raised e, s)
    | Inr base \<Rightarrow>
        (case engine_scrape (beside_files sk (si_dirs sk (ot_dir output)) env) source
            (engine_init (cb_init 5 30 10) (rl_init 1 (\<lambda>_. None) 0) rot (jsonl_open (sh_disk s base), sh_net s)) of
           (r, st) \<Rightarrow> (let s' = with_files base (fst (en_world st)) (s\<lparr>sh_net := snd (en_world st)\<rparr>) in
             case r of Inl e \<Rightarrow> (Raised e, s')
             | Inr result \<Rightarrow> (Returned, echo (''status='' @ sr_status result @ '' driver='' @ sr_driver_used result @ '' title='' @
                 py_repr (case sr_article result of Some a \<Rightarrow> ar_title a | None \<Rightarrow> ''<no title>'')) s'))))"

section \<open>What reaches the files\<close>

definition lines_of :: "string list option \<Rightarrow> string list" where
  "lines_of f = (case f of None \<Rightarrow> [] | Some ls \<Rightarrow> ls)"

lemma lines_append: "lines_of (append_line l f) = lines_of f @ [l]"
  by (simp add: lines_of_def append_line_def split: option.splits)

lemma file_text_lines: "file_text f = concat (map (\<lambda>l. l @ [newline]) (lines_of f))"
  by (simp add: file_text_def lines_of_def split: option.splits)

text \<open>The articles of the successful results, and the first of them for every new content.\<close>

definition found :: "scrape_result list \<Rightarrow> article list" where
  "found rs = List.map_filter (\<lambda>r. if sr_status r = ''success'' then sr_article r else None) rs"

definition successes :: "scrape_result list \<Rightarrow> nat" where
  "successes rs = length (filter (\<lambda>r. sr_status r = ''success'') rs)"

lemma found_simps [simp]:
  "found [] = []"
  "found (r # rs) = (case sr_article r of Some a \<Rightarrow> if sr_status r = ''success'' then a # found rs else found rs | None \<Rightarrow> found rs)"
  "found (rs @ qs) = found rs @ found qs"
  by (auto simp: found_def map_filter_simps map_filter_def split: option.splits)

lemma successes_simps [simp]:
  "successes [] = 0"
  "successes (r # rs) = (if sr_status r = ''success'' then Suc (successes rs) else successes rs)"
  "successes (rs @ qs) = successes rs + successes qs"
  by (simp_all add: successes_def)

fun fresh :: "(string \<Rightarrow> string) \<Rightarrow> string set \<Rightarrow> article list \<Rightarrow> article list" where
  "fresh sha seen [] = []"
| "fresh sha seen (a # as) = (if sha (ar_content a) \<in> seen then fresh sha seen as
     else a # fresh sha (insert (sha (ar_content a)) seen) as)"

lemma fresh_append: "fresh sha seen (as @ bs) = fresh sha seen as @ fresh sha (seen \<union> (sha \<circ> ar_content) ` set as) bs"
  by (induction sha seen as rule: fresh.induct) (auto simp: insert_absorb)

lemma fresh_set: "set (fresh sha seen as) \<subseteq> set as"
  by (induction sha seen as rule: fresh.induct) auto

text \<open>A stretch of a run: the articles whose lines and ids it appends, in order, and the contents it has seen.\<close>

definition stored :: "sink_env \<Rightarrow> article list \<Rightarrow> jsonl \<Rightarrow> jsonl \<Rightarrow> bool" where
  "stored sk as k k' = (let new = fresh (si_sha sk) (jl_seen_content k) as in
     lines_of (jd_data (jl_disk k')) = lines_of (jd_data (jl_disk k)) @ sink_lines (si_sha sk) (si_iso sk) (si_fr sk) new \<and>
     lines_of (jd_manifest (jl_disk k')) = lines_of (jd_manifest (jl_disk k)) @ map (url_id (si_sha sk) \<circ> ar_url) new \<and>
     jl_seen_content k' = jl_seen_content k \<union> (si_sha sk \<circ> ar_content) ` set as)"

lemma stored_refl: "stored sk [] k k"
  by (simp add: stored_def sink_lines_def)

lemma stored_trans: "stored sk as k k1 \<Longrightarrow> stored sk bs k1 k2 \<Longrightarrow> stored sk (as @ bs) k k2"
  by (auto simp: stored_def Let_def fresh_append sink_lines_def)

lemma put_stored:
  assumes "jsonl_put sk ok r k = (x, k')"
  shows "stored sk (if x = Inr () then found [r] else []) k k' \<and> (ok \<longrightarrow> x = Inr ())"
proof (cases "jsonl_write_steps (si_sha sk) (si_iso sk) (si_fr sk) r k = []")
  case True
  then have k': "k' = k" "x = Inr ()" using assms by (simp_all add: jsonl_put_def jsonl_write_def)
  have "fresh (si_sha sk) (jl_seen_content k) (found [r]) = [] \<and> (si_sha sk \<circ> ar_content) ` set (found [r]) \<subseteq> jl_seen_content k"
    using True by (auto simp: jsonl_write_steps_def split: option.splits if_splits)
  then show ?thesis using k' by (auto simp: stored_def sink_lines_def)
next
  case False
  then obtain a where a: "sr_article r = Some a" "sr_status r = ''success''" "si_sha sk (ar_content a) \<notin> jl_seen_content k"
    by (auto simp: jsonl_write_steps_def split: option.splits if_splits)
  have "stored sk [a] k (jsonl_write (si_sha sk) (si_iso sk) (si_fr sk) r k)"
    using a by (simp add: stored_def jsonl_write_def jsonl_write_steps_def lines_append sink_lines_def del: dumps_raw.simps)
  then show ?thesis using assms a False stored_refl [of sk k] by (cases ok) (auto simp: jsonl_put_def)
qed

lemma write_successes_stored:
  "write_successes sk ok rs n k = (x, k') \<Longrightarrow> (ok \<longrightarrow> (\<exists>m. x = Inr m)) \<and>
     (case x of Inr m \<Rightarrow> m = n + successes rs \<and> stored sk (found rs) k k' | Inl e \<Rightarrow> e = missing_dir \<and> \<not> ok \<and> k' = k)"
proof (induction rs arbitrary: n k)
  case Nil
  then show ?case by (auto simp: py_ret_def stored_refl)
next
  case (Cons r rs)
  show ?case
  proof (cases "sr_status r = ''success''")
    case False
    then show ?thesis using Cons.IH [of n k] Cons.prems by (auto split: sum.splits option.splits)
  next
    case True
    obtain y k1 where y: "jsonl_put sk ok r k = (y, k1)" by fastforce
    note p = put_stored [OF y]
    show ?thesis
    proof (cases y)
      case (Inl e)
      then have "k1 = k" "e = missing_dir" "\<not> ok" using y by (auto simp: jsonl_put_def split: if_splits)
      moreover have "x = Inl e" "k' = k1" using Cons.prems True y Inl by (simp_all add: py_bind_def)
      ultimately show ?thesis by simp
    next
      case (Inr u)
      have rest: "write_successes sk ok rs (n + 1) k1 = (x, k')" using Cons.prems True y Inr by (simp add: py_bind_def)
      have quiet: "k1 = k" if "\<not> ok" using y Inr that by (auto simp: jsonl_put_def jsonl_write_def split: if_splits)
      have "stored sk (found (r # rs)) k k'" if "stored sk (found rs) k1 k'"
        using stored_trans [OF _ that, of "found [r]" k] p Inr by (auto split: option.splits)
      then show ?thesis using Cons.IH [OF rest] quiet True by (auto split: sum.splits)
    qed
  qed
qed

text \<open>
  One target to a file: the command returns only when the scraper did, and then the file has one line for every
  new content of its successful articles; when the scraper raises, or the directory is missing, the files stay.
\<close>

lemma scrape_to_file_stored:
  assumes "scrape_to_file sk answer label output s = Some (x, s')"
  shows "case x of
      Returned \<Rightarrow> \<exists>rs w base k. answer (sh_net s) = Some (Inr rs, w) \<and> sink_base output = Inr base \<and>
        stored sk (found rs) (jsonl_open (sh_disk s base)) k \<and> sh_disk s' = (sh_disk s)(base := jl_disk k) \<and>
        sh_out s' = sh_out s @ [''Scraped '' @ nat_str (successes rs) @ '' articles from '' @ label @ '' '' @ arrow @ '' '' @
          path_str output @ ''.jsonl'']
    | Raised e \<Rightarrow> sh_disk s' = sh_disk s \<and> sh_out s' = sh_out s \<and> (fst (the (answer (sh_net s))) = Inl e \<or> sink_base output = Inl e \<or>
        e = missing_dir \<and> \<not> si_dirs sk (ot_dir output))
    | Exited c \<Rightarrow> False"
proof -
  obtain r w where a: "answer (sh_net s) = Some (r, w)" using assms by (auto simp: scrape_to_file_def split: option.splits)
  show ?thesis
  proof (cases "\<exists>rs base. r = Inr rs \<and> sink_base output = Inr base")
    case False
    then show ?thesis using assms a by (cases r; cases "sink_base output") (auto simp: scrape_to_file_def)
  next
    case True
    then obtain rs base where rs: "r = Inr rs" "sink_base output = Inr base" by blast
    obtain y k where y: "write_successes sk (si_dirs sk (ot_dir output)) rs 0 (jsonl_open (sh_disk s base)) = (y, k)" by fastforce
    note eff = write_successes_stored [OF y]
    have keep: "(sh_disk s)(base := jl_disk (jsonl_open (sh_disk s base))) = sh_disk s" by (simp add: jsonl_open_def)
    show ?thesis using assms a rs y eff keep by (cases y) (auto simp: scrape_to_file_def with_files_def echo_def)
  qed
qed

section \<open>The publications\<close>

text \<open>The answers of a stretch of the selection, each the scraper's for its publication.\<close>

definition answered :: "'e command_env \<Rightarrow> int \<Rightarrow> substack_source list \<Rightarrow> scrape_result list list \<Rightarrow> bool" where
  "answered env limit xs answers = list_all2 (\<lambda>x rs. \<exists>e e'. scrape_publication (cm_lib env) (cm_feed_lib env) (cm_substack_json env)
     (cm_substack env) (sb_base x) limit ''new'' e = Some (Inr rs, e')) xs answers"

lemma scrape_selected_stored:
  assumes "scrape_selected env ok limit xs p n (k, s) = Some (x, (k', s'))"
  shows "\<exists>answers. answered env limit (take (length answers) xs) answers \<and> stored (cm_sink env) (found (concat answers)) k k' \<and>
    sh_db s' = sh_db s \<and> sh_disk s' = sh_disk s \<and> sh_err s' = sh_err s \<and>
    (case x of Inr r \<Rightarrow> length answers = length xs \<and> r = (p + length xs, n + successes (concat answers))
     | Inl e \<Rightarrow> length answers < length xs)"
  using assms
proof (induction xs arbitrary: p n k s)
  case Nil
  then show ?case by (intro exI [of _ "[]"]) (auto simp: answered_def stored_refl)
next
  case (Cons y ys)
  let ?none = "\<lambda>answers :: scrape_result list list. answers = [] \<and> stored (cm_sink env) (found (concat answers)) k k' \<and>
    sh_db s' = sh_db s \<and> sh_disk s' = sh_disk s \<and> sh_err s' = sh_err s \<and> (\<exists>e. x = Inl e)"
  have stop: ?case if "\<exists>answers. ?none answers" using that by (intro exI [of _ "[]"]) (auto simp: answered_def)
  obtain a w where a: "scrape_publication (cm_lib env) (cm_feed_lib env) (cm_substack_json env) (cm_substack env) (sb_base y) limit ''new'' (sh_net s) =
      Some (a, w)" using Cons.prems by (auto split: option.splits)
  show ?case
  proof (cases a)
    case (Inl e)
    then have "k' = k" "s' = s\<lparr>sh_net := w\<rparr>" "x = Inl e" using Cons.prems a by simp_all
    then show ?thesis by (intro stop) (simp add: stored_refl)
  next
    case rs: (Inr rs)
    obtain r k1 where r: "write_successes (cm_sink env) ok rs 0 k = (r, k1)" by fastforce
    note eff = write_successes_stored [OF r]
    show ?thesis
    proof (cases r)
      case (Inl e)
      then have "k' = k1" "s' = s\<lparr>sh_net := w\<rparr>" "x = Inl e" using Cons.prems a rs r by simp_all
      then show ?thesis using eff Inl by (intro stop) (simp add: stored_refl)
    next
      case (Inr m)
      define s1 where "s1 = echo (''  '' @ ljust 30 (sb_name y) @ '' '' @ nat_str m @ '' article(s)'') (s\<lparr>sh_net := w\<rparr>)"
      have "scrape_selected env ok limit ys (p + 1) (n + m) (k1, s1) = Some (x, (k', s'))"
        using Cons.prems a rs r Inr by (simp add: s1_def)
      from Cons.IH [OF this] obtain answers where ih: "answered env limit (take (length answers) ys) answers"
        "stored (cm_sink env) (found (concat answers)) k1 k'" "sh_db s' = sh_db s" "sh_disk s' = sh_disk s" "sh_err s' = sh_err s"
        "case x of Inr r \<Rightarrow> length answers = length ys \<and> r = (p + 1 + length ys, n + m + successes (concat answers))
          | Inl e \<Rightarrow> length answers < length ys"
        by (auto simp: s1_def echo_def)
      have "answered env limit (take (length (rs # answers)) (y # ys)) (rs # answers)"
        using ih(1) a rs by (auto simp: answered_def)
      moreover have "stored (cm_sink env) (found (concat (rs # answers))) k k'"
        using stored_trans [OF _ ih(2), of "found rs" k] eff Inr by simp
      moreover have "m = successes rs" using eff Inr by simp
      ultimately show ?thesis using ih(3-6) by (intro exI [of _ "rs # answers"]) (auto split: sum.splits)
    qed
  qed
qed

text \<open>
  C23.  What \<open>community scrape-substacks\<close> leaves, and what the digest makes of it.  On a nonempty selection the
  command returns or raises, and in both cases the data file and the manifest have grown by exactly one line
  and one id for every successful article of the publications that were scraped completely, a prefix of
  the selection, whose content did not come before in this run, in the order of the answers; the other
  files, the database and standard error are as they were.  It returns only when all
  publications were scraped, and its last line counts the successful results, the repeated ones too.
  A data file of the sink stays one: the digest reads from it the articles it had and then the new ones.
\<close>

theorem scrape_substacks_files:
  assumes "scrape_substacks env sector limit max_pubs output False s = Some (x, s')"
    and "select_sources sector max_pubs \<noteq> []" and "sink_base output = Inr base"
    and sk: "cm_sink env = \<lparr>si_sha = sha, si_iso = isof, si_fr = fr, si_dirs = dirs\<rparr>"
    and iso: "\<And>t. fromiso (isof t) = Inr t" "\<And>t. isof t \<noteq> []"
  shows "\<exists>answers. answered env limit (take (length answers) (select_sources sector max_pubs)) answers \<and>
    (let new = fresh sha {} (found (concat answers)); before = sh_disk s base; after = sh_disk s' base in
      lines_of (jd_data after) = lines_of (jd_data before) @ sink_lines sha isof fr new \<and>
      lines_of (jd_manifest after) = lines_of (jd_manifest before) @ map (url_id sha \<circ> ar_url) new \<and>
      (\<forall>as. lines_of (jd_data before) = sink_lines sha isof fr as \<and> (\<forall>a \<in> set (as @ new). storable a) \<longrightarrow>
         read_articles lib fromiso (file_text (jd_data after)) = Inr (map without_html (as @ new)))) \<and>
    (\<forall>b. b \<noteq> base \<longrightarrow> sh_disk s' b = sh_disk s b) \<and> sh_db s' = sh_db s \<and> sh_err s' = sh_err s \<and>
    (case x of Returned \<Rightarrow> length answers = length (select_sources sector max_pubs) \<and>
         last (sh_out s') = ''Scraped '' @ nat_str (successes (concat answers)) @ '' articles from '' @ nat_str (length answers) @
           '' publication(s) '' @ arrow @ '' '' @ path_str output @ ''.jsonl''
     | Raised e \<Rightarrow> length answers < length (select_sources sector max_pubs) | Exited c \<Rightarrow> False)"
proof -
  let ?sel = "select_sources sector max_pubs" and ?k = "jsonl_open (sh_disk s base)"
  obtain r k s1 where run: "scrape_selected env (si_dirs (cm_sink env) (ot_dir output)) limit ?sel 0 0 (?k, s) = Some (r, (k, s1))"
    using assms(1-3) by (auto simp: scrape_substacks_def Let_def split: option.splits)
  obtain answers where ans: "answered env limit (take (length answers) ?sel) answers" "stored (cm_sink env) (found (concat answers)) ?k k"
    "sh_db s1 = sh_db s" "sh_disk s1 = sh_disk s" "sh_err s1 = sh_err s"
    "case r of Inr c \<Rightarrow> length answers = length ?sel \<and> c = (length ?sel, successes (concat answers)) | Inl e \<Rightarrow> length answers < length ?sel"
    using scrape_selected_stored [OF run, unfolded add_0] by (elim exE conjE) (rule that)
  let ?new = "fresh sha {} (found (concat answers))"
  have s': "sh_disk s' = (sh_disk s)(base := jl_disk k)" "sh_db s' = sh_db s" "sh_err s' = sh_err s"
    and x: "case x of Returned \<Rightarrow> length answers = length ?sel \<and>
         last (sh_out s') = ''Scraped '' @ nat_str (successes (concat answers)) @ '' articles from '' @ nat_str (length answers) @
           '' publication(s) '' @ arrow @ '' '' @ path_str output @ ''.jsonl''
     | Raised e \<Rightarrow> length answers < length ?sel | Exited c \<Rightarrow> False"
    using assms(1-3) run ans(3-6) by (cases r; auto simp: scrape_substacks_def Let_def with_files_def echo_def)+
  have new: "lines_of (jd_data (jl_disk k)) = lines_of (jd_data (sh_disk s base)) @ sink_lines sha isof fr ?new"
    "lines_of (jd_manifest (jl_disk k)) = lines_of (jd_manifest (sh_disk s base)) @ map (url_id sha \<circ> ar_url) ?new"
    using ans(2) by (simp_all add: stored_def Let_def sk jsonl_open_def)
  have "read_articles lib fromiso (file_text (jd_data (jl_disk k))) = Inr (map without_html (as @ ?new))"
    if "lines_of (jd_data (sh_disk s base)) = sink_lines sha isof fr as" "\<forall>a \<in> set (as @ ?new). storable a" for as
    using read_sink_lines [OF that(2) iso, of lib sha fr] that(1) new(1) by (simp add: file_text_lines sink_lines_def)
  then show ?thesis using ans(1) s' x new by (intro exI [of _ answers]) (simp add: Let_def)
qed

definition empty_archive_env :: "unit command_env" where
  "empty_archive_env = \<lparr>cm_lib = demo_lib, cm_feed_lib = demo_feed_lib,
     cm_sink = \<lparr>si_sha = \<lambda>t. t, si_iso = unary_iso, si_fr = \<lambda>_. [], si_dirs = \<lambda>_. True\<rparr>,
     cm_reddit_json = \<lambda>u. py_ret (JObj []), cm_substack_json = \<lambda>u. py_ret (JList []), cm_substack = demo_substack, cm_ids = int\<rparr>"

definition empty_shell :: "unit shell" where
  "empty_shell = \<lparr>sh_net = (), sh_disk = \<lambda>_. \<lparr>jd_data = None, jd_manifest = None\<rparr>, sh_db = db_empty, sh_out = [], sh_err = []\<rparr>"

lemma empty_archive:
  assumes "normalize_base b = Inr base"
  shows "scrape_publication demo_lib demo_feed_lib (\<lambda>u. py_ret (JList [])) demo_substack b 10 ''new'' e = Some (Inr [], e)"
  using assms by (simp add: scrape_publication_def archive_loop.simps py_ret_def sum_bind_def)

lemma bear_cave: "select_sources (Some ''Forensic & Short'') (Some 1) = [substack_source ''The Bear Cave'' ''thebearcave.substack.com'' ''Forensic & Short'' False]"
  by code_simp

theorem scrape_substacks_files_witness:
  "\<exists>s' answers. scrape_substacks empty_archive_env (Some ''Forensic & Short'') 10 (Some 1) \<lparr>ot_dir = [], ot_name = ''output''\<rparr> False empty_shell =
      Some (Returned, s') \<and> length answers = (1 :: nat) \<and> answered empty_archive_env 10 (select_sources (Some ''Forensic & Short'') (Some 1)) answers"
proof -
  let ?sel = "select_sources (Some ''Forensic & Short'') (Some 1)" and ?out = "\<lparr>ot_dir = [], ot_name = ''output''\<rparr>"
  have base: "normalize_base ''thebearcave.substack.com'' = Inr ''https://thebearcave.substack.com''" by code_simp
  have out: "sink_base ?out = Inr ''output''" by code_simp
  have "\<exists>s'. scrape_substacks empty_archive_env (Some ''Forensic & Short'') 10 (Some 1) ?out False empty_shell = Some (Returned, s')"
    by (simp add: scrape_substacks_def bear_cave out empty_archive_env_def substack_source_def empty_archive [OF base] py_ret_def)
  then obtain s' where run: "scrape_substacks empty_archive_env (Some ''Forensic & Short'') 10 (Some 1) ?out False empty_shell = Some (Returned, s')" ..
  have sk: "cm_sink empty_archive_env = \<lparr>si_sha = \<lambda>t. t, si_iso = unary_iso, si_fr = \<lambda>_. [], si_dirs = \<lambda>_. True\<rparr>"
    by (simp add: empty_archive_env_def)
  have iso: "unary_parse (unary_iso t) = Inr t" "unary_iso t \<noteq> []" for t by (simp_all add: unary_parse_def unary_iso_def)
  have sel: "?sel \<noteq> []" by (simp add: bear_cave)
  from scrape_substacks_files [where fromiso = unary_parse and lib = demo_lib, OF run sel out sk iso]
  have "\<exists>answers. answered empty_archive_env 10 (take (length answers) ?sel) answers \<and> length answers = length ?sel"
    by (elim exE conjE) (rule exI, rule conjI, assumption, simp)
  then obtain answers where "answered empty_archive_env 10 (take (length answers) ?sel) answers" "length answers = length ?sel" by blast
  then show ?thesis using run by (intro exI [of _ s'] exI [of _ answers]) (simp add: bear_cave)
qed

text \<open>
  The path that is printed is not the path that is written when the name of the output has a suffix, and two
  such outputs may share their files.
\<close>

lemma dotted_output:
  "sink_base \<lparr>ot_dir = ''runs/'', ot_name = ''june.1''\<rparr> = Inr ''runs/june''"
  "sink_base \<lparr>ot_dir = ''runs/'', ot_name = ''june.2''\<rparr> = Inr ''runs/june''"
  "path_str \<lparr>ot_dir = ''runs/'', ot_name = ''june.1''\<rparr> @ ''.jsonl'' = ''runs/june.1.jsonl''"
  by code_simp+

section \<open>The public command\<close>

lemma beside_files_worlds:
  "fst (en_world (en_acquire (beside_files sk ok env) d s)) = fst (en_world s)"
  "en_world (snd (en_allow (beside_files sk ok env) d s)) = en_world s"
  "en_world (en_record (beside_files sk ok env) d b s) = en_world s"
  by (simp_all add: en_acquire_def en_allow_def en_record_def beside_files_def Let_def split: prod.splits)

abbreviation files_proxy :: "sink_env \<Rightarrow> bool \<Rightarrow> ('c, 'e) engine_env \<Rightarrow> (jsonl \<times> 'e) proxy_env" where
  "files_proxy sk ok env \<equiv> ee_proxy (beside_files sk ok env)"

lemma readmit_files: "fst (snd (snd (readmit (files_proxy sk ok env) x i rot w))) = fst w"
  by (auto simp: readmit_def burn_cooldown_expired_def beside_files_def split: prod.splits option.splits bool.splits if_splits)

lemma filter_files: "fst (snd (snd (filter_candidates (files_proxy sk ok env) c x is (rot, w)))) = fst w"
proof (induction "is" arbitrary: rot w)
  case (Cons i "is")
  obtain skip rot1 w1 where r: "readmit (files_proxy sk ok env) x i rot w = (skip, rot1, w1)" by (metis prod.collapse)
  have "fst w1 = fst w" using readmit_files [of sk ok env x i rot w] r by simp
  then show ?case using Cons.IH [of rot1 w1] by (auto simp: r split: prod.splits)
qed simp

lemma health_files: "fst (snd (snd (health_check (files_proxy sk ok env) i (rot, w)))) = fst w"
  by (auto simp: health_check_def beside_files_def on_snd_def split: prod.splits sum.splits)

lemma first_files: "fst (snd (snd (first_healthy (files_proxy sk ok env) is (rot, w)))) = fst w"
proof (induction "is" arbitrary: rot w)
  case (Cons i "is")
  obtain b rot1 w1 where h: "health_check (files_proxy sk ok env) i (rot, w) = (b, (rot1, w1))" by (metis prod.collapse)
  have w1: "fst w1 = fst w" using health_files [of sk ok env i rot w] h by simp
  show ?case
  proof (cases b)
    case True
    then show ?thesis using w1 by (simp add: h) (simp add: beside_files_def split: prod.splits)
  next
    case False
    then show ?thesis using Cons.IH [of rot1 w1] w1 by (simp add: h)
  qed
qed simp

lemma get_proxy_files: "fst (en_world (snd (en_get_proxy (beside_files sk ok env) s))) = fst (en_world s)"
proof -
  obtain cs rot1 w1 where f: "filter_candidates (files_proxy sk ok env) None True [0..<length (pr_proxies (en_rotator s))] (en_rotator s, en_world s) =
      (cs, (rot1, w1))" by (metis prod.collapse)
  have "fst w1 = fst (en_world s)" using filter_files [where sk = sk and ok = ok and env = env and w = "en_world s"] f by (metis snd_conv)
  moreover obtain i rot2 w2 where h: "first_healthy (files_proxy sk ok env) cs (rot1, w1) = (i, (rot2, w2))" by (metis prod.collapse)
  moreover have "fst w2 = fst w1" using first_files [of sk ok env cs rot1 w1] h by simp
  ultimately show ?thesis by (simp add: en_get_proxy_def get_healthy_proxy_def f)
qed

text \<open>Only the sink changes the files, and it is asked only for a success, after everything else.\<close>

lemma scrape_beside_files:
  assumes "engine_scrape (beside_files sk ok env) url st = (r, st')"
  shows "(fst (en_world st') = fst (en_world st) \<and> (\<forall>res. r = Inr res \<longrightarrow> sr_status res \<noteq> ''success'')) \<or>
    (\<exists>res y k. sr_status res = ''success'' \<and> jsonl_put sk ok res (fst (en_world st)) = (y, k) \<and> fst (en_world st') = k \<and>
       r = (case y of Inl e \<Rightarrow> Inl e | Inr u \<Rightarrow> Inr res))"
proof (cases "url_domain url")
  case (Inl e)
  then show ?thesis using assms by (auto simp: engine_scrape_def)
next
  case d: (Inr d)
  let ?env = "beside_files sk ok env"
  obtain b s1 where s1: "en_allow ?env d st = (b, s1)" by fastforce
  have w1: "en_world s1 = en_world st" using beside_files_worlds(2) [of sk ok env d st] s1 by simp
  show ?thesis
  proof (cases b)
    case False
    then show ?thesis using assms d s1 w1 by (auto simp: engine_scrape_def refused_def mk_result_def)
  next
    case True
    obtain proxy s3 where s3: "en_get_proxy ?env (en_acquire ?env d s1) = (proxy, s3)" by fastforce
    have w3: "fst (en_world s3) = fst (en_world st)"
      using get_proxy_files [of sk ok env "en_acquire ?env d s1"] s3 w1 by (simp add: beside_files_worlds)
    obtain answer s4 where s4: "on_world (ee_scrape ?env (route ?env d) proxy url) s3 = (answer, s4)" by fastforce
    have w4: "fst (en_world s4) = fst (en_world st)"
      using s4 w3 by (auto simp: on_world_def beside_files_def on_snd_def split: prod.splits)
    show ?thesis
    proof (cases "dispatch_result (ee_driver ?env (route ?env d)) answer")
      case (Inl e)
      then show ?thesis using assms d s1 True s3 s4 w4 by (auto simp: engine_scrape_def Let_def)
    next
      case (Inr res)
      define s5 where "s5 = en_record ?env d (sr_status res = ''success'') s4"
      have w5: "fst (en_world s5) = fst (en_world st)" using w4 by (simp add: s5_def beside_files_worlds)
      have sink: "ee_sink ?env = Some (\<lambda>r. on_fst (jsonl_put sk ok r))" by (simp add: beside_files_def)
      have run: "(r, st') = (if sr_status res = ''success'' then py_bind (on_world (on_fst (jsonl_put sk ok res))) (\<lambda>_. py_ret res) s5 else (Inr res, s5))"
        using assms d s1 True s3 s4 Inr sink by (cases "sr_status res = ''success''") (simp_all add: engine_scrape_def Let_def s5_def)
      show ?thesis
      proof (cases "sr_status res = ''success''")
        case False
        then show ?thesis using run w5 by auto
      next
        case succ: True
        obtain y k where y: "jsonl_put sk ok res (fst (en_world s5)) = (y, k)" by fastforce
        then have "fst (en_world st') = k" "r = (case y of Inl e \<Rightarrow> Inl e | Inr u \<Rightarrow> Inr res)"
          using run succ by (cases "en_world s5"; cases y; simp add: py_monad_defs on_world_def on_fst_def)+
        then show ?thesis using succ y w5 by (intro disjI2 exI [of _ res] exI [of _ y] exI [of _ k]) simp
      qed
    qed
  qed
qed

text \<open>
  \<open>public scrape\<close>: with a successful result the data file grows by the line of its article and the manifest by
  its id, otherwise the files stay; nothing else on the disk changes, and the proxy argument makes no
  difference.
\<close>

theorem scrape_public_files:
  assumes "scrape_public sk env rot source output proxy s = (x, s')" and "sink_base output = Inr base"
  shows "scrape_public sk env rot source output proxy' s = (x, s') \<and>
    (\<exists>res. (let new = found res; before = sh_disk s base; after = sh_disk s' base in
        lines_of (jd_data after) = lines_of (jd_data before) @ sink_lines (si_sha sk) (si_iso sk) (si_fr sk) new \<and>
        lines_of (jd_manifest after) = lines_of (jd_manifest before) @ map (url_id (si_sha sk) \<circ> ar_url) new) \<and>
      (case x of Raised e \<Rightarrow> res = [] | Exited c \<Rightarrow> False | Returned \<Rightarrow> \<exists>r. res = [r] \<and>
         sh_out s' = sh_out s @ [''status='' @ sr_status r @ '' driver='' @ sr_driver_used r @ '' title='' @
           py_repr (case sr_article r of Some a \<Rightarrow> ar_title a | None \<Rightarrow> ''<no title>'')])) \<and>
    (\<forall>b. b \<noteq> base \<longrightarrow> sh_disk s' b = sh_disk s b) \<and> sh_db s' = sh_db s"
proof -
  let ?k = "jsonl_open (sh_disk s base)" and ?ok = "si_dirs sk (ot_dir output)"
  obtain r st where run: "engine_scrape (beside_files sk ?ok env) source
      (engine_init (cb_init 5 30 10) (rl_init 1 (\<lambda>_. None) 0) rot (?k, sh_net s)) = (r, st)" by fastforce
  have x: "x = (case r of Inl e \<Rightarrow> Raised e | Inr res \<Rightarrow> Returned)" "sh_disk s' = (sh_disk s)(base := jl_disk (fst (en_world st)))"
    "sh_db s' = sh_db s" "\<And>res. r = Inr res \<Longrightarrow> sh_out s' = sh_out s @ [''status='' @ sr_status res @ '' driver='' @ sr_driver_used res @
      '' title='' @ py_repr (case sr_article res of Some a \<Rightarrow> ar_title a | None \<Rightarrow> ''<no title>'')]"
    using assms run by (cases r; auto simp: scrape_public_def Let_def with_files_def echo_def)+
  have "stored sk (case r of Inl e \<Rightarrow> [] | Inr res \<Rightarrow> found [res]) ?k (fst (en_world st))"
    using scrape_beside_files [OF run]
  proof (elim disjE exE conjE)
    assume same: "fst (en_world st) = fst (en_world (engine_init (cb_init 5 30 10) (rl_init 1 (\<lambda>_. None) 0) rot (?k, sh_net s)))"
      and bad: "\<forall>res. r = Inr res \<longrightarrow> sr_status res \<noteq> ''success''"
    have "(case r of Inl e \<Rightarrow> [] | Inr res \<Rightarrow> found [res]) = []" using bad by (auto split: sum.splits option.splits)
    then show ?thesis using same by (simp add: engine_init_def stored_refl)
  next
    fix res y k assume put: "jsonl_put sk ?ok res (fst (en_world (engine_init (cb_init 5 30 10) (rl_init 1 (\<lambda>_. None) 0) rot (?k, sh_net s)))) = (y, k)"
      and k: "fst (en_world st) = k" and r: "r = (case y of Inl e \<Rightarrow> Inl e | Inr u \<Rightarrow> Inr res)"
    show ?thesis using put_stored [OF put] k r by (cases y) (auto simp: engine_init_def)
  qed
  moreover have "fresh sha {} (found [res]) = found [res]" for sha res by (cases "sr_article res") simp_all
  ultimately have new: "lines_of (jd_data (jl_disk (fst (en_world st)))) = lines_of (jd_data (sh_disk s base)) @
      sink_lines (si_sha sk) (si_iso sk) (si_fr sk) (found (case r of Inl e \<Rightarrow> [] | Inr res \<Rightarrow> [res]))"
    "lines_of (jd_manifest (jl_disk (fst (en_world st)))) = lines_of (jd_manifest (sh_disk s base)) @
      map (url_id (si_sha sk) \<circ> ar_url) (found (case r of Inl e \<Rightarrow> [] | Inr res \<Rightarrow> [res]))"
    by (cases r; simp add: stored_def jsonl_open_def Let_def sink_lines_def del: found_simps(2); simp)+
  have "scrape_public sk env rot source output proxy' s = (x, s')" using assms(1) by (simp add: scrape_public_def)
  moreover have "case x of Raised e \<Rightarrow> (case r of Inl e \<Rightarrow> [] | Inr res \<Rightarrow> [res]) = [] | Exited c \<Rightarrow> False
    | Returned \<Rightarrow> \<exists>q. (case r of Inl e \<Rightarrow> [] | Inr res \<Rightarrow> [res]) = [q] \<and> sh_out s' = sh_out s @ [''status='' @ sr_status q @ '' driver='' @
        sr_driver_used q @ '' title='' @ py_repr (case sr_article q of Some a \<Rightarrow> ar_title a | None \<Rightarrow> ''<no title>'')]"
    using x(1,4) by (cases r) simp_all
  ultimately show ?thesis
    using new x(2,3) by (intro conjI exI [of _ "case r of Inl e \<Rightarrow> [] | Inr res \<Rightarrow> [res]"]) (simp_all add: Let_def del: found_simps(2))
qed

end
