(* ===== verification/Spec2Isabelle.thy ===== *)
theory Spec2Isabelle
  imports Redis_Queue Fingerprint Engine Engine_Batch Scraper_Worker Ingest_Worker Scheduler Api Delivery Batch_Scrape Ingest_Jobs Sources User_Sync Humanize Pipeline_Commands Digest_Commands Deployment Scraper_Commands Wiring
begin

text \<open>
  ScrapeForge (\<open>src/scrapeforge\<close>): scraping of public and community sites, a pipeline of queues and workers
  that stores what was scraped, and digests of it by mail.  Paths below are relative to \<open>src/scrapeforge\<close>.

  \<^bold>\<open>The program and its theories.\<close>

  \<^item> Vocabulary.  \<open>Prelude\<close>: Python strings, the exceptions of \<open>exceptions.py\<close> and of the packages that extend it
    (the datatype \<open>exn\<close>), code that may raise (\<open>exn + 'a\<close>) and that changes state (\<open>('s, 'a) py\<close>).  \<open>Json\<close>, \<open>Json_Fields\<close>,
    \<open>Pyfloat\<close>, \<open>Url\<close>: JSON values with \<open>dumps\<close> and \<open>loads\<close>, dictionary access, numbers, \<open>urlsplit(url).hostname\<close>.
    \<open>Models\<close>: the dataclasses of \<open>core/models.py\<close>.
  \<^item> Scraping one page.  \<open>Engine\<close> (\<open>core/engine.py\<close>) asks the breaker (\<open>Circuit_Breaker\<close>), takes a slot of the limiter
    (\<open>Rate_Limiter\<close>), finds the scraper of the domain (\<open>Registry\<close>), takes a proxy (\<open>Proxy_Rotator\<close>), runs the
    scraper, records the outcome and stores a success.  \<open>Engine_Batch\<close> is its \<open>batch_scrape\<close>, many such calls at
    once; \<open>Batch_Scrape\<close> the one of \<open>scrapers/base.py\<close> under a semaphore.
  \<^item> Scrapers.  \<open>Fingerprint\<close>, \<open>Driver\<close> (HTTP driver and bridge), \<open>Parsers\<close> (extraction, block pages), \<open>Scraper_Base\<close>
    (what scrapers share, and the public one), \<open>Reddit\<close>, \<open>Feeds\<close>, \<open>Substack\<close>, \<open>Sources\<close> (the curated lists),
    \<open>Humanize\<close> (timings and mouse paths).
  \<^item> Queues and stores.  \<open>Queue\<close> (port and in-memory queue), \<open>Redis_Queue\<close>, \<open>Object_Store\<close> (port, in-memory and S3
    store), \<open>Database\<close> (tables, repositories, retention), \<open>Sinks\<close> (JSONL file and database).
  \<^item> The scrape plane.  \<open>Worker_Messages\<close>, \<open>Scheduler\<close>, \<open>Api\<close>, \<open>Scraper_Worker\<close>, \<open>Transform_Worker\<close>, \<open>Ingest_Worker\<close>: who
    submits jobs and what each worker does with a message.  \<open>Deployment\<close>: all of these processes on one queue, one
    store and one database, in any interleaving, with workers that die.
  \<^item> The pipeline.  \<open>Http\<close>, \<open>Llm\<close>, \<open>Embeddings\<close> (adapters of the model providers), \<open>Summarize_Worker\<close>, \<open>Embedding_Jobs\<close>,
    \<open>User_Sync\<close>, \<open>Ingest_Jobs\<close>, and \<open>Pipeline_Commands\<close>: the commands of \<open>pipeline/cli.py\<close> and the daily run of the
    workflow that calls them.
  \<^item> Digests.  \<open>Digest\<close> (matching and ranking), \<open>Render\<close>, \<open>Delivery\<close>, \<open>Digest_Commands\<close> (senders and \<open>digest/cli.py\<close>).
  \<^item> Commands and wiring.  \<open>Scraper_Commands\<close> (\<open>community\<close> and \<open>public\<close>), \<open>Settings\<close>, \<open>Wiring\<close> (defaults, adapters from
    settings, the application of the API, the summarizer process, the fingerprint check).

  \<^bold>\<open>How the model corresponds to the code.\<close>  A class with state is a record and its methods are functions that return the
  record updated; an injected collaborator, and every library and service, is a record of operations on a
  state of its own (\<open>engine_env\<close>, \<open>pylib\<close>, \<open>redis_client\<close>, \<open>plane_env\<close>, ...), so that its answers, exceptions
  included, are arbitrary.  A raise is a value \<open>Inl e\<close> and an \<open>except\<close> clause a case on it.  Python's integers are \<open>int\<close>,
  its floats \<open>real\<close> (\<open>Pyfloat\<close> says where rounding is left to the library), characters those of Windows-1252 (\<open>Prelude\<close>), dictionaries
  association lists where their order shows and maps where it does not.  SQL statements have their meaning on lists
  of rows.  A call to the clock, to \<open>uuid4\<close> or to \<open>random\<close> reads the next value of a stream in the state.

  \<^bold>\<open>Concurrency.\<close>  Code that suspends is a step relation whose steps are what runs between two suspensions: \<open>Rate_Limiter\<close>
  (\<open>rl_step\<close>), \<open>Batch_Scrape\<close> (\<open>batch_step\<close>), \<open>Engine_Batch\<close> (\<open>eb_work\<close>, with changes of the world between steps).
  Processes are interleaved by rounds in \<open>Deployment\<close> (\<open>plane_step\<close>), each round a drain of a queue that may be cut short by
  a death after any effect.

  \<^bold>\<open>Interfaces.\<close>  The ports of the code are locales: \<open>message_queue\<close>, \<open>object_store\<close>, \<open>article_sink\<close>, \<open>summarizer\<close>, \<open>embedder\<close>,
  \<open>email_sender\<close>; the clients are proved once over them (\<open>scraper_stage\<close>, \<open>transform_stage\<close>, \<open>ingest_stage\<close>, \<open>scrape_plane\<close>,
  \<open>safe_steps\<close>).  The implementations of the code interpret them: the in-memory queue, the Redis queue over any server
  with the documented behaviour of lists (\<open>redis_server\<close>), the in-memory store, the S3 store over a service that reads
  what was written (\<open>s3_service\<close>), both sinks, the adapters, the SMTP sender.

  \<^bold>\<open>What the lemmas show.\<close>

  \<^item> The breaker decides by the documented policy from the history of calls, the limiter grants spaced slots in order,
    and both stay true of the engine, one call at a time and in a batch under every interleaving.
  \<^item> A queue keeps, settles or dead-letters every message; both queues behave alike; the workers' handlers settle
    their job on every branch; pointers name stored objects; in the deployed plane no job is lost.
  \<^item> The scrapers return what their sites list, within the limits asked, and close what they open.
  \<^item> A sink never reports as seen what it has not stored, crashes included; files are read back as they were written.
  \<^item> The daily run ends and leaves a consistent database; a prune keeps the newest within its bounds; scores are the
    top of the ranking; stored summaries and vectors are well formed whatever a provider answers.
  \<^item> Digests contain what was matched, no text adds markup to a mail, and a failure of one recipient
    changes nothing for the others.
  \<^item> An API key gets its quota per minute and no more; without a key, nothing.

  \<^bold>\<open>Termination, bounds and fuel.\<close>  Loops over data are structural.  The pagination of \<open>Reddit\<close> and \<open>Substack\<close> may not end,
  and is \<open>partial_function (option)\<close>: that it returns is proved for listings that end, and that it does not for one that
  never does.  The drain loops (\<open>drain\<close> in \<open>Queue\<close>, used by the workers and by the summarizer) take fuel; one round per attempt
  that a message has left and one more is enough for a queue (\<open>memq_drain_terminates\<close>), and one per article without a
  summary and one more for the summarizer (\<open>worker_returns\<close>).  Batches end within a number of steps per URL.

  \<^bold>\<open>Not modelled.\<close>  Third-party code is an argument: curl_cffi, lxml and selectolax, aioboto3, redis, SQLAlchemy, pydantic,
  FastAPI and typer, mitmproxy, and the servers behind them; so are the file system's failures and the mail server.  Left out are the DDL of \<open>core/db/migrations.py\<close> and \<open>init_db\<close>, engine and pool
  disposal, logging, the event-loop policy on Windows, CORS and the request-id header, the abstract class
  \<open>core/drivers/base.py\<close>, the fixture data of \<open>digest/samples.py\<close>, and the mounting of sub-commands in \<open>cli.py\<close>.  Database
  failures are not modelled: a statement has its effect, and a process may die between two of them.  Floats are
  not rounded, and characters beyond the repertoire do not occur.
\<close>

end
